(* ===== verification/Prelude.thy ===== *)
theory Prelude
  imports Main "HOL-Library.Sublist" "HOL-Library.List_Lexorder" "HOL-Library.Char_ord"
begin

text \<open>
  Shared vocabulary and automation of the development.

  A Go \<^verbatim>\<open>string\<close> and a Go \<^verbatim>\<open>[]byte\<close> are both sequences of bytes; both are modelled as
  \<^typ>\<open>string\<close>, a list of 8-bit characters, so that the same buffer can be looked at as
  text and as binary data, as the sources do. \<open>of_char\<close> reads a byte as a number.
  A Go function that returns \<open>(T, error)\<close> returns a value of a sum type, \<open>Inl\<close> the error.

  The collections declared here gather the facts the component theories share:
  \<open>go_simps\<close> the characteristic equations of the modelled library functions, and
  \<open>inv_intros\<close> the preservation lemmas of the state invariants.
\<close>

named_theorems go_simps "characteristic facts about the modelled Go library functions"
named_theorems inv_intros "operations that preserve a component's invariant"

type_synonym byte = char
type_synonym bytes = "byte list"

subsection \<open>Results\<close>

definition is_ok :: "'e + 'a \<Rightarrow> bool" where
  "is_ok r = (case r of Inl _ \<Rightarrow> False | Inr _ \<Rightarrow> True)"

lemma is_ok_simps [simp]: "is_ok (Inl e) = False" "is_ok (Inr x) = True"
  by (simp_all add: is_ok_def)

lemma is_ok_iff: "is_ok r \<longleftrightarrow> (\<exists>x. r = Inr x)"
  by (cases r) auto

definition bind_result :: "'e + 'a \<Rightarrow> ('a \<Rightarrow> 'e + 'b) \<Rightarrow> 'e + 'b" where
  "bind_result r f = (case r of Inl e \<Rightarrow> Inl e | Inr x \<Rightarrow> f x)"

lemma bind_result_simps [simp]:
  "bind_result (Inl e) f = Inl e" "bind_result (Inr x) f = f x"
  by (simp_all add: bind_result_def)

lemma bind_result_Inr_iff:
  "bind_result r f = Inr y \<longleftrightarrow> (\<exists>x. r = Inr x \<and> f x = Inr y)"
  by (cases r) auto

text \<open>Running a check over a list and stopping at the first failure, as the sources' loops do.\<close>

fun check_all :: "('a \<Rightarrow> 'e + unit) \<Rightarrow> 'a list \<Rightarrow> 'e + unit" where
  "check_all f [] = Inr ()"
| "check_all f (x # xs) = (case f x of Inl e \<Rightarrow> Inl e | Inr _ \<Rightarrow> check_all f xs)"

lemma check_all_Inr_iff: "check_all f xs = Inr () \<longleftrightarrow> (\<forall>x\<in>set xs. f x = Inr ())"
  by (induction xs) (auto split: sum.splits)

lemma check_all_cong_Inr: "check_all f xs = Inr u \<longleftrightarrow> (\<forall>x\<in>set xs. f x = Inr ())"
  using check_all_Inr_iff by (cases u) auto

subsection \<open>Bytes as numbers\<close>

abbreviation ord :: "byte \<Rightarrow> nat" where
  "ord c \<equiv> of_char c"

lemma ord_less_256 [simp]: "ord c < 256"
  by (metis mod_less_divisor of_char_mod_256 zero_less_numeral)

lemma ord_le_255: "ord c \<le> 255"
  using ord_less_256 [of c] by linarith

lemma ord_char_of [simp]: "n < 256 \<Longrightarrow> ord (char_of n) = n"
  by simp

lemma ord_eq_iff: "ord a = ord b \<longleftrightarrow> a = b"
  by simp

text \<open>Big-endian 16-bit and 32-bit lengths, as \<^verbatim>\<open>binary.BigEndian\<close> writes and reads them.\<close>

definition be16 :: "nat \<Rightarrow> bytes" where
  "be16 n = [char_of (n div 256), char_of (n mod 256)]"

definition be32 :: "nat \<Rightarrow> bytes" where
  "be32 n = [char_of (n div 16777216), char_of (n div 65536 mod 256),
             char_of (n div 256 mod 256), char_of (n mod 256)]"

fun unbe :: "bytes \<Rightarrow> nat" where
  "unbe bs = foldl (\<lambda>a b. a * 256 + ord b) 0 bs"

lemma length_be [simp]: "length (be16 n) = 2" "length (be32 n) = 4"
  by (simp_all add: be16_def be32_def)

lemma unbe_be16 [simp]: "n < 65536 \<Longrightarrow> unbe (be16 n) = n"
  by (simp add: be16_def)

lemma unbe_be32 [simp]:
  assumes "n < 4294967296"
  shows "unbe (be32 n) = n"
proof -
  have d: "n div 65536 = n div 256 div 256" "n div 16777216 = n div 256 div 256 div 256"
    by (simp_all add: div_mult2_eq [symmetric])
  have "n div 256 div 256 div 256 < 256"
    using assms by (simp add: div_mult2_eq [symmetric] less_mult_imp_div_less)
  then show ?thesis
    by (simp add: be32_def d)
qed

lemma unbe_two: "unbe [a, b] = ord a * 256 + ord b"
  by simp

lemma unbe_two_less: "unbe [a, b] < 65536"
  using ord_le_255 [of a] ord_le_255 [of b] by simp

lemma be16_inverse: "length bs = 2 \<Longrightarrow> be16 (unbe bs) = bs"
  by (cases bs; cases "tl bs") (auto simp: be16_def)

lemma be32_inverse:
  assumes "length bs = 4"
  shows "be32 (unbe bs) = bs"
proof -
  obtain a b c d where bs: "bs = [a, b, c, d]"
    using assms by (auto simp: length_Suc_conv numeral_eq_Suc)
  have step: "(x * 256 + ord y) div 256 = x" "(x * 256 + ord y) mod 256 = ord y" for x y
    using ord_less_256 [of y] by simp_all
  have d: "n div 65536 = n div 256 div 256" "n div 16777216 = n div 256 div 256 div 256" for n :: nat
    by (simp_all add: div_mult2_eq [symmetric])
  have "be32 (unbe bs) = [char_of (ord a), char_of (ord b), char_of (ord c), char_of (ord d)]"
    unfolding be32_def bs by (simp only: unbe.simps foldl.simps d step mult_0 add_0)
  then show ?thesis by (simp add: bs)
qed

declare unbe.simps [simp del]

subsection \<open>Lists and maps\<close>

lemma drop_length_append [simp]: "drop (length xs) (xs @ ys) = ys"
  by simp

lemma append_eq_take_drop: "length xs \<le> length zs \<Longrightarrow> take (length xs) zs = xs \<Longrightarrow> \<exists>ys. zs = xs @ ys"
  by (metis append_take_drop_id)

lemma find_SomeD: "find P xs = Some x \<Longrightarrow> x \<in> set xs \<and> P x"
  by (auto simp: find_Some_iff)

lemma finite_dom_upd: "finite (dom m) \<Longrightarrow> finite (dom (m(k \<mapsto> v)))"
  by simp

lemma card_dom_upd_new:
  "finite (dom m) \<Longrightarrow> m k = None \<Longrightarrow> card (dom (m(k \<mapsto> v))) = Suc (card (dom m))"
  by (simp add: domIff)

lemma card_dom_delete_le: "finite (dom m) \<Longrightarrow> card (dom (m(k := None))) \<le> card (dom m)"
  by (simp add: card_Diff1_le)

end
