(* ===== verification/Go_Unicode.thy ===== *)
theory Go_Unicode
  imports Prelude
begin

text \<open>
  The part of Go's \<^verbatim>\<open>unicode\<close> and \<^verbatim>\<open>unicode/utf8\<close> packages the sources rely on, with the
  tables of the Unicode version Go ships: decoding and encoding of UTF-8 (an invalid byte
  decodes to U+FFFD of width one), \<^verbatim>\<open>unicode.ToLower\<close>, simple case folding
  (two runes fold together when \<^verbatim>\<open>unicode.SimpleFold\<close> relates them), and the character
  classes control, Cf, Zl, Zp and white space.

  A table entry \<open>(lo, hi, step, delta)\<close> covers \<open>lo, lo + step, \<dots>, hi\<close> and shifts a member by
  \<open>delta\<close>. ASCII is handled apart, as Go's own fast paths do, so the tables start above it.
\<close>

subsection \<open>Case tables\<close>

type_synonym rune = nat
type_synonym case_range = "nat \<times> nat \<times> nat \<times> int"

definition lower_ranges :: "case_range list" where
  "lower_ranges = [
    (0xC0, 0xD6, 1, 32), (0xD8, 0xDE, 1, 32), (0x100, 0x12E, 2, 1),
    (0x130, 0x130, 1, - 199), (0x132, 0x136, 2, 1), (0x139, 0x147, 2, 1),
    (0x14A, 0x176, 2, 1), (0x178, 0x178, 1, - 121), (0x179, 0x17D, 2, 1),
    (0x181, 0x181, 1, 210), (0x182, 0x184, 2, 1), (0x186, 0x186, 1, 206),
    (0x187, 0x187, 1, 1), (0x189, 0x18A, 1, 205), (0x18B, 0x18B, 1, 1),
    (0x18E, 0x18E, 1, 79), (0x18F, 0x18F, 1, 202), (0x190, 0x190, 1, 203),
    (0x191, 0x191, 1, 1), (0x193, 0x193, 1, 205), (0x194, 0x194, 1, 207),
    (0x196, 0x196, 1, 211), (0x197, 0x197, 1, 209), (0x198, 0x198, 1, 1),
    (0x19C, 0x19C, 1, 211), (0x19D, 0x19D, 1, 213), (0x19F, 0x19F, 1, 214),
    (0x1A0, 0x1A4, 2, 1), (0x1A6, 0x1A6, 1, 218), (0x1A7, 0x1A7, 1, 1),
    (0x1A9, 0x1A9, 1, 218), (0x1AC, 0x1AC, 1, 1), (0x1AE, 0x1AE, 1, 218),
    (0x1AF, 0x1AF, 1, 1), (0x1B1, 0x1B2, 1, 217), (0x1B3, 0x1B5, 2, 1),
    (0x1B7, 0x1B7, 1, 219), (0x1B8, 0x1B8, 1, 1), (0x1BC, 0x1BC, 1, 1),
    (0x1C4, 0x1C4, 1, 2), (0x1C5, 0x1C5, 1, 1), (0x1C7, 0x1C7, 1, 2), (0x1C8, 0x1C8, 1, 1),
    (0x1CA, 0x1CA, 1, 2), (0x1CB, 0x1DB, 2, 1), (0x1DE, 0x1EE, 2, 1), (0x1F1, 0x1F1, 1, 2),
    (0x1F2, 0x1F4, 2, 1), (0x1F6, 0x1F6, 1, - 97), (0x1F7, 0x1F7, 1, - 56),
    (0x1F8, 0x21E, 2, 1), (0x220, 0x220, 1, - 130), (0x222, 0x232, 2, 1),
    (0x23A, 0x23A, 1, 10795), (0x23B, 0x23B, 1, 1), (0x23D, 0x23D, 1, - 163),
    (0x23E, 0x23E, 1, 10792), (0x241, 0x241, 1, 1), (0x243, 0x243, 1, - 195),
    (0x244, 0x244, 1, 69), (0x245, 0x245, 1, 71), (0x246, 0x24E, 2, 1),
    (0x370, 0x372, 2, 1), (0x376, 0x376, 1, 1), (0x37F, 0x37F, 1, 116),
    (0x386, 0x386, 1, 38), (0x388, 0x38A, 1, 37), (0x38C, 0x38C, 1, 64),
    (0x38E, 0x38F, 1, 63), (0x391, 0x3A1, 1, 32), (0x3A3, 0x3AB, 1, 32),
    (0x3CF, 0x3CF, 1, 8), (0x3D8, 0x3EE, 2, 1), (0x3F4, 0x3F4, 1, - 60),
    (0x3F7, 0x3F7, 1, 1), (0x3F9, 0x3F9, 1, - 7), (0x3FA, 0x3FA, 1, 1),
    (0x3FD, 0x3FF, 1, - 130), (0x400, 0x40F, 1, 80), (0x410, 0x42F, 1, 32),
    (0x460, 0x480, 2, 1), (0x48A, 0x4BE, 2, 1), (0x4C0, 0x4C0, 1, 15),
    (0x4C1, 0x4CD, 2, 1), (0x4D0, 0x52E, 2, 1), (0x531, 0x556, 1, 48),
    (0x10A0, 0x10C5, 1, 7264), (0x10C7, 0x10C7, 1, 7264), (0x10CD, 0x10CD, 1, 7264),
    (0x13A0, 0x13EF, 1, 38864), (0x13F0, 0x13F5, 1, 8), (0x1C90, 0x1CBA, 1, - 3008),
    (0x1CBD, 0x1CBF, 1, - 3008), (0x1E00, 0x1E94, 2, 1), (0x1E9E, 0x1E9E, 1, - 7615),
    (0x1EA0, 0x1EFE, 2, 1), (0x1F08, 0x1F0F, 1, - 8), (0x1F18, 0x1F1D, 1, - 8),
    (0x1F28, 0x1F2F, 1, - 8), (0x1F38, 0x1F3F, 1, - 8), (0x1F48, 0x1F4D, 1, - 8),
    (0x1F59, 0x1F5F, 2, - 8), (0x1F68, 0x1F6F, 1, - 8), (0x1F88, 0x1F8F, 1, - 8),
    (0x1F98, 0x1F9F, 1, - 8), (0x1FA8, 0x1FAF, 1, - 8), (0x1FB8, 0x1FB9, 1, - 8),
    (0x1FBA, 0x1FBB, 1, - 74), (0x1FBC, 0x1FBC, 1, - 9), (0x1FC8, 0x1FCB, 1, - 86),
    (0x1FCC, 0x1FCC, 1, - 9), (0x1FD8, 0x1FD9, 1, - 8), (0x1FDA, 0x1FDB, 1, - 100),
    (0x1FE8, 0x1FE9, 1, - 8), (0x1FEA, 0x1FEB, 1, - 112), (0x1FEC, 0x1FEC, 1, - 7),
    (0x1FF8, 0x1FF9, 1, - 128), (0x1FFA, 0x1FFB, 1, - 126), (0x1FFC, 0x1FFC, 1, - 9),
    (0x2126, 0x2126, 1, - 7517), (0x212A, 0x212A, 1, - 8383), (0x212B, 0x212B, 1, - 8262),
    (0x2132, 0x2132, 1, 28), (0x2160, 0x216F, 1, 16), (0x2183, 0x2183, 1, 1),
    (0x24B6, 0x24CF, 1, 26), (0x2C00, 0x2C2F, 1, 48), (0x2C60, 0x2C60, 1, 1),
    (0x2C62, 0x2C62, 1, - 10743), (0x2C63, 0x2C63, 1, - 3814),
    (0x2C64, 0x2C64, 1, - 10727), (0x2C67, 0x2C6B, 2, 1), (0x2C6D, 0x2C6D, 1, - 10780),
    (0x2C6E, 0x2C6E, 1, - 10749), (0x2C6F, 0x2C6F, 1, - 10783),
    (0x2C70, 0x2C70, 1, - 10782), (0x2C72, 0x2C72, 1, 1), (0x2C75, 0x2C75, 1, 1),
    (0x2C7E, 0x2C7F, 1, - 10815), (0x2C80, 0x2CE2, 2, 1), (0x2CEB, 0x2CED, 2, 1),
    (0x2CF2, 0x2CF2, 1, 1), (0xA640, 0xA66C, 2, 1), (0xA680, 0xA69A, 2, 1),
    (0xA722, 0xA72E, 2, 1), (0xA732, 0xA76E, 2, 1), (0xA779, 0xA77B, 2, 1),
    (0xA77D, 0xA77D, 1, - 35332), (0xA77E, 0xA786, 2, 1), (0xA78B, 0xA78B, 1, 1),
    (0xA78D, 0xA78D, 1, - 42280), (0xA790, 0xA792, 2, 1), (0xA796, 0xA7A8, 2, 1),
    (0xA7AA, 0xA7AA, 1, - 42308), (0xA7AB, 0xA7AB, 1, - 42319),
    (0xA7AC, 0xA7AC, 1, - 42315), (0xA7AD, 0xA7AD, 1, - 42305),
    (0xA7AE, 0xA7AE, 1, - 42308), (0xA7B0, 0xA7B0, 1, - 42258),
    (0xA7B1, 0xA7B1, 1, - 42282), (0xA7B2, 0xA7B2, 1, - 42261), (0xA7B3, 0xA7B3, 1, 928),
    (0xA7B4, 0xA7C2, 2, 1), (0xA7C4, 0xA7C4, 1, - 48), (0xA7C5, 0xA7C5, 1, - 42307),
    (0xA7C6, 0xA7C6, 1, - 35384), (0xA7C7, 0xA7C9, 2, 1), (0xA7D0, 0xA7D0, 1, 1),
    (0xA7D6, 0xA7D8, 2, 1), (0xA7F5, 0xA7F5, 1, 1), (0xFF21, 0xFF3A, 1, 32),
    (0x10400, 0x10427, 1, 40), (0x104B0, 0x104D3, 1, 40), (0x10570, 0x1057A, 1, 39),
    (0x1057C, 0x1058A, 1, 39), (0x1058C, 0x10592, 1, 39), (0x10594, 0x10595, 1, 39),
    (0x10C80, 0x10CB2, 1, 64), (0x118A0, 0x118BF, 1, 32), (0x16E40, 0x16E5F, 1, 32),
    (0x1E900, 0x1E921, 1, 34)]"

definition fold_ranges :: "case_range list" where
  "fold_ranges = [
    (0xB5, 0xB5, 1, 775), (0xC0, 0xD6, 1, 32), (0xD8, 0xDE, 1, 32), (0x100, 0x12E, 2, 1),
    (0x132, 0x136, 2, 1), (0x139, 0x147, 2, 1), (0x14A, 0x176, 2, 1),
    (0x178, 0x178, 1, - 121), (0x179, 0x17D, 2, 1), (0x17F, 0x17F, 1, - 268),
    (0x181, 0x181, 1, 210), (0x182, 0x184, 2, 1), (0x186, 0x186, 1, 206),
    (0x187, 0x187, 1, 1), (0x189, 0x18A, 1, 205), (0x18B, 0x18B, 1, 1),
    (0x18E, 0x18E, 1, 79), (0x18F, 0x18F, 1, 202), (0x190, 0x190, 1, 203),
    (0x191, 0x191, 1, 1), (0x193, 0x193, 1, 205), (0x194, 0x194, 1, 207),
    (0x196, 0x196, 1, 211), (0x197, 0x197, 1, 209), (0x198, 0x198, 1, 1),
    (0x19C, 0x19C, 1, 211), (0x19D, 0x19D, 1, 213), (0x19F, 0x19F, 1, 214),
    (0x1A0, 0x1A4, 2, 1), (0x1A6, 0x1A6, 1, 218), (0x1A7, 0x1A7, 1, 1),
    (0x1A9, 0x1A9, 1, 218), (0x1AC, 0x1AC, 1, 1), (0x1AE, 0x1AE, 1, 218),
    (0x1AF, 0x1AF, 1, 1), (0x1B1, 0x1B2, 1, 217), (0x1B3, 0x1B5, 2, 1),
    (0x1B7, 0x1B7, 1, 219), (0x1B8, 0x1B8, 1, 1), (0x1BC, 0x1BC, 1, 1),
    (0x1C4, 0x1C4, 1, 2), (0x1C5, 0x1C5, 1, 1), (0x1C7, 0x1C7, 1, 2), (0x1C8, 0x1C8, 1, 1),
    (0x1CA, 0x1CA, 1, 2), (0x1CB, 0x1DB, 2, 1), (0x1DE, 0x1EE, 2, 1), (0x1F1, 0x1F1, 1, 2),
    (0x1F2, 0x1F4, 2, 1), (0x1F6, 0x1F6, 1, - 97), (0x1F7, 0x1F7, 1, - 56),
    (0x1F8, 0x21E, 2, 1), (0x220, 0x220, 1, - 130), (0x222, 0x232, 2, 1),
    (0x23A, 0x23A, 1, 10795), (0x23B, 0x23B, 1, 1), (0x23D, 0x23D, 1, - 163),
    (0x23E, 0x23E, 1, 10792), (0x241, 0x241, 1, 1), (0x243, 0x243, 1, - 195),
    (0x244, 0x244, 1, 69), (0x245, 0x245, 1, 71), (0x246, 0x24E, 2, 1),
    (0x345, 0x345, 1, 116), (0x370, 0x372, 2, 1), (0x376, 0x376, 1, 1),
    (0x37F, 0x37F, 1, 116), (0x386, 0x386, 1, 38), (0x388, 0x38A, 1, 37),
    (0x38C, 0x38C, 1, 64), (0x38E, 0x38F, 1, 63), (0x391, 0x3A1, 1, 32),
    (0x3A3, 0x3AB, 1, 32), (0x3C2, 0x3C2, 1, 1), (0x3CF, 0x3CF, 1, 8),
    (0x3D0, 0x3D0, 1, - 30), (0x3D1, 0x3D1, 1, - 25), (0x3D5, 0x3D5, 1, - 15),
    (0x3D6, 0x3D6, 1, - 22), (0x3D8, 0x3EE, 2, 1), (0x3F0, 0x3F0, 1, - 54),
    (0x3F1, 0x3F1, 1, - 48), (0x3F4, 0x3F4, 1, - 60), (0x3F5, 0x3F5, 1, - 64),
    (0x3F7, 0x3F7, 1, 1), (0x3F9, 0x3F9, 1, - 7), (0x3FA, 0x3FA, 1, 1),
    (0x3FD, 0x3FF, 1, - 130), (0x400, 0x40F, 1, 80), (0x410, 0x42F, 1, 32),
    (0x460, 0x480, 2, 1), (0x48A, 0x4BE, 2, 1), (0x4C0, 0x4C0, 1, 15),
    (0x4C1, 0x4CD, 2, 1), (0x4D0, 0x52E, 2, 1), (0x531, 0x556, 1, 48),
    (0x10A0, 0x10C5, 1, 7264), (0x10C7, 0x10C7, 1, 7264), (0x10CD, 0x10CD, 1, 7264),
    (0x13F8, 0x13FD, 1, - 8), (0x1C80, 0x1C80, 1, - 6222), (0x1C81, 0x1C81, 1, - 6221),
    (0x1C82, 0x1C82, 1, - 6212), (0x1C83, 0x1C84, 1, - 6210), (0x1C85, 0x1C85, 1, - 6211),
    (0x1C86, 0x1C86, 1, - 6204), (0x1C87, 0x1C87, 1, - 6180), (0x1C88, 0x1C88, 1, 35267),
    (0x1C90, 0x1CBA, 1, - 3008), (0x1CBD, 0x1CBF, 1, - 3008), (0x1E00, 0x1E94, 2, 1),
    (0x1E9B, 0x1E9B, 1, - 58), (0x1E9E, 0x1E9E, 1, - 7615), (0x1EA0, 0x1EFE, 2, 1),
    (0x1F08, 0x1F0F, 1, - 8), (0x1F18, 0x1F1D, 1, - 8), (0x1F28, 0x1F2F, 1, - 8),
    (0x1F38, 0x1F3F, 1, - 8), (0x1F48, 0x1F4D, 1, - 8), (0x1F59, 0x1F5F, 2, - 8),
    (0x1F68, 0x1F6F, 1, - 8), (0x1F88, 0x1F8F, 1, - 8), (0x1F98, 0x1F9F, 1, - 8),
    (0x1FA8, 0x1FAF, 1, - 8), (0x1FB8, 0x1FB9, 1, - 8), (0x1FBA, 0x1FBB, 1, - 74),
    (0x1FBC, 0x1FBC, 1, - 9), (0x1FBE, 0x1FBE, 1, - 7173), (0x1FC8, 0x1FCB, 1, - 86),
    (0x1FCC, 0x1FCC, 1, - 9), (0x1FD8, 0x1FD9, 1, - 8), (0x1FDA, 0x1FDB, 1, - 100),
    (0x1FE8, 0x1FE9, 1, - 8), (0x1FEA, 0x1FEB, 1, - 112), (0x1FEC, 0x1FEC, 1, - 7),
    (0x1FF8, 0x1FF9, 1, - 128), (0x1FFA, 0x1FFB, 1, - 126), (0x1FFC, 0x1FFC, 1, - 9),
    (0x2126, 0x2126, 1, - 7517), (0x212A, 0x212A, 1, - 8383), (0x212B, 0x212B, 1, - 8262),
    (0x2132, 0x2132, 1, 28), (0x2160, 0x216F, 1, 16), (0x2183, 0x2183, 1, 1),
    (0x24B6, 0x24CF, 1, 26), (0x2C00, 0x2C2F, 1, 48), (0x2C60, 0x2C60, 1, 1),
    (0x2C62, 0x2C62, 1, - 10743), (0x2C63, 0x2C63, 1, - 3814),
    (0x2C64, 0x2C64, 1, - 10727), (0x2C67, 0x2C6B, 2, 1), (0x2C6D, 0x2C6D, 1, - 10780),
    (0x2C6E, 0x2C6E, 1, - 10749), (0x2C6F, 0x2C6F, 1, - 10783),
    (0x2C70, 0x2C70, 1, - 10782), (0x2C72, 0x2C72, 1, 1), (0x2C75, 0x2C75, 1, 1),
    (0x2C7E, 0x2C7F, 1, - 10815), (0x2C80, 0x2CE2, 2, 1), (0x2CEB, 0x2CED, 2, 1),
    (0x2CF2, 0x2CF2, 1, 1), (0xA640, 0xA66C, 2, 1), (0xA680, 0xA69A, 2, 1),
    (0xA722, 0xA72E, 2, 1), (0xA732, 0xA76E, 2, 1), (0xA779, 0xA77B, 2, 1),
    (0xA77D, 0xA77D, 1, - 35332), (0xA77E, 0xA786, 2, 1), (0xA78B, 0xA78B, 1, 1),
    (0xA78D, 0xA78D, 1, - 42280), (0xA790, 0xA792, 2, 1), (0xA796, 0xA7A8, 2, 1),
    (0xA7AA, 0xA7AA, 1, - 42308), (0xA7AB, 0xA7AB, 1, - 42319),
    (0xA7AC, 0xA7AC, 1, - 42315), (0xA7AD, 0xA7AD, 1, - 42305),
    (0xA7AE, 0xA7AE, 1, - 42308), (0xA7B0, 0xA7B0, 1, - 42258),
    (0xA7B1, 0xA7B1, 1, - 42282), (0xA7B2, 0xA7B2, 1, - 42261), (0xA7B3, 0xA7B3, 1, 928),
    (0xA7B4, 0xA7C2, 2, 1), (0xA7C4, 0xA7C4, 1, - 48), (0xA7C5, 0xA7C5, 1, - 42307),
    (0xA7C6, 0xA7C6, 1, - 35384), (0xA7C7, 0xA7C9, 2, 1), (0xA7D0, 0xA7D0, 1, 1),
    (0xA7D6, 0xA7D8, 2, 1), (0xA7F5, 0xA7F5, 1, 1), (0xAB70, 0xABBF, 1, - 38864),
    (0xFF21, 0xFF3A, 1, 32), (0x10400, 0x10427, 1, 40), (0x104B0, 0x104D3, 1, 40),
    (0x10570, 0x1057A, 1, 39), (0x1057C, 0x1058A, 1, 39), (0x1058C, 0x10592, 1, 39),
    (0x10594, 0x10595, 1, 39), (0x10C80, 0x10CB2, 1, 64), (0x118A0, 0x118BF, 1, 32),
    (0x16E40, 0x16E5F, 1, 32), (0x1E900, 0x1E921, 1, 34)]"

fun range_shift :: "case_range list \<Rightarrow> rune \<Rightarrow> rune" where
  "range_shift [] r = r"
| "range_shift ((lo, hi, step, delta) # rs) r =
     (if lo \<le> r \<and> r \<le> hi \<and> (r - lo) mod step = 0 then nat (int r + delta)
      else range_shift rs r)"

definition ascii_lower_rune :: "rune \<Rightarrow> rune" where
  "ascii_lower_rune r = (if 65 \<le> r \<and> r \<le> 90 then r + 32 else r)"

definition rune_to_lower :: "rune \<Rightarrow> rune" where
  "rune_to_lower r = (if r < 128 then ascii_lower_rune r else range_shift lower_ranges r)"

definition rune_fold :: "rune \<Rightarrow> rune" where
  "rune_fold r = (if r < 128 then ascii_lower_rune r else range_shift fold_ranges r)"

subsection \<open>Character classes\<close>

definition cf_ranges :: "(nat \<times> nat) list" where
  "cf_ranges = [
    (0xAD, 0xAD), (0x600, 0x605), (0x61C, 0x61C), (0x6DD, 0x6DD), (0x70F, 0x70F),
    (0x890, 0x891), (0x8E2, 0x8E2), (0x180E, 0x180E), (0x200B, 0x200F), (0x202A, 0x202E),
    (0x2060, 0x2064), (0x2066, 0x206F), (0xFEFF, 0xFEFF), (0xFFF9, 0xFFFB),
    (0x110BD, 0x110BD), (0x110CD, 0x110CD), (0x13430, 0x1343F), (0x1BCA0, 0x1BCA3),
    (0x1D173, 0x1D17A), (0xE0001, 0xE0001), (0xE0020, 0xE007F)]"

definition is_cf :: "rune \<Rightarrow> bool" where
  "is_cf r = list_ex (\<lambda>(lo, hi). lo \<le> r \<and> r \<le> hi) cf_ranges"

definition is_zl :: "rune \<Rightarrow> bool" where
  "is_zl r = (r = 0x2028)"

definition is_zp :: "rune \<Rightarrow> bool" where
  "is_zp r = (r = 0x2029)"

definition is_control :: "rune \<Rightarrow> bool" where
  "is_control r = (r < 0x20 \<or> (0x7F \<le> r \<and> r \<le> 0x9F))"

subsection \<open>UTF-8\<close>

definition rune_error :: rune where
  "rune_error = 0xFFFD"

definition cont_in :: "nat \<Rightarrow> nat \<Rightarrow> byte \<Rightarrow> bool" where
  "cont_in lo hi c = (lo \<le> ord c \<and> ord c \<le> hi)"

text \<open>\<^verbatim>\<open>utf8.DecodeRune\<close> on a non-empty input: the rune and its width.\<close>

fun decode_rune :: "bytes \<Rightarrow> rune \<times> nat" where
  "decode_rune [] = (rune_error, 0)"
| "decode_rune (b # bs) =
     (let n = ord b; bad = (rune_error, 1) in
      if n < 0x80 then (n, 1)
      else if 0xC2 \<le> n \<and> n \<le> 0xDF then
        (case bs of c # _ \<Rightarrow>
           if cont_in 0x80 0xBF c then ((n - 0xC0) * 64 + (ord c - 0x80), 2) else bad
         | _ \<Rightarrow> bad)
      else if 0xE0 \<le> n \<and> n \<le> 0xEF then
        (case bs of c # d # _ \<Rightarrow>
           if cont_in (if n = 0xE0 then 0xA0 else 0x80) (if n = 0xED then 0x9F else 0xBF) c
              \<and> cont_in 0x80 0xBF d
           then (((n - 0xE0) * 64 + (ord c - 0x80)) * 64 + (ord d - 0x80), 3) else bad
         | _ \<Rightarrow> bad)
      else if 0xF0 \<le> n \<and> n \<le> 0xF4 then
        (case bs of c # d # e # _ \<Rightarrow>
           if cont_in (if n = 0xF0 then 0x90 else 0x80) (if n = 0xF4 then 0x8F else 0xBF) c
              \<and> cont_in 0x80 0xBF d \<and> cont_in 0x80 0xBF e
           then ((((n - 0xF0) * 64 + (ord c - 0x80)) * 64 + (ord d - 0x80)) * 64
                  + (ord e - 0x80), 4) else bad
         | _ \<Rightarrow> bad)
      else bad)"

definition encode_rune :: "rune \<Rightarrow> bytes" where
  "encode_rune r =
     (if r < 0x80 then [char_of r]
      else if r < 0x800 then [char_of (0xC0 + r div 64), char_of (0x80 + r mod 64)]
      else if r > 0x10FFFF \<or> (0xD800 \<le> r \<and> r \<le> 0xDFFF)
        then [char_of (0xEF::nat), char_of (0xBF::nat), char_of (0xBD::nat)]
      else if r < 0x10000 then
        [char_of (0xE0 + r div 4096), char_of (0x80 + r div 64 mod 64), char_of (0x80 + r mod 64)]
      else
        [char_of (0xF0 + r div 262144), char_of (0x80 + r div 4096 mod 64),
         char_of (0x80 + r div 64 mod 64), char_of (0x80 + r mod 64)])"

lemma decode_rune_width_pos: "bs \<noteq> [] \<Longrightarrow> 0 < snd (decode_rune bs)"
  by (cases bs) (auto simp: Let_def split: list.splits)

lemma decode_rune_width_le: "snd (decode_rune bs) \<le> length bs"
  by (cases bs) (auto simp: Let_def split: list.splits)

text \<open>Ranging over a string: the runes with their widths, left to right.\<close>

function runes :: "bytes \<Rightarrow> (rune \<times> nat) list" where
  "runes bs = (if bs = [] then [] else
     (let rw = decode_rune bs in rw # runes (drop (snd rw) bs)))"
  by pat_completeness auto
termination
proof (relation "measure length")
  fix bs :: bytes and rw
  assume "bs \<noteq> []" "rw = decode_rune bs"
  then show "(drop (snd rw) bs, bs) \<in> measure length"
    using decode_rune_width_pos [of bs] by simp
qed simp

declare runes.simps [simp del]

lemma runes_Nil [simp]: "runes [] = []"
  by (simp add: runes.simps)

definition is_ascii :: "bytes \<Rightarrow> bool" where
  "is_ascii s = list_all (\<lambda>c. ord c < 128) s"

lemma is_ascii_simps [simp]:
  "is_ascii []" "is_ascii (c # s) \<longleftrightarrow> ord c < 128 \<and> is_ascii s"
  "is_ascii (s @ t) \<longleftrightarrow> is_ascii s \<and> is_ascii t"
  by (simp_all add: is_ascii_def)

lemma runes_ascii_Cons: "ord c < 128 \<Longrightarrow> runes (c # s) = (ord c, 1) # runes s"
  by (subst runes.simps) (simp add: Let_def)

lemma runes_ascii: "is_ascii s \<Longrightarrow> runes s = map (\<lambda>c. (ord c, 1)) s"
  by (induction s) (simp_all add: runes_ascii_Cons)

lemma length_runes_le: "length (runes s) \<le> length s"
proof (induction s rule: runes.induct)
  case (1 bs)
  show ?case
  proof (cases "bs = []")
    case False
    with "1.IH" [OF False refl] decode_rune_width_pos [OF False] decode_rune_width_le [of bs] show ?thesis
      by (subst runes.simps) (simp add: Let_def)
  qed simp
qed

lemma encode_rune_ascii: "r < 128 \<Longrightarrow> encode_rune r = [char_of r]"
  by (simp add: encode_rune_def)

lemma encode_rune_nonempty [simp]: "encode_rune r \<noteq> []"
  by (simp add: encode_rune_def)

subsection \<open>Encoding what was decoded\<close>

lemma div_mod_64: "c < 64 \<Longrightarrow> (q * 64 + c) div 64 = q" "c < 64 \<Longrightarrow> (q * 64 + c) mod 64 = c"
  for q c :: nat
  by simp_all

lemma encode_two:
  assumes "c1 < 64" "2 \<le> c0" "c0 < 32"
  shows "encode_rune (c0 * 64 + c1) = [char_of (0xC0 + c0), char_of (0x80 + c1)]"
  using assms by (simp add: encode_rune_def)

lemma encode_three:
  assumes "c1 < 64" "c2 < 64" "c0 < 16" "c0 = 0 \<longrightarrow> 32 \<le> c1" "c0 = 13 \<longrightarrow> c1 < 32"
  shows "encode_rune ((c0 * 64 + c1) * 64 + c2) = [char_of (0xE0 + c0), char_of (0x80 + c1), char_of (0x80 + c2)]"
proof -
  let ?q = "c0 * 64 + c1"
  have d: "(?q * 64 + c2) div 64 = ?q" "(?q * 64 + c2) mod 64 = c2" "?q div 64 = c0" "?q mod 64 = c1"
    using assms by (intro div_mod_64; simp)+
  have d2: "(?q * 64 + c2) div 4096 = c0"
    using d div_mult2_eq [of "?q * 64 + c2" 64 64] by simp
  have q: "32 \<le> ?q" "?q < 1024"
    using assms by linarith+
  consider "c0 < 13" | "c0 = 13" | "13 < c0" by linarith
  then have q2: "\<not> (864 \<le> ?q \<and> ?q < 896)"
    using assms by cases linarith+
  have "\<not> x * 64 + y < 0x80 \<and> \<not> x * 64 + y < 0x800 \<and> x * 64 + y < 0x10000 \<and>
     \<not> (0xD800 \<le> x * 64 + y \<and> x * 64 + y \<le> 0xDFFF)"
    if "32 \<le> x" "x < 1024" "\<not> (864 \<le> x \<and> x < 896)" "y < 64" for x y :: nat
    using that by auto
  then have r: "\<not> ?q * 64 + c2 < 0x80" "\<not> ?q * 64 + c2 < 0x800" "?q * 64 + c2 < 0x10000"
     "\<not> (0xD800 \<le> ?q * 64 + c2 \<and> ?q * 64 + c2 \<le> 0xDFFF)"
    using q q2 assms(2) by blast+
  then have "\<not> (?q * 64 + c2 > 0x10FFFF \<or> (0xD800 \<le> ?q * 64 + c2 \<and> ?q * 64 + c2 \<le> 0xDFFF))"
    by linarith
  then show ?thesis
    using r unfolding encode_rune_def d d2 by (simp only: if_True if_False d)
qed

lemma encode_four:
  assumes "c1 < 64" "c2 < 64" "c3 < 64" "c0 < 5" "c0 = 0 \<longrightarrow> 16 \<le> c1" "c0 = 4 \<longrightarrow> c1 < 16"
  shows "encode_rune (((c0 * 64 + c1) * 64 + c2) * 64 + c3) =
     [char_of (0xF0 + c0), char_of (0x80 + c1), char_of (0x80 + c2), char_of (0x80 + c3)]"
proof -
  let ?p = "c0 * 64 + c1"
  let ?q = "?p * 64 + c2"
  let ?r = "?q * 64 + c3"
  have d: "?r div 64 = ?q" "?r mod 64 = c3" "?q div 64 = ?p" "?q mod 64 = c2" "?p div 64 = c0" "?p mod 64 = c1"
    using assms by (intro div_mod_64; simp)+
  have d2: "?r div 4096 = ?p" using d div_mult2_eq [of ?r 64 64] by simp
  have d3: "?r div 262144 = c0" using d d2 div_mult2_eq [of ?r 4096 64] by simp
  have p: "16 \<le> ?p" "?p < 272"
    using assms by linarith+
  have "0x10000 \<le> (x * 64 + y) * 64 + z \<and> (x * 64 + y) * 64 + z \<le> 0x10FFFF"
    if "16 \<le> x" "x < 272" "y < 64" "z < 64" for x y z :: nat
    using that by simp
  then have r: "0x10000 \<le> ?r" "?r \<le> 0x10FFFF"
    using p assms(2,3) by blast+
  then have "\<not> ?r < 0x80" "\<not> ?r < 0x800" "\<not> ?r < 0x10000"
      "\<not> (?r > 0x10FFFF \<or> (0xD800 \<le> ?r \<and> ?r \<le> 0xDFFF))"
    by linarith+
  then show ?thesis
    unfolding encode_rune_def d d2 d3 by (simp only: if_False d)
qed

lemma decode_rune_cases:
  assumes "decode_rune s = (r, w)"
  obtains (bad) "r = rune_error" "w \<le> 1"
  | (one) b t where "s = b # t" "w = 1" "r = ord b" "ord b < 128"
  | (two) b c t where "s = b # c # t" "w = 2" "r = (ord b - 0xC0) * 64 + (ord c - 0x80)"
      "0xC2 \<le> ord b" "ord b \<le> 0xDF" "cont_in 0x80 0xBF c"
  | (three) b c d t where "s = b # c # d # t" "w = 3"
      "r = ((ord b - 0xE0) * 64 + (ord c - 0x80)) * 64 + (ord d - 0x80)"
      "0xE0 \<le> ord b" "ord b \<le> 0xEF" "cont_in (if ord b = 0xE0 then 0xA0 else 0x80) (if ord b = 0xED then 0x9F else 0xBF) c"
      "cont_in 0x80 0xBF d"
  | (four) b c d e t where "s = b # c # d # e # t" "w = 4"
      "r = (((ord b - 0xF0) * 64 + (ord c - 0x80)) * 64 + (ord d - 0x80)) * 64 + (ord e - 0x80)"
      "0xF0 \<le> ord b" "ord b \<le> 0xF4" "cont_in (if ord b = 0xF0 then 0x90 else 0x80) (if ord b = 0xF4 then 0x8F else 0xBF) c"
      "cont_in 0x80 0xBF d" "cont_in 0x80 0xBF e"
proof (cases s)
  case (Cons b bs)
  consider "ord b < 128" | "0xC2 \<le> ord b \<and> ord b \<le> 0xDF" | "0xE0 \<le> ord b \<and> ord b \<le> 0xEF"
    | "0xF0 \<le> ord b \<and> ord b \<le> 0xF4"
    | "\<not> ord b < 128 \<and> \<not> (0xC2 \<le> ord b \<and> ord b \<le> 0xDF) \<and> \<not> (0xE0 \<le> ord b \<and> ord b \<le> 0xEF)
        \<and> \<not> (0xF0 \<le> ord b \<and> ord b \<le> 0xF4)"
    by blast
  then show thesis
  proof cases
    case 1
    then show thesis using assms Cons one by (simp add: Let_def)
  next
    case 2
    then show thesis using assms Cons two bad
      by (cases bs) (auto simp: Let_def split: if_splits)
  next
    case 3
    then show thesis using assms Cons three bad
      by (cases bs; cases "tl bs") (auto simp: Let_def split: if_splits)
  next
    case 4
    then show thesis using assms Cons four bad
      by (cases bs; cases "tl bs"; cases "tl (tl bs)") (auto simp: Let_def split: if_splits)
  next
    case 5
    then show thesis using assms Cons bad by (auto simp: Let_def)
  qed
qed (use assms bad in auto)


lemma cont_in_offset:
  assumes "cont_in lo hi c" "0x80 \<le> lo" "hi \<le> 0xBF"
  shows "ord c - 0x80 < 64" "char_of (0x80 + (ord c - 0x80)) = c" "lo - 0x80 \<le> ord c - 0x80"
    "ord c - 0x80 \<le> hi - 0x80"
proof -
  have "lo \<le> ord c" "ord c \<le> hi" using assms(1) by (simp_all add: cont_in_def)
  with assms(2,3) show "ord c - 0x80 < 64" "char_of (0x80 + (ord c - 0x80)) = c" "lo - 0x80 \<le> ord c - 0x80"
    "ord c - 0x80 \<le> hi - 0x80"
    by simp_all
qed

lemma decode_rune_encode:
  assumes "decode_rune s = (r, w)" "r \<noteq> rune_error \<or> 1 < w"
  shows "encode_rune r = take w s"
  using assms(1)
proof (cases rule: decode_rune_cases)
  case (two b c t)
  have "encode_rune r = [char_of (0xC0 + (ord b - 0xC0)), char_of (0x80 + (ord c - 0x80))]"
    unfolding two(3) using two(4,5) cont_in_offset(1) [OF two(6)] by (intro encode_two) auto
  then show ?thesis
    using two cont_in_offset(2) [OF two(6)] by simp
next
  case (three b c d t)
  have b: "(0x80::nat) \<le> (if ord b = 0xE0 then 0xA0 else 0x80)" "(if ord b = 0xED then 0x9F else 0xBF) \<le> (0xBF::nat)"
    by simp_all
  note c = cont_in_offset [OF three(6) b] and d = cont_in_offset [OF three(7)]
  have "encode_rune r = [char_of (0xE0 + (ord b - 0xE0)), char_of (0x80 + (ord c - 0x80)), char_of (0x80 + (ord d - 0x80))]"
    unfolding three(3) using three(4,5) c(1,3,4) d(1)
    by (intro encode_three) (auto split: if_splits)
  moreover have "char_of (0x80 + (ord c - 0x80)) = c"
    by (rule c(2))
  ultimately show ?thesis
    using three d(2) by simp
next
  case (four b c d e t)
  have b: "(0x80::nat) \<le> (if ord b = 0xF0 then 0x90 else 0x80)" "(if ord b = 0xF4 then 0x8F else 0xBF) \<le> (0xBF::nat)"
    by simp_all
  note c = cont_in_offset [OF four(6) b] and d = cont_in_offset [OF four(7)] and e = cont_in_offset [OF four(8)]
  have "encode_rune r = [char_of (0xF0 + (ord b - 0xF0)), char_of (0x80 + (ord c - 0x80)),
      char_of (0x80 + (ord d - 0x80)), char_of (0x80 + (ord e - 0x80))]"
    unfolding four(3) using four(4,5) c(1,3,4) d(1) e(1)
    by (intro encode_four) (auto split: if_splits)
  moreover have "char_of (0x80 + (ord c - 0x80)) = c"
    by (rule c(2))
  ultimately show ?thesis
    using four d(2) e(2) by simp
qed (use assms(2) in \<open>auto simp: encode_rune_def\<close>)

lemma decode_rune_take:
  assumes "decode_rune s = (r, w)" "r \<noteq> rune_error \<or> 1 < w"
  shows "decode_rune (take w s @ t) = (r, w)"
  using assms(1)
  by (cases rule: decode_rune_cases) (use assms(2) in \<open>auto simp: Let_def\<close>)

text \<open>A rune that came out of decoding text goes back in as the same rune.\<close>

definition encodable :: "rune \<Rightarrow> bool" where
  "encodable r \<longleftrightarrow> (\<forall>t. decode_rune (encode_rune r @ t) = (r, length (encode_rune r)))"

lemma runes_encodable:
  "(r, w) \<in> set (runes s) \<Longrightarrow> r \<noteq> rune_error \<or> 1 < w \<Longrightarrow> encodable r \<and> length (encode_rune r) = w"
proof (induction s rule: runes.induct)
  case (1 s)
  show ?case
  proof (cases "s = []")
    case False
    then have rs: "runes s = decode_rune s # runes (drop (snd (decode_rune s)) s)"
      by (simp add: runes.simps [of s] Let_def)
    show ?thesis
    proof (cases "(r, w) = decode_rune s")
      case True
      then have d: "decode_rune s = (r, w)" by simp
      have "w \<le> length s" using decode_rune_width_le [of s] d by simp
      then have "length (take w s) = w" by simp
      then show ?thesis
        using decode_rune_encode [OF d 1(3)] decode_rune_take [OF d 1(3)] by (simp add: encodable_def)
    next
      case False
      then show ?thesis using 1 rs \<open>s \<noteq> []\<close> by auto
    qed
  qed (use 1 in simp)
qed

lemma runes_encoded:
  "\<forall>r\<in>set rs. encodable r \<Longrightarrow>
     runes (concat (map encode_rune rs)) = map (\<lambda>r. (r, length (encode_rune r))) rs"
proof (induction rs)
  case (Cons r rs)
  let ?s = "encode_rune r @ concat (map encode_rune rs)"
  have "decode_rune ?s = (r, length (encode_rune r))"
    using Cons.prems by (simp add: encodable_def)
  then show ?case
    using Cons by (simp add: runes.simps [of ?s] Let_def)
qed simp

lemma sum_widths: "sum_list (map snd (runes s)) = length s"
proof (induction s rule: runes.induct)
  case (1 s)
  then show ?case
    using decode_rune_width_le [of s]
    by (cases "s = []") (simp_all add: runes.simps [of s] Let_def split_def)
qed

lemma length_encoded_filter:
  assumes "\<forall>x\<in>set (runes s). P x \<longrightarrow> fst x \<noteq> rune_error \<or> 1 < snd x"
  shows "length (concat (map encode_rune (map fst (filter P (runes s))))) \<le> length s"
proof -
  have "length (concat (map encode_rune (map fst (filter P xs)))) \<le> sum_list (map snd xs)"
    if "set xs \<subseteq> set (runes s)" for xs
    using that
  proof (induction xs)
    case (Cons x xs)
    have "P x \<longrightarrow> length (encode_rune (fst x)) = snd x"
      using assms Cons.prems runes_encodable [of "fst x" "snd x" s] by auto
    then show ?case using Cons by auto
  qed simp
  from this [of "runes s"] show ?thesis by (simp add: sum_widths)
qed

end
