(* ===== verification/Go_Strings.thy ===== *)
theory Go_Strings
  imports Go_Unicode
begin

text \<open>
  The functions of Go's \<^verbatim>\<open>strings\<close>, \<^verbatim>\<open>bytes\<close>, \<^verbatim>\<open>strconv\<close> and \<^verbatim>\<open>net\<close> packages that the modelled
  sources call, on byte strings. Every definition computes what the library function returns
  on every input, ill-formed UTF-8 included.
\<close>

subsection \<open>Prefixes, suffixes, searching, splitting\<close>

definition has_prefix :: "bytes \<Rightarrow> bytes \<Rightarrow> bool" where
  "has_prefix s p = (take (length p) s = p)"

definition has_suffix :: "bytes \<Rightarrow> bytes \<Rightarrow> bool" where
  "has_suffix s p = (length p \<le> length s \<and> drop (length s - length p) s = p)"

definition trim_prefix :: "bytes \<Rightarrow> bytes \<Rightarrow> bytes" where
  "trim_prefix s p = (if has_prefix s p then drop (length p) s else s)"

definition trim_suffix :: "bytes \<Rightarrow> bytes \<Rightarrow> bytes" where
  "trim_suffix s p = (if has_suffix s p then take (length s - length p) s else s)"

definition cut_prefix :: "bytes \<Rightarrow> bytes \<Rightarrow> bytes option" where
  "cut_prefix s p = (if has_prefix s p then Some (drop (length p) s) else None)"

fun index_byte :: "bytes \<Rightarrow> byte \<Rightarrow> nat option" where
  "index_byte [] c = None"
| "index_byte (x # xs) c = (if x = c then Some 0 else map_option Suc (index_byte xs c))"

fun last_index_byte :: "bytes \<Rightarrow> byte \<Rightarrow> nat option" where
  "last_index_byte [] c = None"
| "last_index_byte (x # xs) c =
     (case last_index_byte xs c of Some i \<Rightarrow> Some (Suc i)
      | None \<Rightarrow> if x = c then Some 0 else None)"

fun index_str :: "bytes \<Rightarrow> bytes \<Rightarrow> nat option" where
  "index_str s p = (if has_prefix s p then Some 0
     else (case s of [] \<Rightarrow> None | x # xs \<Rightarrow> map_option Suc (index_str xs p)))"

definition contains_byte :: "bytes \<Rightarrow> byte \<Rightarrow> bool" where
  "contains_byte s c = list_ex (\<lambda>x. x = c) s"

definition contains_any :: "bytes \<Rightarrow> bytes \<Rightarrow> bool" where
  "contains_any s cs = list_ex (contains_byte cs) s"

fun split_on :: "byte \<Rightarrow> bytes \<Rightarrow> bytes list" where
  "split_on c [] = [[]]"
| "split_on c (x # xs) = (if x = c then [] # split_on c xs
     else (case split_on c xs of [] \<Rightarrow> [[x]] | l # ls \<Rightarrow> (x # l) # ls))"

fun join_with :: "byte \<Rightarrow> bytes list \<Rightarrow> bytes" where
  "join_with c [] = []"
| "join_with c [l] = l"
| "join_with c (l # ls) = l @ c # join_with c ls"

lemma has_prefix_iff [go_simps]: "has_prefix s p \<longleftrightarrow> (\<exists>t. s = p @ t)"
  unfolding has_prefix_def by (metis append_eq_conv_conj)

lemma has_suffix_iff [go_simps]: "has_suffix s p \<longleftrightarrow> (\<exists>t. s = t @ p)"
proof
  assume "has_suffix s p"
  then show "\<exists>t. s = t @ p"
    unfolding has_suffix_def by (metis append_take_drop_id)
qed (auto simp: has_suffix_def)

lemma has_prefix_append [simp]: "has_prefix (p @ t) p"
  by (simp add: has_prefix_def)

lemma has_suffix_append [simp]: "has_suffix (t @ p) p"
  by (simp add: has_suffix_def)

lemma trim_suffix_append [simp]: "trim_suffix (t @ p) p = t"
  by (simp add: trim_suffix_def)

lemma trim_prefix_append [simp]: "trim_prefix (p @ t) p = t"
  by (simp add: trim_prefix_def)

lemma cut_prefix_Some_iff [go_simps]: "cut_prefix s p = Some t \<longleftrightarrow> s = p @ t"
  by (auto simp: cut_prefix_def has_prefix_iff)

lemma cut_prefix_None_iff [go_simps]: "cut_prefix s p = None \<longleftrightarrow> (\<forall>t. s \<noteq> p @ t)"
  by (auto simp: cut_prefix_def has_prefix_iff)

lemma contains_byte_iff [go_simps]: "contains_byte s c \<longleftrightarrow> c \<in> set s"
  by (auto simp: contains_byte_def list_ex_iff)

lemma contains_any_iff [go_simps]: "contains_any s cs \<longleftrightarrow> (\<exists>c\<in>set s. c \<in> set cs)"
  by (auto simp: contains_any_def list_ex_iff contains_byte_iff)

lemma index_byte_None_iff [go_simps]: "index_byte s c = None \<longleftrightarrow> c \<notin> set s"
  by (induction s) auto

lemma index_byte_append: "c \<notin> set a \<Longrightarrow> index_byte (a @ c # b) c = Some (length a)"
  by (induction a) auto

lemma index_byte_SomeD:
  "index_byte s c = Some i \<Longrightarrow> \<exists>a b. s = a @ c # b \<and> length a = i \<and> c \<notin> set a"
proof (induction s arbitrary: i)
  case (Cons x xs)
  show ?case
  proof (cases "x = c")
    case True
    with Cons.prems show ?thesis by force
  next
    case False
    with Cons.prems obtain j where "index_byte xs c = Some j" "i = Suc j" by auto
    with Cons.IH obtain a b where "xs = a @ c # b" "length a = j" "c \<notin> set a" by blast
    with False \<open>i = Suc j\<close> have "x # xs = (x # a) @ c # b \<and> length (x # a) = i \<and> c \<notin> set (x # a)"
      by simp
    then show ?thesis by blast
  qed
qed simp

lemma last_index_byte_None_iff [go_simps]: "last_index_byte s c = None \<longleftrightarrow> c \<notin> set s"
  by (induction s) (auto split: option.splits)

lemma last_index_byte_append: "c \<notin> set b \<Longrightarrow> last_index_byte (a @ c # b) c = Some (length a)"
  by (induction a) (auto simp: last_index_byte_None_iff [THEN iffD2])

lemma last_index_byte_SomeD:
  "last_index_byte s c = Some i \<Longrightarrow> \<exists>a b. s = a @ c # b \<and> length a = i \<and> c \<notin> set b"
proof (induction s arbitrary: i)
  case (Cons x xs)
  show ?case
  proof (cases "last_index_byte xs c")
    case None
    with Cons.prems have "x = c" "i = 0" by (auto split: if_splits)
    moreover from None have "c \<notin> set xs" by (simp add: last_index_byte_None_iff)
    ultimately show ?thesis by force
  next
    case (Some j)
    with Cons.IH obtain a b where "xs = a @ c # b" "length a = j" "c \<notin> set b" by blast
    with Some Cons.prems have "x # xs = (x # a) @ c # b \<and> length (x # a) = i \<and> c \<notin> set b"
      by simp
    then show ?thesis by blast
  qed
qed simp

subsection \<open>Splitting on a byte\<close>

lemma split_on_nonempty [simp]: "split_on c s \<noteq> []"
  by (induction s) (auto split: list.splits)

lemma join_with_Cons: "ls \<noteq> [] \<Longrightarrow> join_with c (l # ls) = l @ c # join_with c ls"
  by (cases ls) simp_all

lemma join_split [simp]: "join_with c (split_on c s) = s"
proof (induction s)
  case (Cons x xs)
  obtain l ls where ls: "split_on c xs = l # ls"
    using split_on_nonempty [of c xs] by (cases "split_on c xs") auto
  with Cons show ?case by (cases ls) auto
qed simp

lemma split_on_no_sep: "l \<in> set (split_on c s) \<Longrightarrow> c \<notin> set l"
proof (induction s arbitrary: l)
  case (Cons x xs)
  then show ?case by (auto split: if_splits list.splits)
qed simp

lemma split_on_id: "c \<notin> set s \<Longrightarrow> split_on c s = [s]"
  by (induction s) auto

lemma split_on_append:
  "c \<notin> set a \<Longrightarrow> split_on c (a @ c # b) = a # split_on c b"
  by (induction a) auto

lemma split_on_append_gen: "split_on c (a @ c # b) = split_on c a @ split_on c b"
  by (induction a) (auto split: list.splits)

lemma split_join:
  "ls \<noteq> [] \<Longrightarrow> \<forall>l\<in>set ls. c \<notin> set l \<Longrightarrow> split_on c (join_with c ls) = ls"
proof (induction ls)
  case (Cons l ls)
  then show ?case
    by (cases ls) (auto simp: split_on_id split_on_append)
qed simp

lemma join_with_append:
  "xs \<noteq> [] \<Longrightarrow> ys \<noteq> [] \<Longrightarrow> join_with c (xs @ ys) = join_with c xs @ c # join_with c ys"
proof (induction xs)
  case (Cons x xs)
  then show ?case by (cases "xs = []") (simp_all add: join_with_Cons)
qed simp

lemma split_on_append_iff:
  "split_on c s = xs @ split_on c t \<and> xs \<noteq> [] \<longleftrightarrow>
     (\<exists>p. s = p @ c # t \<and> xs = split_on c p)"
proof
  assume l: "split_on c s = xs @ split_on c t \<and> xs \<noteq> []"
  then have "s = join_with c xs @ c # t"
    using join_split [of c s] join_with_append [of xs "split_on c t" c] by simp
  moreover have "xs = split_on c (join_with c xs)"
    using l split_on_no_sep [of _ c s] by (intro split_join [symmetric]) auto
  ultimately show "\<exists>p. s = p @ c # t \<and> xs = split_on c p" by blast
qed (auto simp: split_on_append_gen)

lemma set_split_on: "set s = (\<Union>l\<in>set (split_on c s). set l) \<union> (if c \<in> set s then {c} else {})"
proof (induction s)
  case (Cons x xs)
  obtain l ls where ls: "split_on c xs = l # ls"
    using split_on_nonempty [of c xs] by (cases "split_on c xs") auto
  with Cons show ?case by (auto split: if_splits)
qed simp

subsection \<open>Case mapping and white space\<close>

definition ascii_lower :: "byte \<Rightarrow> byte" where
  "ascii_lower c = char_of (ascii_lower_rune (ord c))"

text \<open>\<^verbatim>\<open>strings.ToLower\<close>: a byte-wise map on ASCII input, otherwise rune by rune.\<close>

definition to_lower :: "bytes \<Rightarrow> bytes" where
  "to_lower s = (if is_ascii s then map ascii_lower s
     else concat (map (\<lambda>(r, w). encode_rune (rune_to_lower r)) (runes s)))"

definition equal_fold :: "bytes \<Rightarrow> bytes \<Rightarrow> bool" where
  "equal_fold s t = (map (\<lambda>(r, w). rune_fold r) (runes s) = map (\<lambda>(r, w). rune_fold r) (runes t))"

definition is_space_rune :: "rune \<Rightarrow> bool" where
  "is_space_rune r = ((9 \<le> r \<and> r \<le> 13) \<or> r = 32 \<or> r = 0x85 \<or> r = 0xA0 \<or> r = 0x1680 \<or>
     (0x2000 \<le> r \<and> r \<le> 0x200A) \<or> r = 0x2028 \<or> r = 0x2029 \<or> r = 0x202F \<or> r = 0x205F \<or>
     r = 0x3000)"

definition rune_start :: "byte \<Rightarrow> bool" where
  "rune_start c = (\<not> cont_in 0x80 0xBF c)"

text \<open>\<^verbatim>\<open>utf8.DecodeLastRune\<close>: the last rune and its width.\<close>

definition decode_last_rune :: "bytes \<Rightarrow> rune \<times> nat" where
  "decode_last_rune s =
     (let n = length s in
      if n = 0 then (rune_error, 0)
      else if ord (last s) < 128 then (ord (last s), 1)
      else (case find (\<lambda>k. k \<le> n \<and> rune_start (s ! (n - k))) [2, 3, 4] of
              None \<Rightarrow> (rune_error, 1)
            | Some k \<Rightarrow> (let rw = decode_rune (drop (n - k) s) in
                if snd rw = k then rw else (rune_error, 1))))"

lemma decode_last_rune_width_pos: "s \<noteq> [] \<Longrightarrow> 0 < snd (decode_last_rune s)"
  by (auto simp: decode_last_rune_def Let_def find_Some_iff split: option.splits)

function trim_left_space :: "bytes \<Rightarrow> bytes" where
  "trim_left_space s = (if s \<noteq> [] \<and> is_space_rune (fst (decode_rune s))
     then trim_left_space (drop (snd (decode_rune s)) s) else s)"
  by pat_completeness auto
termination
  by (relation "measure length") (auto simp: decode_rune_width_pos)

function trim_right_space :: "bytes \<Rightarrow> bytes" where
  "trim_right_space s = (if s \<noteq> [] \<and> is_space_rune (fst (decode_last_rune s))
     then trim_right_space (take (length s - snd (decode_last_rune s)) s) else s)"
  by pat_completeness auto
termination
  by (relation "measure length") (auto simp: decode_last_rune_width_pos)

declare trim_left_space.simps [simp del] trim_right_space.simps [simp del]

definition trim_space :: "bytes \<Rightarrow> bytes" where
  "trim_space s = trim_right_space (trim_left_space s)"

text \<open>\<^verbatim>\<open>bytes.Fields\<close>: the maximal runs of non-space runes.\<close>

function fields_from :: "bytes \<Rightarrow> bytes \<Rightarrow> bytes list" where
  "fields_from cur s =
     (if s = [] then (if cur = [] then [] else [cur])
      else (let rw = decode_rune s; rest = drop (snd rw) s in
        if is_space_rune (fst rw)
        then (if cur = [] then fields_from [] rest else cur # fields_from [] rest)
        else fields_from (cur @ take (snd rw) s) rest))"
  by pat_completeness auto
termination
  by (relation "measure (\<lambda>(cur, s). length s)") (auto simp: decode_rune_width_pos)

declare fields_from.simps [simp del]

definition split_fields :: "bytes \<Rightarrow> bytes list" where
  "split_fields s = fields_from [] s"

definition ascii_space :: "byte \<Rightarrow> bool" where
  "ascii_space c = is_space_rune (ord c)"

lemma to_lower_ascii: "is_ascii s \<Longrightarrow> to_lower s = map ascii_lower s"
  by (simp add: to_lower_def)

lemma ascii_lower_id: "\<not> (65 \<le> ord c \<and> ord c \<le> 90) \<Longrightarrow> ascii_lower c = c"
  by (auto simp add: ascii_lower_def ascii_lower_rune_def)

lemma to_lower_id:
  assumes "\<forall>c\<in>set s. ord c < 128 \<and> \<not> (65 \<le> ord c \<and> ord c \<le> 90)"
  shows "to_lower s = s"
proof -
  have "is_ascii s" using assms by (simp add: is_ascii_def list_all_iff)
  moreover have "map ascii_lower s = s"
    using assms by (intro map_idI ascii_lower_id) auto
  ultimately show ?thesis by (simp add: to_lower_ascii)
qed

lemma trim_left_space_id:
  "s = [] \<or> (ord (hd s) < 128 \<and> \<not> ascii_space (hd s)) \<Longrightarrow> trim_left_space s = s"
  by (subst trim_left_space.simps) (cases s; auto simp: ascii_space_def)

lemma trim_right_space_id:
  "s = [] \<or> (ord (last s) < 128 \<and> \<not> ascii_space (last s)) \<Longrightarrow> trim_right_space s = s"
  by (subst trim_right_space.simps) (auto simp: ascii_space_def decode_last_rune_def)

lemma trim_space_id:
  "\<forall>c\<in>set s. ord c < 128 \<and> \<not> ascii_space c \<Longrightarrow> trim_space s = s"
  by (cases "s = []") (simp_all add: trim_space_def trim_left_space_id trim_right_space_id)

lemma equal_fold_refl [simp]: "equal_fold s s"
  by (simp add: equal_fold_def)

lemma equal_fold_ascii:
  assumes "is_ascii s" "is_ascii t"
  shows "equal_fold s t \<longleftrightarrow> map ascii_lower s = map ascii_lower t"
proof -
  have "map (\<lambda>(r, w). rune_fold r) (runes u) = map (ord \<circ> ascii_lower) u" if "is_ascii u" for u
    using that by (induction u) (auto simp: runes_ascii_Cons rune_fold_def ascii_lower_def
        ascii_lower_rune_def)
  with assms have "equal_fold s t \<longleftrightarrow> map ord (map ascii_lower s) = map ord (map ascii_lower t)"
    by (simp add: equal_fold_def)
  also have "\<dots> \<longleftrightarrow> map ascii_lower s = map ascii_lower t"
    by (intro inj_map_eq_map injI) simp
  finally show ?thesis .
qed

declare index_str.simps [simp del]

end
