(* ===== verification/Go_Net.thy ===== *)
theory Go_Net
  imports Go_Strings
begin

text \<open>
  Numbers and addresses as text: \<^verbatim>\<open>strconv.Itoa\<close> and \<^verbatim>\<open>strconv.Atoi\<close>,
  \<^verbatim>\<open>net.SplitHostPort\<close>, and \<^verbatim>\<open>net.ParseIP\<close> as the test it is used for (is this text an
  address). They follow the library's own parsers step by step.
\<close>

subsection \<open>Decimal numbers\<close>

definition is_digit :: "byte \<Rightarrow> bool" where
  "is_digit c = (48 \<le> ord c \<and> ord c \<le> 57)"

definition digit_val :: "byte \<Rightarrow> nat" where
  "digit_val c = ord c - 48"

fun itoa :: "nat \<Rightarrow> bytes" where
  "itoa n = (if n < 10 then [char_of (48 + n)] else itoa (n div 10) @ [char_of (48 + n mod 10)])"

declare itoa.simps [simp del]

definition decimal :: "bytes \<Rightarrow> nat" where
  "decimal s = foldl (\<lambda>a c. a * 10 + digit_val c) 0 s"

text \<open>\<^verbatim>\<open>strconv.Atoi\<close> on a 64-bit platform; \<open>None\<close> is a syntax or a range error.\<close>

definition atoi :: "bytes \<Rightarrow> int option" where
  "atoi s =
     (let neg = has_prefix s ''-'';
          body = (if neg \<or> has_prefix s ''+'' then drop 1 s else s) in
      if body = [] \<or> \<not> list_all is_digit body then None
      else (let v = int (decimal body); x = (if neg then - v else v) in
        if - (2 ^ 63) \<le> x \<and> x < 2 ^ 63 then Some x else None))"

lemma itoa_digits: "list_all is_digit (itoa n)"
proof (induction n rule: itoa.induct)
  case (1 n)
  have d: "is_digit (char_of (48 + m))" if "m < 10" for m :: nat
    using that by (simp add: is_digit_def)
  show ?case
  proof (cases "n < 10")
    case True
    then show ?thesis by (subst itoa.simps) (simp add: d)
  next
    case False
    with 1 show ?thesis by (subst itoa.simps) (simp add: d)
  qed
qed

lemma itoa_nonempty [simp]: "itoa n \<noteq> []"
  by (subst itoa.simps) simp

lemma decimal_snoc: "decimal (s @ [c]) = decimal s * 10 + digit_val c"
  by (simp add: decimal_def)

lemma decimal_itoa [simp]: "decimal (itoa n) = n"
proof (induction n rule: itoa.induct)
  case (1 n)
  show ?case
  proof (cases "n < 10")
    case True
    then show ?thesis by (subst itoa.simps) (simp add: decimal_def digit_val_def)
  next
    case False
    with 1 show ?thesis
      by (subst itoa.simps) (simp add: decimal_snoc digit_val_def)
  qed
qed

lemma itoa_inj: "itoa m = itoa n \<Longrightarrow> m = n"
  by (metis decimal_itoa)

lemma digits_not_sep: "list_all is_digit s \<Longrightarrow> c \<in> set s \<Longrightarrow> 48 \<le> ord c \<and> ord c \<le> 57"
  by (auto simp: list_all_iff is_digit_def)

lemma atoi_itoa:
  assumes "n < 2 ^ 63"
  shows "atoi (itoa n) = Some (int n)"
proof -
  have nosign: "\<not> has_prefix (itoa n) [c]" if "\<not> is_digit c" for c
    using itoa_digits [of n] that by (cases "itoa n") (auto simp: has_prefix_def)
  have "int n < 2 ^ 63" using assms by (metis of_nat_less_iff of_nat_numeral of_nat_power)
  moreover have "\<not> has_prefix (itoa n) ''-''" "\<not> has_prefix (itoa n) ''+''"
    by (rule nosign, simp add: is_digit_def)+
  ultimately show ?thesis
    by (simp add: atoi_def Let_def itoa_digits)
qed

subsection \<open>Host and port\<close>

datatype addr_error = MissingPort | TooManyColons | MissingBracket
  | UnexpectedOpenBracket | UnexpectedCloseBracket

definition split_host_port :: "bytes \<Rightarrow> addr_error + (bytes \<times> bytes)" where
  "split_host_port hp =
     (case last_index_byte hp (CHR '':'') of
        None \<Rightarrow> Inl MissingPort
      | Some i \<Rightarrow>
         (let port = drop (Suc i) hp;
              finish = (\<lambda>host j k.
                if contains_byte (drop j hp) (CHR ''['') then Inl UnexpectedOpenBracket
                else if contains_byte (drop k hp) (CHR '']'') then Inl UnexpectedCloseBracket
                else Inr (host, port)) in
          if has_prefix hp ''['' then
            (case index_byte hp (CHR '']'') of
               None \<Rightarrow> Inl MissingBracket
             | Some e \<Rightarrow>
                if Suc e = length hp then Inl MissingPort
                else if Suc e = i then finish (take (e - 1) (drop 1 hp)) 1 (Suc e)
                else if hp ! Suc e = CHR '':'' then Inl TooManyColons
                else Inl MissingPort)
          else
            (let host = take i hp in
             if contains_byte host (CHR '':'') then Inl TooManyColons
             else finish host 0 0)))"

lemma split_host_port_plain:
  assumes "set host \<inter> {CHR '':'', CHR ''['', CHR '']''} = {}"
    and "set port \<inter> {CHR '':'', CHR ''['', CHR '']''} = {}"
  shows "split_host_port (host @ CHR '':'' # port) = Inr (host, port)"
proof -
  have "last_index_byte (host @ CHR '':'' # port) (CHR '':'') = Some (length host)"
    using assms by (intro last_index_byte_append) auto
  moreover have "\<not> has_prefix (host @ CHR '':'' # port) ''[''"
    using assms by (cases host) (auto simp: has_prefix_def)
  ultimately show ?thesis
    using assms by (auto simp: split_host_port_def Let_def contains_byte_iff)
qed

subsection \<open>Textual addresses\<close>

definition ipv4_field :: "bytes \<Rightarrow> bool" where
  "ipv4_field f = (f \<noteq> [] \<and> list_all is_digit f \<and>
     (length f = 1 \<or> hd f \<noteq> CHR ''0'') \<and> decimal f \<le> 255)"

definition ipv4_ok :: "bytes \<Rightarrow> bool" where
  "ipv4_ok s = (length (split_on (CHR ''.'') s) = 4 \<and> list_all ipv4_field (split_on (CHR ''.'') s))"

definition is_hex :: "byte \<Rightarrow> bool" where
  "is_hex c = (is_digit c \<or> (97 \<le> ord c \<and> ord c \<le> 102) \<or> (65 \<le> ord c \<and> ord c \<le> 70))"

definition ipv6_end :: "nat \<Rightarrow> bool \<Rightarrow> bytes \<Rightarrow> bool" where
  "ipv6_end i ell s = (s = [] \<and> (if i < 16 then ell else \<not> ell))"

text \<open>The loop over the colon-separated groups: \<open>i\<close> bytes are filled, \<open>ell\<close> says whether the
  \<open>::\<close> was seen.\<close>

function ipv6_groups :: "nat \<Rightarrow> bool \<Rightarrow> bytes \<Rightarrow> bool" where
  "ipv6_groups i ell s =
     (if 16 \<le> i then ipv6_end i ell s
      else (let off = length (takeWhile is_hex s); rest = drop off s in
        if off = 0 \<or> 4 < off then False
        else if has_prefix rest ''.'' then
          (ell \<or> i = 12) \<and> i + 4 \<le> 16 \<and> ipv4_ok s \<and> ipv6_end (i + 4) ell []
        else if rest = [] then ipv6_end (i + 2) ell []
        else if hd rest \<noteq> CHR '':'' \<or> tl rest = [] then False
        else if hd (tl rest) = CHR '':'' then
          (if ell then False
           else if tl (tl rest) = [] then ipv6_end (i + 2) True []
           else ipv6_groups (i + 2) True (tl (tl rest)))
        else ipv6_groups (i + 2) ell (tl rest)))"
  by pat_completeness auto
termination
  by (relation "measure (\<lambda>(i, ell, s). 16 - i)") auto

declare ipv6_groups.simps [simp del]

definition ipv6_ok :: "bytes \<Rightarrow> bool" where
  "ipv6_ok s = (case cut_prefix s ''::'' of
      Some r \<Rightarrow> (if r = [] then True else ipv6_groups 0 True r)
    | None \<Rightarrow> ipv6_groups 0 False s)"

text \<open>\<^verbatim>\<open>net.ParseIP(s) != nil\<close>; an address with a zone is not an \<^verbatim>\<open>IP\<close>.\<close>

definition parse_ip :: "bytes \<Rightarrow> bool" where
  "parse_ip s =
     (case find (\<lambda>c. c = CHR ''.'' \<or> c = CHR '':'' \<or> c = CHR ''%'') s of
        None \<Rightarrow> False
      | Some c \<Rightarrow> if c = CHR ''.'' then ipv4_ok s
          else if c = CHR '':'' then \<not> contains_byte s (CHR ''%'') \<and> ipv6_ok s
          else False)"

end
