(* ===== verification/Go_IO.thy ===== *)
theory Go_IO
  imports Prelude
begin

text \<open>
  Go's \<^verbatim>\<open>io.Reader\<close> and \<^verbatim>\<open>io.Writer\<close>, as far as the sources depend on them.

  A reader is the bytes that will still arrive and the error that ends them; a reader over a
  stream the peer closed cleanly ends with \<open>EOF\<close>, a reset stream with \<open>Failed\<close>. A writer is what
  it has accepted so far, together with how much it will still accept before it fails
  (\<open>None\<close>: it never fails).
  The locale \<open>frame_codec\<close> at the end is the interface of a length-prefixed framing: both
  wire formats of the program provide it.
\<close>

datatype io_error = EOF | Unexpected_EOF | Failed string

record reader =
  avail :: bytes
  fin :: io_error

record writer =
  sent :: bytes
  room :: "nat option"

text \<open>\<^verbatim>\<open>io.ReadFull\<close>: a short read that ends in EOF after some bytes is \<^verbatim>\<open>io.ErrUnexpectedEOF\<close>.\<close>

definition read_full :: "nat \<Rightarrow> reader \<Rightarrow> io_error + (bytes \<times> reader)" where
  "read_full n r =
    (if n \<le> length (avail r) then Inr (take n (avail r), r\<lparr>avail := drop n (avail r)\<rparr>)
     else if avail r \<noteq> [] \<and> fin r = EOF then Inl Unexpected_EOF
     else Inl (fin r))"

definition write_bytes :: "bytes \<Rightarrow> writer \<Rightarrow> io_error option \<times> writer" where
  "write_bytes bs w =
    (case room w of
       None \<Rightarrow> (None, w\<lparr>sent := sent w @ bs\<rparr>)
     | Some k \<Rightarrow>
         if length bs \<le> k then (None, w\<lparr>sent := sent w @ bs, room := Some (k - length bs)\<rparr>)
         else (Some (Failed ''write''), w\<lparr>sent := sent w @ take k bs, room := Some 0\<rparr>))"

lemma read_full_append [simp]:
  "read_full (length p) \<lparr>avail = p @ rest, fin = e\<rparr> = Inr (p, \<lparr>avail = rest, fin = e\<rparr>)"
  by (simp add: read_full_def)

lemma read_full_exact:
  "length p = n \<Longrightarrow> read_full n \<lparr>avail = p @ rest, fin = e\<rparr> = Inr (p, \<lparr>avail = rest, fin = e\<rparr>)"
  by auto

lemma read_full_InrD:
  "read_full n r = Inr (p, r') \<Longrightarrow> avail r = p @ avail r' \<and> length p = n \<and> fin r' = fin r"
  by (auto simp: read_full_def split: if_splits)

lemma read_full_Inr_iff:
  "read_full n r = Inr (p, r') \<longleftrightarrow> avail r = p @ avail r' \<and> length p = n \<and> fin r' = fin r"
  by (cases r; cases r') (auto simp: read_full_def)

lemma read_full_InlD: "read_full n r = Inl e \<Longrightarrow> length (avail r) < n"
  by (auto simp: read_full_def split: if_splits)

lemma read_full_is_ok [go_simps]: "is_ok (read_full n r) \<longleftrightarrow> n \<le> length (avail r)"
  by (simp add: read_full_def)

lemma write_bytes_sent:
  "write_bytes bs w = (None, w') \<Longrightarrow> sent w' = sent w @ bs"
  by (auto simp: write_bytes_def split: option.splits if_splits)

lemma write_bytes_prefix: "write_bytes bs w = (e, w') \<Longrightarrow> prefix (sent w) (sent w')"
  by (auto simp: write_bytes_def split: option.splits if_splits)

subsection \<open>The interface of a framing\<close>

text \<open>
  \<open>enc\<close> is the bytes put on the stream for a payload, when the payload can be framed at all;
  \<open>dec\<close> takes one frame off a reader. The two laws say that the reader undoes the writer
  whatever follows on the stream, and that a frame it accepts is one the writer could have
  produced.
\<close>

locale frame_codec =
  fixes enc :: "bytes \<Rightarrow> 'e + bytes"
    and dec :: "reader \<Rightarrow> 'f + (bytes \<times> reader)"
  assumes dec_enc: "enc p = Inr f \<Longrightarrow>
      dec \<lparr>avail = f @ rest, fin = e\<rparr> = Inr (p, \<lparr>avail = rest, fin = e\<rparr>)"
    and enc_dec: "dec r = Inr (p, r') \<Longrightarrow>
      \<exists>f. enc p = Inr f \<and> avail r = f @ avail r' \<and> fin r' = fin r"
begin

lemma enc_inj:
  assumes "enc p = Inr f" "enc q = Inr f"
  shows "p = q"
  using dec_enc [OF assms(1), of "[]" EOF] dec_enc [OF assms(2), of "[]" EOF] by simp

lemma enc_prefix_free:
  assumes "enc p = Inr f" "enc q = Inr (f @ g)"
  shows "g = [] \<and> p = q"
  using dec_enc [OF assms(1), of g EOF] dec_enc [OF assms(2), of "[]" EOF] by simp

lemma truncated_refused:
  assumes "enc p = Inr f" "strict_prefix s f"
  shows "\<exists>err. dec \<lparr>avail = s, fin = e\<rparr> = Inl err"
proof (cases "dec \<lparr>avail = s, fin = e\<rparr>")
  case (Inr x)
  then obtain q r' where x: "dec \<lparr>avail = s, fin = e\<rparr> = Inr (q, r')"
    by (cases x) auto
  obtain f' where "enc q = Inr f'" "s = f' @ avail r'"
    using enc_dec [OF x] by auto
  moreover obtain g where "f = s @ g" "g \<noteq> []"
    using assms(2) by (auto elim: strict_prefixE')
  ultimately show ?thesis
    using enc_prefix_free [of q f' p "avail r' @ g"] assms(1) by auto
qed simp

lemma unique_reading:
  assumes "dec r = Inr (p, r1)" "enc q = Inr f" "avail r = f @ rest"
  shows "q = p \<and> avail r1 = rest"
proof -
  have "r = \<lparr>avail = f @ rest, fin = fin r\<rparr>"
    using assms(3) by (cases r) simp
  then have "dec r = Inr (q, \<lparr>avail = rest, fin = fin r\<rparr>)"
    using dec_enc [OF assms(2)] by metis
  then show ?thesis using assms(1) by simp
qed

fun dec_many :: "nat \<Rightarrow> reader \<Rightarrow> 'f + (bytes list \<times> reader)" where
  "dec_many 0 r = Inr ([], r)"
| "dec_many (Suc n) r =
    (case dec r of Inl e \<Rightarrow> Inl e
     | Inr (p, r') \<Rightarrow> (case dec_many n r' of Inl e \<Rightarrow> Inl e | Inr (ps, r'') \<Rightarrow> Inr (p # ps, r'')))"

lemma dec_many_concat:
  assumes "list_all2 (\<lambda>p f. enc p = Inr f) ps fs"
  shows "dec_many (length ps) \<lparr>avail = concat fs @ rest, fin = e\<rparr> =
           Inr (ps, \<lparr>avail = rest, fin = e\<rparr>)"
  using assms by (induction rule: list_all2_induct) (simp_all add: dec_enc)

end

end
