(* ===== verification/Go_Base64.thy ===== *)
theory Go_Base64
  imports Go_Strings
begin

text \<open>
  Go's \<^verbatim>\<open>encoding/base64\<close>, the standard encoding with padding, which pins are written in.

  The decoder skips line breaks anywhere and, not being strict, does not look at the unused bits of the
  last character, so several texts decode to the same bytes; the encoder's is one of them. The position
  an error message names is not modelled.
\<close>

definition b64_alphabet :: string where
  "b64_alphabet = ''ABCDEFGHIJKLMNOPQRSTUVWXYZabcdefghijklmnopqrstuvwxyz0123456789+/''"

definition b64_digit :: "nat \<Rightarrow> char" where "b64_digit n = b64_alphabet ! n"

definition b64_value :: "char \<Rightarrow> nat option" where
  "b64_value c = find (\<lambda>i. b64_digit i = c) [0..<64]"

definition b64_pad :: char where "b64_pad = CHR ''=''"

fun b64_encode :: "bytes \<Rightarrow> string" where
  "b64_encode [] = []"
| "b64_encode [a] = [b64_digit (ord a div 4), b64_digit (ord a mod 4 * 16), b64_pad, b64_pad]"
| "b64_encode [a, b] =
    [b64_digit (ord a div 4), b64_digit (ord a mod 4 * 16 + ord b div 16), b64_digit (ord b mod 16 * 4), b64_pad]"
| "b64_encode (a # b # c # s) =
    [b64_digit (ord a div 4), b64_digit (ord a mod 4 * 16 + ord b div 16),
     b64_digit (ord b mod 16 * 4 + ord c div 64), b64_digit (ord c mod 64)] @ b64_encode s"

definition b64_bytes :: "nat \<Rightarrow> nat \<Rightarrow> nat \<Rightarrow> nat \<Rightarrow> bytes" where
  "b64_bytes v w x y =
    [char_of (v * 4 + w div 16), char_of (w mod 16 * 16 + x div 4), char_of (x mod 4 * 64 + y)]"

fun b64_quanta :: "string \<Rightarrow> bytes option" where
  "b64_quanta [] = Some []"
| "b64_quanta (p # q # r # t # s) =
    (case (b64_value p, b64_value q) of
       (Some v, Some w) \<Rightarrow>
         (case b64_value r of
            None \<Rightarrow> if r = b64_pad \<and> t = b64_pad \<and> s = [] then Some (take 1 (b64_bytes v w 0 0)) else None
          | Some x \<Rightarrow>
            (case b64_value t of
               None \<Rightarrow> if t = b64_pad \<and> s = [] then Some (take 2 (b64_bytes v w x 0)) else None
             | Some y \<Rightarrow> map_option (\<lambda>bs. b64_bytes v w x y @ bs) (b64_quanta s)))
     | _ \<Rightarrow> None)"
| "b64_quanta _ = None"

definition b64_decode :: "string \<Rightarrow> bytes option" where
  "b64_decode s = b64_quanta (filter (\<lambda>c. c \<noteq> CHR 0x0D \<and> c \<noteq> CHR 0x0A) s)"

subsection \<open>Decoding undoes encoding\<close>

lemma b64_alphabet_facts: "distinct b64_alphabet" "length b64_alphabet = 64" "b64_pad \<notin> set b64_alphabet"
  by (simp_all add: b64_alphabet_def b64_pad_def)

lemma b64_value_digit [simp]: "n < 64 \<Longrightarrow> b64_value (b64_digit n) = Some n"
proof -
  assume n: "n < 64"
  have inj: "b64_digit i = b64_digit j \<longleftrightarrow> i = j" if "i < 64" "j < 64" for i j
    using that b64_alphabet_facts(1,2) by (simp add: b64_digit_def nth_eq_iff_index_eq)
  have "find (\<lambda>i. b64_digit i = b64_digit n) [0..<64] = Some n"
    unfolding find_Some_iff using n inj by (intro exI [of _ n]) (auto intro: order.strict_trans)
  then show ?thesis by (simp add: b64_value_def)
qed

lemma b64_value_pad [simp]: "b64_value b64_pad = None"
  using b64_alphabet_facts(2,3) by (auto simp: b64_value_def find_None_iff b64_digit_def) (metis nth_mem)

lemma b64_digit_neq_pad [simp]: "n < 64 \<Longrightarrow> b64_digit n \<noteq> b64_pad"
  using b64_value_digit [of n] b64_value_pad by (metis option.distinct(1))

lemma byte_parts:
  "ord a div 4 < 64" "ord a mod 4 * 16 + ord b div 16 < 64" "ord b mod 16 * 4 + ord c div 64 < 64"
  "ord c mod 64 < 64" "ord a mod 4 * 16 < 64" "ord b mod 16 * 4 < 64"
proof -
  have "ord b div 16 < 16" "ord c div 64 < 4" "ord a mod 4 < 4" "ord b mod 16 < 16"
    using ord_less_256 [of b] ord_less_256 [of c] by (simp_all add: less_mult_imp_div_less)
  then show "ord a mod 4 * 16 + ord b div 16 < 64" "ord b mod 16 * 4 + ord c div 64 < 64"
    "ord a mod 4 * 16 < 64" "ord b mod 16 * 4 < 64" by linarith+
qed (use ord_less_256 [of a] in \<open>simp_all add: less_mult_imp_div_less\<close>)

lemma split_parts:
  "(q * d + r) div d = q" "(q * d + r) mod d = r" if "r < d" for q d r :: nat
  using that by simp_all

lemma b64_bytes_parts:
  "b64_bytes (ord a div 4) (ord a mod 4 * 16 + ord b div 16) (ord b mod 16 * 4 + ord c div 64) (ord c mod 64) = [a, b, c]"
proof -
  have "ord b div 16 < 16" "ord c div 64 < 4"
    using ord_less_256 [of b] ord_less_256 [of c] by (simp_all add: less_mult_imp_div_less)
  then show ?thesis by (simp add: b64_bytes_def split_parts mult.commute [of _ 4] mult.commute [of _ 16] mult.commute [of _ 64])
qed

lemma b64_quanta_encode: "b64_quanta (b64_encode bs) = Some bs"
proof (induction bs rule: b64_encode.induct)
  case (2 a)
  show ?case using byte_parts b64_bytes_parts [of a "CHR 0x00" "CHR 0x00"] by (simp add: b64_bytes_def)
next
  case (3 a b)
  show ?case using byte_parts b64_bytes_parts [of a b "CHR 0x00"] by (simp add: b64_bytes_def)
next
  case (4 a b c s)
  then show ?case using byte_parts b64_bytes_parts [of a b c] by simp
qed simp

lemma b64_digit_plain: "n < 64 \<Longrightarrow> 43 \<le> ord (b64_digit n) \<and> ord (b64_digit n) \<le> 122"
proof -
  assume "n < 64"
  then have "b64_digit n \<in> set b64_alphabet"
    using b64_alphabet_facts(2) by (simp add: b64_digit_def)
  moreover have "\<forall>c\<in>set b64_alphabet. 43 \<le> ord c \<and> ord c \<le> 122" by (simp add: b64_alphabet_def)
  ultimately show ?thesis by blast
qed

lemma b64_encode_chars: "c \<in> set (b64_encode bs) \<Longrightarrow> 43 \<le> ord c \<and> ord c \<le> 122"
proof (induction bs rule: b64_encode.induct)
  case (2 a)
  then show ?case using b64_digit_plain byte_parts by (auto simp: b64_pad_def)
next
  case (3 a b)
  then show ?case using b64_digit_plain byte_parts by (auto simp: b64_pad_def)
next
  case (4 a b x s)
  then show ?case using b64_digit_plain byte_parts by auto
qed simp

lemma b64_decode_encode [simp]: "b64_decode (b64_encode bs) = Some bs"
proof -
  have "filter (\<lambda>c. c \<noteq> CHR 0x0D \<and> c \<noteq> CHR 0x0A) (b64_encode bs) = b64_encode bs"
    using b64_encode_chars by (intro filter_True) fastforce
  then show ?thesis by (simp add: b64_decode_def b64_quanta_encode)
qed

lemma b64_encode_inj: "b64_encode a = b64_encode b \<longleftrightarrow> a = b"
  using b64_decode_encode by (metis option.inject)

lemma length_b64_encode: "length (b64_encode bs) = 4 * ((length bs + 2) div 3)"
proof (induction bs rule: b64_encode.induct)
  case (4 a b c s)
  have "(length (a # b # c # s) + 2) div 3 = Suc ((length s + 2) div 3)"
    using div_add_self2 [of 3 "length s + 2"] by (simp add: add.commute)
  then show ?case using 4 by simp
qed simp_all

end
