(* ===== verification/Go_Path.thy ===== *)
theory Go_Path
  imports Go_Strings
begin

text \<open>
  Go's \<^verbatim>\<open>path/filepath\<close> on Unix: \<^verbatim>\<open>Clean\<close> and \<^verbatim>\<open>Join\<close>. \<^verbatim>\<open>Clean\<close> is the lexical rule its documentation
  gives, over the list of components.
\<close>

definition slash :: byte where "slash = CHR ''/''"

fun clean_parts :: "bool \<Rightarrow> string list \<Rightarrow> string list \<Rightarrow> string list" where
  "clean_parts rooted out [] = out"
| "clean_parts rooted out (c # cs) =
    (if c = [] \<or> c = ''.'' then clean_parts rooted out cs
     else if c = ''..'' then
       (if out \<noteq> [] \<and> last out \<noteq> ''..'' then clean_parts rooted (butlast out) cs
        else if rooted then clean_parts rooted out cs
        else clean_parts rooted (out @ [c]) cs)
     else clean_parts rooted (out @ [c]) cs)"

definition path_clean :: "string \<Rightarrow> string" where
  "path_clean p =
    (if p = [] then ''.''
     else (let rooted = (hd p = slash); out = join_with slash (clean_parts rooted [] (split_on slash p)) in
       if rooted then slash # out else if out = [] then ''.'' else out))"

definition path_join :: "string list \<Rightarrow> string" where
  "path_join es =
    (let ne = filter (\<lambda>e. e \<noteq> []) es in if ne = [] then [] else path_clean (join_with slash ne))"

definition is_abs :: "string \<Rightarrow> bool" where "is_abs p \<longleftrightarrow> has_prefix p [slash]"

lemma is_abs_iff: "is_abs p \<longleftrightarrow> (\<exists>t. p = slash # t)"
  by (simp add: is_abs_def has_prefix_iff)

lemma path_clean_abs [simp]: "is_abs p \<Longrightarrow> is_abs (path_clean p)"
  by (auto simp: is_abs_iff path_clean_def Let_def)

lemma path_join_abs: "is_abs e \<Longrightarrow> is_abs (path_join (e # es))"
proof -
  assume e: "is_abs e"
  then obtain t where t: "e = slash # t" by (auto simp: is_abs_iff)
  then have "is_abs (join_with slash (filter (\<lambda>e. e \<noteq> []) (e # es)))"
    by (cases "filter (\<lambda>e. e \<noteq> []) es") (auto simp: is_abs_iff)
  then show ?thesis using t by (simp add: path_join_def)
qed

end
