(* ===== verification/Go_Errors.thy ===== *)
theory Go_Errors
  imports Main
begin

text \<open>
  Go's error values as trees: an error and the errors it wraps (\<^verbatim>\<open>fmt.Errorf\<close> with several \<^verbatim>\<open>%w\<close>
  wraps several). \<open>find_as\<close> is \<^verbatim>\<open>errors.As\<close>: the first match in a depth-first, left-to-right walk;
  \<open>is_error\<close> is \<^verbatim>\<open>errors.Is\<close> for a sentinel. A nil error is the absence of a tree.
\<close>

datatype 'k go_error = Go_error 'k "'k go_error list"

fun walk :: "'k go_error \<Rightarrow> 'k list" where
  "walk (Go_error k es) = k # concat (map walk es)"

definition find_as :: "('k \<Rightarrow> 'a option) \<Rightarrow> 'k go_error \<Rightarrow> 'a option" where
  "find_as f e = (case filter (\<lambda>k. f k \<noteq> None) (walk e) of [] \<Rightarrow> None | k # _ \<Rightarrow> f k)"

definition is_error :: "'k \<Rightarrow> 'k go_error \<Rightarrow> bool" where
  "is_error k e \<longleftrightarrow> k \<in> set (walk e)"

lemma find_as_None_iff: "find_as f e = None \<longleftrightarrow> (\<forall>k\<in>set (walk e). f k = None)"
proof (cases "filter (\<lambda>k. f k \<noteq> None) (walk e)")
  case Nil
  then show ?thesis by (auto simp: find_as_def filter_empty_conv)
next
  case (Cons k ks)
  have "k \<in> set (filter (\<lambda>k. f k \<noteq> None) (walk e))"
    unfolding Cons by simp
  then have "f k \<noteq> None" "k \<in> set (walk e)" by simp_all
  then show ?thesis using Cons by (auto simp: find_as_def)
qed

lemma find_as_first: "f k = Some x \<Longrightarrow> find_as f (Go_error k es) = Some x"
  by (simp add: find_as_def)

lemma find_as_skip:
  "f k = None \<Longrightarrow> find_as f (Go_error k [e]) = find_as f e"
  by (simp add: find_as_def)

lemma find_as_skip2:
  "f k = None \<Longrightarrow> f k' = None \<Longrightarrow> find_as f (Go_error k [Go_error k' [], e]) = find_as f e"
  by (simp add: find_as_def)

lemma is_error_wrap: "is_error k (Go_error k' es) \<longleftrightarrow> k = k' \<or> (\<exists>e\<in>set es. is_error k e)"
  by (auto simp: is_error_def)

end
