(* ===== verification/Proto.thy ===== *)
theory Proto
  imports Go_IO Go_Strings Go_Net "HOL-Library.Word"
begin

text \<open>
  Package \<^verbatim>\<open>internal/proto\<close>: the quic-link wire protocol, and the request identifier of
  \<^verbatim>\<open>internal/tunnel/reqid.go\<close>.

  A stream begins with one header frame and one response frame. A frame is a version byte, a
  16-bit big-endian length and at most \<^verbatim>\<open>MaxFramePayload\<close> bytes of CBOR. CBOR itself is a
  third-party package: its encoder and decoder are arguments of the definitions that use them.
\<close>

subsection \<open>Constants and statuses\<close>

definition proto_version :: byte where "proto_version = CHR 0x01"
definition max_frame_payload :: nat where "max_frame_payload = 4096"
definition stream_reset_code :: nat where "stream_reset_code = 16"

definition kind_tcp :: string where "kind_tcp = ''tcp''"
definition kind_http :: string where "kind_http = ''http''"
definition kind_control :: string where "kind_control = ''control''"

text \<open>\<^verbatim>\<open>Status\<close> is an unsigned machine word: a peer may send a value no constant names.\<close>

type_synonym status = "64 word"

definition status_ok :: status where "status_ok = 0"
definition status_unknown_target :: status where "status_unknown_target = 1"
definition status_unauthorized :: status where "status_unauthorized = 2"
definition status_dial_failed :: status where "status_dial_failed = 3"
definition status_draining :: status where "status_draining = 4"
definition status_bad_header :: status where "status_bad_header = 5"
definition status_unsupported_version :: status where "status_unsupported_version = 6"

lemmas status_defs = status_ok_def status_unknown_target_def status_unauthorized_def
  status_dial_failed_def status_draining_def status_bad_header_def status_unsupported_version_def

definition status_string :: "status \<Rightarrow> string" where
  "status_string s =
    (if s = status_ok then ''ok''
     else if s = status_unknown_target then ''unknown_target''
     else if s = status_unauthorized then ''unauthorized''
     else if s = status_dial_failed then ''dial_failed''
     else if s = status_draining then ''draining''
     else if s = status_bad_header then ''bad_header''
     else if s = status_unsupported_version then ''unsupported_version''
     else ''status('' @ itoa (unat s) @ '')'')"

definition exit_code_for_status :: "status \<Rightarrow> nat" where
  "exit_code_for_status s =
    (if s = status_ok then 0
     else if s = status_unauthorized then 4
     else if s = status_unknown_target \<or> s = status_dial_failed \<or> s = status_draining then 5
     else 1)"

subsection \<open>Errors and messages\<close>

datatype bad_header =
    Bad_cbor string
  | Missing_target
  | Target_is_address string
  | Missing_host
  | Unknown_kind string

datatype proto_error =
    Unsupported_version byte
  | Frame_too_large nat
  | Bad_header bad_header
  | Marshal_header string
  | Marshal_response string
  | Parse_response string
  | Io io_error

record header =
  h_kind :: string
  h_target :: string
  h_host :: string
  h_port :: "64 word"
  h_meta :: "string \<rightharpoonup> string"

record response =
  r_status :: status
  r_msg :: string

subsection \<open>Frames\<close>

definition frame_bytes :: "bytes \<Rightarrow> proto_error + bytes" where
  "frame_bytes payload =
    (if max_frame_payload < length payload then Inl (Frame_too_large (length payload))
     else Inr (proto_version # be16 (length payload) @ payload))"

definition write_frame :: "writer \<Rightarrow> bytes \<Rightarrow> proto_error option \<times> writer" where
  "write_frame w payload =
    (case frame_bytes payload of
       Inl e \<Rightarrow> (Some e, w)
     | Inr buf \<Rightarrow> (let (err, w') = write_bytes buf w in (map_option Io err, w')))"

definition read_frame :: "reader \<Rightarrow> proto_error + (bytes \<times> reader)" where
  "read_frame r =
    (case read_full 1 r of
       Inl e \<Rightarrow> Inl (Io e)
     | Inr (ver, r1) \<Rightarrow>
         if hd ver \<noteq> proto_version then Inl (Unsupported_version (hd ver))
         else (case read_full 2 r1 of
             Inl e \<Rightarrow> Inl (Io e)
           | Inr (len, r2) \<Rightarrow>
               if max_frame_payload < unbe len then Inl (Frame_too_large (unbe len))
               else (case read_full (unbe len) r2 of
                   Inl e \<Rightarrow> Inl (Io e)
                 | Inr (payload, r3) \<Rightarrow> Inr (payload, r3))))"

subsection \<open>Headers and responses\<close>

definition validate_header :: "header \<Rightarrow> proto_error + header" where
  "validate_header h =
    (if h_kind h = kind_tcp then
       (if h_target h = [] then Inl (Bad_header Missing_target)
        else if contains_any (h_target h) '':/'' then Inl (Bad_header (Target_is_address (h_target h)))
        else Inr h)
     else if h_kind h = kind_http then
       (if h_host h = [] then Inl (Bad_header Missing_host) else Inr h)
     else if h_kind h = kind_control then Inr h
     else Inl (Bad_header (Unknown_kind (h_kind h))))"

definition parse_header :: "(bytes \<Rightarrow> string + header) \<Rightarrow> bytes \<Rightarrow> proto_error + header" where
  "parse_header cbor_dec payload =
    (case cbor_dec payload of
       Inl e \<Rightarrow> Inl (Bad_header (Bad_cbor e))
     | Inr h \<Rightarrow> validate_header h)"

definition parse_response :: "(bytes \<Rightarrow> string + response) \<Rightarrow> bytes \<Rightarrow> proto_error + response" where
  "parse_response cbor_dec payload =
    (case cbor_dec payload of Inl e \<Rightarrow> Inl (Parse_response e) | Inr r \<Rightarrow> Inr r)"

definition write_header ::
  "(header \<Rightarrow> string + bytes) \<Rightarrow> writer \<Rightarrow> header \<Rightarrow> proto_error option \<times> writer" where
  "write_header cbor_enc w h =
    (case cbor_enc h of Inl e \<Rightarrow> (Some (Marshal_header e), w) | Inr p \<Rightarrow> write_frame w p)"

definition read_header ::
  "(bytes \<Rightarrow> string + header) \<Rightarrow> reader \<Rightarrow> proto_error + (header \<times> reader)" where
  "read_header cbor_dec r =
    (case read_frame r of
       Inl e \<Rightarrow> Inl e
     | Inr (p, r') \<Rightarrow> (case parse_header cbor_dec p of Inl e \<Rightarrow> Inl e | Inr h \<Rightarrow> Inr (h, r')))"

definition write_response ::
  "(response \<Rightarrow> string + bytes) \<Rightarrow> writer \<Rightarrow> response \<Rightarrow> proto_error option \<times> writer" where
  "write_response cbor_enc w r =
    (case cbor_enc r of Inl e \<Rightarrow> (Some (Marshal_response e), w) | Inr p \<Rightarrow> write_frame w p)"

definition read_response ::
  "(bytes \<Rightarrow> string + response) \<Rightarrow> reader \<Rightarrow> proto_error + (response \<times> reader)" where
  "read_response cbor_dec r =
    (case read_frame r of
       Inl e \<Rightarrow> Inl e
     | Inr (p, r') \<Rightarrow> (case parse_response cbor_dec p of Inl e \<Rightarrow> Inl e | Inr h \<Rightarrow> Inr (h, r')))"

subsection \<open>Request identifiers\<close>

text \<open>\<^verbatim>\<open>NewReqID\<close>: \<open>rand\<close> is what the random source returned for eight bytes.\<close>

definition hex_digit :: "nat \<Rightarrow> char" where
  "hex_digit n = ''0123456789abcdef'' ! n"

definition hex_encode :: "bytes \<Rightarrow> string" where
  "hex_encode bs = concat (map (\<lambda>b. [hex_digit (ord b div 16), hex_digit (ord b mod 16)]) bs)"

definition new_req_id :: "string + bytes \<Rightarrow> string" where
  "new_req_id rand = (case rand of Inl _ \<Rightarrow> [] | Inr b \<Rightarrow> hex_encode (take 8 b))"

subsection \<open>The framing satisfies its interface\<close>

lemma read_frame_framed:
  assumes "frame_bytes p = Inr f"
  shows "read_frame \<lparr>avail = f @ rest, fin = e\<rparr> = Inr (p, \<lparr>avail = rest, fin = e\<rparr>)"
proof -
  have len: "length p \<le> max_frame_payload" and f: "f = [proto_version] @ be16 (length p) @ p"
    using assms by (auto simp: frame_bytes_def split: if_splits)
  have small: "length p < 65536"
    using len by (simp add: max_frame_payload_def)
  have "read_full 1 \<lparr>avail = f @ rest, fin = e\<rparr> =
      Inr ([proto_version], \<lparr>avail = be16 (length p) @ p @ rest, fin = e\<rparr>)"
    using read_full_exact [of "[proto_version]" 1] by (simp add: f)
  then show ?thesis
    using len small by (simp add: read_frame_def read_full_exact)
qed

lemma read_frame_InrD:
  assumes "read_frame r = Inr (p, r')"
  shows "\<exists>f. frame_bytes p = Inr f \<and> avail r = f @ avail r' \<and> fin r' = fin r"
proof -
  obtain ver len r1 r2 where
    1: "read_full 1 r = Inr (ver, r1)" "hd ver = proto_version" and
    2: "read_full 2 r1 = Inr (len, r2)" "unbe len \<le> max_frame_payload" and
    3: "read_full (unbe len) r2 = Inr (p, r')"
    using assms by (auto simp: read_frame_def split: sum.splits prod.splits if_splits)
  have "ver = [proto_version]"
    using 1 by (cases ver) (auto simp: read_full_Inr_iff)
  moreover have "be16 (length p) = len"
    using 2 3 by (simp add: read_full_Inr_iff be16_inverse)
  ultimately show ?thesis
    using 1 2 3 by (simp add: read_full_Inr_iff frame_bytes_def)
qed

interpretation proto_frame: frame_codec frame_bytes read_frame
  by unfold_locales (simp_all add: read_frame_framed read_frame_InrD)

text \<open>Taking several frames off one stream, to state what a reader of the stream sees.\<close>

fun read_frames :: "nat \<Rightarrow> reader \<Rightarrow> proto_error + (bytes list \<times> reader)" where
  "read_frames 0 r = Inr ([], r)"
| "read_frames (Suc n) r =
    (case read_frame r of Inl e \<Rightarrow> Inl e
     | Inr (p, r') \<Rightarrow> (case read_frames n r' of Inl e \<Rightarrow> Inl e | Inr (ps, r'') \<Rightarrow> Inr (p # ps, r'')))"

lemma read_frames_dec_many: "read_frames n r = proto_frame.dec_many n r"
  by (induction n arbitrary: r) (simp_all split: sum.splits prod.splits)

lemma write_frame_ok:
  "write_frame w p = (None, w') \<Longrightarrow> \<exists>f. frame_bytes p = Inr f \<and> sent w' = sent w @ f"
  by (auto simp: write_frame_def write_bytes_sent split: sum.splits prod.splits)

lemma write_frame_too_large:
  "max_frame_payload < length p \<Longrightarrow> write_frame w p = (Some (Frame_too_large (length p)), w)"
  by (simp add: write_frame_def frame_bytes_def)

lemma frame_bytes_ok_iff: "(\<exists>f. frame_bytes p = Inr f) \<longleftrightarrow> length p \<le> max_frame_payload"
  by (auto simp: frame_bytes_def)

subsection \<open>Headers\<close>

definition good_header :: "header \<Rightarrow> bool" where
  "good_header h \<longleftrightarrow>
     h_kind h = kind_tcp \<and> h_target h \<noteq> [] \<and> CHR '':'' \<notin> set (h_target h) \<and> CHR ''/'' \<notin> set (h_target h)
   \<or> h_kind h = kind_http \<and> h_host h \<noteq> []
   \<or> h_kind h = kind_control"

lemma kinds_distinct [simp]:
  "kind_tcp \<noteq> kind_http" "kind_tcp \<noteq> kind_control" "kind_http \<noteq> kind_control"
  "kind_http \<noteq> kind_tcp" "kind_control \<noteq> kind_tcp" "kind_control \<noteq> kind_http"
  by (simp_all add: kind_tcp_def kind_http_def kind_control_def)

lemma validate_header_ok_iff: "validate_header h = Inr h' \<longleftrightarrow> h' = h \<and> good_header h"
  by (auto simp: validate_header_def good_header_def contains_any_iff)

lemma validate_header_total: "validate_header h = Inr h \<or> (\<exists>b. validate_header h = Inl (Bad_header b))"
  by (simp add: validate_header_def)

lemma read_header_InrD:
  assumes "read_header cbor_dec r = Inr (h, r')"
  shows "good_header h \<and> (\<exists>p. read_frame r = Inr (p, r') \<and> cbor_dec p = Inr h)"
  using assms
  by (auto simp: read_header_def parse_header_def validate_header_ok_iff
      split: sum.splits prod.splits)

lemma write_header_bytes:
  assumes "write_header cbor_enc w h = (None, w')"
  shows "\<exists>p f. cbor_enc h = Inr p \<and> frame_bytes p = Inr f \<and> sent w' = sent w @ f"
  using assms write_frame_ok [of w _ w'] by (auto simp: write_header_def split: sum.splits)

lemma write_header_unbounded:
  assumes "cbor_enc h = Inr p" "frame_bytes p = Inr f"
  shows "write_header cbor_enc \<lparr>sent = s, room = None\<rparr> h = (None, \<lparr>sent = s @ f, room = None\<rparr>)"
  using assms by (simp add: write_header_def write_frame_def write_bytes_def)

lemma read_header_framed:
  assumes "cbor_dec p = Inr h" "frame_bytes p = Inr f" "good_header h"
  shows "read_header cbor_dec \<lparr>avail = f @ rest, fin = e\<rparr> = Inr (h, \<lparr>avail = rest, fin = e\<rparr>)"
proof -
  have "validate_header h = Inr h"
    using assms(3) by (simp add: validate_header_ok_iff)
  then show ?thesis
    using assms by (simp add: read_header_def read_frame_framed parse_header_def)
qed

lemma read_response_framed:
  assumes "cbor_dec p = Inr x" "frame_bytes p = Inr f"
  shows "read_response cbor_dec \<lparr>avail = f @ rest, fin = e\<rparr> = Inr (x, \<lparr>avail = rest, fin = e\<rparr>)"
  using assms by (simp add: read_response_def read_frame_framed parse_response_def)

lemma write_response_unbounded:
  assumes "cbor_enc x = Inr p" "frame_bytes p = Inr f"
  shows "write_response cbor_enc \<lparr>sent = s, room = None\<rparr> x = (None, \<lparr>sent = s @ f, room = None\<rparr>)"
  using assms by (simp add: write_response_def write_frame_def write_bytes_def)

subsection \<open>Statuses and identifiers\<close>

lemma exit_code_zero_iff: "exit_code_for_status s = 0 \<longleftrightarrow> s = status_ok"
  by (simp add: exit_code_for_status_def)

lemma exit_code_range: "exit_code_for_status s \<in> {0, 1, 4, 5}"
  by (simp add: exit_code_for_status_def)

lemma hex_digit_inj: "a < 16 \<Longrightarrow> b < 16 \<Longrightarrow> hex_digit a = hex_digit b \<Longrightarrow> a = b"
proof -
  have "distinct ''0123456789abcdef''" "length ''0123456789abcdef'' = 16"
    by simp_all
  then show "a < 16 \<Longrightarrow> b < 16 \<Longrightarrow> hex_digit a = hex_digit b \<Longrightarrow> a = b"
    unfolding hex_digit_def by (metis nth_eq_iff_index_eq)
qed

lemma length_hex_encode [simp]: "length (hex_encode bs) = 2 * length bs"
  by (induction bs) (simp_all add: hex_encode_def)

lemma hex_encode_Cons:
  "hex_encode (b # bs) = hex_digit (ord b div 16) # hex_digit (ord b mod 16) # hex_encode bs"
  by (simp add: hex_encode_def)

lemma ord_nibble: "ord b div 16 < 16" "ord b mod 16 < 16"
  using ord_less_256 [of b] by (simp_all add: less_mult_imp_div_less)

lemma hex_encode_inj: "hex_encode xs = hex_encode ys \<Longrightarrow> xs = ys"
proof (induction xs arbitrary: ys)
  case Nil
  then show ?case
    using length_hex_encode [of ys] by (cases ys) (simp_all add: hex_encode_def)
next
  case (Cons x xs)
  then obtain y ys' where ys: "ys = y # ys'"
    using length_hex_encode [of ys] by (cases ys) (simp_all add: hex_encode_def)
  have "ord x div 16 = ord y div 16" "ord x mod 16 = ord y mod 16"
    using Cons.prems ord_nibble hex_digit_inj by (simp_all add: ys hex_encode_Cons)
  then have "ord x = ord y"
    by (metis div_mult_mod_eq)
  then show ?case
    using Cons by (simp add: ys hex_encode_Cons)
qed

lemma length_new_req_id:
  "length b = 8 \<Longrightarrow> length (new_req_id (Inr b)) = 16"
  by (simp add: new_req_id_def)

subsection \<open>Properties of the wire protocol\<close>

text \<open>
  A header that \<^verbatim>\<open>ParseHeader\<close> would accept and whose CBOR encoding fits a frame is read back
  exactly by \<^verbatim>\<open>ReadHeader\<close> from the bytes \<^verbatim>\<open>WriteHeader\<close> put on the stream, whatever follows it;
  the bytes that follow are left for the payload. The CBOR codec appears only through its
  round trip on this header.
\<close>

theorem header_roundtrip:
  assumes "cbor_enc h = Inr p" and "cbor_dec p = Inr h"
    and "good_header h" and "length p \<le> max_frame_payload"
  shows "\<exists>f. write_header cbor_enc \<lparr>sent = s, room = None\<rparr> h = (None, \<lparr>sent = s @ f, room = None\<rparr>)
           \<and> read_header cbor_dec \<lparr>avail = f @ rest, fin = e\<rparr> = Inr (h, \<lparr>avail = rest, fin = e\<rparr>)"
proof -
  obtain f where "frame_bytes p = Inr f"
    using assms(4) frame_bytes_ok_iff by blast
  then show ?thesis
    using assms write_header_unbounded read_header_framed by metis
qed

theorem header_roundtrip_witness:
  "let h = \<lparr>h_kind = ''tcp'', h_target = ''db'', h_host = [], h_port = 0, h_meta = Map.empty\<rparr>
   in \<exists>f. write_header (\<lambda>_. Inr ''x'') \<lparr>sent = [], room = None\<rparr> h = (None, \<lparr>sent = f, room = None\<rparr>)
        \<and> read_header (\<lambda>_. Inr h) \<lparr>avail = f @ ''payload'', fin = EOF\<rparr>
            = Inr (h, \<lparr>avail = ''payload'', fin = EOF\<rparr>)"
  using header_roundtrip [of "\<lambda>_. Inr ''x''"
      "\<lparr>h_kind = ''tcp'', h_target = ''db'', h_host = [], h_port = 0, h_meta = Map.empty\<rparr>" "''x''"
      "\<lambda>_. Inr \<lparr>h_kind = ''tcp'', h_target = ''db'', h_host = [], h_port = 0, h_meta = Map.empty\<rparr>"
      "[]" "''payload''" EOF]
  by (simp add: good_header_def kind_tcp_def max_frame_payload_def Let_def)

text \<open>
  \<^verbatim>\<open>ReadFrame\<close> inverts \<^verbatim>\<open>WriteFrame\<close> and is exact: the frames of a sequence of payloads, written
  back to back, are read back as that sequence with the rest of the stream untouched; a frame cut
  short anywhere is refused; and two payloads never share a frame or have one frame begin another.
\<close>

theorem frames_self_delimiting:
  "(list_all2 (\<lambda>p f. frame_bytes p = Inr f) ps fs \<longrightarrow>
      read_frames (length ps) \<lparr>avail = concat fs @ rest, fin = e\<rparr>
        = Inr (ps, \<lparr>avail = rest, fin = e\<rparr>))
   \<and> (frame_bytes p = Inr f \<and> strict_prefix s f \<longrightarrow> \<not> is_ok (read_frame \<lparr>avail = s, fin = e\<rparr>))
   \<and> (frame_bytes p = Inr f \<and> frame_bytes q = Inr (f @ g) \<longrightarrow> p = q \<and> g = [])"
  using proto_frame.dec_many_concat [of ps fs rest e] proto_frame.truncated_refused [of p f s e]
    proto_frame.enc_prefix_free [of p f q g]
  by (auto simp: is_ok_iff read_frames_dec_many)

theorem frames_self_delimiting_witness:
  "read_frames 2 \<lparr>avail = [CHR 0x01, CHR 0x00, CHR 0x01, CHR ''a''] @ [CHR 0x01, CHR 0x00, CHR 0x00]
       @ ''rest'', fin = EOF\<rparr> = Inr ([''a'', []], \<lparr>avail = ''rest'', fin = EOF\<rparr>)
   \<and> \<not> is_ok (read_frame \<lparr>avail = [CHR 0x01, CHR 0x00], fin = EOF\<rparr>)"
proof -
  have a: "frame_bytes ''a'' = Inr [CHR 0x01, CHR 0x00, CHR 0x01, CHR ''a'']"
    and n: "frame_bytes [] = Inr [CHR 0x01, CHR 0x00, CHR 0x00]"
    by (simp_all add: frame_bytes_def max_frame_payload_def proto_version_def be16_def char_of_eq_iff)
  show ?thesis
    using frames_self_delimiting [of "[''a'', []]"
        "[[CHR 0x01, CHR 0x00, CHR 0x01, CHR ''a''], [CHR 0x01, CHR 0x00, CHR 0x00]]" "''rest''" EOF
        "''a''" "[CHR 0x01, CHR 0x00, CHR 0x01, CHR ''a'']" "[CHR 0x01, CHR 0x00]" "''a''" "[]"]
    by (simp add: a n numeral_2_eq_2)
qed

end
