(* ===== verification/Names_Zone.thy ===== *)
theory Names_Zone
  imports Go_Strings Go_Net
begin

text \<open>
  Package \<^verbatim>\<open>internal/names\<close>, the zone: \<^verbatim>\<open>names.go\<close> (the set of managed names, splitting, the
  probe latch) and, from \<^verbatim>\<open>host.go\<close>, \<^verbatim>\<open>ValidLabel\<close>, \<^verbatim>\<open>NormalizeHost\<close> and \<^verbatim>\<open>Zone.Route\<close>.

  A zone is the record of the sources' struct; its two maps to \<^verbatim>\<open>struct{}\<close> are sets. The mutex
  guards single operations, each of which is one function here.
\<close>

subsection \<open>Zone\<close>

record zone =
  z_suffix :: string
  z_servers :: "string set"
  z_probes :: "string set"

datatype name_error = Unservable_name string

datatype host_error =
    No_host
  | No_server_name
  | Ambiguous_host
  | Malformed
  | Host_is_address
  | Outside_zone
  | No_such_server

definition probe_label :: string where "probe_label = ''_probe''"

definition note_probe :: "string \<Rightarrow> zone \<Rightarrow> zone" where
  "note_probe l z =
    (let kept = (if 64 < card (z_probes z) then {} else z_probes z)
     in z\<lparr>z_probes := insert l kept\<rparr>)"

definition saw_probe :: "string \<Rightarrow> zone \<Rightarrow> bool \<times> zone" where
  "saw_probe l z = (l \<in> z_probes z, z\<lparr>z_probes := z_probes z - {l}\<rparr>)"

definition lower_or_digit_or_dash :: "byte \<Rightarrow> bool" where
  "lower_or_digit_or_dash c \<longleftrightarrow>
     (97 \<le> ord c \<and> ord c \<le> 122) \<or> (48 \<le> ord c \<and> ord c \<le> 57) \<or> c = CHR ''-''"

definition dns_label_bytes :: "bytes \<Rightarrow> bool" where
  "dns_label_bytes s =
    (if length s = 0 \<or> 63 < length s then False
     else if s ! 0 = CHR ''-'' \<or> s ! (length s - 1) = CHR ''-'' then False
     else list_all lower_or_digit_or_dash s)"

definition valid_label :: "bytes \<Rightarrow> bool" where
  "valid_label s = dns_label_bytes s"

fun add_servers :: "string list \<Rightarrow> string set \<Rightarrow> name_error + string set" where
  "add_servers [] acc = Inr acc"
| "add_servers (s # ss) acc =
    (if s = [] then add_servers ss acc
     else if \<not> valid_label (to_lower s) then Inl (Unservable_name s)
     else add_servers ss (insert (to_lower s) acc))"

definition new_zone :: "string \<Rightarrow> string list \<Rightarrow> name_error + zone" where
  "new_zone suf servers =
    (case add_servers servers {} of
       Inl e \<Rightarrow> Inl e
     | Inr m \<Rightarrow> Inr \<lparr>z_suffix = to_lower (trim_suffix suf ''.''), z_servers = m, z_probes = {}\<rparr>)"

definition servers :: "zone \<Rightarrow> string list" where
  "servers z = sorted_list_of_set (z_servers z)"

definition in_suffix :: "zone \<Rightarrow> string \<Rightarrow> bool" where
  "in_suffix z host =
    (if z_suffix z = [] then False
     else host = z_suffix z \<or> has_suffix host (CHR ''.'' # z_suffix z))"

definition split_host :: "zone \<Rightarrow> string \<Rightarrow> (string \<times> string) option" where
  "split_host z host =
    (if \<not> in_suffix z host \<or> host = z_suffix z then None
     else (let pre = trim_suffix host (CHR ''.'' # z_suffix z) in
       if pre = [] then None
       else (case last_index_byte pre (CHR ''.'') of
           None \<Rightarrow> Some (pre, [])
         | Some i \<Rightarrow>
             (let server = drop (i + 1) pre; service = take i pre in
              if server = [] \<or> service = [] then None else Some (server, service)))))"

definition manages :: "zone \<Rightarrow> string \<Rightarrow> bool" where
  "manages z server \<longleftrightarrow> server \<in> z_servers z"

subsection \<open>Normalizing and routing a host\<close>

text \<open>The loop over the port ranges over runes, as Go's \<^verbatim>\<open>range\<close> does on a string.\<close>

definition port_digits :: "bytes \<Rightarrow> bool" where
  "port_digits p = list_all (\<lambda>(c, w). 48 \<le> c \<and> c \<le> 57) (runes p)"

definition strip_port :: "bytes \<Rightarrow> host_error + bytes" where
  "strip_port h =
    (case last_index_byte h (CHR '':'') of
       None \<Rightarrow> Inr h
     | Some i \<Rightarrow>
         if take i h = [] then Inl No_host
         else if \<not> port_digits (drop (i + 1) h) then Inl Malformed
         else Inr (take i h))"

definition normalize_host :: "bytes \<Rightarrow> host_error + bytes" where
  "normalize_host raw =
    (let h = trim_space raw in
     if h = [] then Inl No_host
     else if contains_any h [CHR ''@'', CHR '' '', CHR 0x09] then Inl Malformed
     else if has_prefix h ''['' then Inl Host_is_address
     else (case strip_port h of
         Inl e \<Rightarrow> Inl e
       | Inr h1 \<Rightarrow>
          (let h2 = to_lower (trim_suffix h1 ''.'') in
           if h2 = [] then Inl No_host
           else if parse_ip h2 then Inl Host_is_address
           else if \<not> list_all dns_label_bytes (split_on (CHR ''.'') h2) then Inl Malformed
           else Inr h2)))"

definition route :: "zone \<Rightarrow> bytes \<Rightarrow> host_error + (string \<times> string \<times> string)" where
  "route z raw =
    (case normalize_host raw of
       Inl e \<Rightarrow> Inl e
     | Inr h \<Rightarrow>
        if \<not> in_suffix z h then Inl Outside_zone
        else (case split_host z h of
            None \<Rightarrow> Inl Outside_zone
          | Some (server, service) \<Rightarrow>
             if \<not> manages z server then Inl No_such_server
             else Inr (server, service, h)))"

subsection \<open>Labels\<close>

lemma dns_label_bytes_iff:
  "dns_label_bytes s \<longleftrightarrow> s \<noteq> [] \<and> length s \<le> 63 \<and> hd s \<noteq> CHR ''-'' \<and> last s \<noteq> CHR ''-''
     \<and> (\<forall>c\<in>set s. lower_or_digit_or_dash c)"
  by (cases s) (auto simp: dns_label_bytes_def list_all_iff last_conv_nth)

lemma label_byte_plain:
  assumes "lower_or_digit_or_dash c"
  shows "ord c < 128 \<and> \<not> (65 \<le> ord c \<and> ord c \<le> 90) \<and> \<not> ascii_space c \<and>
    c \<notin> {CHR ''.'', CHR '':'', CHR ''@'', CHR '' '', CHR 0x09, CHR ''['', CHR ''%''}"
  using assms
  by (auto simp: lower_or_digit_or_dash_def ascii_space_def is_space_rune_def)

lemma label_no_dot: "dns_label_bytes l \<Longrightarrow> CHR ''.'' \<notin> set l"
  using label_byte_plain by (auto simp: dns_label_bytes_iff)

definition host_form :: "bytes \<Rightarrow> bool" where
  "host_form h \<longleftrightarrow> list_all dns_label_bytes (split_on (CHR ''.'') h)"

lemma host_form_byte:
  assumes "host_form h" "c \<in> set h"
  shows "c = CHR ''.'' \<or> lower_or_digit_or_dash c"
  using assms set_split_on [of h "CHR ''.''"]
  by (auto simp: host_form_def list_all_iff dns_label_bytes_iff split: if_splits)

lemma host_form_plain:
  assumes "host_form h" "c \<in> set h"
  shows "ord c < 128 \<and> \<not> (65 \<le> ord c \<and> ord c \<le> 90) \<and> \<not> ascii_space c \<and>
    c \<notin> {CHR '':'', CHR ''@'', CHR '' '', CHR 0x09, CHR ''['', CHR ''%''}"
  using host_form_byte [OF assms] label_byte_plain [of c]
  by (auto simp: ascii_space_def is_space_rune_def)

lemma host_form_nonempty: "host_form h \<Longrightarrow> h \<noteq> []"
  by (auto simp: host_form_def dns_label_bytes_iff)

lemma host_form_no_final_dot:
  assumes "host_form h"
  shows "\<not> has_suffix h ''.''"
proof
  assume "has_suffix h ''.''"
  then obtain t where "h = t @ CHR ''.'' # []"
    by (auto simp: has_suffix_iff)
  then have "split_on (CHR ''.'') h = split_on (CHR ''.'') t @ [[]]"
    by (simp add: split_on_append_gen)
  then show False
    using assms by (simp add: host_form_def dns_label_bytes_iff)
qed

lemma host_form_parts:
  "host_form (a @ CHR ''.'' # b) \<longleftrightarrow> host_form a \<and> host_form b"
  by (simp add: host_form_def split_on_append_gen)

lemma host_form_label: "CHR ''.'' \<notin> set l \<Longrightarrow> host_form l \<longleftrightarrow> dns_label_bytes l"
  by (simp add: host_form_def split_on_id)

lemma valid_label_host_form: "valid_label l \<Longrightarrow> host_form l"
  using label_no_dot [of l] host_form_label [of l] by (simp add: valid_label_def)

subsection \<open>Normal forms\<close>

lemma port_digits_ascii:
  assumes "list_all is_digit p"
  shows "port_digits p"
proof -
  have "is_ascii p"
    using assms by (auto simp: is_ascii_def list_all_iff is_digit_def)
  then show ?thesis
    using assms by (auto simp: port_digits_def runes_ascii list_all_iff is_digit_def)
qed

lemma normalize_host_InrD:
  assumes "normalize_host raw = Inr h"
  shows "host_form h \<and> \<not> parse_ip h"
  using assms
  by (auto simp: normalize_host_def host_form_def Let_def split: if_splits sum.splits)

text \<open>Any decoration of a name in normal form (a final dot, then a port) normalizes to it.\<close>

lemma normalize_decorated:
  assumes "host_form h" "\<not> parse_ip h" "dot \<in> {[], ''.''}" "list_all is_digit port"
  shows "normalize_host (h @ dot @ CHR '':'' # port) = Inr h" (is "normalize_host ?r = _")
    and "normalize_host (h @ dot) = Inr h" (is "normalize_host ?s = _")
proof -
  have plain: "\<forall>c\<in>set h. ord c < 128 \<and> \<not> (65 \<le> ord c \<and> ord c \<le> 90) \<and> \<not> ascii_space c \<and>
      c \<notin> {CHR '':'', CHR ''@'', CHR '' '', CHR 0x09, CHR ''['', CHR ''%''}"
    using host_form_plain [OF assms(1)] by blast
  have dig: "\<forall>c\<in>set port. ord c < 128 \<and> \<not> ascii_space c \<and> c \<notin> {CHR '':'', CHR ''@'', CHR '' '', CHR 0x09}"
    using assms(4) by (auto simp: list_all_iff is_digit_def ascii_space_def is_space_rune_def)
  have dot: "set dot \<subseteq> {CHR ''.''}" using assms(3) by auto
  have chars: "c \<in> set ?r \<Longrightarrow> c \<in> set h \<or> c = CHR ''.'' \<or> c = CHR '':'' \<or> c \<in> set port" for c
    using dot by auto
  have chars': "c \<in> set ?s \<Longrightarrow> c \<in> set h \<or> c = CHR ''.''" for c
    using dot by auto
  have sp: "\<not> ascii_space (CHR ''.'')" "\<not> ascii_space (CHR '':'')"
    by (simp_all add: ascii_space_def is_space_rune_def)
  have ne: "h \<noteq> []" using assms(1) by (rule host_form_nonempty)
  have asc: "ord c < 128 \<and> \<not> ascii_space c" if "c \<in> set ?r \<or> c \<in> set ?s" for c
  proof -
    have "c \<in> set h \<or> c = CHR ''.'' \<or> c = CHR '':'' \<or> c \<in> set port"
      using that chars [of c] chars' [of c] by blast
    then show ?thesis
      using plain dig sp by (elim disjE) (simp_all (no_asm_simp))
  qed
  have ts: "trim_space ?r = ?r" "trim_space ?s = ?s"
    using asc trim_space_id [of ?r] trim_space_id [of ?s] by blast+
  have ok: "c \<notin> set [CHR ''@'', CHR '' '', CHR 0x09]" if "c \<in> set ?r \<or> c \<in> set ?s" for c
  proof -
    have "c \<in> set h \<or> c = CHR ''.'' \<or> c = CHR '':'' \<or> c \<in> set port"
      using that chars [of c] chars' [of c] by blast
    then show ?thesis
      using plain [THEN bspec, of c] dig [THEN bspec, of c] by (elim disjE) simp_all
  qed
  have ca: "\<not> contains_any ?r [CHR ''@'', CHR '' '', CHR 0x09]"
      "\<not> contains_any ?s [CHR ''@'', CHR '' '', CHR 0x09]"
    using ok unfolding contains_any_iff by blast+
  have br: "\<not> has_prefix ?r ''[''" "\<not> has_prefix ?s ''[''"
    using plain ne by (cases h; auto simp: has_prefix_iff)+
  have "last_index_byte ?r (CHR '':'') = Some (length (h @ dot))"
    using last_index_byte_append [of "CHR '':''" port "h @ dot"] dig by auto
  then have p1: "strip_port ?r = Inr (h @ dot)"
    using ne port_digits_ascii [OF assms(4)] by (simp add: strip_port_def)
  have "last_index_byte ?s (CHR '':'') = None"
    using plain dot by (auto simp: last_index_byte_None_iff)
  then have p2: "strip_port ?s = Inr (h @ dot)"
    by (simp add: strip_port_def)
  have "trim_suffix (h @ dot) ''.'' = h"
    using assms(3) host_form_no_final_dot [OF assms(1)] by (auto simp: trim_suffix_def [of h])
  moreover have "to_lower h = h"
    using plain by (intro to_lower_id) auto
  ultimately have t: "to_lower (trim_suffix (h @ dot) ''.'') = h" by simp
  show "normalize_host ?r = Inr h" "normalize_host ?s = Inr h"
    using ts ca br p1 p2 t ne assms(1,2)
    by (simp_all add: normalize_host_def Let_def host_form_def [symmetric] del: append_assoc append_Cons)
qed

subsection \<open>Zones\<close>

definition zone_ok :: "zone \<Rightarrow> bool" where
  "zone_ok z \<longleftrightarrow> finite (z_servers z) \<and> (\<forall>s\<in>z_servers z. valid_label s) \<and>
     finite (z_probes z) \<and> card (z_probes z) \<le> 65"

lemma add_servers_InrD:
  "add_servers ss acc = Inr m \<Longrightarrow>
     m = acc \<union> {to_lower s |s. s \<in> set ss \<and> s \<noteq> []} \<and>
     (\<forall>s\<in>set ss. s \<noteq> [] \<longrightarrow> valid_label (to_lower s))"
  by (induction ss arbitrary: acc) (auto split: if_splits)

lemma add_servers_InlD:
  "add_servers ss acc = Inl e \<Longrightarrow>
     \<exists>s\<in>set ss. s \<noteq> [] \<and> \<not> valid_label (to_lower s) \<and> e = Unservable_name s"
  by (induction ss arbitrary: acc) (auto split: if_splits)

lemma new_zone_ok:
  assumes "new_zone suf ss = Inr z"
  shows "zone_ok z \<and> z_suffix z = to_lower (trim_suffix suf ''.'') \<and>
    z_servers z = {to_lower s |s. s \<in> set ss \<and> s \<noteq> []}"
proof -
  obtain m where m: "add_servers ss {} = Inr m"
    and z: "z = \<lparr>z_suffix = to_lower (trim_suffix suf ''.''), z_servers = m, z_probes = {}\<rparr>"
    using assms by (auto simp: new_zone_def split: sum.splits)
  show ?thesis
    using add_servers_InrD [OF m] by (auto simp: zone_ok_def z)
qed

lemma note_probe_ok [inv_intros]: "zone_ok z \<Longrightarrow> zone_ok (note_probe l z)"
  by (auto simp: zone_ok_def note_probe_def Let_def card_insert_if)

lemma saw_probe_ok [inv_intros]: "zone_ok z \<Longrightarrow> zone_ok (snd (saw_probe l z))"
  by (auto simp: zone_ok_def saw_probe_def card_Diff_singleton_if)

lemma probe_once:
  "fst (saw_probe l (note_probe l z))"
  "\<not> fst (saw_probe l (snd (saw_probe l z)))"
  by (simp_all add: saw_probe_def note_probe_def Let_def)

lemma servers_sorted:
  "zone_ok z \<Longrightarrow> sorted (servers z) \<and> distinct (servers z) \<and> set (servers z) = z_servers z"
  by (simp add: servers_def zone_ok_def)

subsection \<open>Routing against a specification on labels\<close>

text \<open>
  The reference: cut the name into labels, require the zone's labels at the end with at least one
  label before them, and read the server off as the last of those.
\<close>

definition route_spec :: "zone \<Rightarrow> bytes \<Rightarrow> host_error + (string \<times> string \<times> string)" where
  "route_spec z raw =
    (case normalize_host raw of
       Inl e \<Rightarrow> Inl e
     | Inr h \<Rightarrow>
        (let hl = split_on (CHR ''.'') h; sl = split_on (CHR ''.'') (z_suffix z);
             pre = take (length hl - length sl) hl in
         if z_suffix z = [] \<or> pre = [] \<or> hl \<noteq> pre @ sl then Inl Outside_zone
         else if last pre \<notin> z_servers z then Inl No_such_server
         else Inr (last pre, join_with (CHR ''.'') (butlast pre), h)))"

lemma under_suffix_iff:
  assumes "host_form h"
  shows "has_suffix h (CHR ''.'' # suf) \<longleftrightarrow>
    (\<exists>p. host_form p \<and> h = p @ CHR ''.'' # suf)"
  using assms by (auto simp: has_suffix_iff host_form_parts)

lemma split_host_under:
  assumes "z_suffix z \<noteq> []" "host_form p"
  shows "split_host z (p @ CHR ''.'' # z_suffix z) =
    Some (last (split_on (CHR ''.'') p), join_with (CHR ''.'') (butlast (split_on (CHR ''.'') p)))"
proof -
  let ?h = "p @ CHR ''.'' # z_suffix z"
  have ins: "in_suffix z ?h" and ne: "?h \<noteq> z_suffix z" and pre: "trim_suffix ?h (CHR ''.'' # z_suffix z) = p"
    using assms(1) by (auto simp: in_suffix_def)
  have p: "p \<noteq> []" using assms(2) by (rule host_form_nonempty)
  show ?thesis
  proof (cases "last_index_byte p (CHR ''.'')")
    case None
    then have "split_on (CHR ''.'') p = [p]"
      by (simp add: last_index_byte_None_iff split_on_id)
    then show ?thesis
      using ins ne pre p None by (simp add: split_host_def Let_def)
  next
    case (Some i)
    have parts: "p = take i p @ CHR ''.'' # drop (i + 1) p" "CHR ''.'' \<notin> set (drop (i + 1) p)"
      using last_index_byte_SomeD [OF Some] by auto
    have "split_on (CHR ''.'') p = split_on (CHR ''.'') (take i p) @ [drop (i + 1) p]"
      using split_on_append_gen [of "CHR ''.''" "take i p" "drop (i + 1) p"] parts
      by (simp add: split_on_id)
    moreover have "host_form (take i p)" "host_form (drop (i + 1) p)"
      using assms(2) parts(1) host_form_parts by metis+
    ultimately show ?thesis
      using ins ne pre p Some host_form_nonempty [of "take i p"] host_form_nonempty [of "drop (i + 1) p"]
      by (simp add: split_host_def Let_def)
  qed
qed

lemma outside_iff:
  assumes "host_form h"
  shows "\<not> in_suffix z h \<or> h = z_suffix z \<longleftrightarrow>
    z_suffix z = [] \<or> (\<nexists>p. host_form p \<and> h = p @ CHR ''.'' # z_suffix z)"
  using under_suffix_iff [OF assms, of "z_suffix z"] by (auto simp: in_suffix_def)

lemma route_outside:
  "normalize_host raw = Inr h \<Longrightarrow> \<not> in_suffix z h \<or> h = z_suffix z \<Longrightarrow> route z raw = Inl Outside_zone"
  by (auto simp: route_def split_host_def)

lemma labels_under:
  fixes suf :: string
  assumes "host_form h"
  defines "hl \<equiv> split_on (CHR ''.'') h" and "sl \<equiv> split_on (CHR ''.'') suf"
  shows "(let pre = take (length hl - length sl) hl in pre \<noteq> [] \<and> hl = pre @ sl) \<longleftrightarrow>
    (\<exists>p. host_form p \<and> h = p @ CHR ''.'' # suf)"
proof -
  have "(let pre = take (length hl - length sl) hl in pre \<noteq> [] \<and> hl = pre @ sl) \<longleftrightarrow>
      (\<exists>xs. hl = xs @ sl \<and> xs \<noteq> [])"
    by (auto simp: Let_def)
  also have "\<dots> \<longleftrightarrow> (\<exists>p. h = p @ CHR ''.'' # suf)"
    unfolding hl_def sl_def using split_on_append_iff [of "CHR ''.''" h _ suf] by auto
  finally show ?thesis using assms(1) by (auto simp: host_form_parts)
qed

lemma route_spec_outside:
  assumes "normalize_host raw = Inr h" "\<not> in_suffix z h \<or> h = z_suffix z"
  shows "route_spec z raw = Inl Outside_zone"
proof -
  have hf: "host_form h" using normalize_host_InrD [OF assms(1)] by blast
  have "z_suffix z = [] \<or> \<not> (let hl = split_on (CHR ''.'') h; sl = split_on (CHR ''.'') (z_suffix z);
      pre = take (length hl - length sl) hl in pre \<noteq> [] \<and> hl = pre @ sl)"
    using assms(2) outside_iff [OF hf, of z] labels_under [OF hf, of "z_suffix z"]
    by (simp add: Let_def)
  then show ?thesis
    using assms(1) by (auto simp: route_spec_def Let_def)
qed

lemma route_under:
  assumes "normalize_host raw = Inr (p @ CHR ''.'' # z_suffix z)" "z_suffix z \<noteq> []" "host_form p"
  defines "ls \<equiv> split_on (CHR ''.'') p"
  defines "r \<equiv> (if last ls \<notin> z_servers z then Inl No_such_server
      else Inr (last ls, join_with (CHR ''.'') (butlast ls), p @ CHR ''.'' # z_suffix z))"
  shows "route z raw = r" and "route_spec z raw = r"
proof -
  show "route z raw = r"
    using assms(1,2) split_host_under [OF assms(2,3)]
    by (simp add: route_def in_suffix_def manages_def ls_def r_def)
  show "route_spec z raw = r"
    using assms(1,2) by (simp add: route_spec_def split_on_append_gen ls_def r_def Let_def)
qed

text \<open>
  C3: The request check is exactly the label rule: for every zone, \<^verbatim>\<open>Zone.Route\<close>
  returns, on every input, what cutting the normalized host into labels and matching them against
  the zone's labels and the managed servers gives, the error included. In particular a name that
  merely contains or ends with the suffix text is refused.
\<close>

theorem route_equals_label_rule:
  "route z raw = route_spec z raw"
proof (cases "normalize_host raw")
  case (Inl e)
  then show ?thesis by (simp add: route_def route_spec_def)
next
  case (Inr h)
  then have hf: "host_form h" using normalize_host_InrD by blast
  show ?thesis
  proof (cases "\<not> in_suffix z h \<or> h = z_suffix z")
    case True
    then show ?thesis using route_outside [OF Inr] route_spec_outside [OF Inr] by simp
  next
    case False
    then obtain p where "host_form p" "h = p @ CHR ''.'' # z_suffix z" "z_suffix z \<noteq> []"
      using outside_iff [OF hf, of z] by blast
    then show ?thesis using route_under Inr by simp
  qed
qed

text \<open>
  What \<^verbatim>\<open>NormalizeHost\<close> returns is a canonical form: every label of it is a legal hostname
  label, it is not an address, and normalizing it again, with a final dot, with any decimal port,
  or with both, gives the same name. The port a browser adds never changes the routing decision.
\<close>

theorem normalize_host_canonical:
  assumes "normalize_host raw = Inr h"
  shows "list_all valid_label (split_on (CHR ''.'') h) \<and> \<not> parse_ip h \<and> normalize_host h = Inr h
    \<and> normalize_host (h @ ''.'') = Inr h
    \<and> (list_all is_digit port \<longrightarrow> normalize_host (h @ CHR '':'' # port) = Inr h
          \<and> normalize_host (h @ ''.:'' @ port) = Inr h)"
proof -
  have h: "host_form h" "\<not> parse_ip h"
    using normalize_host_InrD [OF assms] by auto
  have "normalize_host h = Inr h" "normalize_host (h @ ''.'') = Inr h"
    using normalize_decorated(2) [OF h, of "[]" "[]"] normalize_decorated(2) [OF h, of "''.''" "[]"]
    by simp_all
  moreover have "normalize_host (h @ CHR '':'' # port) = Inr h \<and> normalize_host (h @ ''.:'' @ port) = Inr h"
    if "list_all is_digit port"
    using normalize_decorated(1) [OF h, of "[]" port] normalize_decorated(1) [OF h, of "''.''" port] that
    by simp
  ultimately show ?thesis
    using h by (simp add: host_form_def valid_label_def [abs_def])
qed

lemma host_form_sample: "host_form ''db.home''"
  by (simp add: host_form_def dns_label_bytes_iff lower_or_digit_or_dash_def)

lemma normalize_sample: "normalize_host ''db.home'' = Inr ''db.home''"
proof -
  have "\<not> parse_ip ''db.home''"
    by (simp add: parse_ip_def ipv4_ok_def)
  then show ?thesis
    using normalize_decorated(2) [OF host_form_sample, of "[]" "[]"] by simp
qed

theorem normalize_host_canonical_witness:
  "normalize_host ''db.home:8080'' = Inr ''db.home''"
proof -
  have "list_all is_digit ''8080''" by (simp add: is_digit_def)
  then show ?thesis
    using normalize_host_canonical [OF normalize_sample, of "''8080''"] by simp
qed

end
