(* ===== verification/Names_HTTP.thy ===== *)
theory Names_HTTP
  imports Names_Zone
begin

text \<open>
  Package \<^verbatim>\<open>internal/names\<close>, \<^verbatim>\<open>host.go\<close>: reading the host out of an HTTP/1.x header block.

  \<open>split_header_lines\<close> cuts the block into lines and refuses the shapes two readers could cut
  differently; \<open>host_from_request\<close> reconciles the request line with the Host fields.
\<close>

definition max_header_bytes :: nat where "max_header_bytes = 16384"

definition crlf :: bytes where "crlf = [CHR 0x0D, CHR 0x0A]"

definition header_end :: "bytes \<Rightarrow> nat option" where
  "header_end buf = map_option (\<lambda>i. i + 4) (index_str buf (crlf @ crlf))"

definition header_body :: "bytes \<Rightarrow> bytes" where
  "header_body hdr = (case index_str hdr (crlf @ crlf) of None \<Rightarrow> hdr | Some i \<Rightarrow> take i hdr)"

definition bad_line :: "bytes \<Rightarrow> bool" where
  "bad_line l \<longleftrightarrow> (l \<noteq> [] \<and> (hd l = CHR '' '' \<or> hd l = CHR 0x09))
     \<or> contains_byte l (CHR 0x0D) \<or> contains_byte l (CHR 0x0A)"

text \<open>The loop of \<^verbatim>\<open>splitHeaderLines\<close> on what is left of the block.\<close>

function header_lines :: "bytes \<Rightarrow> host_error + bytes list" where
  "header_lines body =
    (if body = [] then Inr []
     else (let (line, rest) =
         (case index_str body crlf of
            None \<Rightarrow> (body, [])
          | Some i \<Rightarrow> (take i body, drop (i + 2) body)) in
       if bad_line line then Inl Malformed
       else (case header_lines rest of Inl e \<Rightarrow> Inl e | Inr ls \<Rightarrow> Inr (line # ls))))"
  by pat_completeness auto
termination
  by (relation "measure length") (auto split: option.splits)

declare header_lines.simps [simp del]

definition split_header_lines :: "bytes \<Rightarrow> host_error + bytes list" where
  "split_header_lines hdr = header_lines (header_body hdr)"

definition cut_colon :: "bytes \<Rightarrow> (bytes \<times> bytes) option" where
  "cut_colon l =
    (case index_byte l (CHR '':'') of
       None \<Rightarrow> None
     | Some i \<Rightarrow> Some (take i l, drop (i + 1) l))"

text \<open>\<^verbatim>\<open>strings.IndexAny\<close> for ASCII sets, used to end the authority of an absolute target.\<close>

definition until_any :: "bytes \<Rightarrow> bytes \<Rightarrow> bytes" where
  "until_any cs s = takeWhile (\<lambda>c. \<not> contains_byte cs c) s"

definition host_from_request_line :: "bytes \<Rightarrow> host_error + bytes" where
  "host_from_request_line line =
    (case split_fields line of
       [_, target, _] \<Rightarrow>
         if target = ''*'' then Inr []
         else if has_prefix target ''/'' then Inr []
         else (let rest = (case index_str target ''://'' of
                   None \<Rightarrow> target | Some i \<Rightarrow> drop (i + 3) target);
                 auth = until_any ''/?#'' rest
               in if auth = [] then Inl Malformed else Inr auth)
     | _ \<Rightarrow> Inl Malformed)"

definition is_host_name :: "bytes \<Rightarrow> bool" where
  "is_host_name name \<longleftrightarrow> equal_fold (trim_space name) ''host''"

text \<open>The loop over the fields: the last Host value seen and how many there were.\<close>

fun scan_fields :: "bytes list \<Rightarrow> bytes \<Rightarrow> nat \<Rightarrow> host_error + (bytes \<times> nat)" where
  "scan_fields [] found count = Inr (found, count)"
| "scan_fields (l # ls) found count =
    (case cut_colon l of
       None \<Rightarrow> Inl Malformed
     | Some (name, value) \<Rightarrow>
         if \<not> is_host_name name then scan_fields ls found count
         else scan_fields ls (trim_space value) (count + 1))"

definition host_from_request :: "bytes \<Rightarrow> host_error + bytes" where
  "host_from_request hdr =
    (if contains_byte hdr (CHR 0x00) then Inl Malformed
     else (case split_header_lines hdr of
         Inl e \<Rightarrow> Inl e
       | Inr [] \<Rightarrow> Inl Malformed
       | Inr (l0 # ls) \<Rightarrow>
          (case host_from_request_line l0 of
             Inl e \<Rightarrow> Inl e
           | Inr line_host \<Rightarrow>
              (case scan_fields ls [] 0 of
                 Inl e \<Rightarrow> Inl e
               | Inr (found, count) \<Rightarrow>
                  if 1 < count then Inl Ambiguous_host
                  else if count = 0 \<and> line_host = [] then Inl No_host
                  else if count = 1 \<and> line_host \<noteq> [] \<and> \<not> equal_fold line_host found
                    then Inl Ambiguous_host
                  else (let host = (if count = 0 then line_host else found) in
                        if host = [] then Inl No_host else Inr host)))))"

subsection \<open>Where the header block ends\<close>

lemma index_str_SomeD:
  "index_str s p = Some i \<Longrightarrow> i + length p \<le> length s \<and> take (length p) (drop i s) = p"
proof (induction s p arbitrary: i rule: index_str.induct)
  case (1 s p)
  show ?case
  proof (cases "has_prefix s p")
    case True
    then show ?thesis
      using "1.prems" by (subst (asm) index_str.simps) (auto simp: has_prefix_iff)
  next
    case False
    then obtain x xs j where s: "s = x # xs" "index_str xs p = Some j" "i = Suc j"
      using "1.prems" by (subst (asm) index_str.simps) (auto split: list.splits)
    then show ?thesis using "1.IH" [OF False s(1,2)] by simp
  qed
qed

lemma index_str_append:
  "index_str s p = Some i \<Longrightarrow> index_str (s @ t) p = Some i"
proof (induction s p arbitrary: i rule: index_str.induct)
  case (1 s p)
  show ?case
  proof (cases "has_prefix s p")
    case True
    then have "has_prefix (s @ t) p" by (auto simp: has_prefix_iff)
    then show ?thesis
      using True "1.prems" by (simp add: index_str.simps [of s] index_str.simps [of "s @ t"])
  next
    case False
    then obtain x xs j where s: "s = x # xs" "index_str xs p = Some j" "i = Suc j"
      using "1.prems" by (subst (asm) index_str.simps) (auto split: list.splits)
    moreover have "\<not> has_prefix (s @ t) p"
    proof -
      have "length p \<le> length s" using index_str_SomeD [OF "1.prems"] by simp
      then show ?thesis using False by (auto simp: has_prefix_def)
    qed
    ultimately show ?thesis
      using "1.IH" [OF False s(1,2)] by (simp add: index_str.simps [of "x # xs @ t"])
  qed
qed

lemma header_end_append: "header_end b = Some n \<Longrightarrow> header_end (b @ x) = Some n"
  by (auto simp: header_end_def index_str_append)

lemma header_end_le: "header_end b = Some n \<Longrightarrow> 4 \<le> n \<and> n \<le> length b"
  using index_str_SomeD [of b "crlf @ crlf"] by (auto simp: header_end_def crlf_def)

subsection \<open>Lines\<close>

fun join_crlf :: "bytes list \<Rightarrow> bytes" where
  "join_crlf [] = []"
| "join_crlf (l # ls) = l @ crlf @ join_crlf ls"

definition clean_line :: "bytes \<Rightarrow> bool" where
  "clean_line l \<longleftrightarrow> CHR 0x0D \<notin> set l \<and> CHR 0x0A \<notin> set l \<and>
     (l = [] \<or> hd l \<noteq> CHR '' '' \<and> hd l \<noteq> CHR 0x09)"

lemma bad_line_iff: "\<not> bad_line l \<longleftrightarrow> clean_line l"
  by (auto simp: bad_line_def clean_line_def contains_byte_iff)

lemma header_lines_InrD:
  "header_lines body = Inr ls \<Longrightarrow>
     list_all clean_line ls \<and> (join_crlf ls = body \<or> join_crlf ls = body @ crlf)"
proof (induction body arbitrary: ls rule: header_lines.induct)
  case (1 body)
  show ?case
  proof (cases "body = []")
    case True
    then show ?thesis using "1.prems" by (subst (asm) header_lines.simps) simp
  next
    case False
    obtain line rest where p: "(case index_str body crlf of
        None \<Rightarrow> (body, []) | Some i \<Rightarrow> (take i body, drop (i + 2) body)) = (line, rest)"
      by (metis surj_pair)
    obtain ls' where ls: "header_lines rest = Inr ls'" "\<not> bad_line line" "ls = line # ls'"
      using "1.prems" False p
      by (subst (asm) header_lines.simps) (auto split: sum.splits if_splits)
    have IH: "list_all clean_line ls' \<and> (join_crlf ls' = rest \<or> join_crlf ls' = rest @ crlf)"
      using "1.IH" [OF False p [symmetric] refl ls(2) ls(1)] .
    show ?thesis
    proof (cases "index_str body crlf")
      case None
      then have "line = body" "rest = []" using p by simp_all
      moreover from this have "ls' = []"
        using ls(1) by (subst (asm) header_lines.simps) simp
      ultimately show ?thesis using ls bad_line_iff by simp
    next
      case (Some i)
      then have "line = take i body" "rest = drop (i + 2) body" using p by simp_all
      moreover have "body = take i body @ crlf @ drop (i + 2) body"
      proof -
        have "take 2 (drop i body) = crlf"
          using index_str_SomeD [OF Some] by (simp add: crlf_def numeral_2_eq_2)
        then have "drop i body = crlf @ drop 2 (drop i body)"
          by (metis append_take_drop_id)
        then show ?thesis
          by (metis append_take_drop_id drop_drop add.commute)
      qed
      ultimately show ?thesis using ls IH bad_line_iff by auto
    qed
  qed
qed

subsection \<open>The host is unambiguous\<close>

definition host_values :: "bytes list \<Rightarrow> bytes list" where
  "host_values ls = [trim_space v. l \<leftarrow> ls, (n, v) \<leftarrow> (case cut_colon l of None \<Rightarrow> [] | Some nv \<Rightarrow> [nv]),
      is_host_name n]"

lemma host_values_simps [simp]:
  "host_values [] = []"
  "cut_colon l = Some (n, v) \<Longrightarrow>
     host_values (l # ls) = (if is_host_name n then trim_space v # host_values ls else host_values ls)"
  by (simp_all add: host_values_def)

lemma scan_fields_InrD:
  "scan_fields ls f c = Inr (found, count) \<Longrightarrow>
     (\<forall>l\<in>set ls. CHR '':'' \<in> set l) \<and> count = c + length (host_values ls) \<and>
     found = last (f # host_values ls)"
proof (induction ls arbitrary: f c)
  case (Cons l ls)
  obtain n v where nv: "cut_colon l = Some (n, v)"
    using Cons.prems by (auto split: option.splits)
  then have "CHR '':'' \<in> set l"
    using index_byte_None_iff [of l "CHR '':''"] by (auto simp: cut_colon_def split: option.splits)
  moreover obtain f' c' where "scan_fields ls f' c' = Inr (found, count)"
      "(f', c') = (if is_host_name n then (trim_space v, c + 1) else (f, c))"
    using Cons.prems nv by (auto split: if_splits)
  ultimately show ?case
    using Cons.IH [of f' c'] nv by (cases "is_host_name n") auto
qed simp

lemma header_lines_Nil: "header_lines [] = Inr []"
  by (simp add: header_lines.simps)

lemma header_lines_last:
  "body \<noteq> [] \<Longrightarrow> index_str body crlf = None \<Longrightarrow>
     header_lines body = (if bad_line body then Inl Malformed else Inr [body])"
  using header_lines.simps [of body] by (simp add: header_lines_Nil)

lemma header_lines_step:
  "body \<noteq> [] \<Longrightarrow> index_str body crlf = Some i \<Longrightarrow>
     header_lines body =
       (if bad_line (take i body) then Inl Malformed
        else (case header_lines (drop (i + 2) body) of Inl e \<Rightarrow> Inl e | Inr ls \<Rightarrow> Inr (take i body # ls)))"
  using header_lines.simps [of body] by simp

definition sample_request :: bytes where
  "sample_request = ''GET / H'' @ crlf @ ''Host: a.b'' @ crlf @ crlf"

lemma sample_lines:
  "split_header_lines sample_request = Inr [''GET / H'', ''Host: a.b'']"
proof -
  have 1: "header_body sample_request = ''GET / H'' @ crlf @ ''Host: a.b''"
    by (simp add: sample_request_def header_body_def crlf_def index_str.simps has_prefix_def)
  have 2: "index_str (''GET / H'' @ crlf @ ''Host: a.b'') crlf = Some 7"
    "index_str ''Host: a.b'' crlf = None"
    by (simp_all add: crlf_def index_str.simps has_prefix_def)
  show ?thesis
    using header_lines_step [OF _ 2(1)] header_lines_last [OF _ 2(2)]
    by (simp add: split_header_lines_def 1 bad_line_def contains_byte_def crlf_def)
qed

lemma host_sample: "host_from_request sample_request = Inr ''a.b''"
proof -
  have 1: "host_from_request_line ''GET / H'' = Inr []"
    by (simp add: host_from_request_line_def split_fields_def fields_from.simps is_space_rune_def has_prefix_def)
  have 3: "trim_space '' a.b'' = ''a.b''"  "trim_space ''Host'' = ''Host''"
    by (simp_all add: trim_space_def trim_left_space.simps trim_right_space.simps decode_last_rune_def is_space_rune_def)
  have 4: "is_host_name ''Host''"
    by (simp add: is_host_name_def 3 equal_fold_ascii ascii_lower_def ascii_lower_rune_def)
  have 2: "scan_fields [''Host: a.b''] [] 0 = Inr (''a.b'', 1)"
    by (simp add: cut_colon_def 3 4)
  show ?thesis
    by (simp add: host_from_request_def sample_lines 1 2 del: scan_fields.simps) (simp add: sample_request_def contains_byte_def crlf_def)
qed

text \<open>
  C6: \<^verbatim>\<open>HostFromRequest\<close> never resolves an ambiguity: when it returns a host, the block has no NUL
  byte and is the CRLF-joining of its lines, no line contains a bare CR or LF or continues another,
  every field has a colon, there is at most one Host field in any spelling, and the returned host is
  that field's value, with which any authority in the request line agrees up to case; without a Host
  field it is the authority of the request line. An empty host is never returned.
\<close>

theorem host_from_request_unambiguous:
  assumes "host_from_request hdr = Inr host"
  shows "\<exists>l0 ls line_host.
    join_crlf (l0 # ls) \<in> {header_body hdr, header_body hdr @ crlf} \<and>
    list_all clean_line (l0 # ls) \<and> CHR 0x00 \<notin> set hdr \<and>
    (\<forall>l\<in>set ls. CHR '':'' \<in> set l) \<and>
    host_from_request_line l0 = Inr line_host \<and>
    (host_values ls = [host] \<and> (line_host = [] \<or> equal_fold line_host host)
      \<or> host_values ls = [] \<and> host = line_host) \<and> host \<noteq> []"
proof -
  obtain l0 ls line_host found count where
    nul: "CHR 0x00 \<notin> set hdr" and
    l: "split_header_lines hdr = Inr (l0 # ls)" and
    lh: "host_from_request_line l0 = Inr line_host" and
    sc: "scan_fields ls [] 0 = Inr (found, count)" and
    c: "\<not> 1 < count" "\<not> (count = 0 \<and> line_host = [])"
       "\<not> (count = 1 \<and> line_host \<noteq> [] \<and> \<not> equal_fold line_host found)" and
    h: "host = (if count = 0 then line_host else found)" "host \<noteq> []"
    using assms
    by (auto simp: host_from_request_def Let_def contains_byte_iff
        split: if_splits sum.splits list.splits prod.splits)
  have lines: "list_all clean_line (l0 # ls)"
      "join_crlf (l0 # ls) \<in> {header_body hdr, header_body hdr @ crlf}"
    using header_lines_InrD [of "header_body hdr"] l by (auto simp: split_header_lines_def)
  have sf: "\<forall>l\<in>set ls. CHR '':'' \<in> set l" "count = length (host_values ls)"
      "found = last ([] # host_values ls)"
    using scan_fields_InrD [OF sc] by auto
  have "host_values ls = [host] \<and> (line_host = [] \<or> equal_fold line_host host)
      \<or> host_values ls = [] \<and> host = line_host"
    using sf c h by (cases "host_values ls"; cases "tl (host_values ls)") auto
  then show ?thesis
    using lines nul sf lh h(2) by blast
qed

theorem host_from_request_unambiguous_witness:
  "\<exists>l0 ls line_host. host_from_request_line l0 = Inr line_host \<and> list_all clean_line (l0 # ls)
     \<and> (host_values ls = [''a.b''] \<or> host_values ls = [] \<and> line_host = ''a.b'')"
  using host_from_request_unambiguous [OF host_sample] by blast

end
