(* ===== verification/Names_SNI.thy ===== *)
theory Names_SNI
  imports Names_HTTP
begin

text \<open>
  Package \<^verbatim>\<open>internal/names\<close>, \<^verbatim>\<open>sni.go\<close>: finding the server name in the first bytes of a TLS
  connection. \<open>sni_reader\<close> operations walk a byte slice and refuse to read past its end;
  \<open>gather\<close> is the loop that joins handshake fragments across records.
\<close>

subsection \<open>Walking a slice\<close>

definition rd_skip :: "nat \<Rightarrow> bytes \<Rightarrow> bytes option" where
  "rd_skip n b = (if length b < n then None else Some (drop n b))"

definition rd_u8 :: "bytes \<Rightarrow> (nat \<times> bytes) option" where
  "rd_u8 b = (if length b < 1 then None else Some (ord (b ! 0), drop 1 b))"

definition rd_u16 :: "bytes \<Rightarrow> (nat \<times> bytes) option" where
  "rd_u16 b = (if length b < 2 then None else Some (256 * ord (b ! 0) + ord (b ! 1), drop 2 b))"

definition rd_len :: "nat \<Rightarrow> bytes \<Rightarrow> (nat \<times> bytes) option" where
  "rd_len sz b = (if sz = 1 then rd_u8 b else if sz = 2 then rd_u16 b else None)"

definition rd_vec :: "nat \<Rightarrow> bytes \<Rightarrow> (bytes \<times> bytes) option" where
  "rd_vec sz b =
    (case rd_len sz b of
       None \<Rightarrow> None
     | Some (n, r) \<Rightarrow> if length r < n then None else Some (take n r, drop n r))"

definition rd_skip_vec :: "nat \<Rightarrow> bytes \<Rightarrow> bytes option" where
  "rd_skip_vec sz b = map_option snd (rd_vec sz b)"

subsection \<open>Gathering the handshake message\<close>

text \<open>\<open>Inr None\<close> is \<^verbatim>\<open>need\<close>: the bytes so far are a valid but unfinished start.\<close>

definition hs_want :: "bytes \<Rightarrow> nat" where
  "hs_want hs = 65536 * ord (hs ! 1) + 256 * ord (hs ! 2) + ord (hs ! 3)"

definition hs_done :: "bytes \<Rightarrow> bool" where
  "hs_done hs \<longleftrightarrow> 4 \<le> length hs \<and> 4 + hs_want hs \<le> length hs"

definition rec_len :: "bytes \<Rightarrow> nat" where
  "rec_len rest = 256 * ord (rest ! 3) + ord (rest ! 4)"

function gather :: "bytes \<Rightarrow> bytes \<Rightarrow> host_error + bytes option" where
  "gather rest hs =
    (if length rest < 5 then Inr (Some hs)
     else if rest ! 0 \<noteq> CHR 0x16 then Inl Malformed
     else if rec_len rest = 0 \<or> 16384 < rec_len rest then Inl Malformed
     else if length rest < 5 + rec_len rest then Inr None
     else (let hs' = hs @ take (rec_len rest) (drop 5 rest) in
       if max_header_bytes < length hs' then Inl Malformed
       else if hs_done hs' then Inr (Some (take (4 + hs_want hs') hs'))
       else gather (drop (5 + rec_len rest) rest) hs'))"
  by pat_completeness auto
termination
  by (relation "measure (\<lambda>(rest, hs). length rest)") auto

declare gather.simps [simp del]

subsection \<open>The server name extension\<close>

function name_list :: "bytes \<Rightarrow> bytes \<Rightarrow> host_error + bytes" where
  "name_list l found =
    (case rd_u8 l of
       None \<Rightarrow> Inr found
     | Some (kind, l1) \<Rightarrow>
        (case rd_vec 2 l1 of
           None \<Rightarrow> Inl Malformed
         | Some (name, l2) \<Rightarrow>
             if kind \<noteq> 0 then name_list l2 found
             else if found \<noteq> [] then Inl Ambiguous_host
             else name_list l2 name))"
  by pat_completeness auto
termination
  by (relation "measure (\<lambda>(l, f). length l)")
     (auto simp: rd_u8_def rd_vec_def rd_len_def rd_u16_def split: if_splits option.splits)

function extensions :: "bytes \<Rightarrow> host_error + bytes" where
  "extensions e =
    (case rd_u16 e of
       None \<Rightarrow> Inl No_server_name
     | Some (typ, e1) \<Rightarrow>
        (case rd_vec 2 e1 of
           None \<Rightarrow> Inl Malformed
         | Some (data, e2) \<Rightarrow>
             if typ \<noteq> 0 then extensions e2
             else (case rd_vec 2 data of
                 None \<Rightarrow> Inl Malformed
               | Some (l, _) \<Rightarrow>
                  (case name_list l [] of
                     Inl err \<Rightarrow> Inl err
                   | Inr found \<Rightarrow> if found = [] then Inl No_server_name else Inr found))))"
  by pat_completeness auto
termination
  by (relation "measure length")
     (auto simp: rd_vec_def rd_len_def rd_u16_def split: if_splits option.splits)

declare name_list.simps [simp del] extensions.simps [simp del]

text \<open>\<open>Inr None\<close> is \<^verbatim>\<open>need=true\<close>; \<open>No_server_name\<close> is \<^verbatim>\<open>ErrNoSNI\<close>.\<close>

definition client_hello_body :: "bytes \<Rightarrow> host_error + bytes option" where
  "client_hello_body body =
    (case rd_skip (2 + 32) body of
       None \<Rightarrow> Inr None
     | Some r1 \<Rightarrow>
        (case rd_skip_vec 1 r1 of
           None \<Rightarrow> Inr None
         | Some r2 \<Rightarrow>
            (case rd_skip_vec 2 r2 of
               None \<Rightarrow> Inr None
             | Some r3 \<Rightarrow>
                (case rd_skip_vec 1 r3 of
                   None \<Rightarrow> Inr None
                 | Some r4 \<Rightarrow>
                    (case rd_vec 2 r4 of
                       None \<Rightarrow> Inl No_server_name
                     | Some (ext, _) \<Rightarrow>
                        (case extensions ext of Inl e \<Rightarrow> Inl e | Inr h \<Rightarrow> Inr (Some h)))))))"

definition sni_of_message :: "bytes \<Rightarrow> host_error + bytes option" where
  "sni_of_message hs =
    (if length hs < 4 then Inr None
     else if hs ! 0 \<noteq> CHR 0x01 then Inl Malformed
     else if length (drop 4 hs) < hs_want hs then Inr None
     else client_hello_body (drop 4 hs))"

definition sni_from_client_hello :: "bytes \<Rightarrow> host_error + bytes option" where
  "sni_from_client_hello buf =
    (if length buf < 5 then Inr None
     else if buf ! 0 \<noteq> CHR 0x16 then Inl Malformed
     else (case gather buf [] of
         Inl e \<Rightarrow> Inl e
       | Inr None \<Rightarrow> Inr None
       | Inr (Some hs) \<Rightarrow> sni_of_message hs))"

subsection \<open>More bytes never change a decision\<close>

definition complete_message :: "bytes \<Rightarrow> bool" where
  "complete_message hs \<longleftrightarrow> 4 \<le> length hs \<and> length hs = 4 + hs_want hs"

lemma hs_want_take: "4 \<le> n \<Longrightarrow> hs_want (take n hs) = hs_want hs"
  by (simp add: hs_want_def)

lemma hs_want_append: "4 \<le> length hs \<Longrightarrow> hs_want (hs @ t) = hs_want hs"
  by (simp add: hs_want_def nth_append)

lemma complete_take: "hs_done hs \<Longrightarrow> complete_message (take (4 + hs_want hs) hs)"
  by (simp add: hs_done_def complete_message_def hs_want_take)

lemma complete_done: "complete_message hs \<Longrightarrow> hs_done hs"
  by (simp add: hs_done_def complete_message_def)

lemma rec_len_append: "5 \<le> length rest \<Longrightarrow> rec_len (rest @ x) = rec_len rest"
  by (simp add: rec_len_def nth_append)

lemma gather_short: "length rest < 5 \<Longrightarrow> gather rest hs = Inr (Some hs)"
  by (simp add: gather.simps)

lemma gather_bad:
  "5 \<le> length rest \<Longrightarrow> rest ! 0 \<noteq> CHR 0x16 \<or> rec_len rest = 0 \<or> 16384 < rec_len rest \<Longrightarrow>
     gather rest hs = Inl Malformed"
  by (subst gather.simps) auto

lemma gather_record:
  assumes "length r = rec_len (h5 @ r)" "length h5 = 5" "h5 ! 0 = CHR 0x16"
    "0 < length r" "length r \<le> 16384"
  shows "gather (h5 @ r @ rest) hs =
    (if max_header_bytes < length (hs @ r) then Inl Malformed
     else if hs_done (hs @ r) then Inr (Some (take (4 + hs_want (hs @ r)) (hs @ r)))
     else gather rest (hs @ r))"
proof -
  have "rec_len (h5 @ r @ rest) = length r"
    using assms(1,2) rec_len_append [of "h5 @ r" rest] by simp
  then show ?thesis
    using assms(2-5) by (subst gather.simps) (simp add: Let_def nth_append)
qed

text \<open>The start of any buffer: too short, refused, still arriving, or one whole record.\<close>

lemma gather_cases:
  obtains (short) "length b < 5"
  | (bad) "5 \<le> length b" "b ! 0 \<noteq> CHR 0x16 \<or> rec_len b = 0 \<or> 16384 < rec_len b"
  | (arriving) "5 \<le> length b" "b ! 0 = CHR 0x16" "0 < rec_len b" "rec_len b \<le> 16384"
      "length b < 5 + rec_len b"
  | (whole) h5 r rest where "b = h5 @ r @ rest" "length r = rec_len (h5 @ r)" "length h5 = 5"
      "h5 ! 0 = CHR 0x16" "0 < length r" "length r \<le> 16384"
proof -
  consider "length b < 5"
    | "5 \<le> length b" "b ! 0 \<noteq> CHR 0x16 \<or> rec_len b = 0 \<or> 16384 < rec_len b"
    | "5 \<le> length b" "b ! 0 = CHR 0x16" "0 < rec_len b" "rec_len b \<le> 16384" "length b < 5 + rec_len b"
    | "5 \<le> length b" "b ! 0 = CHR 0x16" "0 < rec_len b" "rec_len b \<le> 16384" "5 + rec_len b \<le> length b"
    by linarith
  then show thesis
  proof cases
    case 4
    let ?h5 = "take 5 b" and ?r = "take (rec_len b) (drop 5 b)" and ?rest = "drop (5 + rec_len b) b"
    have "b = ?h5 @ ?r @ ?rest"
      by (metis append_take_drop_id drop_drop add.commute)
    moreover have "rec_len (?h5 @ ?r) = rec_len b"
      using 4(1) by (simp add: rec_len_def nth_append)
    ultimately show thesis using 4 by (intro whole [of ?h5 ?r ?rest]) simp_all
  qed (use short bad arriving in blast)+
qed

lemma gather_arriving:
  "5 \<le> length b \<Longrightarrow> b ! 0 = CHR 0x16 \<Longrightarrow> 0 < rec_len b \<Longrightarrow> rec_len b \<le> 16384 \<Longrightarrow>
     length b < 5 + rec_len b \<Longrightarrow> gather b hs = Inr None"
  by (subst gather.simps) simp

lemma gather_induct [case_names short bad arriving whole]:
  assumes "\<And>b hs. length b < 5 \<Longrightarrow> P b hs"
    and "\<And>b hs. 5 \<le> length b \<Longrightarrow> b ! 0 \<noteq> CHR 0x16 \<or> rec_len b = 0 \<or> 16384 < rec_len b \<Longrightarrow> P b hs"
    and "\<And>b hs. gather b hs = Inr None \<Longrightarrow> P b hs"
    and "\<And>h5 r rest hs. length r = rec_len (h5 @ r) \<Longrightarrow> length h5 = 5 \<Longrightarrow> h5 ! 0 = CHR 0x16 \<Longrightarrow>
      0 < length r \<Longrightarrow> length r \<le> 16384 \<Longrightarrow> P rest (hs @ r) \<Longrightarrow> P (h5 @ r @ rest) hs"
  shows "P b hs"
proof (induction b arbitrary: hs rule: length_induct)
  case (1 b)
  show ?case
  proof (cases b rule: gather_cases)
    case (whole h5 r rest)
    then have "P rest (hs @ r)" using 1 by simp
    then show ?thesis using whole assms(4) by simp
  qed (use assms gather_arriving in blast)+
qed

lemma gather_extends:
  "gather b hs = Inr (Some m) \<Longrightarrow> \<not> hs_done hs \<Longrightarrow> prefix hs m"
proof (induction b hs rule: gather_induct)
  case (whole h5 r rest hs)
  show ?case
  proof (cases "hs_done (hs @ r)")
    case True
    have "length hs \<le> 4 + hs_want (hs @ r)"
      using whole.prems(2) True
      by (cases "4 \<le> length hs") (simp_all add: hs_want_append hs_done_def)
    then show ?thesis
      using whole True by (auto simp: gather_record take_append split: if_splits)
  next
    case False
    then have "prefix (hs @ r) m"
      using whole by (simp add: gather_record split: if_splits)
    then show ?thesis by (rule append_prefixD)
  qed
qed (simp_all add: gather_short gather_bad)

lemma gather_done_append:
  "gather b hs = Inr (Some m) \<Longrightarrow> complete_message m \<Longrightarrow> \<not> hs_done hs \<Longrightarrow>
     gather (b @ x) hs = Inr (Some m)"
proof (induction b hs rule: gather_induct)
  case (short b hs)
  then show ?case using complete_done by (simp add: gather_short)
next
  case (whole h5 r rest hs)
  then show ?case by (auto simp: gather_record split: if_splits)
qed (simp_all add: gather_bad)

lemma gather_error_append: "gather b hs = Inl e \<Longrightarrow> gather (b @ x) hs = Inl e"
proof (induction b hs rule: gather_induct)
  case (bad b hs)
  then have "5 \<le> length (b @ x)" "(b @ x) ! 0 = b ! 0" "rec_len (b @ x) = rec_len b"
    by (auto simp: nth_append rec_len_append)
  then show ?case using bad gather_bad [of "b @ x"] gather_bad [of b] by simp
next
  case (whole h5 r rest hs)
  then show ?case by (auto simp: gather_record split: if_splits)
qed (simp_all add: gather_short)

lemma gather_incomplete:
  "gather b hs = Inr (Some m) \<Longrightarrow> \<not> hs_done hs \<Longrightarrow> hs_done m \<longrightarrow> complete_message m"
proof (induction b hs rule: gather_induct)
  case (whole h5 r rest hs)
  then show ?case using complete_take [of "hs @ r"] by (auto simp: gather_record split: if_splits)
qed (simp_all add: gather_short gather_bad)

lemma gather_grow:
  "gather b hs = Inr (Some m) \<Longrightarrow> \<not> complete_message m \<Longrightarrow> \<not> hs_done hs \<Longrightarrow>
     gather (b @ x) hs = Inr (Some m') \<Longrightarrow> prefix m m'"
proof (induction b hs rule: gather_induct)
  case (short b hs)
  then show ?case using gather_extends [of "b @ x" hs m'] by (simp add: gather_short)
next
  case (whole h5 r rest hs)
  then show ?case using complete_take [of "hs @ r"] by (auto simp: gather_record split: if_splits)
qed (simp_all add: gather_bad)

lemma hs_done_Nil [simp]: "\<not> hs_done []"
  by (simp add: hs_done_def)

lemma sni_of_message_incomplete:
  "sni_of_message m = Inr (Some h) \<Longrightarrow> hs_done m"
  "sni_of_message m = Inl e \<Longrightarrow> \<not> hs_done m \<Longrightarrow> 4 \<le> length m \<and> m ! 0 \<noteq> CHR 0x01"
  by (auto simp: sni_of_message_def hs_done_def split: if_splits)

lemma sni_found_append:
  assumes "sni_from_client_hello b = Inr (Some h)"
  shows "sni_from_client_hello (b @ x) = Inr (Some h)"
proof -
  obtain m where b: "5 \<le> length b" "b ! 0 = CHR 0x16" and
    g: "gather b [] = Inr (Some m)" and m: "sni_of_message m = Inr (Some h)"
    using assms by (auto simp: sni_from_client_hello_def split: if_splits sum.splits option.splits)
  have "complete_message m"
    using gather_incomplete [OF g] sni_of_message_incomplete(1) [OF m] by simp
  then have "gather (b @ x) [] = Inr (Some m)"
    using gather_done_append [OF g] by simp
  moreover have "(b @ x) ! 0 = CHR 0x16"
    using b by (cases b) auto
  ultimately show ?thesis
    using b m by (simp add: sni_from_client_hello_def)
qed

lemma sni_refused_append:
  assumes "sni_from_client_hello b = Inl e"
  shows "sni_from_client_hello (b @ x) \<noteq> Inr (Some h)"
proof -
  have len: "5 \<le> length b" and first: "(b @ x) ! 0 = b ! 0"
    using assms by (auto simp: sni_from_client_hello_def nth_append split: if_splits)
  consider "b ! 0 \<noteq> CHR 0x16" | e' where "gather b [] = Inl e'"
    | m where "gather b [] = Inr (Some m)" "complete_message m" "sni_of_message m = Inl e"
    | m where "gather b [] = Inr (Some m)" "\<not> complete_message m" "sni_of_message m = Inl e"
    using assms by (auto simp: sni_from_client_hello_def split: if_splits sum.splits option.splits)
  then show ?thesis
  proof cases
    case 1
    then show ?thesis using len first by (simp add: sni_from_client_hello_def)
  next
    case 2
    then show ?thesis
      using gather_error_append [of b "[]"] by (simp add: sni_from_client_hello_def)
  next
    case 3
    then show ?thesis
      using gather_done_append [of b "[]" m x] by (auto simp: sni_from_client_hello_def)
  next
    case 4
    then have nd: "\<not> hs_done m" using gather_incomplete [of b "[]" m] by simp
    have m: "4 \<le> length m" "m ! 0 \<noteq> CHR 0x01"
      using sni_of_message_incomplete(2) [OF 4(3) nd] by auto
    have "sni_of_message m' \<noteq> Inr (Some h)" if g: "gather (b @ x) [] = Inr (Some m')" for m'
    proof -
      obtain t where "m' = m @ t"
        using gather_grow [OF 4(1,2) hs_done_Nil g] by (auto simp: prefix_def)
      then show ?thesis
        using m by (cases m) (simp_all add: sni_of_message_def)
    qed
    then show ?thesis
      by (auto simp: sni_from_client_hello_def split: sum.splits option.splits)
  qed
qed

text \<open>A handshake message that has arrived whole but whose body is cut short asks for more bytes,
  and no further bytes can satisfy it.\<close>

lemma sni_short_body_needs_forever:
  assumes "5 \<le> length b" "b ! 0 = CHR 0x16" "gather b [] = Inr (Some m)"
    and "complete_message m" "sni_of_message m = Inr None"
  shows "sni_from_client_hello (b @ x) = Inr None"
proof -
  have "gather (b @ x) [] = Inr (Some m)"
    using gather_done_append [OF assms(3,4)] by simp
  moreover have "(b @ x) ! 0 = CHR 0x16"
    using assms(1,2) by (cases b) auto
  ultimately show ?thesis
    using assms by (simp add: sni_from_client_hello_def)
qed

subsection \<open>What a client sends is found\<close>

definition be24 :: "nat \<Rightarrow> bytes" where
  "be24 n = [char_of (n div 65536), char_of (n div 256 mod 256), char_of (n mod 256)]"

definition vec1 :: "bytes \<Rightarrow> bytes" where "vec1 b = char_of (length b) # b"
definition vec2 :: "bytes \<Rightarrow> bytes" where "vec2 b = be16 (length b) @ b"

definition tls_record :: "bytes \<Rightarrow> bytes" where
  "tls_record f = [CHR 0x16, CHR 0x03, CHR 0x01] @ vec2 f"

definition tls_extension :: "nat \<times> bytes \<Rightarrow> bytes" where
  "tls_extension td = be16 (fst td) @ vec2 (snd td)"

definition sni_extension :: "bytes \<Rightarrow> bytes" where
  "sni_extension host = tls_extension (0, vec2 (CHR 0x00 # vec2 host))"

definition hello_message :: "bytes \<Rightarrow> bytes \<Rightarrow> bytes \<Rightarrow> bytes \<Rightarrow> bytes \<Rightarrow> bytes" where
  "hello_message fixed sid suites compr exts =
    (let body = fixed @ vec1 sid @ vec2 suites @ vec1 compr @ vec2 exts
     in CHR 0x01 # be24 (length body) @ body)"

lemma length_vec [simp]: "length (vec1 b) = length b + 1" "length (vec2 b) = length b + 2"
  by (simp_all add: vec1_def vec2_def)

lemma rd_vec1 [simp]: "length b < 256 \<Longrightarrow> rd_vec (Suc 0) (vec1 b @ t) = Some (b, t)"
  by (simp add: rd_vec_def rd_len_def rd_u8_def vec1_def)

lemma rd_u16_be16 [simp]: "n < 65536 \<Longrightarrow> rd_u16 (be16 n @ t) = Some (n, t)"
  by (simp add: rd_u16_def be16_def)

lemma rd_vec2 [simp]:
  "length b < 65536 \<Longrightarrow> rd_vec 2 (vec2 b @ t) = Some (b, t)"
  "length b < 65536 \<Longrightarrow> rd_vec 2 (vec2 b) = Some (b, [])"
  using rd_u16_be16 [of "length b" b] rd_u16_be16 [of "length b" "b @ t"]
  by (simp_all add: rd_vec_def rd_len_def vec2_def)

lemma extensions_skip:
  assumes "fst td \<noteq> 0" "fst td < 65536" "length (snd td) < 65536"
  shows "extensions (tls_extension td @ e) = extensions e"
  using assms by (subst extensions.simps) (simp add: tls_extension_def)

lemma extensions_skip_all:
  "\<forall>td\<in>set pre. fst td \<noteq> 0 \<and> fst td < 65536 \<and> length (snd td) < 65536 \<Longrightarrow>
     extensions (concat (map tls_extension pre) @ e) = extensions e"
  by (induction pre) (simp_all add: extensions_skip)

lemma name_list_single:
  assumes "length host < 65536"
  shows "name_list (CHR 0x00 # vec2 host) [] = Inr host"
proof -
  have "rd_u8 (CHR 0x00 # vec2 host) = Some (0, vec2 host)" "rd_u8 [] = None"
    by (simp_all add: rd_u8_def)
  then show ?thesis
    using assms by (simp add: name_list.simps [of "CHR 0x00 # vec2 host"] name_list.simps [of "[]"])
qed

lemma extensions_sni:
  assumes "host \<noteq> []" "length host < 65000"
  shows "extensions (sni_extension host @ e) = Inr host"
  using assms
  by (subst extensions.simps) (simp add: sni_extension_def tls_extension_def name_list_single)

lemma hs_want_hello:
  assumes "n < 16777216"
  shows "hs_want (a # be24 n @ body) = n"
proof -
  have "n div 65536 = n div 256 div 256"
    by (simp add: div_mult2_eq [symmetric])
  moreover have "n div 256 div 256 < 256"
    using assms by (simp add: div_mult2_eq [symmetric] less_mult_imp_div_less)
  ultimately have w: "hs_want (a # be24 n @ body) =
      65536 * (n div 256 div 256) + 256 * (n div 256 mod 256) + n mod 256"
    by (simp add: hs_want_def be24_def)
  have "256 * (n div 256 div 256) + n div 256 mod 256 = n div 256" "256 * (n div 256) + n mod 256 = n"
    by (rule mult_div_mod_eq)+
  then show ?thesis unfolding w by linarith
qed

lemma gather_tls_record:
  assumes "0 < length f" "length f \<le> 16384"
  shows "gather (tls_record f @ rest) hs =
    (if max_header_bytes < length (hs @ f) then Inl Malformed
     else if hs_done (hs @ f) then Inr (Some (take (4 + hs_want (hs @ f)) (hs @ f)))
     else gather rest (hs @ f))"
  using gather_record [of f "[CHR 0x16, CHR 0x03, CHR 0x01] @ be16 (length f)" rest hs] assms
  by (simp add: tls_record_def vec2_def rec_len_def be16_def)

lemma gather_records:
  assumes "complete_message m" "length m \<le> max_header_bytes"
    and "\<forall>f\<in>set fs. f \<noteq> []" "hs @ concat fs = m" "\<not> hs_done hs"
  shows "gather (concat (map tls_record fs) @ rest) hs = Inr (Some m)"
  using assms(3-5)
proof (induction fs arbitrary: hs)
  case Nil
  then show ?case using complete_done [OF assms(1)] by simp
next
  case (Cons f fs)
  have len: "length (hs @ f) \<le> max_header_bytes" "0 < length f" "length f \<le> 16384"
    using Cons.prems(1,2) assms(2) by (auto simp: max_header_bytes_def)
  show ?case
  proof (cases "hs_done (hs @ f)")
    case True
    have "hs_want (hs @ f) = hs_want m" "length m = 4 + hs_want m" "4 \<le> length (hs @ f)"
      using True assms(1) hs_want_append [of "hs @ f" "concat fs"] Cons.prems(2)
      by (auto simp: hs_done_def complete_message_def)
    moreover have "concat fs = []"
    proof -
      have "length m = length (hs @ f) + length (concat fs)"
        using Cons.prems(2) by auto
      moreover have "4 + hs_want (hs @ f) \<le> length (hs @ f)"
        using True by (simp add: hs_done_def)
      ultimately have "length (concat fs) = 0"
        using \<open>hs_want (hs @ f) = hs_want m\<close> \<open>length m = 4 + hs_want m\<close> by linarith
      then show ?thesis by blast
    qed
    ultimately have "hs @ f = m" "take (4 + hs_want (hs @ f)) (hs @ f) = m"
      using Cons.prems(2) by auto
    then show ?thesis
      using len True by (simp add: gather_tls_record)
  next
    case False
    then show ?thesis
      using len Cons by (simp add: gather_tls_record)
  qed
qed

lemma client_hello_body_found:
  assumes "length fixed = 34" "length sid < 256" "length suites < 65536" "length compr < 256"
    and "length exts < 65536" "extensions exts = Inr host"
  shows "client_hello_body (fixed @ vec1 sid @ vec2 suites @ vec1 compr @ vec2 exts) = Inr (Some host)"
  using assms by (simp add: client_hello_body_def rd_skip_def rd_skip_vec_def)

text \<open>
  C9: The name is found in what a client sends: a ClientHello with any random, session id, cipher
  suites and compression methods, whose extension block holds any extensions and then the server
  name, cut into TLS records at any places, makes \<^verbatim>\<open>SNIFromClientHello\<close> return that name, whatever
  follows it in the block or on the connection.
\<close>

theorem sni_roundtrip:
  assumes "length rnd = 34" "length sid < 256" "length suites < 65536" "length compr < 256"
    and "\<forall>td\<in>set pre. fst td \<noteq> 0 \<and> fst td < 65536 \<and> length (snd td) < 65536"
    and "exts = concat (map tls_extension pre) @ sni_extension host @ post" "length exts < 65536"
    and "host \<noteq> []" "length host < 65000"
    and "concat fs = hello_message rnd sid suites compr exts" "\<forall>f\<in>set fs. f \<noteq> []"
    and "length (concat fs) \<le> max_header_bytes"
  shows "sni_from_client_hello (concat (map tls_record fs) @ rest) = Inr (Some host)"
proof -
  let ?body = "rnd @ vec1 sid @ vec2 suites @ vec1 compr @ vec2 exts"
  let ?m = "CHR 0x01 # be24 (length ?body) @ ?body"
  have m: "concat fs = ?m" "length ?body < 16777216"
    using assms(1-4,7,10) by (simp_all add: hello_message_def Let_def)
  have l24: "length (be24 n) = 3" for n by (simp add: be24_def)
  have c: "complete_message ?m"
    using hs_want_hello [OF m(2), of "CHR 0x01" ?body] l24 by (simp add: complete_message_def)
  have g: "gather (concat (map tls_record fs) @ rest) [] = Inr (Some ?m)"
    using gather_records [OF c _ assms(11)] m(1) assms(12) by simp
  have "extensions exts = Inr host"
    using assms(5,6,8,9) by (simp add: extensions_skip_all extensions_sni)
  then have "client_hello_body ?body = Inr (Some host)"
    using client_hello_body_found assms(1-4,7) by simp
  moreover have "drop 4 ?m = ?body" "?m ! 0 = CHR 0x01" "hs_want ?m = length ?body"
    using hs_want_hello [OF m(2), of "CHR 0x01" ?body] by (simp_all add: be24_def)
  ultimately have som: "sni_of_message ?m = Inr (Some host)"
    using assms(1) l24 by (simp add: sni_of_message_def)
  obtain f fs' where "fs = f # fs'" "f \<noteq> []"
    using m(1) assms(11) by (cases fs) auto
  then have "5 \<le> length (concat (map tls_record fs) @ rest)"
      "(concat (map tls_record fs) @ rest) ! 0 = CHR 0x16"
    by (simp_all add: tls_record_def)
  then show ?thesis
    using g som by (simp add: sni_from_client_hello_def)
qed

theorem sni_roundtrip_witness:
  "sni_from_client_hello (concat (map tls_record [hello_message (replicate 34 CHR 0x07) [] ''ab'' [CHR 0x00]
     (tls_extension (10, ''xy'') @ sni_extension ''db.home'')]) @ ''next'') = Inr (Some ''db.home'')"
proof -
  have len: "length (hello_message (replicate 34 CHR 0x07) [] ''ab'' [CHR 0x00]
     (tls_extension (10, ''xy'') @ sni_extension ''db.home'')) \<le> max_header_bytes"
    by (simp add: hello_message_def Let_def be24_def max_header_bytes_def tls_extension_def sni_extension_def)
  show ?thesis
    by (rule sni_roundtrip [where pre = "[(10, ''xy'')]" and post = "[]"])
      (use len in \<open>simp_all add: tls_extension_def sni_extension_def\<close>,
       simp add: hello_message_def Let_def)
qed

end
