(* ===== verification/Names_DNS.thy ===== *)
theory Names_DNS
  imports Names_Zone Go_IO "HOL-Library.Word"
begin

text \<open>
  Package \<^verbatim>\<open>internal/names\<close>, the responder: \<^verbatim>\<open>dns.go\<close> (\<^verbatim>\<open>Respond\<close>, \<^verbatim>\<open>build\<close>, \<^verbatim>\<open>probeLabel\<close>) and
  from \<^verbatim>\<open>server.go\<close> the per-connection loop of the stream transport and one step of the datagram
  transport.

  The DNS message codec is the third-party package \<^verbatim>\<open>dnsmessage\<close>: parsing a packet and finishing a
  builder are arguments. What the parser reports is a record: the header, the first question if
  there is one, and whether the second call to \<^verbatim>\<open>Question\<close> said the section was done.
\<close>

record dns_header =
  d_id :: "16 word"
  d_response :: bool
  d_opcode :: "16 word"
  d_authoritative :: bool
  d_recursion_desired :: bool
  d_recursion_available :: bool
  d_rcode :: "16 word"

record dns_question =
  q_name :: string
  q_type :: "16 word"
  q_class :: "16 word"

record dns_packet =
  p_header :: dns_header
  p_question :: "dns_question option"
  p_done :: bool

record dns_answer =
  a_name :: string
  a_type :: "16 word"
  a_class :: "16 word"
  a_ttl :: "32 word"
  a_addr :: "nat list"

record dns_message =
  m_header :: dns_header
  m_question :: "dns_question option"
  m_answer :: "dns_answer option"

definition answer_ttl :: "32 word" where "answer_ttl = 5"
definition loopback :: "nat list" where "loopback = [127, 0, 0, 1]"
definition resolver_discovery_name :: string where
  "resolver_discovery_name = ''_dns.resolver.arpa''"

definition type_a :: "16 word" where "type_a = 1"
definition class_inet :: "16 word" where "class_inet = 1"
definition rcode_success :: "16 word" where "rcode_success = 0"
definition rcode_format_error :: "16 word" where "rcode_format_error = 1"
definition rcode_name_error :: "16 word" where "rcode_name_error = 3"
definition rcode_refused :: "16 word" where "rcode_refused = 5"

text \<open>\<^verbatim>\<open>build\<close>: the message handed to the builder; \<open>pack\<close> is what the builder makes of it, \<open>None\<close>
  an error, which drops the reply.\<close>

definition reply_message ::
  "dns_header \<Rightarrow> dns_question option \<Rightarrow> 16 word \<Rightarrow> bool \<Rightarrow> dns_message" where
  "reply_message req q code answer =
    \<lparr>m_header = \<lparr>d_id = d_id req, d_response = True, d_opcode = d_opcode req,
       d_authoritative = True, d_recursion_desired = d_recursion_desired req,
       d_recursion_available = False, d_rcode = code\<rparr>,
     m_question = q,
     m_answer = (case q of
        Some qq \<Rightarrow> if answer then Some \<lparr>a_name = q_name qq, a_type = type_a, a_class = class_inet,
            a_ttl = answer_ttl, a_addr = loopback\<rparr> else None
      | None \<Rightarrow> None)\<rparr>"

definition build_reply ::
  "(dns_message \<Rightarrow> bytes option) \<Rightarrow> dns_header \<Rightarrow> dns_question option \<Rightarrow> 16 word \<Rightarrow> bool \<Rightarrow> bytes option"
where
  "build_reply pack req q code answer = pack (reply_message req q code answer)"

definition match_probe_label :: "string \<Rightarrow> string \<Rightarrow> string option" where
  "match_probe_label name suf =
    (let tl = CHR ''.'' # probe_label @ CHR ''.'' # suf in
     if \<not> has_suffix name tl then None
     else (let label = trim_suffix name tl in
       if label = [] \<or> contains_byte label (CHR ''.'') then None else Some label))"

definition respond ::
  "(bytes \<Rightarrow> dns_packet option) \<Rightarrow> (dns_message \<Rightarrow> bytes option) \<Rightarrow> bytes \<Rightarrow> zone \<Rightarrow> bytes option \<times> zone"
where
  "respond parse pack query z =
    (case parse query of
       None \<Rightarrow> (None, z)
     | Some p \<Rightarrow>
        if d_response (p_header p) then (None, z)
        else (case p_question p of
            None \<Rightarrow> (build_reply pack (p_header p) None rcode_format_error False, z)
          | Some q \<Rightarrow>
             if \<not> p_done p then (build_reply pack (p_header p) (Some q) rcode_format_error False, z)
             else (let name = to_lower (trim_suffix (q_name q) ''.'');
                       say = build_reply pack (p_header p) (Some q) in
               if name = resolver_discovery_name then (say rcode_success False, z)
               else if \<not> in_suffix z name then (say rcode_refused False, z)
               else (case match_probe_label name (z_suffix z) of
                   Some label \<Rightarrow> (say rcode_success (q_type q = type_a), note_probe label z)
                 | None \<Rightarrow>
                    if name = z_suffix z then (say rcode_success False, z)
                    else (case split_host z name of
                        None \<Rightarrow> (say rcode_name_error False, z)
                      | Some (server, service) \<Rightarrow>
                         if \<not> manages z server then (say rcode_name_error False, z)
                         else (say rcode_success (q_type q = type_a), z))))))"

subsection \<open>The stream transport\<close>

definition udp_read_buffer :: nat where "udp_read_buffer = 1232"
definition tcp_max_message :: nat where "tcp_max_message = 4096"
definition tcp_max_queries_per_conn :: nat where "tcp_max_queries_per_conn = 64"

text \<open>
  The loop of \<^verbatim>\<open>serveConn\<close> with \<open>n\<close> turns left: the connection is a reader and a writer, the zone is
  threaded because answering a probe changes it. The result is what was written and the zone.
\<close>

fun dns_serve_loop ::
  "(bytes \<Rightarrow> dns_packet option) \<Rightarrow> (dns_message \<Rightarrow> bytes option) \<Rightarrow> nat \<Rightarrow> reader \<Rightarrow> writer \<Rightarrow> zone
     \<Rightarrow> writer \<times> zone"
where
  "dns_serve_loop parse pack 0 r w z = (w, z)"
| "dns_serve_loop parse pack (Suc n) r w z =
    (case read_full 2 r of
       Inl _ \<Rightarrow> (w, z)
     | Inr (lenb, r1) \<Rightarrow>
        if unbe lenb = 0 \<or> tcp_max_message < unbe lenb then (w, z)
        else (case read_full (unbe lenb) r1 of
            Inl _ \<Rightarrow> (w, z)
          | Inr (msg, r2) \<Rightarrow>
             (case respond parse pack msg z of
                (None, z') \<Rightarrow> (w, z')
              | (Some reply, z') \<Rightarrow>
                 (case write_bytes (be16 (length reply mod 65536)) w of
                    (Some _, w') \<Rightarrow> (w', z')
                  | (None, w') \<Rightarrow>
                     (case write_bytes reply w' of
                        (Some _, w'') \<Rightarrow> (w'', z')
                      | (None, w'') \<Rightarrow> dns_serve_loop parse pack n r2 w'' z')))))"

definition dns_serve_conn ::
  "(bytes \<Rightarrow> dns_packet option) \<Rightarrow> (dns_message \<Rightarrow> bytes option) \<Rightarrow> reader \<Rightarrow> writer \<Rightarrow> zone \<Rightarrow> writer \<times> zone"
where
  "dns_serve_conn parse pack r w z = dns_serve_loop parse pack tcp_max_queries_per_conn r w z"

text \<open>One datagram of \<^verbatim>\<open>serveUDP\<close>; the kernel cuts it to the read buffer.\<close>

definition serve_udp_one ::
  "(bytes \<Rightarrow> dns_packet option) \<Rightarrow> (dns_message \<Rightarrow> bytes option) \<Rightarrow> bytes \<Rightarrow> zone \<Rightarrow> bytes option \<times> zone"
where
  "serve_udp_one parse pack dgram z = respond parse pack (take udp_read_buffer dgram) z"

subsection \<open>What is answered\<close>

lemma match_probe_label_iff:
  "match_probe_label name suf = Some l \<longleftrightarrow>
     name = l @ CHR ''.'' # probe_label @ CHR ''.'' # suf \<and> l \<noteq> [] \<and> CHR ''.'' \<notin> set l"
  by (auto simp: match_probe_label_def Let_def has_suffix_iff contains_byte_iff)

lemma respond_zone_ok [inv_intros]: "zone_ok z \<Longrightarrow> zone_ok (snd (respond parse pack q z))"
  by (auto simp: respond_def Let_def intro: note_probe_ok split: option.splits)

lemma respond_servers:
  "z_servers (snd (respond parse pack q z)) = z_servers z \<and> z_suffix (snd (respond parse pack q z)) = z_suffix z"
  by (auto simp: respond_def Let_def note_probe_def split: option.splits)

lemma dns_serve_loop_zone:
  "zone_ok z \<Longrightarrow> dns_serve_loop parse pack n r w z = (w', z') \<Longrightarrow>
     zone_ok z' \<and> z_servers z' = z_servers z \<and> z_suffix z' = z_suffix z \<and> prefix (sent w) (sent w')"
proof (induction n arbitrary: r w z)
  case (Suc n)
  consider "w' = w \<and> z' = z"
    | lenb r1 msg r2 where "read_full 2 r = Inr (lenb, r1)" "read_full (unbe lenb) r1 = Inr (msg, r2)"
        "unbe lenb \<noteq> 0 \<and> unbe lenb \<le> tcp_max_message"
    using Suc.prems(2) by (auto split: sum.splits if_splits)
  then show ?case
  proof cases
    case 1
    then show ?thesis using Suc.prems by simp
  next
    case 2
    obtain rep z1 where rs: "respond parse pack msg z = (rep, z1)" by fastforce
    have z1: "zone_ok z1" "z_servers z1 = z_servers z" "z_suffix z1 = z_suffix z"
      using respond_zone_ok [OF Suc.prems(1), of parse pack msg] respond_servers [of parse pack msg z] rs
      by simp_all
    show ?thesis
    proof (cases rep)
      case None
      then show ?thesis using Suc.prems(2) 2 rs z1 by simp
    next
      case (Some reply)
      obtain e1 w1 where w1: "write_bytes (be16 (length reply mod 65536)) w = (e1, w1)" by fastforce
      obtain e2 w2 where w2: "write_bytes reply w1 = (e2, w2)" by fastforce
      have p: "prefix (sent w) (sent w1)" "prefix (sent w1) (sent w2)"
        using write_bytes_prefix [OF w1] write_bytes_prefix [OF w2] by simp_all
      show ?thesis
      proof (cases "e1 = None \<and> e2 = None")
        case True
        then have "dns_serve_loop parse pack n r2 w2 z1 = (w', z')"
          using Suc.prems(2) 2 rs Some w1 w2 by simp
        then show ?thesis
          using Suc.IH [OF z1(1)] z1 p by (metis prefix_order.trans)
      next
        case False
        then have "z' = z1 \<and> (w' = w1 \<or> w' = w2)"
          using Suc.prems(2) 2 rs Some w1 w2 by (cases e1; cases e2) auto
        then show ?thesis using z1 p by (auto intro: prefix_order.trans)
      qed
    qed
  qed
qed simp

text \<open>The reference for the answer to a well-formed query for a name, in terms of the zone only.\<close>

datatype verdict = Say_refused | Say_nothing | Say_no_such_name | Say_address

definition dns_verdict :: "zone \<Rightarrow> string \<Rightarrow> bool \<Rightarrow> verdict" where
  "dns_verdict z name wants_a =
    (if name = resolver_discovery_name then Say_nothing
     else if z_suffix z = [] \<or>
       name \<noteq> z_suffix z \<and> (\<nexists>p. name = p @ CHR ''.'' # z_suffix z) then Say_refused
     else if name = z_suffix z then Say_nothing
     else if (\<exists>l. l \<noteq> [] \<and> CHR ''.'' \<notin> set l \<and> name = l @ CHR ''.'' # probe_label @ CHR ''.'' # z_suffix z)
       \<or> (\<exists>server service. server \<in> z_servers z \<and> split_host z name = Some (server, service))
       then (if wants_a then Say_address else Say_nothing)
     else Say_no_such_name)"

definition verdict_code :: "verdict \<Rightarrow> 16 word" where
  "verdict_code v = (case v of Say_refused \<Rightarrow> rcode_refused | Say_no_such_name \<Rightarrow> rcode_name_error
     | Say_nothing \<Rightarrow> rcode_success | Say_address \<Rightarrow> rcode_success)"

lemma respond_query:
  assumes "parse query = Some p" "\<not> d_response (p_header p)" "p_question p = Some q" "p_done p"
  shows "respond parse pack query z =
     (let say = build_reply pack (p_header p) (Some q);
          name = to_lower (trim_suffix (q_name q) ''.'') in
       if name = resolver_discovery_name then (say rcode_success False, z)
       else if \<not> in_suffix z name then (say rcode_refused False, z)
       else (case match_probe_label name (z_suffix z) of
           Some label \<Rightarrow> (say rcode_success (q_type q = type_a), note_probe label z)
         | None \<Rightarrow>
            if name = z_suffix z then (say rcode_success False, z)
            else (case split_host z name of
                None \<Rightarrow> (say rcode_name_error False, z)
              | Some (server, service) \<Rightarrow>
                 if \<not> manages z server then (say rcode_name_error False, z)
                 else (say rcode_success (q_type q = type_a), z))))"
  using assms by (simp add: respond_def Let_def)

text \<open>
  C7: What \<^verbatim>\<open>Respond\<close> sends back to a single-question query is exactly the reply the zone's rule
  prescribes: refused outside the suffix, an empty success for the zone itself and the resolver
  discovery name, the loopback address only for an A query for a managed server (or a service under
  it) or a probe, no such name otherwise. The question is echoed unchanged and at most one answer
  is ever included.
\<close>

theorem respond_verdict:
  fixes z :: zone
  assumes "parse query = Some p" "\<not> d_response (p_header p)" "p_question p = Some q" "p_done p"
  defines "v \<equiv> dns_verdict z (to_lower (trim_suffix (q_name q) ''.'')) (q_type q = type_a)"
  shows "fst (respond parse pack query z) =
    pack (reply_message (p_header p) (Some q) (verdict_code v) (v = Say_address))"
proof -
  define name where "name = to_lower (trim_suffix (q_name q) ''.'')"
  note resp = respond_query [where pack = pack and z = z, of parse query p q, OF assms(1-4), folded name_def]
  have ins: "in_suffix z name \<longleftrightarrow> z_suffix z \<noteq> [] \<and>
      (name = z_suffix z \<or> (\<exists>p. name = p @ CHR ''.'' # z_suffix z))"
    by (auto simp: in_suffix_def has_suffix_iff)
  have mp: "(\<exists>l. match_probe_label name (z_suffix z) = Some l) \<longleftrightarrow>
      (\<exists>l. l \<noteq> [] \<and> CHR ''.'' \<notin> set l \<and> name = l @ CHR ''.'' # probe_label @ CHR ''.'' # z_suffix z)"
    by (auto simp: match_probe_label_iff)
  have v: "v = dns_verdict z name (q_type q = type_a)"
    by (simp add: v_def name_def)
  consider "name = resolver_discovery_name"
    | "name \<noteq> resolver_discovery_name" "\<not> in_suffix z name"
    | l where "name \<noteq> resolver_discovery_name" "in_suffix z name" "match_probe_label name (z_suffix z) = Some l"
    | "name \<noteq> resolver_discovery_name" "in_suffix z name" "match_probe_label name (z_suffix z) = None"
    by (cases "match_probe_label name (z_suffix z)") auto
  then show ?thesis
  proof cases
    case 1
    then show ?thesis
      by (simp add: resp Let_def v dns_verdict_def verdict_code_def build_reply_def)
  next
    case 2
    then have "v = Say_refused" using ins by (auto simp: v dns_verdict_def)
    then show ?thesis using 2 by (simp add: resp Let_def verdict_code_def build_reply_def)
  next
    case 3
    have "name \<noteq> z_suffix z" using 3(3) by (simp add: match_probe_label_iff)
    then have "v = (if q_type q = type_a then Say_address else Say_nothing)"
      using 3 ins mp by (auto simp: v dns_verdict_def)
    then show ?thesis using 3 by (simp add: resp Let_def verdict_code_def build_reply_def)
  next
    case 4
    have v4: "v = (if name = z_suffix z then Say_nothing
        else if (\<exists>server service. server \<in> z_servers z \<and> split_host z name = Some (server, service))
          then (if q_type q = type_a then Say_address else Say_nothing) else Say_no_such_name)"
      using 4 ins mp by (auto simp: v dns_verdict_def)
    show ?thesis
      using 4 by (auto simp: resp v4 verdict_code_def build_reply_def manages_def Let_def
          split: option.splits)
  qed
qed

definition sample_packet :: "bytes \<Rightarrow> dns_packet option" where
  "sample_packet query = (if query = [] then None else
     Some \<lparr>p_header = \<lparr>d_id = 7, d_response = False, d_opcode = 0, d_authoritative = False,
         d_recursion_desired = True, d_recursion_available = False, d_rcode = 0\<rparr>,
       p_question = Some \<lparr>q_name = ''example.com.'', q_type = 1, q_class = 1\<rparr>, p_done = True\<rparr>)"

theorem respond_verdict_witness:
  "fst (respond sample_packet (\<lambda>m. Some (itoa (unat (d_rcode (m_header m))))) ''x''
     \<lparr>z_suffix = ''home'', z_servers = {''db''}, z_probes = {}\<rparr>) = Some (itoa 5)"
proof -
  let ?z = "\<lparr>z_suffix = ''home'', z_servers = {''db''}, z_probes = {}\<rparr>"
  have "to_lower ''example.com'' = ''example.com''"
    by (rule to_lower_id) simp
  then have n: "to_lower (trim_suffix ''example.com.'' ''.'') = ''example.com''"
    by (simp add: trim_suffix_def has_suffix_def)
  have "\<nexists>p. ''example.com'' = p @ ''.home''"
  proof
    assume "\<exists>p. ''example.com'' = p @ ''.home''"
    then have "has_suffix ''example.com'' ''.home''" by (simp add: has_suffix_iff)
    then show False by (simp add: has_suffix_def)
  qed
  then have "dns_verdict ?z ''example.com'' True = Say_refused"
    by (simp add: dns_verdict_def resolver_discovery_name_def)
  then show ?thesis
    using respond_verdict [of sample_packet "''x''" _ _ "\<lambda>m. Some (itoa (unat (d_rcode (m_header m))))" ?z] n
    by (simp add: sample_packet_def verdict_code_def rcode_refused_def reply_message_def type_a_def)
qed

subsection \<open>The door and the directory agree\<close>

lemma host_form_not_underscored:
  assumes "host_form h"
  shows "h \<noteq> resolver_discovery_name" and "match_probe_label h suf = None"
proof -
  have u: "CHR ''_'' \<notin> set h"
    using host_form_byte [OF assms, of "CHR ''_''"] by (auto simp: lower_or_digit_or_dash_def)
  then show "h \<noteq> resolver_discovery_name" by (auto simp: resolver_discovery_name_def)
  show "match_probe_label h suf = None"
  proof (cases "match_probe_label h suf")
    case (Some l)
    then have "h = l @ CHR ''.'' # probe_label @ CHR ''.'' # suf"
      using match_probe_label_iff by blast
    moreover have "CHR ''_'' \<in> set probe_label" by (simp add: probe_label_def)
    ultimately show ?thesis using u by simp
  qed
qed

text \<open>
  C8: The directory and the door agree: for any name the request check can normalize, an A query for
  it is answered with the loopback address exactly when the request check would route it, so a
  browser is never handed an address for a hostname the edge then refuses, nor the reverse.
\<close>

theorem dns_agrees_with_route:
  assumes "parse query = Some p" "\<not> d_response (p_header p)" "p_question p = Some q" "p_done p"
    and "q_type q = type_a" "normalize_host raw = Inr (to_lower (trim_suffix (q_name q) ''.''))"
  shows "\<exists>code. fst (respond parse pack query z) =
      pack (reply_message (p_header p) (Some q) code (is_ok (route z raw)))
    \<and> (is_ok (route z raw) \<longrightarrow> code = rcode_success)"
proof -
  define h where "h = to_lower (trim_suffix (q_name q) ''.'')"
  have n: "normalize_host raw = Inr h" using assms(6) by (simp add: h_def)
  have hf: "host_form h" using normalize_host_InrD [OF n] by blast
  note u = host_form_not_underscored [OF hf]
  have "fst (respond parse pack query z) =
     (if \<not> in_suffix z h then build_reply pack (p_header p) (Some q) rcode_refused False
      else if h = z_suffix z then build_reply pack (p_header p) (Some q) rcode_success False
      else (case split_host z h of
          None \<Rightarrow> build_reply pack (p_header p) (Some q) rcode_name_error False
        | Some (server, service) \<Rightarrow>
           if \<not> manages z server then build_reply pack (p_header p) (Some q) rcode_name_error False
           else build_reply pack (p_header p) (Some q) rcode_success True))"
    using respond_query [where pack = pack and z = z, of parse query p q, OF assms(1-4), folded h_def] assms(5) u
    by (simp add: Let_def split: option.splits prod.splits)
  moreover have "route z raw =
     (if \<not> in_suffix z h then Inl Outside_zone
      else (case split_host z h of None \<Rightarrow> Inl Outside_zone
        | Some (server, service) \<Rightarrow>
           if \<not> manages z server then Inl No_such_server else Inr (server, service, h)))"
    by (simp add: route_def n)
  moreover have "h = z_suffix z \<Longrightarrow> split_host z h = None"
    by (simp add: split_host_def)
  ultimately show ?thesis
    by (cases "in_suffix z h"; cases "split_host z h") (auto simp: build_reply_def)
qed

theorem dns_agrees_with_route_witness:
  "\<exists>code. fst (respond (\<lambda>_. map_option (\<lambda>p. p\<lparr>p_question := Some \<lparr>q_name = ''db.home'', q_type = 1, q_class = 1\<rparr>\<rparr>)
       (sample_packet ''q'')) (\<lambda>m. Some (if m_answer m = None then [] else ''A'')) ''q''
     \<lparr>z_suffix = ''home'', z_servers = {''db''}, z_probes = {}\<rparr>)
   = Some (if is_ok (route \<lparr>z_suffix = ''home'', z_servers = {''db''}, z_probes = {}\<rparr> ''db.home'') then ''A'' else [])"
proof -
  let ?z = "\<lparr>z_suffix = ''home'', z_servers = {''db''}, z_probes = {}\<rparr>"
  let ?q = "\<lparr>q_name = ''db.home'', q_type = 1, q_class = 1\<rparr>"
  let ?p = "the (sample_packet ''q'')\<lparr>p_question := Some ?q\<rparr>"
  have "to_lower ''db.home'' = ''db.home''"
    by (rule to_lower_id) simp
  then have n: "to_lower (trim_suffix ''db.home'' ''.'') = ''db.home''"
    by (simp add: trim_suffix_def has_suffix_def)
  show ?thesis
    using dns_agrees_with_route [of "\<lambda>_. map_option (\<lambda>p. p\<lparr>p_question := Some ?q\<rparr>) (sample_packet ''q'')"
        "''q''" ?p ?q "''db.home''" "\<lambda>m. Some (if m_answer m = None then [] else ''A'')" ?z]
      n normalize_sample
    by (auto simp: sample_packet_def reply_message_def type_a_def)
qed

end
