(* ===== verification/Vhost_Interface.thy ===== *)
theory Vhost_Interface
  imports Prelude
begin

text \<open>
  The contract between the control plane and the agent's table of published names.

  Package \<^verbatim>\<open>internal/control\<close> reaches the table only through small interfaces (\<^verbatim>\<open>VhostPublisher\<close>,
  \<^verbatim>\<open>VhostWithdrawer\<close>); it cannot see the table itself. The locale \<open>name_table\<close> states what those
  operations promise: a publish never displaces an entry and only adds the asked name, a withdrawal
  only ever takes away a removable entry, a refused operation changes nothing, and both keep the
  table's invariant. What follows for any sequence of operations is proved here once.
\<close>

datatype vhost_op = Publish string int | Withdraw string

locale name_table =
  fixes publish :: "string \<Rightarrow> int \<Rightarrow> 't \<Rightarrow> 'e option \<times> 't"
    and withdraw :: "string \<Rightarrow> 't \<Rightarrow> ('f + 'w) \<times> 't"
    and entry :: "'t \<Rightarrow> string \<Rightarrow> 'v option"
    and removable :: "'v \<Rightarrow> bool"
    and ok :: "'t \<Rightarrow> bool"
  assumes publish_ok: "ok t \<Longrightarrow> ok (snd (publish h p t))"
    and withdraw_ok: "ok t \<Longrightarrow> ok (snd (withdraw h t))"
    and publish_keeps: "ok t \<Longrightarrow> entry t n = Some v \<Longrightarrow> entry (snd (publish h p t)) n = Some v"
    and publish_adds: "ok t \<Longrightarrow> entry (snd (publish h p t)) n = Some v \<Longrightarrow>
      entry t n = Some v \<or> n = h \<and> removable v"
    and publish_refused: "ok t \<Longrightarrow> fst (publish h p t) = Some e \<Longrightarrow> snd (publish h p t) = t"
    and publish_done: "ok t \<Longrightarrow> publish h p t = (None, t') \<Longrightarrow>
      entry t' h \<noteq> None \<and> publish h p t' = (None, t')"
    and withdraw_keeps: "ok t \<Longrightarrow> entry t n = Some v \<Longrightarrow> n \<noteq> h \<or> \<not> removable v \<Longrightarrow>
      entry (snd (withdraw h t)) n = Some v"
    and withdraw_only_removes: "ok t \<Longrightarrow> entry (snd (withdraw h t)) n = Some v \<Longrightarrow> entry t n = Some v"
    and withdraw_refused: "ok t \<Longrightarrow> fst (withdraw h t) = Inl f \<Longrightarrow> snd (withdraw h t) = t"
    and withdraw_done: "ok t \<Longrightarrow> withdraw h t = (Inr w, t') \<Longrightarrow>
      (\<exists>v. entry t h = Some v \<and> removable v) \<and> entry t' h = None"
begin

fun step :: "vhost_op \<Rightarrow> 't \<Rightarrow> 't" where
  "step (Publish h p) t = snd (publish h p t)"
| "step (Withdraw h) t = snd (withdraw h t)"

definition run :: "vhost_op list \<Rightarrow> 't \<Rightarrow> 't" where
  "run ops t = fold step ops t"

lemma step_ok: "ok t \<Longrightarrow> ok (step a t)"
  by (cases a) (simp_all add: publish_ok withdraw_ok)

lemma step_keeps_fixed:
  "ok t \<Longrightarrow> entry t n = Some v \<Longrightarrow> \<not> removable v \<Longrightarrow> entry (step a t) n = Some v"
  by (cases a) (simp_all add: publish_keeps withdraw_keeps)

lemma step_origin:
  "ok t \<Longrightarrow> entry (step a t) n = Some v \<Longrightarrow> entry t n = Some v \<or> removable v"
  by (cases a) (auto dest: publish_adds withdraw_only_removes)

lemma run_ok: "ok t \<Longrightarrow> ok (run ops t)"
  unfolding run_def by (induction ops arbitrary: t) (simp_all add: step_ok)

lemma run_keeps_fixed:
  "ok t \<Longrightarrow> entry t n = Some v \<Longrightarrow> \<not> removable v \<Longrightarrow> entry (run ops t) n = Some v"
  unfolding run_def by (induction ops arbitrary: t) (simp_all add: step_ok step_keeps_fixed)

lemma run_origin:
  "ok t \<Longrightarrow> entry (run ops t) n = Some v \<Longrightarrow> entry t n = Some v \<or> removable v"
proof (induction ops arbitrary: t)
  case Nil
  then show ?case by (simp add: run_def)
next
  case (Cons a ops)
  have "entry (run ops (step a t)) n = Some v"
    using Cons.prems(2) by (simp add: run_def)
  then have "entry (step a t) n = Some v \<or> removable v"
    using Cons.IH [OF step_ok [OF Cons.prems(1)]] by blast
  then show ?case using step_origin [OF Cons.prems(1)] by blast
qed

text \<open>Publishing and withdrawing a name that was free leaves what every other name shows.\<close>

lemma publish_withdraw_others:
  assumes "ok t" "n \<noteq> h"
  shows "entry (run [Publish h p, Withdraw h] t) n = entry t n"
proof -
  let ?t1 = "snd (publish h p t)" and ?t2 = "snd (withdraw h (snd (publish h p t)))"
  have ok1: "ok ?t1" using assms(1) by (rule publish_ok)
  have "entry ?t2 n = Some v \<longleftrightarrow> entry t n = Some v" for v
  proof
    assume "entry ?t2 n = Some v"
    then have "entry ?t1 n = Some v" using withdraw_only_removes [OF ok1] by blast
    then show "entry t n = Some v" using publish_adds [OF assms(1)] assms(2) by blast
  next
    assume "entry t n = Some v"
    then have "entry ?t1 n = Some v" by (rule publish_keeps [OF assms(1)])
    then show "entry ?t2 n = Some v" using withdraw_keeps [OF ok1] assms(2) by blast
  qed
  then show ?thesis
    by (cases "entry t n"; cases "entry ?t2 n") (auto simp: run_def)
qed

end

end
