(* ===== verification/Router_Vhost.thy ===== *)
theory Router_Vhost
  imports Names_Zone
begin

text \<open>
  Package \<^verbatim>\<open>internal/router\<close>, the tables: \<^verbatim>\<open>name.go\<close>, \<^verbatim>\<open>parse.go\<close>, \<^verbatim>\<open>vhost.go\<close> and the address
  parser of \<^verbatim>\<open>router.go\<close>.

  The two Go maps of \<^verbatim>\<open>vhosts\<close> are partial maps. Building the table ranges over a Go map, whose
  order is not specified; the entries are an association list with distinct keys, and what is proved
  does not depend on its order. Each operation runs under the table's lock, so an operation is one
  step on the state.
\<close>

subsection \<open>Route names and addresses\<close>

datatype name_rule = Name_empty | Name_too_long | Name_characters

definition route_name_char :: "byte \<Rightarrow> bool" where
  "route_name_char c \<longleftrightarrow> (65 \<le> ord c \<and> ord c \<le> 90) \<or> (97 \<le> ord c \<and> ord c \<le> 122) \<or>
     (48 \<le> ord c \<and> ord c \<le> 57) \<or> c = CHR ''.'' \<or> c = CHR ''_'' \<or> c = CHR ''-''"

text \<open>\<^verbatim>\<open>routeNamePattern\<close>: one to sixty-four characters of the class, anchored at both ends.\<close>

definition route_name_pattern :: "bytes \<Rightarrow> bool" where
  "route_name_pattern s \<longleftrightarrow> 1 \<le> length s \<and> length s \<le> 64 \<and> list_all route_name_char s"

definition validate_route_name :: "bytes \<Rightarrow> name_rule option" where
  "validate_route_name name =
    (if route_name_pattern name then None
     else if name = [] then Some Name_empty
     else if 64 < length name then Some Name_too_long
     else Some Name_characters)"

datatype parse_addr_error =
    Invalid_tcp addr_error
  | Unix_not_absolute
  | Unsupported_scheme

definition parse_addr :: "bytes \<Rightarrow> parse_addr_error + (string \<times> string)" where
  "parse_addr raw =
    (if has_prefix raw ''tcp://'' then
       (let hostport = trim_prefix raw ''tcp://'' in
        (case split_host_port hostport of
           Inl e \<Rightarrow> Inl (Invalid_tcp e)
         | Inr _ \<Rightarrow> Inr (''tcp'', hostport)))
     else if has_prefix raw ''unix://'' then
       (let path = trim_prefix raw ''unix://'' in
        if \<not> has_prefix path ''/'' then Inl Unix_not_absolute
        else Inr (''unix'', path))
     else Inl Unsupported_scheme)"

subsection \<open>Hostname keys\<close>

datatype vhost_rule =
    Vh_empty
  | Vh_not_lowercase
  | Vh_too_long
  | Vh_matches_everything
  | Vh_star_position
  | Vh_star_part
  | Vh_label string
  | Vh_dots

definition validate_vhost_label :: "bytes \<Rightarrow> vhost_rule option" where
  "validate_vhost_label label =
    (if label = [] then Some Vh_empty
     else if contains_byte label (CHR ''.'') then Some Vh_dots
     else if contains_byte label (CHR ''*'') then Some Vh_star_part
     else if label \<noteq> to_lower label then Some Vh_not_lowercase
     else if \<not> valid_label label then Some (Vh_label label)
     else None)"

text \<open>The loop over the labels; \<open>first\<close> says whether this is label 0.\<close>

fun check_key_labels :: "bool \<Rightarrow> bytes list \<Rightarrow> vhost_rule option" where
  "check_key_labels first [] = None"
| "check_key_labels first (l # ls) =
    (if l = ''*'' then (if \<not> first then Some Vh_star_position else check_key_labels False ls)
     else if contains_byte l (CHR ''*'') then Some Vh_star_part
     else if \<not> valid_label l then Some (Vh_label l)
     else check_key_labels False ls)"

definition validate_vhost_key :: "bytes \<Rightarrow> vhost_rule option" where
  "validate_vhost_key key =
    (if key = [] then Some Vh_empty
     else if key \<noteq> to_lower key then Some Vh_not_lowercase
     else if 253 < length key then Some Vh_too_long
     else (let labels = split_on (CHR ''.'') key in
       if hd labels = ''*'' \<and> length labels = 1 then Some Vh_matches_everything
       else check_key_labels True labels))"

subsection \<open>Entries and the table\<close>

text \<open>The sources keep a string and treat the set of values as open.\<close>

datatype provenance = Builtin | Config | Runtime | Other_provenance string

definition provenance_string :: "provenance \<Rightarrow> string" where
  "provenance_string p = (case p of Builtin \<Rightarrow> ''builtin'' | Config \<Rightarrow> ''config'' | Runtime \<Rightarrow> ''runtime''
   | Other_provenance s \<Rightarrow> s)"

definition describe_provenance :: "provenance \<Rightarrow> string" where
  "describe_provenance p = (case p of
     Builtin \<Rightarrow> ''a compiled-in default''
   | Config \<Rightarrow> ''set in the agent's configuration''
   | Runtime \<Rightarrow> ''published while the agent was running''
   | Other_provenance _ \<Rightarrow> ''of an unrecognized origin'')"

record route_entry =
  rt_raw :: string
  rt_network :: string
  rt_address :: string
  rt_prov :: provenance

record vhosts =
  vh_exact :: "string \<rightharpoonup> route_entry"
  vh_wildcard :: "string \<rightharpoonup> route_entry"

datatype vhost_error =
    Vhost_exists string provenance string
  | Vhost_rejected vhost_reject
  | Vhost_absent string
  | Vhost_immutable string provenance string
  | Vhost_limit
and vhost_reject =
    Rej_pattern string
  | Rej_key vhost_rule
  | Rej_port int
  | Rej_addr parse_addr_error
  | Rej_no_names

datatype build_error =
    Too_many nat
  | Bad_key vhost_rule
  | Bad_vhost_addr string parse_addr_error
  | Bad_route_name string name_rule
  | Bad_route_addr string parse_addr_error

definition max_vhosts :: nat where "max_vhosts = 128"

definition vh_count :: "vhosts \<Rightarrow> nat" where
  "vh_count v = card (dom (vh_exact v)) + card (dom (vh_wildcard v))"

fun insert_entries :: "(string \<times> string) list \<Rightarrow> vhosts \<Rightarrow> build_error + vhosts" where
  "insert_entries [] v = Inr v"
| "insert_entries ((key, raw) # es) v =
    (case validate_vhost_key key of
       Some e \<Rightarrow> Inl (Bad_key e)
     | None \<Rightarrow>
        (case parse_addr raw of
           Inl e \<Rightarrow> Inl (Bad_vhost_addr key e)
         | Inr (network, address) \<Rightarrow>
            (let r = \<lparr>rt_raw = raw, rt_network = network, rt_address = address, rt_prov = Config\<rparr> in
             case cut_prefix key ''*.'' of
               Some rest \<Rightarrow> insert_entries es (v\<lparr>vh_wildcard := (vh_wildcard v)(rest \<mapsto> r)\<rparr>)
             | None \<Rightarrow> insert_entries es (v\<lparr>vh_exact := (vh_exact v)(key \<mapsto> r)\<rparr>))))"

definition new_vhosts :: "(string \<times> string) list \<Rightarrow> build_error + vhosts" where
  "new_vhosts entries =
    (if max_vhosts < length entries then Inl (Too_many (length entries))
     else insert_entries entries \<lparr>vh_exact = Map.empty, vh_wildcard = Map.empty\<rparr>)"

definition vh_add :: "string \<Rightarrow> route_entry \<Rightarrow> vhosts \<Rightarrow> vhost_error option \<times> vhosts" where
  "vh_add key r v =
    (case vh_exact v key of
       Some ex \<Rightarrow>
         if rt_prov ex = Runtime \<and> rt_raw ex = rt_raw r then (None, v)
         else (Some (Vhost_exists key (rt_prov ex) (rt_raw ex)), v)
     | None \<Rightarrow>
         if max_vhosts \<le> vh_count v then (Some Vhost_limit, v)
         else (None, v\<lparr>vh_exact := (vh_exact v)(key \<mapsto> r)\<rparr>))"

text \<open>The walk over the remainders after each dot, the same in \<^verbatim>\<open>remove\<close> and \<^verbatim>\<open>resolve\<close>.\<close>

function walk_wildcards :: "(string \<rightharpoonup> route_entry) \<Rightarrow> string \<Rightarrow> (string \<times> route_entry) option" where
  "walk_wildcards w rest =
    (case index_byte rest (CHR ''.'') of
       None \<Rightarrow> None
     | Some i \<Rightarrow>
        (let rest' = drop (i + 1) rest in
         if rest' = [] then None
         else (case w rest' of Some r \<Rightarrow> Some (rest', r) | None \<Rightarrow> walk_wildcards w rest')))"
  by pat_completeness auto
termination
  by (relation "measure (\<lambda>(w, r). length r)") (auto dest: index_byte_SomeD)

declare walk_wildcards.simps [simp del]

definition vh_remove :: "string \<Rightarrow> vhosts \<Rightarrow> (vhost_error + (string \<times> string)) \<times> vhosts" where
  "vh_remove key v =
    (case vh_exact v key of
       None \<Rightarrow> (Inl (Vhost_absent key), v)
     | Some ex \<Rightarrow>
         if rt_prov ex \<noteq> Runtime then (Inl (Vhost_immutable key (rt_prov ex) (rt_raw ex)), v)
         else (let v' = v\<lparr>vh_exact := (vh_exact v)(key := None)\<rparr> in
           (case walk_wildcards (vh_wildcard v') key of
              None \<Rightarrow> (Inr ([], []), v')
            | Some (rest, c) \<Rightarrow> (Inr (''*.'' @ rest, rt_raw c), v'))))"

definition vh_resolve :: "vhosts \<Rightarrow> string \<Rightarrow> route_entry option" where
  "vh_resolve v host =
    (case vh_exact v host of
       Some r \<Rightarrow> Some r
     | None \<Rightarrow> map_option snd (walk_wildcards (vh_wildcard v) host))"

record vhost_detail =
  vd_name :: string
  vd_address :: string
  vd_builtin :: bool
  vd_prov :: provenance

definition detail_of :: "string \<Rightarrow> route_entry \<Rightarrow> vhost_detail" where
  "detail_of name r =
    \<lparr>vd_name = name, vd_address = rt_raw r, vd_builtin = (rt_prov r = Builtin), vd_prov = rt_prov r\<rparr>"

text \<open>A name as the listings show it, and the entry behind it.\<close>

definition vh_shown :: "vhosts \<Rightarrow> string \<rightharpoonup> route_entry" where
  "vh_shown v n = (case vh_exact v n of Some r \<Rightarrow> Some r
     | None \<Rightarrow> (case cut_prefix n ''*.'' of Some rest \<Rightarrow> vh_wildcard v rest | None \<Rightarrow> None))"

definition vh_names :: "vhosts \<Rightarrow> string list" where
  "vh_names v = sorted_list_of_set (dom (vh_exact v) \<union> (@) ''*.'' ` dom (vh_wildcard v))"

definition vh_details :: "vhosts \<Rightarrow> vhost_detail list" where
  "vh_details v = map (\<lambda>n. detail_of n (the (vh_shown v n))) (vh_names v)"

subsection \<open>Names and addresses\<close>

lemma validate_route_name_ok_iff:
  "validate_route_name s = None \<longleftrightarrow> s \<noteq> [] \<and> length s \<le> 64 \<and> (\<forall>c\<in>set s. route_name_char c)"
  by (auto simp: validate_route_name_def route_name_pattern_def list_all_iff Suc_le_eq)

lemma route_name_no_separator:
  "validate_route_name s = None \<Longrightarrow> CHR '':'' \<notin> set s \<and> CHR ''='' \<notin> set s \<and> CHR ''/'' \<notin> set s"
  by (auto simp: validate_route_name_ok_iff route_name_char_def)

lemma loopback_port_parses:
  "parse_addr (''tcp://127.0.0.1:'' @ itoa n) = Inr (''tcp'', ''127.0.0.1:'' @ itoa n)"
proof -
  have "CHR '':'' \<notin> set (itoa n) \<and> CHR ''['' \<notin> set (itoa n) \<and> CHR '']'' \<notin> set (itoa n)"
    using digits_not_sep [OF itoa_digits] by force
  then have "split_host_port (''127.0.0.1'' @ CHR '':'' # itoa n) = Inr (''127.0.0.1'', itoa n)"
    by (intro split_host_port_plain) auto
  then have "split_host_port (''127.0.0.1:'' @ itoa n) = Inr (''127.0.0.1'', itoa n)"
    by simp
  then show ?thesis
    by (simp add: parse_addr_def has_prefix_def trim_prefix_def)
qed

lemmas loopback_port_parses_cons = loopback_port_parses [simplified]

lemma validate_vhost_label_ok_iff:
  "validate_vhost_label l = None \<longleftrightarrow> valid_label l"
proof -
  have "CHR ''.'' \<notin> set l \<and> CHR ''*'' \<notin> set l \<and> l \<noteq> [] \<and> to_lower l = l" if "valid_label l"
  proof -
    have p: "\<forall>c\<in>set l. lower_or_digit_or_dash c" "l \<noteq> []"
      using that by (auto simp: valid_label_def dns_label_bytes_iff)
    moreover have "to_lower l = l"
      using p label_byte_plain by (intro to_lower_id) blast
    moreover have "\<not> lower_or_digit_or_dash (CHR ''.'')" "\<not> lower_or_digit_or_dash (CHR ''*'')"
      by (simp_all add: lower_or_digit_or_dash_def)
    ultimately show ?thesis by blast
  qed
  then show ?thesis
    by (auto simp: validate_vhost_label_def contains_byte_iff)
qed

subsection \<open>Keys\<close>

lemma check_key_labels_False_iff:
  "check_key_labels False ls = None \<longleftrightarrow> list_all valid_label ls"
proof (induction ls)
  case (Cons l ls)
  have "l \<noteq> ''*'' \<and> CHR ''*'' \<notin> set l" if "valid_label l"
    using validate_vhost_label_ok_iff [of l] that
    by (auto simp: validate_vhost_label_def contains_byte_iff split: if_splits)
  then show ?case using Cons by (auto simp: contains_byte_iff)
qed simp

lemma valid_key_cases:
  assumes "validate_vhost_key key = None"
  shows "host_form key \<and> cut_prefix key ''*.'' = None \<or>
    (\<exists>rest. key = ''*.'' @ rest \<and> host_form rest)"
proof -
  obtain l ls where ls: "split_on (CHR ''.'') key = l # ls"
    using split_on_nonempty [of "CHR ''.''" key] by (cases "split_on (CHR ''.'') key") auto
  have k: "key = join_with (CHR ''.'') (l # ls)" using join_split [of "CHR ''.''" key] ls by simp
  have chk: "check_key_labels True (l # ls) = None" "\<not> (l = ''*'' \<and> ls = [])"
    using assms ls by (auto simp: validate_vhost_key_def Let_def split: if_splits)
  show ?thesis
  proof (cases "l = ''*''")
    case True
    then have "ls \<noteq> []" "list_all valid_label ls"
      using chk check_key_labels_False_iff by auto
    moreover from this have "split_on (CHR ''.'') (join_with (CHR ''.'') ls) = ls"
      using label_no_dot by (intro split_join) (auto simp: list_all_iff valid_label_def)
    ultimately show ?thesis
      using k True by (auto simp: host_form_def valid_label_def [abs_def] join_with_Cons)
  next
    case False
    then have v: "valid_label l" "list_all valid_label ls"
      using chk check_key_labels_False_iff by (auto split: if_splits)
    have "cut_prefix key ''*.'' = None"
    proof (rule ccontr)
      assume "cut_prefix key ''*.'' \<noteq> None"
      then obtain rest where "key = ''*'' @ CHR ''.'' # rest"
        by (auto simp: cut_prefix_Some_iff)
      then have "l = ''*''" using ls by (simp add: split_on_append)
      with False show False by simp
    qed
    then show ?thesis
      using v ls by (simp add: host_form_def valid_label_def [abs_def])
  qed
qed

lemma host_form_key:
  assumes "host_form h" "length h \<le> 253"
  shows "validate_vhost_key h = None"
proof -
  have "to_lower h = h"
    using host_form_plain [OF assms(1)] by (intro to_lower_id) blast
  moreover have v: "list_all valid_label (split_on (CHR ''.'') h)"
    using assms(1) by (simp add: host_form_def valid_label_def [abs_def])
  moreover obtain l ls where ls: "split_on (CHR ''.'') h = l # ls"
    using split_on_nonempty [of "CHR ''.''" h] by (cases "split_on (CHR ''.'') h") auto
  moreover have "l \<noteq> ''*'' \<and> CHR ''*'' \<notin> set l"
    using v ls validate_vhost_label_ok_iff [of l]
    by (auto simp: validate_vhost_label_def contains_byte_iff split: if_splits)
  ultimately show ?thesis
    using assms host_form_nonempty check_key_labels_False_iff [of ls]
    by (simp add: validate_vhost_key_def Let_def contains_byte_iff)
qed

subsection \<open>The table's invariant\<close>

definition entry_ok :: "route_entry \<Rightarrow> bool" where
  "entry_ok r \<longleftrightarrow> parse_addr (rt_raw r) = Inr (rt_network r, rt_address r)"

definition vh_ok :: "vhosts \<Rightarrow> bool" where
  "vh_ok v \<longleftrightarrow> finite (dom (vh_exact v)) \<and> finite (dom (vh_wildcard v)) \<and> vh_count v \<le> max_vhosts \<and>
     (\<forall>k r. vh_exact v k = Some r \<longrightarrow>
        host_form k \<and> cut_prefix k ''*.'' = None \<and> entry_ok r \<and> rt_prov r \<noteq> Builtin) \<and>
     (\<forall>k r. vh_wildcard v k = Some r \<longrightarrow> host_form k \<and> entry_ok r \<and> rt_prov r = Config)"

definition vh_pre :: "nat \<Rightarrow> vhosts \<Rightarrow> bool" where
  "vh_pre n v \<longleftrightarrow> finite (dom (vh_exact v)) \<and> finite (dom (vh_wildcard v)) \<and> vh_count v \<le> n \<and>
     (\<forall>k r. vh_exact v k = Some r \<longrightarrow>
        host_form k \<and> cut_prefix k ''*.'' = None \<and> entry_ok r \<and> rt_prov r \<noteq> Builtin) \<and>
     (\<forall>k r. vh_wildcard v k = Some r \<longrightarrow> host_form k \<and> entry_ok r \<and> rt_prov r = Config)"

lemma card_dom_upd_le: "finite (dom m) \<Longrightarrow> card (dom (m(k \<mapsto> v))) \<le> Suc (card (dom m))"
  by (simp add: card_insert_if)

lemma insert_entries_pre:
  "insert_entries es v = Inr v' \<Longrightarrow> vh_pre n v \<Longrightarrow> vh_pre (n + length es) v'"
proof (induction es arbitrary: v n)
  case (Cons e es)
  obtain key raw where e: "e = (key, raw)" by (cases e)
  obtain net addr where ok: "validate_vhost_key key = None" "parse_addr raw = Inr (net, addr)"
    using Cons.prems(1) e by (auto split: option.splits sum.splits)
  define r where "r = \<lparr>rt_raw = raw, rt_network = net, rt_address = addr, rt_prov = Config\<rparr>"
  have r: "entry_ok r" "rt_prov r = Config" using ok by (simp_all add: r_def entry_ok_def)
  obtain v1 where v1: "insert_entries es v1 = Inr v'"
    "v1 = (case cut_prefix key ''*.'' of Some rest \<Rightarrow> v\<lparr>vh_wildcard := (vh_wildcard v)(rest \<mapsto> r)\<rparr>
       | None \<Rightarrow> v\<lparr>vh_exact := (vh_exact v)(key \<mapsto> r)\<rparr>)"
    using Cons.prems(1) ok by (auto simp: e r_def Let_def split: option.splits)
  have "vh_pre (Suc n) v1"
  proof (cases "cut_prefix key ''*.''")
    case None
    moreover have "host_form key"
      using valid_key_cases [OF ok(1)] None by (auto simp: cut_prefix_Some_iff [THEN iffD2])
    ultimately show ?thesis
      using Cons.prems(2) r v1(2) card_dom_upd_le [of "vh_exact v" key r]
      by (auto simp: vh_pre_def vh_count_def finite_dom_upd simp del: dom_fun_upd)
  next
    case (Some rest)
    then have "key = ''*.'' @ rest" by (simp add: cut_prefix_Some_iff)
    then have "host_form rest"
      using valid_key_cases [OF ok(1)] Some by auto
    with Some show ?thesis
      using Cons.prems(2) r v1(2) card_dom_upd_le [of "vh_wildcard v" rest r]
      by (auto simp: vh_pre_def vh_count_def finite_dom_upd simp del: dom_fun_upd)
  qed
  then show ?case using Cons.IH [OF v1(1)] by fastforce
qed simp

lemma new_vhosts_ok [inv_intros]:
  assumes "new_vhosts es = Inr v"
  shows "vh_ok v"
proof -
  have "vh_pre 0 \<lparr>vh_exact = Map.empty, vh_wildcard = Map.empty\<rparr>"
    by (simp add: vh_pre_def vh_count_def)
  then have "vh_pre (length es) v" "length es \<le> max_vhosts"
    using assms insert_entries_pre [of es _ v 0] by (auto simp: new_vhosts_def split: if_splits)
  then show ?thesis by (auto simp: vh_ok_def vh_pre_def)
qed

lemma vh_add_ok [inv_intros]:
  assumes "vh_ok v" "host_form key" "entry_ok r" "rt_prov r = Runtime"
  shows "vh_ok (snd (vh_add key r v))"
proof -
  have "CHR ''*'' \<notin> set key"
    using host_form_byte [OF assms(2), of "CHR ''*''"] by (auto simp: lower_or_digit_or_dash_def)
  then have "cut_prefix key ''*.'' = None" by (auto simp: cut_prefix_None_iff)
  then show ?thesis
    using assms
    by (auto simp: vh_add_def vh_ok_def vh_count_def card_insert_if domIff split: option.splits)
qed

lemma vh_remove_ok [inv_intros]:
  assumes "vh_ok v"
  shows "vh_ok (snd (vh_remove key v))"
proof -
  have c: "card (dom ((vh_exact v)(key := None))) \<le> card (dom (vh_exact v))"
    using assms by (intro card_dom_delete_le) (simp add: vh_ok_def)
  have "finite (dom ((vh_exact v)(key := None)))"
    using assms by (simp add: vh_ok_def)
  then have "vh_ok (v\<lparr>vh_exact := (vh_exact v)(key := None)\<rparr>)"
    using assms c by (auto simp: vh_ok_def vh_count_def simp del: dom_fun_upd)
  then show ?thesis
    using assms by (auto simp: vh_remove_def Let_def split: option.splits)
qed

subsection \<open>Resolution is the longest pattern\<close>

definition covers :: "string \<Rightarrow> string \<Rightarrow> bool" where
  "covers rest host \<longleftrightarrow> rest \<noteq> [] \<and> (\<exists>p. host = p @ CHR ''.'' # rest)"

lemma walk_wildcards_step:
  "CHR ''.'' \<notin> set a \<Longrightarrow> walk_wildcards w (a @ CHR ''.'' # rest) =
     (if rest = [] then None else case w rest of Some r \<Rightarrow> Some (rest, r) | None \<Rightarrow> walk_wildcards w rest)"
  by (subst walk_wildcards.simps) (simp add: index_byte_append)

lemma walk_wildcards_none: "CHR ''.'' \<notin> set h \<Longrightarrow> walk_wildcards w h = None"
  by (subst walk_wildcards.simps) (simp add: index_byte_None_iff [THEN iffD2])

lemma covers_step:
  assumes "CHR ''.'' \<notin> set a"
  shows "covers s (a @ CHR ''.'' # rest) \<longleftrightarrow> s \<noteq> [] \<and> (s = rest \<or> covers s rest)"
proof -
  have "s = rest \<or> (\<exists>q. rest = q @ CHR ''.'' # s)" if eq: "a @ CHR ''.'' # rest = p @ CHR ''.'' # s" for p
  proof -
    obtain us where "a = p @ us \<and> us @ CHR ''.'' # rest = CHR ''.'' # s \<or>
        a @ us = p \<and> CHR ''.'' # rest = us @ CHR ''.'' # s"
      using eq unfolding append_eq_append_conv2 by blast
    then show ?thesis
      using assms by (cases us) auto
  qed
  then have 1: "covers s (a @ CHR ''.'' # rest) \<Longrightarrow> s \<noteq> [] \<and> (s = rest \<or> covers s rest)"
    by (auto simp: covers_def)
  have 2: "covers s (a @ CHR ''.'' # rest)" if "covers s rest"
  proof -
    obtain q where "rest = q @ CHR ''.'' # s" "s \<noteq> []" using \<open>covers s rest\<close> by (auto simp: covers_def)
    then have "a @ CHR ''.'' # rest = (a @ CHR ''.'' # q) @ CHR ''.'' # s" by simp
    then show ?thesis using \<open>s \<noteq> []\<close> unfolding covers_def by blast
  qed
  have 3: "covers rest (a @ CHR ''.'' # rest)" if "rest \<noteq> []"
    using that by (auto simp: covers_def)
  show ?thesis using 1 2 3 by blast
qed

lemma walk_wildcards_longest:
  "walk_wildcards w host = Some (rest, r) \<longleftrightarrow>
     covers rest host \<and> w rest = Some r \<and>
     (\<forall>rest'. covers rest' host \<and> w rest' \<noteq> None \<longrightarrow> length rest' \<le> length rest)"
proof (induction host rule: length_induct)
  case (1 host)
  show ?case
  proof (cases "CHR ''.'' \<in> set host")
    case False
    then have "\<not> covers s host" for s by (auto simp: covers_def)
    with False show ?thesis by (simp add: walk_wildcards_none)
  next
    case True
    then obtain a b where h: "host = a @ CHR ''.'' # b" "CHR ''.'' \<notin> set a"
      by (meson split_list_first)
    note c = covers_step [OF h(2), of _ b, folded h(1)]
    have shorter: "covers s b \<Longrightarrow> length s < length b" for s
      by (auto simp: covers_def)
    show ?thesis
    proof (cases "b = [] \<or> w b = None")
      case True
      have nb: "\<not> covers s []" for s by (simp add: covers_def)
      show ?thesis
      proof (cases "b = []")
        case True
        then show ?thesis using h nb c by (auto simp: walk_wildcards_step)
      next
        case False
        then have eq: "walk_wildcards w host = walk_wildcards w b"
          using True h by (simp add: walk_wildcards_step)
        have "length b < length host" using h(1) by simp
        then have IH: "walk_wildcards w b = Some (rest, r) \<longleftrightarrow>
            covers rest b \<and> w rest = Some r \<and>
            (\<forall>rest'. covers rest' b \<and> w rest' \<noteq> None \<longrightarrow> length rest' \<le> length rest)"
          using 1 by blast
        have c1: "covers s host \<and> w s \<noteq> None \<longleftrightarrow> covers s b \<and> w s \<noteq> None" for s
          using c [of s] True False by (auto simp: covers_def)
        have c2: "covers rest host \<and> w rest = Some r \<longleftrightarrow> covers rest b \<and> w rest = Some r"
          using c [of rest] True False by (auto simp: covers_def)
        show ?thesis unfolding eq IH using c1 c2 by blast
      qed
    next
      case False
      then obtain r0 where r0: "w b = Some r0" "b \<noteq> []" by auto
      then have wh: "walk_wildcards w host = Some (b, r0)"
        using h by (simp add: walk_wildcards_step)
      have cb: "covers b host" using c [of b] r0 by simp
      have sh: "s = b \<or> length s < length b" if "covers s host" for s
        using c [of s] shorter [of s] that by blast
      show ?thesis
      proof
        assume "walk_wildcards w host = Some (rest, r)"
        then have "rest = b" "r = r0" using wh by simp_all
        then show "covers rest host \<and> w rest = Some r \<and>
            (\<forall>rest'. covers rest' host \<and> w rest' \<noteq> None \<longrightarrow> length rest' \<le> length rest)"
          using cb r0 sh by (metis order_refl less_imp_le)
      next
        assume A: "covers rest host \<and> w rest = Some r \<and>
            (\<forall>rest'. covers rest' host \<and> w rest' \<noteq> None \<longrightarrow> length rest' \<le> length rest)"
        then have "length b \<le> length rest" using cb r0 by blast
        then have "rest = b" using A sh by (metis leD)
        then show "walk_wildcards w host = Some (rest, r)" using A r0 wh by simp
      qed
    qed
  qed
qed

end
