(* ===== verification/Router.thy ===== *)
theory Router
  imports Router_Vhost Vhost_Interface Proto Go_SHA256
begin

text \<open>
  Package \<^verbatim>\<open>internal/router\<close>, \<^verbatim>\<open>router.go\<close>, \<^verbatim>\<open>policy.go\<close> and \<^verbatim>\<open>identity.go\<close>: the router built from
  compiled-in routes, the operator's overrides and the vhost table; resolving, authorizing and
  dialling a stream; publishing and withdrawing a name.

  The policy is a function to an optional refusal, the network dialer an argument. The vhost table
  is optional, as the sources guard against a nil one.
\<close>

subsection \<open>Identity and policy\<close>

record peer_identity =
  id_pin :: string

definition pin_short :: "peer_identity \<Rightarrow> string" where
  "pin_short i = (if length (id_pin i) < 8 then id_pin i else take 8 (id_pin i))"

text \<open>A certificate is what the sources take from one: its raw SubjectPublicKeyInfo. \<open>pin_of\<close> is
  the pin formula of package \<^verbatim>\<open>identity\<close>.\<close>

definition identity_from_certs :: "(bytes \<Rightarrow> string) \<Rightarrow> bytes list \<Rightarrow> string + peer_identity" where
  "identity_from_certs pin_of certs =
    (case certs of
       [] \<Rightarrow> Inl ''router: peer presented no certificate''
     | leaf # _ \<Rightarrow> Inr \<lparr>id_pin = pin_of leaf\<rparr>)"

type_synonym policy = "peer_identity \<Rightarrow> header \<Rightarrow> string option"

definition allow_all :: policy where "allow_all peer h = None"

subsection \<open>Building a router\<close>

record router =
  ro_routes :: "string \<rightharpoonup> route_entry"
  ro_vhosts :: "vhosts option"
  ro_policy :: policy

definition default_ssh_addr :: string where "default_ssh_addr = ''tcp://127.0.0.1:22''"
definition default_docker_addr :: string where "default_docker_addr = ''unix:///var/run/docker.sock''"

text \<open>\<open>merged\<close> carries address and provenance together; an override of a default's own name is the
  operator's.\<close>

definition merge_routes :: "(string \<times> string) list \<Rightarrow> (string \<times> (string \<times> provenance)) list" where
  "merge_routes overrides =
    (let named = map fst overrides in
     filter (\<lambda>d. fst d \<notin> set named)
       [(''ssh'', (default_ssh_addr, Builtin)), (''docker'', (default_docker_addr, Builtin))]
     @ map (\<lambda>(n, a). (n, (a, Config))) overrides)"

fun build_routes ::
  "(string \<times> (string \<times> provenance)) list \<Rightarrow> (string \<rightharpoonup> route_entry) \<Rightarrow> build_error + (string \<rightharpoonup> route_entry)"
where
  "build_routes [] m = Inr m"
| "build_routes ((name, (raw, prov)) # rs) m =
    (case validate_route_name name of
       Some e \<Rightarrow> Inl (Bad_route_name name e)
     | None \<Rightarrow>
        (case parse_addr raw of
           Inl e \<Rightarrow> Inl (Bad_route_addr name e)
         | Inr (network, address) \<Rightarrow>
            build_routes rs (m(name \<mapsto>
              \<lparr>rt_raw = raw, rt_network = network, rt_address = address, rt_prov = prov\<rparr>))))"

definition new_with_vhosts ::
  "(string \<times> string) list \<Rightarrow> (string \<times> string) list \<Rightarrow> policy option \<Rightarrow> build_error + router" where
  "new_with_vhosts overrides hosts pol =
    (case build_routes (merge_routes overrides) Map.empty of
       Inl e \<Rightarrow> Inl e
     | Inr routes \<Rightarrow>
        (case new_vhosts hosts of
           Inl e \<Rightarrow> Inl e
         | Inr vh \<Rightarrow> Inr \<lparr>ro_routes = routes, ro_vhosts = Some vh,
             ro_policy = (case pol of None \<Rightarrow> allow_all | Some p \<Rightarrow> p)\<rparr>))"

definition new_router :: "(string \<times> string) list \<Rightarrow> policy option \<Rightarrow> build_error + router" where
  "new_router overrides pol = new_with_vhosts overrides [] pol"

subsection \<open>Resolving and dialling\<close>

datatype dial_error =
    Unknown_target string
  | Unauthorized string
  | Dial_failed string string

definition router_resolve :: "router \<Rightarrow> header \<Rightarrow> route_entry option" where
  "router_resolve r h =
    (if h_kind h = kind_http then
       (case ro_vhosts r of None \<Rightarrow> None | Some v \<Rightarrow> vh_resolve v (h_host h))
     else ro_routes r (h_target h))"

definition destination_of :: "header \<Rightarrow> string" where
  "destination_of h = (if h_kind h = kind_http then h_host h else h_target h)"

text \<open>\<open>net\<close> is the network: the address dialled and what came of it. The second component of the
  result records the dial that was made, if one was.\<close>

definition router_dial ::
  "(string \<times> string \<Rightarrow> string + 'c) \<Rightarrow> router \<Rightarrow> peer_identity \<Rightarrow> header
     \<Rightarrow> (dial_error + 'c) \<times> (string \<times> string) option"
where
  "router_dial net r peer h =
    (case router_resolve r h of
       None \<Rightarrow> (Inl (Unknown_target (destination_of h)), None)
     | Some rt \<Rightarrow>
        (case ro_policy r peer h of
           Some why \<Rightarrow> (Inl (Unauthorized why), None)
         | None \<Rightarrow>
            (case net (rt_network rt, rt_address rt) of
               Inl e \<Rightarrow> (Inl (Dial_failed (rt_raw rt) e), Some (rt_network rt, rt_address rt))
             | Inr c \<Rightarrow> (Inr c, Some (rt_network rt, rt_address rt)))))"

subsection \<open>Publishing and withdrawing\<close>

definition add_vhost :: "string \<Rightarrow> int \<Rightarrow> router \<Rightarrow> vhost_error option \<times> router" where
  "add_vhost host port r =
    (if has_prefix host ''*'' then (Some (Vhost_rejected (Rej_pattern host)), r)
     else (case validate_vhost_key host of
         Some e \<Rightarrow> (Some (Vhost_rejected (Rej_key e)), r)
       | None \<Rightarrow>
          if port < 1 \<or> 65535 < port then (Some (Vhost_rejected (Rej_port port)), r)
          else (let raw = ''tcp://127.0.0.1:'' @ itoa (nat port) in
            (case parse_addr raw of
               Inl e \<Rightarrow> (Some (Vhost_rejected (Rej_addr e)), r)
             | Inr (network, address) \<Rightarrow>
                (case ro_vhosts r of
                   None \<Rightarrow> (Some (Vhost_rejected Rej_no_names), r)
                 | Some v \<Rightarrow>
                    (let (err, v') = vh_add host \<lparr>rt_raw = raw, rt_network = network,
                         rt_address = address, rt_prov = Runtime\<rparr> v
                     in (err, r\<lparr>ro_vhosts := Some v'\<rparr>)))))))"

definition remove_vhost :: "string \<Rightarrow> router \<Rightarrow> (vhost_error + (string \<times> string)) \<times> router" where
  "remove_vhost host r =
    (case ro_vhosts r of
       None \<Rightarrow> (Inl (Vhost_absent host), r)
     | Some v \<Rightarrow>
        (case validate_vhost_key host of
           Some e \<Rightarrow> (Inl (Vhost_rejected (Rej_key e)), r)
         | None \<Rightarrow> (let (res, v') = vh_remove host v in (res, r\<lparr>ro_vhosts := Some v'\<rparr>))))"

subsection \<open>Reports\<close>

definition router_vhosts :: "router \<Rightarrow> string list" where
  "router_vhosts r = (case ro_vhosts r of None \<Rightarrow> [] | Some v \<Rightarrow> vh_names v)"

definition router_targets :: "router \<Rightarrow> string list" where
  "router_targets r = sorted_list_of_set (dom (ro_routes r))"

definition route_details :: "router \<Rightarrow> vhost_detail list" where
  "route_details r = map (\<lambda>n. detail_of n (the (ro_routes r n))) (router_targets r)"

definition router_vhost_details :: "router \<Rightarrow> vhost_detail list" where
  "router_vhost_details r = (case ro_vhosts r of None \<Rightarrow> [] | Some v \<Rightarrow> vh_details v)"

subsection \<open>Invariant\<close>

definition routes_ok :: "(string \<rightharpoonup> route_entry) \<Rightarrow> bool" where
  "routes_ok m \<longleftrightarrow> finite (dom m) \<and>
     (\<forall>n rt. m n = Some rt \<longrightarrow> validate_route_name n = None \<and> entry_ok rt \<and> rt_prov rt \<noteq> Runtime)"

definition router_ok :: "router \<Rightarrow> bool" where
  "router_ok r \<longleftrightarrow> routes_ok (ro_routes r) \<and> (\<forall>v. ro_vhosts r = Some v \<longrightarrow> vh_ok v)"

lemma routes_ok_upd:
  "routes_ok m \<Longrightarrow> validate_route_name n = None \<Longrightarrow> entry_ok rt \<Longrightarrow> rt_prov rt \<noteq> Runtime \<Longrightarrow>
     routes_ok (m(n \<mapsto> rt))"
  by (simp add: routes_ok_def)

lemma build_routes_ok:
  "build_routes rs m = Inr m' \<Longrightarrow> routes_ok m \<Longrightarrow> \<forall>x\<in>set rs. snd (snd x) \<noteq> Runtime \<Longrightarrow> routes_ok m'"
proof (induction rs m rule: build_routes.induct)
  case (2 name raw prov rs m)
  obtain net addr where ok: "validate_route_name name = None" "parse_addr raw = Inr (net, addr)"
    using "2.prems"(1) by (auto split: option.splits sum.splits)
  let ?rt = "\<lparr>rt_raw = raw, rt_network = net, rt_address = addr, rt_prov = prov\<rparr>"
  have "build_routes rs (m(name \<mapsto> ?rt)) = Inr m'"
    using "2.prems"(1) ok by simp
  moreover have "routes_ok (m(name \<mapsto> ?rt))"
    using "2.prems" ok by (intro routes_ok_upd) (simp_all add: entry_ok_def)
  ultimately show ?case
    using "2.prems"(3) by (intro "2.IH" [OF ok refl]) (auto simp: fun_upd_def)
qed simp

lemma new_with_vhosts_ok [inv_intros]:
  assumes "new_with_vhosts ov hosts pol = Inr r"
  shows "router_ok r"
proof -
  obtain m v where m: "build_routes (merge_routes ov) Map.empty = Inr m" and v: "new_vhosts hosts = Inr v"
    and r: "ro_routes r = m" "ro_vhosts r = Some v"
    using assms by (auto simp: new_with_vhosts_def split: sum.splits)
  have "\<forall>x\<in>set (merge_routes ov). snd (snd x) \<noteq> Runtime"
    by (auto simp: merge_routes_def Let_def)
  then have "routes_ok m"
    using build_routes_ok [OF m] by (simp add: routes_ok_def)
  then show ?thesis
    using new_vhosts_ok [OF v] r by (simp add: router_ok_def)
qed

text \<open>A key that does not begin with a star and is a valid key is a plain hostname.\<close>

lemma plain_key: "validate_vhost_key h = None \<Longrightarrow> \<not> has_prefix h ''*'' \<Longrightarrow> host_form h"
  using valid_key_cases [of h] by (auto simp: has_prefix_iff)

definition runtime_entry :: "int \<Rightarrow> route_entry" where
  "runtime_entry port = \<lparr>rt_raw = ''tcp://127.0.0.1:'' @ itoa (nat port), rt_network = ''tcp'',
     rt_address = ''127.0.0.1:'' @ itoa (nat port), rt_prov = Runtime\<rparr>"

text \<open>What a publish does, in one of two shapes.\<close>

lemma add_vhost_cases:
  obtains (rejected) why where "add_vhost h p r = (Some (Vhost_rejected why), r)"
  | (asked) v where "ro_vhosts r = Some v" "host_form h" "1 \<le> p" "p \<le> 65535"
      "\<not> has_prefix h ''*''" "validate_vhost_key h = None"
      "add_vhost h p r = (fst (vh_add h (runtime_entry p) v),
         r\<lparr>ro_vhosts := Some (snd (vh_add h (runtime_entry p) v))\<rparr>)"
proof (cases "has_prefix h ''*'' \<or> validate_vhost_key h \<noteq> None \<or> p < 1 \<or> 65535 < p \<or> ro_vhosts r = None")
  case True
  then have "\<exists>why. add_vhost h p r = (Some (Vhost_rejected why), r)"
    by (cases "validate_vhost_key h"; cases "ro_vhosts r"; cases "has_prefix h ''*''"; cases "p < 1 \<or> 65535 < p")
       (simp_all add: add_vhost_def Let_def loopback_port_parses_cons)
  then show thesis using rejected by blast
next
  case False
  then obtain v where v: "ro_vhosts r = Some v" by auto
  have "add_vhost h p r = (fst (vh_add h (runtime_entry p) v),
         r\<lparr>ro_vhosts := Some (snd (vh_add h (runtime_entry p) v))\<rparr>)"
    using False v by (simp add: add_vhost_def Let_def loopback_port_parses_cons runtime_entry_def split_def)
  then show thesis
    using asked [OF v] plain_key False by auto
qed

lemma remove_vhost_cases:
  obtains (refused) e where "remove_vhost h r = (Inl e, r)" "ro_vhosts r = None \<or> validate_vhost_key h \<noteq> None"
  | (asked) v where "ro_vhosts r = Some v" "validate_vhost_key h = None"
      "remove_vhost h r = (fst (vh_remove h v), r\<lparr>ro_vhosts := Some (snd (vh_remove h v))\<rparr>)"
proof (cases "ro_vhosts r = None \<or> validate_vhost_key h \<noteq> None")
  case True
  then show thesis
    using refused
    by (cases "validate_vhost_key h"; cases "ro_vhosts r") (auto simp: remove_vhost_def)
next
  case False
  then show thesis
    using asked by (auto simp: remove_vhost_def split_def Let_def)
qed

lemma runtime_entry_ok: "entry_ok (runtime_entry p)" "rt_prov (runtime_entry p) = Runtime"
  by (simp_all add: entry_ok_def runtime_entry_def loopback_port_parses_cons)

lemma add_vhost_ok [inv_intros]: "router_ok r \<Longrightarrow> router_ok (snd (add_vhost h p r))"
  by (rule add_vhost_cases [of h p r]) (auto simp: router_ok_def intro: vh_add_ok runtime_entry_ok)

lemma remove_vhost_ok [inv_intros]: "router_ok r \<Longrightarrow> router_ok (snd (remove_vhost h r))"
  by (rule remove_vhost_cases [of h r]) (auto simp: router_ok_def intro: vh_remove_ok)

subsection \<open>The table of names\<close>

definition shown_entry :: "router \<Rightarrow> string \<Rightarrow> route_entry option" where
  "shown_entry r n = (case ro_vhosts r of None \<Rightarrow> None | Some v \<Rightarrow> vh_shown v n)"

definition removable_entry :: "route_entry \<Rightarrow> bool" where
  "removable_entry e \<longleftrightarrow> rt_prov e = Runtime"

lemma no_star_prefix: "host_form h \<Longrightarrow> cut_prefix h ''*.'' = None"
  using host_form_byte [of h "CHR ''*''"]
  by (auto simp: cut_prefix_None_iff lower_or_digit_or_dash_def)

lemma vh_shown_exact: "host_form n \<Longrightarrow> vh_shown v n = vh_exact v n"
  by (simp add: vh_shown_def no_star_prefix split: option.splits)

lemma vh_shown_add:
  assumes "host_form key"
  shows "vh_shown (snd (vh_add key e v)) n =
    (if n = key \<and> vh_exact v key = None \<and> vh_count v < max_vhosts then Some e else vh_shown v n)"
  using assms no_star_prefix [OF assms]
  by (auto simp: vh_add_def vh_shown_def split: option.splits)

lemma vh_shown_remove:
  "vh_shown (snd (vh_remove key v)) n =
    (if n = key \<and> (\<exists>e. vh_exact v key = Some e \<and> rt_prov e = Runtime)
     then (case cut_prefix n ''*.'' of Some rest \<Rightarrow> vh_wildcard v rest | None \<Rightarrow> None)
     else vh_shown v n)"
  by (auto simp: vh_remove_def vh_shown_def Let_def split: option.splits)

lemma exact_host_form: "vh_ok v \<Longrightarrow> vh_exact v n = Some e \<Longrightarrow> host_form n"
  by (simp add: vh_ok_def)

lemma add_vhost_shown:
  "shown_entry (snd (add_vhost h p r)) n = shown_entry r n \<or>
   n = h \<and> shown_entry r n = None \<and> shown_entry (snd (add_vhost h p r)) n = Some (runtime_entry p)"
proof (cases rule: add_vhost_cases [of h p r])
  case (asked v)
  then show ?thesis
    using vh_shown_add [OF asked(2), of "runtime_entry p" v n] vh_shown_exact [OF asked(2), of v]
    by (auto simp: shown_entry_def)
qed simp

lemma remove_vhost_shown:
  assumes "router_ok r"
  shows "shown_entry (snd (remove_vhost h r)) n =
    (if n = h \<and> is_ok (fst (remove_vhost h r)) then None else shown_entry r n)
   \<and> (is_ok (fst (remove_vhost h r)) \<longrightarrow> (\<exists>e. shown_entry r h = Some e \<and> rt_prov e = Runtime))"
proof (cases rule: remove_vhost_cases [of h r])
  case (asked v)
  have ok: "is_ok (fst (vh_remove h v)) \<longleftrightarrow> (\<exists>e. vh_exact v h = Some e \<and> rt_prov e = Runtime)"
    by (auto simp: vh_remove_def Let_def split: option.splits)
  have "vh_ok v" using assms asked(1) by (simp add: router_ok_def)
  then have "host_form h" if "vh_exact v h = Some e" for e
    using that by (rule exact_host_form)
  then show ?thesis
    using asked ok vh_shown_remove [of h v n] no_star_prefix [of h] vh_shown_exact [of h v]
    by (auto simp: shown_entry_def)
qed simp

lemma add_vhost_refused:
  assumes "fst (add_vhost h p r) = Some e"
  shows "snd (add_vhost h p r) = r"
proof (cases rule: add_vhost_cases [of h p r])
  case (asked v)
  then show ?thesis
    using assms by (auto simp: vh_add_def split: option.splits if_splits)
qed simp

lemma add_vhost_done:
  assumes "add_vhost h p r = (None, r')"
  shows "shown_entry r' h = Some (runtime_entry p) \<or>
      (\<exists>e. shown_entry r' h = Some e \<and> rt_prov e = Runtime \<and> rt_raw e = rt_raw (runtime_entry p))"
    and "add_vhost h p r' = (None, r')"
proof -
  obtain v where a: "ro_vhosts r = Some v" "host_form h" "1 \<le> p" "p \<le> 65535"
      "\<not> has_prefix h ''*''" "validate_vhost_key h = None"
      "fst (vh_add h (runtime_entry p) v) = None" "r' = r\<lparr>ro_vhosts := Some (snd (vh_add h (runtime_entry p) v))\<rparr>"
    using assms by (cases rule: add_vhost_cases [of h p r]) auto
  let ?v = "snd (vh_add h (runtime_entry p) v)"
  obtain e where e: "vh_exact ?v h = Some e" "rt_prov e = Runtime" "rt_raw e = rt_raw (runtime_entry p)"
    using a(7) by (auto simp: vh_add_def runtime_entry_ok split: option.splits if_splits)
  then show "shown_entry r' h = Some (runtime_entry p) \<or>
      (\<exists>e. shown_entry r' h = Some e \<and> rt_prov e = Runtime \<and> rt_raw e = rt_raw (runtime_entry p))"
    using a by (simp add: shown_entry_def vh_shown_exact)
  have "vh_add h (runtime_entry p) ?v = (None, ?v)"
    using e by (simp add: vh_add_def)
  then show "add_vhost h p r' = (None, r')"
    using a by (simp add: add_vhost_def Let_def loopback_port_parses_cons runtime_entry_def)
qed

lemma remove_vhost_refused:
  assumes "fst (remove_vhost h r) = Inl e"
  shows "snd (remove_vhost h r) = r"
proof (cases rule: remove_vhost_cases [of h r])
  case (asked v)
  then show ?thesis
    using assms by (auto simp: vh_remove_def Let_def split: option.splits if_splits)
qed simp

interpretation agent_names: name_table add_vhost remove_vhost shown_entry removable_entry router_ok
proof unfold_locales
  fix r h p n e
  assume "router_ok r" "shown_entry r n = Some e"
  then show "shown_entry (snd (add_vhost h p r)) n = Some e"
    using add_vhost_shown [of h p r n] by auto
next
  fix r h p n e
  assume "router_ok r" "shown_entry (snd (add_vhost h p r)) n = Some e"
  then show "shown_entry r n = Some e \<or> n = h \<and> removable_entry e"
    using add_vhost_shown [of h p r n] runtime_entry_ok(2) by (auto simp: removable_entry_def)
next
  fix r h p r'
  assume "router_ok r" "add_vhost h p r = (None, r')"
  then show "shown_entry r' h \<noteq> None \<and> add_vhost h p r' = (None, r')"
    using add_vhost_done [of h p r r'] by auto
next
  fix r n e h
  assume "router_ok r" "shown_entry r n = Some e" "n \<noteq> h \<or> \<not> removable_entry e"
  then show "shown_entry (snd (remove_vhost h r)) n = Some e"
    using remove_vhost_shown [of r h n] by (auto simp: removable_entry_def)
next
  fix r n e h
  assume "router_ok r" "shown_entry (snd (remove_vhost h r)) n = Some e"
  then show "shown_entry r n = Some e"
    using remove_vhost_shown [of r h n] by (auto split: if_splits)
next
  fix r h w r'
  assume "router_ok r" "remove_vhost h r = (Inr w, r')"
  then show "(\<exists>e. shown_entry r h = Some e \<and> removable_entry e) \<and> shown_entry r' h = None"
    using remove_vhost_shown [of r h h] by (auto simp: removable_entry_def)
qed (simp_all add: add_vhost_ok remove_vhost_ok add_vhost_refused remove_vhost_refused)

subsection \<open>Sequences of control-plane operations\<close>

fun apply_op :: "vhost_op \<Rightarrow> router \<Rightarrow> router" where
  "apply_op (Publish h p) r = snd (add_vhost h p r)"
| "apply_op (Withdraw h) r = snd (remove_vhost h r)"

definition run_ops :: "vhost_op list \<Rightarrow> router \<Rightarrow> router" where
  "run_ops ops r = fold apply_op ops r"

lemma run_ops_run: "run_ops ops r = agent_names.run ops r"
proof -
  have "apply_op = agent_names.step"
    by (intro ext) (metis apply_op.simps agent_names.step.simps vhost_op.exhaust)
  then show ?thesis by (simp add: run_ops_def agent_names.run_def)
qed

definition runtime_confined :: "router \<Rightarrow> bool" where
  "runtime_confined r \<longleftrightarrow> (\<forall>n e. shown_entry r n = Some e \<longrightarrow> rt_prov e = Runtime \<longrightarrow>
     (\<exists>p. 1 \<le> p \<and> p \<le> 65535 \<and> e = runtime_entry p))"

lemma add_vhost_confined: "runtime_confined r \<Longrightarrow> runtime_confined (snd (add_vhost h p r))"
proof (cases rule: add_vhost_cases [of h p r])
  case (asked v)
  assume "runtime_confined r"
  then show ?thesis
    using asked(3,4) add_vhost_shown [of h p r] unfolding runtime_confined_def
    by (metis option.inject)
qed simp

lemma apply_op_confined [inv_intros]:
  "router_ok r \<Longrightarrow> runtime_confined r \<Longrightarrow> runtime_confined (apply_op a r)"
proof (cases a)
  case (Withdraw h)
  assume r: "router_ok r" "runtime_confined r"
  then have "shown_entry (snd (remove_vhost h r)) n = Some e \<Longrightarrow> shown_entry r n = Some e" for n e
    using agent_names.withdraw_only_removes by blast
  then show ?thesis
    using r(2) unfolding Withdraw runtime_confined_def apply_op.simps by blast
qed (simp add: add_vhost_confined)

lemma run_ops_confined:
  "router_ok r \<Longrightarrow> runtime_confined r \<Longrightarrow> runtime_confined (run_ops ops r)"
proof (induction ops arbitrary: r)
  case (Cons a ops)
  have "router_ok (apply_op a r)"
    using Cons.prems(1) by (cases a) (simp_all add: add_vhost_ok remove_vhost_ok)
  then show ?case
    using Cons apply_op_confined by (simp add: run_ops_def)
qed (simp add: run_ops_def)

lemma apply_op_routes: "ro_routes (apply_op a r) = ro_routes r \<and> ro_policy (apply_op a r) = ro_policy r"
proof (cases a)
  case (Publish h p)
  show ?thesis
    by (cases rule: add_vhost_cases [of h p r]) (simp_all add: Publish)
next
  case (Withdraw h)
  show ?thesis
    by (cases rule: remove_vhost_cases [of h r]) (simp_all add: Withdraw)
qed

lemma run_ops_routes: "ro_routes (run_ops ops r) = ro_routes r \<and> ro_policy (run_ops ops r) = ro_policy r"
  unfolding run_ops_def by (induction ops arbitrary: r) (simp_all add: apply_op_routes)

definition all_config :: "vhosts \<Rightarrow> bool" where
  "all_config v \<longleftrightarrow> (\<forall>e\<in>ran (vh_exact v) \<union> ran (vh_wildcard v). rt_prov e = Config)"

lemma ran_upd: "ran (m(k \<mapsto> v)) \<subseteq> insert v (ran m)"
  by (auto simp: ran_def)

lemma insert_entries_config:
  "insert_entries es v = Inr v' \<Longrightarrow> all_config v \<Longrightarrow> all_config v'"
proof (induction es arbitrary: v)
  case (Cons x es)
  obtain key raw where x: "x = (key, raw)" by (cases x)
  obtain net addr where ok: "validate_vhost_key key = None" "parse_addr raw = Inr (net, addr)"
    using Cons.prems(1) x by (auto split: option.splits sum.splits)
  define r where "r = \<lparr>rt_raw = raw, rt_network = net, rt_address = addr, rt_prov = Config\<rparr>"
  obtain v1 where v1: "insert_entries es v1 = Inr v'"
    "v1 = v\<lparr>vh_exact := (vh_exact v)(key \<mapsto> r)\<rparr> \<or> (\<exists>k. v1 = v\<lparr>vh_wildcard := (vh_wildcard v)(k \<mapsto> r)\<rparr>)"
    using Cons.prems(1) ok by (auto simp: x r_def Let_def split: option.splits)
  have "rt_prov r = Config" by (simp add: r_def)
  then have "all_config v1"
    using v1(2) Cons.prems(2) ran_upd [of "vh_exact v" key r] ran_upd [of "vh_wildcard v" _ r]
    by (auto simp: all_config_def simp del: fun_upd_apply) blast+
  then show ?case using Cons.IH [OF v1(1)] by blast
qed simp

lemma all_config_shown: "all_config v \<Longrightarrow> vh_shown v n = Some e \<Longrightarrow> rt_prov e = Config"
  by (auto simp: all_config_def vh_shown_def ranI split: option.splits)

lemma new_with_vhosts_config:
  assumes "new_with_vhosts ov hosts pol = Inr r" "shown_entry r n = Some e"
  shows "rt_prov e = Config"
proof -
  obtain v where v: "new_vhosts hosts = Inr v" "ro_vhosts r = Some v"
    using assms(1) by (auto simp: new_with_vhosts_def split: sum.splits)
  then have "insert_entries hosts \<lparr>vh_exact = Map.empty, vh_wildcard = Map.empty\<rparr> = Inr v"
    by (auto simp: new_vhosts_def split: if_splits)
  moreover have "all_config \<lparr>vh_exact = Map.empty, vh_wildcard = Map.empty\<rparr>"
    by (simp add: all_config_def)
  ultimately have "all_config v" using insert_entries_config by blast
  then show ?thesis
    using all_config_shown assms(2) v(2) by (simp add: shown_entry_def)
qed

text \<open>Every name that was not there from the start was published, under that name and at that port.\<close>

lemma add_vhost_origin:
  "shown_entry (snd (add_vhost h p r)) n = Some e \<Longrightarrow>
    shown_entry r n = Some e \<or> n = h \<and> 1 \<le> p \<and> p \<le> 65535 \<and> e = runtime_entry p"
  using add_vhost_shown [of h p r n] by (cases rule: add_vhost_cases [of h p r]) auto

lemma publish_origin:
  assumes "router_ok r" "shown_entry (run_ops ops r) n = Some e"
  shows "shown_entry r n = Some e \<or> (\<exists>p. Publish n p \<in> set ops \<and> 1 \<le> p \<and> p \<le> 65535 \<and> e = runtime_entry p)"
  using assms
proof (induction ops arbitrary: r)
  case Nil
  then show ?case by (simp add: run_ops_def)
next
  case (Cons a ops)
  have ok: "router_ok (apply_op a r)" using Cons.prems(1) by (cases a) (simp_all add: inv_intros)
  have "shown_entry (run_ops ops (apply_op a r)) n = Some e" using Cons.prems(2) by (simp add: run_ops_def)
  then consider "shown_entry (apply_op a r) n = Some e"
    | p where "Publish n p \<in> set ops" "1 \<le> p" "p \<le> 65535" "e = runtime_entry p"
    using Cons.IH [OF ok] by blast
  then show ?case
  proof cases
    case 1
    show ?thesis
    proof (cases a)
      case (Publish h p)
      then show ?thesis using 1 add_vhost_origin [of h p r n e] by auto
    next
      case (Withdraw h)
      then show ?thesis using 1 agent_names.withdraw_only_removes [OF Cons.prems(1)] by simp
    qed
  qed auto
qed

lemma agent_entry_origin:
  assumes "new_with_vhosts overrides hosts pol = Inr r" "shown_entry (run_ops ops r) n = Some e"
  shows "shown_entry r n = Some e \<and> rt_prov e = Config \<or>
    (\<exists>p. Publish n p \<in> set ops \<and> 1 \<le> p \<and> p \<le> 65535 \<and> e = runtime_entry p)"
  using publish_origin [OF new_with_vhosts_ok [OF assms(1)] assms(2)] new_with_vhosts_config [OF assms(1)] by blast

subsection \<open>Properties of the router\<close>

lemma built_in_routes: "\<exists>m. build_routes (merge_routes []) Map.empty = Inr m"
proof -
  have "split_host_port (''127.0.0.1'' @ CHR '':'' # ''22'') = Inr (''127.0.0.1'', ''22'')"
    by (intro split_host_port_plain) auto
  then have "parse_addr default_ssh_addr = Inr (''tcp'', ''127.0.0.1:22'')"
    by (simp add: parse_addr_def has_prefix_def trim_prefix_def default_ssh_addr_def)
  moreover have "parse_addr default_docker_addr = Inr (''unix'', ''/var/run/docker.sock'')"
    by (simp add: parse_addr_def has_prefix_def trim_prefix_def default_docker_addr_def)
  moreover have "validate_route_name ''ssh'' = None" "validate_route_name ''docker'' = None"
    by (simp_all add: validate_route_name_ok_iff route_name_char_def)
  ultimately show ?thesis by (simp add: merge_routes_def)
qed

text \<open>
  C4: Whatever a client publishes and withdraws, in any order and number, the agent's operator keeps
  the last word: every name of the operator's configuration still shows the same entry, the target
  routes are untouched, every other name points at a loopback port between 1 and 65535 that one of the
  requests published under exactly that name, and the table stays within its bound with every entry
  dialable.
\<close>

theorem operator_entries_survive:
  assumes "new_with_vhosts overrides hosts pol = Inr r"
  shows "(\<forall>n e. shown_entry r n = Some e \<longrightarrow> shown_entry (run_ops ops r) n = Some e)
    \<and> (\<forall>n e. shown_entry (run_ops ops r) n = Some e \<longrightarrow> shown_entry r n = Some e \<or>
        (\<exists>p. Publish n p \<in> set ops \<and> 1 \<le> p \<and> p \<le> 65535 \<and> e = runtime_entry p))
    \<and> ro_routes (run_ops ops r) = ro_routes r \<and> router_ok (run_ops ops r)"
proof -
  have ok: "router_ok r" using assms by (rule new_with_vhosts_ok)
  have "shown_entry (run_ops ops r) n = Some e" if "shown_entry r n = Some e" for n e
    using agent_names.run_keeps_fixed [OF ok, of n e ops] new_with_vhosts_config [OF assms] that
    by (simp add: removable_entry_def run_ops_run)
  moreover have "router_ok (run_ops ops r)" using agent_names.run_ok [OF ok] by (simp add: run_ops_run)
  ultimately show ?thesis using publish_origin [OF ok] run_ops_routes by blast
qed

theorem operator_entries_survive_witness:
  "\<exists>r. new_with_vhosts [] [(''a.home'', ''tcp://h:1'')] None = Inr r
     \<and> shown_entry (run_ops [Publish ''a.home'' 80, Withdraw ''a.home''] r) ''a.home''
        = Some \<lparr>rt_raw = ''tcp://h:1'', rt_network = ''tcp'', rt_address = ''h:1'', rt_prov = Config\<rparr>"
proof -
  let ?e = "\<lparr>rt_raw = ''tcp://h:1'', rt_network = ''tcp'', rt_address = ''h:1'', rt_prov = Config\<rparr>"
  have hf: "host_form ''a.home''"
    by (simp add: host_form_def dns_label_bytes_iff lower_or_digit_or_dash_def)
  have k: "validate_vhost_key ''a.home'' = None" by (rule host_form_key [OF hf]) simp
  have "split_host_port (''h'' @ CHR '':'' # ''1'') = Inr (''h'', ''1'')"
    by (intro split_host_port_plain) auto
  then have p: "parse_addr ''tcp://h:1'' = Inr (''tcp'', ''h:1'')"
    by (simp add: parse_addr_def has_prefix_def trim_prefix_def)
  have b: "\<exists>m. build_routes (merge_routes []) Map.empty = Inr m" by (rule built_in_routes)
  obtain r where r: "new_with_vhosts [] [(''a.home'', ''tcp://h:1'')] None = Inr r"
      "shown_entry r ''a.home'' = Some ?e"
    using b k p no_star_prefix [OF hf]
    by (auto simp: new_with_vhosts_def new_vhosts_def max_vhosts_def shown_entry_def vh_shown_def)
  then show ?thesis
    using operator_entries_survive [OF r(1), of "[Publish ''a.home'' 80, Withdraw ''a.home'']"] by blast
qed

text \<open>
  C5: A stream reaches the network only through the table and the policy: \<^verbatim>\<open>Dial\<close> contacts an
  address exactly when the header resolves and the policy agrees, that address is the resolved
  entry's, and each refusal tells which step refused.
\<close>

theorem dial_is_gated:
  "(snd (router_dial net r peer h) = Some a \<longleftrightarrow>
      (\<exists>rt. router_resolve r h = Some rt \<and> ro_policy r peer h = None \<and> a = (rt_network rt, rt_address rt)))
   \<and> ((\<exists>d. fst (router_dial net r peer h) = Inl (Unknown_target d)) \<longleftrightarrow> router_resolve r h = None)
   \<and> ((\<exists>w. fst (router_dial net r peer h) = Inl (Unauthorized w)) \<longleftrightarrow>
        router_resolve r h \<noteq> None \<and> ro_policy r peer h \<noteq> None)
   \<and> (fst (router_dial net r peer h) = Inr c \<longleftrightarrow>
        (\<exists>a. snd (router_dial net r peer h) = Some a \<and> net a = Inr c))"
  by (auto simp: router_dial_def split: option.splits sum.splits)

text \<open>
  A hostname resolves to its own entry if it has one and otherwise to the longest star pattern
  that covers it, so which pattern answers never depends on the order of the table.
\<close>

theorem resolve_most_specific:
  "vh_resolve v host = Some e \<longleftrightarrow>
     vh_exact v host = Some e \<or>
     vh_exact v host = None \<and> (\<exists>rest. covers rest host \<and> vh_wildcard v rest = Some e \<and>
       (\<nexists>rest'. covers rest' host \<and> vh_wildcard v rest' \<noteq> None \<and> length rest < length rest'))"
proof -
  have "map_option snd (walk_wildcards (vh_wildcard v) host) = Some e \<longleftrightarrow>
      (\<exists>rest. walk_wildcards (vh_wildcard v) host = Some (rest, e))"
    by (cases "walk_wildcards (vh_wildcard v) host") auto
  then show ?thesis
    by (simp add: vh_resolve_def walk_wildcards_longest not_less split: option.split)
      (metis option.distinct(1) not_Some_eq)
qed

text \<open>
  A withdrawal tells the truth about what answers next: it reports no pattern exactly when the
  name no longer resolves, and otherwise the pattern that now resolves it together with the address
  that pattern points at.
\<close>

theorem withdrawal_report_is_resolution:
  assumes "remove_vhost host r = (Inr (pattern, address), r')" "h_kind h = kind_http" "h_host h = host"
  shows "(pattern = [] \<longrightarrow> address = [] \<and> router_resolve r' h = None) \<and>
    (pattern \<noteq> [] \<longrightarrow> (\<exists>rest e. pattern = ''*.'' @ rest \<and> covers rest host \<and>
        router_resolve r' h = Some e \<and> rt_raw e = address))"
proof -
  obtain v where "ro_vhosts r = Some v" "fst (vh_remove host v) = Inr (pattern, address)"
      "ro_vhosts r' = Some (snd (vh_remove host v))"
    using assms(1) by (cases rule: remove_vhost_cases [of host r]) auto
  then obtain v' where v': "ro_vhosts r' = Some v'" "vh_exact v' host = None"
      "(case walk_wildcards (vh_wildcard v') host of None \<Rightarrow> pattern = [] \<and> address = []
        | Some (rest, c) \<Rightarrow> pattern = ''*.'' @ rest \<and> address = rt_raw c)"
    by (auto simp: vh_remove_def Let_def split: option.splits if_splits)
  then have res: "router_resolve r' h = map_option snd (walk_wildcards (vh_wildcard v') host)"
    using assms(2,3) by (simp add: router_resolve_def vh_resolve_def)
  show ?thesis
  proof (cases "walk_wildcards (vh_wildcard v') host")
    case (Some x)
    obtain rest c where x: "x = (rest, c)" by (cases x)
    then have "covers rest host" using Some walk_wildcards_longest by blast
    then show ?thesis using Some x v' res by auto
  qed (use v' res in auto)
qed

theorem withdrawal_report_is_resolution_witness:
  "\<exists>r r' e. remove_vhost ''a.b'' r = (Inr (''*.b'', ''tcp://h:1''), r') \<and>
     router_resolve r' \<lparr>h_kind = kind_http, h_target = [], h_host = ''a.b'', h_port = 0, h_meta = Map.empty\<rparr> = Some e
     \<and> rt_raw e = ''tcp://h:1''"
proof -
  let ?e = "\<lparr>rt_raw = ''tcp://h:1'', rt_network = ''tcp'', rt_address = ''h:1'', rt_prov = Config\<rparr>"
  let ?v = "\<lparr>vh_exact = [''a.b'' \<mapsto> runtime_entry 80], vh_wildcard = [''b'' \<mapsto> ?e]\<rparr>"
  let ?r = "\<lparr>ro_routes = Map.empty, ro_vhosts = Some ?v, ro_policy = allow_all\<rparr>"
  let ?h = "\<lparr>h_kind = kind_http, h_target = [], h_host = ''a.b'', h_port = 0, h_meta = Map.empty\<rparr>"
  have "host_form ''a.b''"
    by (simp add: host_form_def dns_label_bytes_iff lower_or_digit_or_dash_def)
  then have k: "validate_vhost_key ''a.b'' = None" by (rule host_form_key) simp
  have w: "walk_wildcards w (''a'' @ CHR ''.'' # ''b'') = Some (''b'', ?e)" if "w ''b'' = Some ?e" for w
    using that by (subst walk_wildcards_step) simp_all
  obtain r' where rm: "remove_vhost ''a.b'' ?r = (Inr (''*.b'', ''tcp://h:1''), r')"
    using k w [of "[''b'' \<mapsto> ?e]"]
    by (simp add: remove_vhost_def vh_remove_def runtime_entry_def)
  then show ?thesis
    using withdrawal_report_is_resolution [OF rm, of ?h] by auto
qed

text \<open>
  Publishing is safe to retry and changes one name: a publish that succeeds makes exactly that
  host resolve to the loopback port asked for, leaves what every other host resolves to as it was,
  and asking again succeeds without changing anything; a refused publish changes nothing.
\<close>

theorem publish_effect:
  assumes "router_ok r"
  shows "(add_vhost host port r = (None, r') \<longrightarrow>
      add_vhost host port r' = (None, r') \<and>
      (\<exists>v' e. ro_vhosts r' = Some v' \<and> vh_resolve v' host = Some e \<and>
        rt_raw e = ''tcp://127.0.0.1:'' @ itoa (nat port) \<and> rt_prov e = Runtime) \<and>
      (\<forall>h. h_host h \<noteq> host \<longrightarrow> router_resolve r' h = router_resolve r h))
    \<and> (fst (add_vhost host port r) \<noteq> None \<longrightarrow> snd (add_vhost host port r) = r)"
proof (intro conjI impI)
  assume a: "add_vhost host port r = (None, r')"
  then show "add_vhost host port r' = (None, r')" by (rule add_vhost_done(2))
  obtain v where v: "ro_vhosts r = Some v" "host_form host" "ro_vhosts r' = Some (snd (vh_add host (runtime_entry port) v))"
      "ro_routes r' = ro_routes r"
    using a by (cases rule: add_vhost_cases [of host port r]) auto
  let ?v = "snd (vh_add host (runtime_entry port) v)"
  obtain e where "shown_entry r' host = Some e" "rt_prov e = Runtime" "rt_raw e = rt_raw (runtime_entry port)"
    using add_vhost_done(1) [OF a] by (auto simp: runtime_entry_ok)
  then have "vh_exact ?v host = Some e"
    using v by (simp add: shown_entry_def vh_shown_exact)
  then show "\<exists>v' e. ro_vhosts r' = Some v' \<and> vh_resolve v' host = Some e \<and>
        rt_raw e = ''tcp://127.0.0.1:'' @ itoa (nat port) \<and> rt_prov e = Runtime"
    using \<open>rt_prov e = Runtime\<close> \<open>rt_raw e = rt_raw (runtime_entry port)\<close> v(3)
    by (auto simp: vh_resolve_def runtime_entry_def)
  have "vh_resolve ?v n = vh_resolve v n" if "n \<noteq> host" for n
    using that by (auto simp: vh_resolve_def vh_add_def split: option.splits)
  then show "\<forall>h. h_host h \<noteq> host \<longrightarrow> router_resolve r' h = router_resolve r h"
    using v by (simp add: router_resolve_def)
next
  assume "fst (add_vhost host port r) \<noteq> None"
  then show "snd (add_vhost host port r) = r" using add_vhost_refused by blast
qed

theorem publish_effect_witness:
  "\<exists>r'. add_vhost ''a'' 80 \<lparr>ro_routes = Map.empty, ro_vhosts = Some \<lparr>vh_exact = Map.empty, vh_wildcard = Map.empty\<rparr>,
       ro_policy = allow_all\<rparr> = (None, r') \<and> add_vhost ''a'' 80 r' = (None, r')"
proof -
  let ?r = "\<lparr>ro_routes = Map.empty, ro_vhosts = Some \<lparr>vh_exact = Map.empty, vh_wildcard = Map.empty\<rparr>,
       ro_policy = allow_all\<rparr>"
  have ok: "router_ok ?r"
    by (simp add: router_ok_def routes_ok_def vh_ok_def vh_count_def)
  have "host_form ''a''"
    by (simp add: host_form_def dns_label_bytes_iff lower_or_digit_or_dash_def)
  then have k: "validate_vhost_key ''a'' = None" by (rule host_form_key) simp
  obtain r' where "add_vhost ''a'' 80 ?r = (None, r')"
    using k by (cases rule: add_vhost_cases [of "''a''" 80 ?r])
      (auto simp: add_vhost_def has_prefix_def Let_def loopback_port_parses_cons vh_add_def vh_count_def max_vhosts_def)
  then show ?thesis using publish_effect [OF ok, of "''a''" 80 r'] by blast
qed

end
