(* ===== verification/Control.thy ===== *)
theory Control
  imports Proto Vhost_Interface
begin

text \<open>
  Package \<^verbatim>\<open>internal/control\<close>, the agent's side: authorization (\<^verbatim>\<open>authz.go\<close>, \<^verbatim>\<open>mutationpolicy.go\<close>),
  the audit trail and the handlers (\<^verbatim>\<open>addvhost.go\<close>, \<^verbatim>\<open>removevhost.go\<close>, \<^verbatim>\<open>listvhosts.go\<close>,
  \<^verbatim>\<open>status.go\<close>), and dispatch through the two interceptors (\<^verbatim>\<open>server.go\<close>).

  gRPC is third party: a call arrives here as a decoded request and leaves as a reply or a status.
  The server's table is a type parameter \<open>'t\<close>; a handler reaches it only through the capabilities
  it was given, each of which may be absent, as in the sources. A Go panic is a value, so that the
  containment interceptor is a definition like the others.
\<close>

subsection \<open>Audit names\<close>

definition max_audited_name_len :: nat where "max_audited_name_len = 128"

definition audit_keeps :: "rune \<Rightarrow> bool" where
  "audit_keeps r \<longleftrightarrow> \<not> (r = rune_error \<or> is_control r \<or> is_cf r \<or> is_zl r \<or> is_zp r)"

definition audit_name :: "bytes \<Rightarrow> bytes" where
  "audit_name s0 =
    (let s = (if max_audited_name_len < length s0 then take max_audited_name_len s0 else s0)
     in concat (map encode_rune (map fst (filter (\<lambda>x. audit_keeps (fst x)) (runes s)))))"

subsection \<open>Calls, capabilities and state\<close>

record ctl_peer =
  cp_pin :: string

definition ctl_short :: "ctl_peer \<Rightarrow> string" where
  "ctl_short i = (if length (cp_pin i) < 8 then cp_pin i else take 8 (cp_pin i))"

datatype 'a outcome = Returned 'a | Panicked string

type_synonym ctl_policy = "ctl_peer \<Rightarrow> string \<Rightarrow> string option outcome"

text \<open>A request's type decides its method; \<open>Other_rpc\<close> is any method this build does not have.\<close>

datatype rpc =
    Ping int
  | Get_status
  | List_vhosts
  | Add_vhost string "32 word"
  | Remove_vhost string
  | Other_rpc string

definition rpc_method :: "rpc \<Rightarrow> string" where
  "rpc_method q = (case q of Ping _ \<Rightarrow> ''Ping'' | Get_status \<Rightarrow> ''GetStatus'' | List_vhosts \<Rightarrow> ''ListVhosts''
     | Add_vhost _ _ \<Rightarrow> ''AddVhost'' | Remove_vhost _ \<Rightarrow> ''RemoveVhost'' | Other_rpc m \<Rightarrow> m)"

datatype grpc_code =
    Permission_denied
  | Unimplemented
  | Invalid_argument
  | Already_exists
  | Resource_exhausted
  | Not_found
  | Failed_precondition
  | Internal

text \<open>The errors a capability may report; \<open>'x\<close> is the explanation that follows the condition.\<close>

datatype 'x ctl_error =
    Name_taken 'x
  | Name_rejected 'x
  | Name_absent 'x
  | Name_not_ours 'x
  | Name_limit 'x
  | Other_error 'x

record ctl_detail =
  cd_name :: string
  cd_address :: string
  cd_builtin :: bool
  cd_provenance :: string

datatype ctl_reply =
    Pong int int
  | Status_reply string int "ctl_detail list"
  | Vhosts_reply "ctl_detail list"
  | Added string "32 word"
  | Removed string string string

datatype 'x status_text =
    Denied_text string
  | Cannot_publish
  | Cannot_withdraw
  | Port_out_of_range "32 word"
  | Publish_failed "'x ctl_error"
  | Withdraw_failed "'x ctl_error"
  | Could_not_publish
  | Could_not_withdraw
  | Not_implemented string
  | Could_not_complete

type_synonym 'x call_result = "(grpc_code \<times> 'x status_text) + ctl_reply"

datatype verdict_word = Allowed | Denied | Refused

datatype audit_reason =
    No_reason
  | Not_permitted
  | Bad_port "32 word"
  | Already_published
  | Name_or_port_refused
  | Holds_as_many
  | Could_not_be_published
  | Not_published
  | Not_over_this_connection
  | Name_was_refused
  | Could_not_be_withdrawn

record audit_record =
  au_peer :: string
  au_method :: string
  au_name :: string
  au_verdict :: verdict_word
  au_reason :: audit_reason

record ('t, 'x) control_server =
  cs_peer :: ctl_peer
  cs_policy :: ctl_policy
  cs_routes :: "('t \<Rightarrow> ctl_detail list) option"
  cs_vhosts :: "('t \<Rightarrow> ctl_detail list) option"
  cs_names :: "(string \<Rightarrow> int \<Rightarrow> 't \<Rightarrow> 'x ctl_error option outcome \<times> 't) option"
  cs_withdraw :: "(string \<Rightarrow> 't \<Rightarrow> ('x ctl_error + (string \<times> string)) outcome \<times> 't) option"
  cs_version :: string
  cs_started_ms :: "int option"

subsection \<open>Policies\<close>

definition read_only_methods :: "string list" where
  "read_only_methods = [''Ping'', ''GetStatus'', ''ListVhosts'']"

definition changes_the_agent :: "string \<Rightarrow> bool" where
  "changes_the_agent m \<longleftrightarrow> m \<notin> set read_only_methods"

definition ctl_allow_all :: ctl_policy where
  "ctl_allow_all peer m = Returned None"

definition mutation_policy :: "bool \<Rightarrow> ctl_policy" where
  "mutation_policy allow peer m =
    Returned (if \<not> changes_the_agent m then None else if allow then None else Some m)"

subsection \<open>Handlers\<close>

definition audit ::
  "('t, 'x) control_server \<Rightarrow> string \<Rightarrow> string \<Rightarrow> verdict_word \<Rightarrow> audit_reason \<Rightarrow> audit_record" where
  "audit srv m name v why =
    \<lparr>au_peer = ctl_short (cs_peer srv), au_method = m, au_name = name, au_verdict = v,
     au_reason = (if v = Allowed then No_reason else why)\<rparr>"

definition audited_name :: "rpc \<Rightarrow> string" where
  "audited_name q = (case q of Add_vhost h _ \<Rightarrow> audit_name h | Remove_vhost h \<Rightarrow> audit_name h | _ \<Rightarrow> [])"

definition publish_reason :: "'x ctl_error \<Rightarrow> audit_reason" where
  "publish_reason e = (case e of Name_taken _ \<Rightarrow> Already_published | Name_rejected _ \<Rightarrow> Name_or_port_refused
     | Name_limit _ \<Rightarrow> Holds_as_many | _ \<Rightarrow> Could_not_be_published)"

definition publish_status :: "'x ctl_error \<Rightarrow> grpc_code \<times> 'x status_text" where
  "publish_status e = (case e of
     Name_taken _ \<Rightarrow> (Already_exists, Publish_failed e)
   | Name_rejected _ \<Rightarrow> (Invalid_argument, Publish_failed e)
   | Name_limit _ \<Rightarrow> (Resource_exhausted, Publish_failed e)
   | _ \<Rightarrow> (Internal, Could_not_publish))"

definition withdraw_reason :: "'x ctl_error \<Rightarrow> audit_reason" where
  "withdraw_reason e = (case e of Name_absent _ \<Rightarrow> Not_published | Name_not_ours _ \<Rightarrow> Not_over_this_connection
     | Name_rejected _ \<Rightarrow> Name_was_refused | _ \<Rightarrow> Could_not_be_withdrawn)"

definition withdraw_status :: "'x ctl_error \<Rightarrow> grpc_code \<times> 'x status_text" where
  "withdraw_status e = (case e of
     Name_absent _ \<Rightarrow> (Not_found, Withdraw_failed e)
   | Name_not_ours _ \<Rightarrow> (Failed_precondition, Withdraw_failed e)
   | Name_rejected _ \<Rightarrow> (Invalid_argument, Withdraw_failed e)
   | _ \<Rightarrow> (Internal, Could_not_withdraw))"

text \<open>A handler's result, the table after it, and the records it wrote.\<close>

type_synonym ('t, 'x) handled = "'x call_result outcome \<times> 't \<times> audit_record list"

definition handle_ping :: "int \<Rightarrow> int \<Rightarrow> 't \<Rightarrow> ('t, 'x) handled" where
  "handle_ping now nonce t = (Returned (Inr (Pong nonce now)), t, [])"

definition handle_get_status :: "('t, 'x) control_server \<Rightarrow> 't \<Rightarrow> ('t, 'x) handled" where
  "handle_get_status srv t =
    (Returned (Inr (Status_reply (cs_version srv)
        (case cs_started_ms srv of None \<Rightarrow> 0 | Some ms \<Rightarrow> ms)
        (case cs_routes srv of None \<Rightarrow> [] | Some f \<Rightarrow> f t))), t, [])"

definition handle_list_vhosts :: "('t, 'x) control_server \<Rightarrow> 't \<Rightarrow> ('t, 'x) handled" where
  "handle_list_vhosts srv t =
    (Returned (Inr (Vhosts_reply (case cs_vhosts srv of None \<Rightarrow> [] | Some f \<Rightarrow> f t))), t, [])"

definition handle_add_vhost ::
  "('t, 'x) control_server \<Rightarrow> string \<Rightarrow> 32 word \<Rightarrow> 't \<Rightarrow> ('t, 'x) handled" where
  "handle_add_vhost srv host port t =
    (let m = ''AddVhost''; name = audited_name (Add_vhost host port) in
     case cs_names srv of
       None \<Rightarrow> (Returned (Inl (Unimplemented, Cannot_publish)), t, [])
     | Some f \<Rightarrow>
        if port < 1 \<or> 65535 < port
        then (Returned (Inl (Invalid_argument, Port_out_of_range port)), t,
              [audit srv m name Refused (Bad_port port)])
        else (case f host (uint port) t of
            (Panicked why, t') \<Rightarrow> (Panicked why, t', [])
          | (Returned (Some e), t') \<Rightarrow>
              (Returned (Inl (publish_status e)), t', [audit srv m name Refused (publish_reason e)])
          | (Returned None, t') \<Rightarrow>
              (Returned (Inr (Added host port)), t', [audit srv m name Allowed No_reason])))"

definition handle_remove_vhost ::
  "('t, 'x) control_server \<Rightarrow> string \<Rightarrow> 't \<Rightarrow> ('t, 'x) handled" where
  "handle_remove_vhost srv host t =
    (case cs_withdraw srv of
       None \<Rightarrow> (Returned (Inl (Unimplemented, Cannot_withdraw)), t, [])
     | Some f \<Rightarrow>
        (case f host t of
            (Panicked why, t') \<Rightarrow> (Panicked why, t', [])
          | (Returned (Inl e), t') \<Rightarrow>
              (Returned (Inl (withdraw_status e)), t',
               [audit srv ''RemoveVhost'' (audit_name host) Refused (withdraw_reason e)])
          | (Returned (Inr (pat, addr)), t') \<Rightarrow>
              (Returned (Inr (Removed host pat addr)), t',
               [audit srv ''RemoveVhost'' (audit_name host) Allowed No_reason])))"

definition handle_rpc :: "('t, 'x) control_server \<Rightarrow> int \<Rightarrow> rpc \<Rightarrow> 't \<Rightarrow> ('t, 'x) handled" where
  "handle_rpc srv now q t =
    (case q of
       Ping n \<Rightarrow> handle_ping now n t
     | Get_status \<Rightarrow> handle_get_status srv t
     | List_vhosts \<Rightarrow> handle_list_vhosts srv t
     | Add_vhost h p \<Rightarrow> handle_add_vhost srv h p t
     | Remove_vhost h \<Rightarrow> handle_remove_vhost srv h t
     | Other_rpc m \<Rightarrow> (Returned (Inl (Unimplemented, Not_implemented m)), t, []))"

subsection \<open>Interceptors and dispatch\<close>

definition authorize ::
  "('t, 'x) control_server \<Rightarrow> rpc \<Rightarrow> ('t \<Rightarrow> ('t, 'x) handled) \<Rightarrow> 't \<Rightarrow> ('t, 'x) handled" where
  "authorize srv q handler t =
    (let m = rpc_method q in
     case cs_policy srv (cs_peer srv) m of
       Panicked why \<Rightarrow> (Panicked why, t, [])
     | Returned (Some why) \<Rightarrow>
         (Returned (Inl (Permission_denied, Denied_text why)), t,
          if changes_the_agent m then [audit srv m (audited_name q) Denied Not_permitted] else [])
     | Returned None \<Rightarrow> handler t)"

definition contain :: "('t, 'x) handled \<Rightarrow> 'x call_result \<times> 't \<times> audit_record list" where
  "contain r =
    (case r of
       (Panicked why, t, log) \<Rightarrow> (Inl (Internal, Could_not_complete), t, log)
     | (Returned x, t, log) \<Rightarrow> (x, t, log))"

text \<open>An unknown method never reaches the interceptors: gRPC answers it before dispatch.\<close>

definition dispatch ::
  "('t, 'x) control_server \<Rightarrow> int \<Rightarrow> rpc \<Rightarrow> 't \<Rightarrow> 'x call_result \<times> 't \<times> audit_record list" where
  "dispatch srv now q t =
    (case q of
       Other_rpc m \<Rightarrow> (Inl (Unimplemented, Not_implemented m), t, [])
     | _ \<Rightarrow> contain (authorize srv q (handle_rpc srv now q) t))"

fun serve_calls ::
  "('t, 'x) control_server \<Rightarrow> (int \<times> rpc) list \<Rightarrow> 't \<Rightarrow> 'x call_result list \<times> 't \<times> audit_record list" where
  "serve_calls srv [] t = ([], t, [])"
| "serve_calls srv ((now, q) # qs) t =
    (let (r, t', l) = dispatch srv now q t; (rs, t'', l') = serve_calls srv qs t'
     in (r # rs, t'', l @ l'))"

subsection \<open>The audit trail\<close>

lemma audit_name_runes:
  "\<exists>rs. audit_name s = concat (map encode_rune rs) \<and> (\<forall>r\<in>set rs. audit_keeps r \<and> encodable r)"
proof -
  define u where "u = (if max_audited_name_len < length s then take max_audited_name_len s else s)"
  define rs where "rs = map fst (filter (\<lambda>x. audit_keeps (fst x)) (runes u))"
  have "audit_keeps r \<and> encodable r" if r: "r \<in> set rs" for r
  proof -
    obtain w where w: "(r, w) \<in> set (runes u)" "audit_keeps r" using r by (auto simp: rs_def)
    then have "r \<noteq> rune_error" by (simp add: audit_keeps_def)
    then show ?thesis using runes_encodable [OF w(1)] w(2) by blast
  qed
  moreover have "audit_name s = concat (map encode_rune rs)"
    by (simp only: audit_name_def Let_def u_def rs_def)
  ultimately show ?thesis by blast
qed

lemma length_audit_name: "length (audit_name s) \<le> max_audited_name_len"
proof -
  define u where "u = (if max_audited_name_len < length s then take max_audited_name_len s else s)"
  have "audit_name s = concat (map encode_rune (map fst (filter (\<lambda>x. audit_keeps (fst x)) (runes u))))"
    by (simp only: audit_name_def Let_def u_def)
  moreover have "length (concat (map encode_rune (map fst (filter (\<lambda>x. audit_keeps (fst x)) (runes u))))) \<le> length u"
    by (rule length_encoded_filter) (blast dest: audit_keeps_def [THEN iffD1])
  moreover have "length u \<le> max_audited_name_len" by (simp add: u_def)
  ultimately show ?thesis by simp
qed

lemma audit_name_clean: "\<forall>x\<in>set (runes (audit_name s)). audit_keeps (fst x)"
  using audit_name_runes [of s] runes_encoded by fastforce

text \<open>An attempt to change the agent, as opposed to a report.\<close>

definition is_mutation :: "rpc \<Rightarrow> bool" where
  "is_mutation q = (case q of Add_vhost _ _ \<Rightarrow> True | Remove_vhost _ \<Rightarrow> True | _ \<Rightarrow> False)"

lemma is_mutation_changes: "is_mutation q \<Longrightarrow> changes_the_agent (rpc_method q)"
  by (auto simp: is_mutation_def changes_the_agent_def read_only_methods_def rpc_method_def split: rpc.splits)

lemma report_does_not_change:
  "\<not> is_mutation q \<Longrightarrow> (\<forall>m. q \<noteq> Other_rpc m) \<Longrightarrow> \<not> changes_the_agent (rpc_method q)"
  by (cases q) (auto simp: is_mutation_def changes_the_agent_def read_only_methods_def rpc_method_def)

lemma dispatch_report:
  assumes "\<not> is_mutation q"
  shows "fst (snd (dispatch srv now q t)) = t \<and> snd (snd (dispatch srv now q t)) = []"
proof (cases "\<exists>m. q = Other_rpc m")
  case False
  then have "\<not> changes_the_agent (rpc_method q)" using report_does_not_change assms by blast
  then show ?thesis
    using assms False
    by (cases q) (auto simp: dispatch_def authorize_def contain_def handle_rpc_def Let_def is_mutation_def
        handle_ping_def handle_get_status_def handle_list_vhosts_def split: outcome.splits option.splits)
qed (auto simp: dispatch_def)

lemma dispatch_mutation:
  "is_mutation q \<Longrightarrow> dispatch srv now q t = contain (authorize srv q (handle_rpc srv now q) t)"
  by (cases q) (simp_all add: dispatch_def is_mutation_def)

lemma dispatch_denied:
  assumes "cs_policy srv = mutation_policy False" "is_mutation q"
  shows "dispatch srv now q t = (Inl (Permission_denied, Denied_text (rpc_method q)), t,
    [audit srv (rpc_method q) (audited_name q) Denied Not_permitted])"
  using assms is_mutation_changes [OF assms(2)]
  by (simp add: dispatch_mutation authorize_def mutation_policy_def contain_def Let_def)

definition audited_as :: "('t, 'x) control_server \<Rightarrow> rpc \<Rightarrow> 'x call_result \<Rightarrow> audit_record list \<Rightarrow> bool" where
  "audited_as srv q r l \<longleftrightarrow>
     (\<exists>a. l = [a] \<and> au_peer a = ctl_short (cs_peer srv) \<and> au_method a = rpc_method q \<and>
        au_name a = audited_name q \<and> (au_verdict a = Allowed \<longleftrightarrow> is_ok r) \<and>
        (au_verdict a = Denied \<longleftrightarrow> (\<exists>x. r = Inl (Permission_denied, x))))"

lemma audited_asI:
  "(v = Allowed \<longleftrightarrow> is_ok r) \<Longrightarrow> (v = Denied \<longleftrightarrow> (\<exists>x. r = Inl (Permission_denied, x))) \<Longrightarrow>
     m = rpc_method q \<Longrightarrow> n = audited_name q \<Longrightarrow> audited_as srv q r [audit srv m n v why]"
  by (simp add: audited_as_def audit_def)

lemma returned_of:
  "\<forall>why. fst x \<noteq> Panicked why \<Longrightarrow> \<exists>e t'. x = (Returned e, t')"
  by (cases x; cases "fst x") auto

lemma handle_add_audited:
  assumes "cs_names srv = Some f" "p < 1 \<or> 65535 < p \<or> (\<forall>why. fst (f h (uint p) t) \<noteq> Panicked why)"
  shows "\<exists>r t' l. handle_add_vhost srv h p t = (Returned r, t', l) \<and> audited_as srv (Add_vhost h p) r l"
proof (cases "p < 1 \<or> 65535 < p")
  case True
  then have "handle_add_vhost srv h p t = (Returned (Inl (Invalid_argument, Port_out_of_range p)), t,
      [audit srv ''AddVhost'' (audited_name (Add_vhost h p)) Refused (Bad_port p)])"
    using assms(1) by (simp add: handle_add_vhost_def Let_def)
  moreover have "audited_as srv (Add_vhost h p) (Inl (Invalid_argument, Port_out_of_range p))
      [audit srv ''AddVhost'' (audited_name (Add_vhost h p)) Refused (Bad_port p)]"
    by (rule audited_asI) (simp_all add: rpc_method_def)
  ultimately show ?thesis by blast
next
  case False
  obtain e t' where f: "f h (uint p) t = (Returned e, t')"
    using assms(2) False returned_of [of "f h (uint p) t"] by blast
  show ?thesis
  proof (cases e)
    case None
    then have "handle_add_vhost srv h p t = (Returned (Inr (Added h p)), t',
        [audit srv ''AddVhost'' (audited_name (Add_vhost h p)) Allowed No_reason])"
      using assms(1) False f by (simp add: handle_add_vhost_def Let_def)
    moreover have "audited_as srv (Add_vhost h p) (Inr (Added h p))
        [audit srv ''AddVhost'' (audited_name (Add_vhost h p)) Allowed No_reason]"
      by (rule audited_asI) (simp_all add: rpc_method_def)
    ultimately show ?thesis by blast
  next
    case (Some x)
    then have "handle_add_vhost srv h p t = (Returned (Inl (publish_status x)), t',
        [audit srv ''AddVhost'' (audited_name (Add_vhost h p)) Refused (publish_reason x)])"
      using assms(1) False f by (simp add: handle_add_vhost_def Let_def)
    moreover have "audited_as srv (Add_vhost h p) (Inl (publish_status x))
        [audit srv ''AddVhost'' (audited_name (Add_vhost h p)) Refused (publish_reason x)]"
      by (rule audited_asI) (simp_all add: rpc_method_def publish_status_def split: ctl_error.split)
    ultimately show ?thesis by blast
  qed
qed

lemma handle_remove_audited:
  assumes "cs_withdraw srv = Some f" "\<forall>why. fst (f h t) \<noteq> Panicked why"
  shows "\<exists>r t' l. handle_remove_vhost srv h t = (Returned r, t', l) \<and> audited_as srv (Remove_vhost h) r l"
proof -
  obtain e t' where f: "f h t = (Returned e, t')"
    using assms(2) returned_of [of "f h t"] by blast
  show ?thesis
  proof (cases e)
    case (Inl x)
    then have "handle_remove_vhost srv h t = (Returned (Inl (withdraw_status x)), t',
        [audit srv ''RemoveVhost'' (audit_name h) Refused (withdraw_reason x)])"
      using assms(1) f by (simp add: handle_remove_vhost_def)
    moreover have "audited_as srv (Remove_vhost h) (Inl (withdraw_status x))
        [audit srv ''RemoveVhost'' (audit_name h) Refused (withdraw_reason x)]"
      by (rule audited_asI) (simp_all add: rpc_method_def audited_name_def withdraw_status_def split: ctl_error.split)
    ultimately show ?thesis by blast
  next
    case (Inr x)
    obtain pat addr where x: "x = (pat, addr)" by (cases x)
    have "handle_remove_vhost srv h t = (Returned (Inr (Removed h pat addr)), t',
        [audit srv ''RemoveVhost'' (audit_name h) Allowed No_reason])"
      using assms(1) f Inr x by (simp add: handle_remove_vhost_def)
    moreover have "audited_as srv (Remove_vhost h) (Inr (Removed h pat addr))
        [audit srv ''RemoveVhost'' (audit_name h) Allowed No_reason]"
      by (rule audited_asI) (simp_all add: rpc_method_def audited_name_def)
    ultimately show ?thesis by blast
  qed
qed

subsection \<open>A server over a table of names\<close>

text \<open>A server whose capabilities, when it has them, are the table's own operations.\<close>

locale served_table = name_table publish withdraw entry removable ok
  for publish :: "string \<Rightarrow> int \<Rightarrow> 't \<Rightarrow> 'e option \<times> 't"
    and withdraw :: "string \<Rightarrow> 't \<Rightarrow> ('f + 'w) \<times> 't"
    and entry :: "'t \<Rightarrow> string \<Rightarrow> 'v option" and removable ok +
  fixes srv :: "('t, 'x) control_server"
  assumes names_publish: "cs_names srv = Some g \<Longrightarrow> snd (g h p t) = snd (publish h p t)"
    and withdraw_withdraws: "cs_withdraw srv = Some g' \<Longrightarrow> snd (g' h t) = snd (withdraw h t)"
begin

lemma handle_is_op: "\<exists>ops. fst (snd (handle_rpc srv now q t)) = run ops t"
proof -
  have none: "run [] t = t" by (simp add: run_def)
  have pub: "run [Publish h p] t = snd (publish h p t)" for h p by (simp add: run_def)
  have wd: "run [Withdraw h] t = snd (withdraw h t)" for h by (simp add: run_def)
  show ?thesis
  proof (cases q)
    case (Add_vhost h p)
    show ?thesis
    proof (cases "cs_names srv")
      case (Some f)
      have s: "snd (f h (uint p) t) = snd (publish h (uint p) t)"
        using Some by (rule names_publish)
      have "fst (snd (handle_rpc srv now q t)) \<in> {t, snd (f h (uint p) t)}"
        by (auto simp: Add_vhost Some handle_rpc_def handle_add_vhost_def Let_def
            split: prod.splits outcome.splits option.splits)
      then show ?thesis using none pub s by (metis insertE singletonD)
    qed (auto simp: Add_vhost handle_rpc_def handle_add_vhost_def Let_def intro: exI [of _ "[]"] none [symmetric])
  next
    case (Remove_vhost h)
    show ?thesis
    proof (cases "cs_withdraw srv")
      case (Some f)
      have s: "snd (f h t) = snd (withdraw h t)"
        using Some by (rule withdraw_withdraws)
      have "fst (snd (handle_rpc srv now q t)) = snd (f h t)"
        by (auto simp: Remove_vhost Some handle_rpc_def handle_remove_vhost_def
            split: prod.splits outcome.splits sum.splits)
      then show ?thesis using wd s by metis
    qed (auto simp: Remove_vhost handle_rpc_def handle_remove_vhost_def intro: exI [of _ "[]"] none [symmetric])
  qed (auto simp: handle_rpc_def handle_ping_def handle_get_status_def handle_list_vhosts_def
        intro: exI [of _ "[]"] none [symmetric])
qed

lemma dispatch_is_op: "\<exists>ops. fst (snd (dispatch srv now q t)) = run ops t"
proof -
  have "fst (snd (dispatch srv now q t)) \<in> {t, fst (snd (handle_rpc srv now q t))}"
    by (cases q) (auto simp: dispatch_def authorize_def contain_def Let_def
        split: prod.splits outcome.splits option.splits)
  then show ?thesis
    using handle_is_op [of now q t] run_def [of "[]"] by (auto intro: exI [of _ "[]"])
qed

lemma serve_calls_is_run: "\<exists>ops. fst (snd (serve_calls srv qs t)) = run ops t"
proof (induction qs arbitrary: t)
  case Nil
  then show ?case by (intro exI [of _ "[]"]) (simp add: run_def)
next
  case (Cons x qs)
  obtain now q where x: "x = (now, q)" by (cases x)
  obtain ops where 1: "fst (snd (dispatch srv now q t)) = run ops t"
    using dispatch_is_op by blast
  obtain ops' where 2: "fst (snd (serve_calls srv qs (run ops t))) = run ops' (run ops t)"
    using Cons.IH by blast
  have "fst (snd (serve_calls srv (x # qs) t)) = run (ops @ ops') t"
    using 1 2 by (simp add: x split_def Let_def run_def)
  then show ?case by blast
qed

end

subsection \<open>Properties of the control plane\<close>

lemma dispatch_gated:
  assumes "cs_policy srv = mutation_policy False \<or> cs_names srv = None \<and> cs_withdraw srv = None"
  shows "fst (snd (dispatch srv now q t)) = t"
proof (cases "is_mutation q")
  case True
  show ?thesis
  proof (cases "cs_policy srv = mutation_policy False")
    case False
    then have "cs_names srv = None" "cs_withdraw srv = None" using assms by auto
    then have "fst (snd (handle_rpc srv now q t)) = t"
      using True by (cases q) (auto simp: is_mutation_def handle_rpc_def handle_add_vhost_def handle_remove_vhost_def Let_def)
    then show ?thesis
      using True by (auto simp: dispatch_mutation authorize_def contain_def Let_def
          split: prod.splits outcome.splits option.splits)
  qed (use True in \<open>simp add: dispatch_denied\<close>)
qed (simp add: dispatch_report)

text \<open>With the capabilities withheld there is no positive answer either, whatever the policy says.\<close>

lemma dispatch_without_capabilities:
  assumes "cs_names srv = None" "cs_withdraw srv = None" "is_mutation q"
  shows "dispatch srv now q t =
    (case cs_policy srv (cs_peer srv) (rpc_method q) of
       Panicked _ \<Rightarrow> (Inl (Internal, Could_not_complete), t, [])
     | Returned (Some why) \<Rightarrow> (Inl (Permission_denied, Denied_text why), t,
         [audit srv (rpc_method q) (audited_name q) Denied Not_permitted])
     | Returned None \<Rightarrow>
         (Inl (Unimplemented, if rpc_method q = ''AddVhost'' then Cannot_publish else Cannot_withdraw), t, []))"
  using assms is_mutation_changes [OF assms(3)]
  by (cases q)
    (auto simp: dispatch_mutation authorize_def contain_def handle_rpc_def handle_add_vhost_def handle_remove_vhost_def
       is_mutation_def rpc_method_def Let_def split: outcome.split option.split)

lemma serve_calls_gated:
  assumes "cs_policy srv = mutation_policy False \<or> cs_names srv = None \<and> cs_withdraw srv = None"
  shows "fst (snd (serve_calls srv calls t)) = t"
  using dispatch_gated [OF assms] by (induction calls) (auto simp: split_def Let_def)

lemma serve_calls_without_capabilities:
  "cs_names srv = None \<Longrightarrow> cs_withdraw srv = None \<Longrightarrow> fst (snd (serve_calls srv calls t)) = t"
  by (simp add: serve_calls_gated)

text \<open>
  C10: Nothing a client sends changes the agent unless the operator allowed it: with either gate shut
  (the policy that permits reporting only, or the capabilities withheld), any sequence of calls leaves
  the table as it was, and every attempt to publish or withdraw is refused. Under the policy the answer
  is permission denied, with exactly one record of who tried what; with the capabilities withheld it is
  the policy's refusal, recorded, or that this agent cannot do such a thing, or an internal error when
  the policy itself failed.
\<close>

theorem no_change_without_consent:
  assumes "cs_policy srv = mutation_policy False \<or> cs_names srv = None \<and> cs_withdraw srv = None"
  shows "fst (snd (serve_calls srv calls t)) = t \<and>
    (\<forall>now q. is_mutation q \<longrightarrow> dispatch srv now q t =
      (case cs_policy srv (cs_peer srv) (rpc_method q) of
         Panicked _ \<Rightarrow> (Inl (Internal, Could_not_complete), t, [])
       | Returned (Some why) \<Rightarrow> (Inl (Permission_denied, Denied_text why), t,
           [audit srv (rpc_method q) (audited_name q) Denied Not_permitted])
       | Returned None \<Rightarrow>
           (Inl (Unimplemented, if rpc_method q = ''AddVhost'' then Cannot_publish else Cannot_withdraw), t, []))) \<and>
    (cs_policy srv = mutation_policy False \<longrightarrow>
      (\<forall>now q. is_mutation q \<longrightarrow> dispatch srv now q t = (Inl (Permission_denied, Denied_text (rpc_method q)), t,
        [audit srv (rpc_method q) (audited_name q) Denied Not_permitted])))"
proof (intro conjI allI impI)
  show "fst (snd (serve_calls srv calls t)) = t" using assms by (rule serve_calls_gated)
  fix now q assume q: "is_mutation q"
  show denied: "dispatch srv now q t = (Inl (Permission_denied, Denied_text (rpc_method q)), t,
      [audit srv (rpc_method q) (audited_name q) Denied Not_permitted])" if "cs_policy srv = mutation_policy False"
    using that q by (rule dispatch_denied)
  show "dispatch srv now q t =
      (case cs_policy srv (cs_peer srv) (rpc_method q) of
         Panicked _ \<Rightarrow> (Inl (Internal, Could_not_complete), t, [])
       | Returned (Some why) \<Rightarrow> (Inl (Permission_denied, Denied_text why), t,
           [audit srv (rpc_method q) (audited_name q) Denied Not_permitted])
       | Returned None \<Rightarrow>
           (Inl (Unimplemented, if rpc_method q = ''AddVhost'' then Cannot_publish else Cannot_withdraw), t, []))"
  proof (cases "cs_policy srv = mutation_policy False")
    case True
    then have "cs_policy srv (cs_peer srv) (rpc_method q) = Returned (Some (rpc_method q))"
      using is_mutation_changes [OF q] by (simp add: mutation_policy_def)
    then show ?thesis unfolding denied [OF True] by simp
  next
    case False
    then have "cs_names srv = None" "cs_withdraw srv = None" using assms by simp_all
    then show ?thesis using q by (rule dispatch_without_capabilities)
  qed
qed

text \<open>
  The calls that leave no record: the policy failed before it decided, the capability is not there, or
  it failed in the middle of its work.
\<close>

definition goes_unrecorded :: "('t, 'x) control_server \<Rightarrow> rpc \<Rightarrow> 't \<Rightarrow> bool" where
  "goes_unrecorded srv q t \<longleftrightarrow>
    (case cs_policy srv (cs_peer srv) (rpc_method q) of
       Panicked _ \<Rightarrow> True
     | Returned (Some _) \<Rightarrow> False
     | Returned None \<Rightarrow>
         (case q of
            Add_vhost h p \<Rightarrow> (case cs_names srv of None \<Rightarrow> True
              | Some f \<Rightarrow> \<not> (p < 1 \<or> 65535 < p) \<and> (\<exists>why. fst (f h (uint p) t) = Panicked why))
          | Remove_vhost h \<Rightarrow> (case cs_withdraw srv of None \<Rightarrow> True | Some f \<Rightarrow> \<exists>why. fst (f h t) = Panicked why)
          | _ \<Rightarrow> True))"

lemma unrecorded_answer:
  assumes "is_mutation q" "goes_unrecorded srv q t" "dispatch srv now q t = (r, t', l)"
  shows "l = [] \<and> (r = Inl (Internal, Could_not_complete) \<or>
    t' = t \<and> (\<exists>x. r = Inl (Unimplemented, x)) \<and> (cs_names srv = None \<or> cs_withdraw srv = None))"
  using assms
  by (cases q)
    (auto simp: goes_unrecorded_def dispatch_mutation is_mutation_def authorize_def contain_def handle_rpc_def
       handle_add_vhost_def handle_remove_vhost_def Let_def split: outcome.splits option.splits prod.splits)

lemma recorded_answer:
  assumes "is_mutation q" "\<not> goes_unrecorded srv q t" "dispatch srv now q t = (r, t', l)"
  shows "audited_as srv q r l"
proof -
  obtain v where v: "cs_policy srv (cs_peer srv) (rpc_method q) = Returned v"
    using assms(2) by (auto simp: goes_unrecorded_def split: outcome.splits)
  show ?thesis
  proof (cases v)
    case (Some why)
    then show ?thesis
      using v assms is_mutation_changes [OF assms(1)]
      by (auto simp: dispatch_mutation authorize_def contain_def Let_def intro!: audited_asI)
  next
    case None
    then have d: "contain (handle_rpc srv now q t) = (r, t', l)"
      using v assms by (simp add: dispatch_mutation authorize_def Let_def)
    show ?thesis
    proof (cases q)
      case (Add_vhost h p)
      obtain f where f: "cs_names srv = Some f" "p < 1 \<or> 65535 < p \<or> (\<forall>why. fst (f h (uint p) t) \<noteq> Panicked why)"
        using assms(2) v None by (auto simp: goes_unrecorded_def Add_vhost split: option.splits)
      obtain r' u l' where "handle_add_vhost srv h p t = (Returned r', u, l')" "audited_as srv (Add_vhost h p) r' l'"
        using handle_add_audited [OF f] by blast
      then show ?thesis using d by (simp add: Add_vhost handle_rpc_def contain_def)
    next
      case (Remove_vhost h)
      obtain f where f: "cs_withdraw srv = Some f" "\<forall>why. fst (f h t) \<noteq> Panicked why"
        using assms(2) v None by (auto simp: goes_unrecorded_def Remove_vhost split: option.splits)
      obtain r' u l' where "handle_remove_vhost srv h t = (Returned r', u, l')" "audited_as srv (Remove_vhost h) r' l'"
        using handle_remove_audited [OF f] by blast
      then show ?thesis using d by (simp add: Remove_vhost handle_rpc_def contain_def)
    qed (use assms(1) in \<open>simp_all add: is_mutation_def\<close>)
  qed
qed

text \<open>
  C11: An attempt to change the agent is written down exactly once, whenever it was decided: each
  publish or withdrawal that the policy or the capability answered leaves one record naming the caller,
  the method and the (made safe) name, whose verdict is allowed exactly when the caller was told yes and
  denied exactly when it was told permission denied. The ones that leave none are those nobody decided:
  the capability is not there, which changes nothing and is said so, or the policy or the capability
  failed, which the caller hears as an internal error. Reports leave no record. A recorded name is at
  most 128 bytes and holds no control, format or separator character.
\<close>

theorem every_attempt_is_audited:
  assumes "dispatch srv now q t = (r, t', l)"
  shows "(if \<not> is_mutation q then l = [] \<and> t' = t
      else if goes_unrecorded srv q t then l = [] \<and> (r = Inl (Internal, Could_not_complete) \<or>
        t' = t \<and> (\<exists>x. r = Inl (Unimplemented, x)) \<and> (cs_names srv = None \<or> cs_withdraw srv = None))
      else audited_as srv q r l)
    \<and> length (audited_name q) \<le> max_audited_name_len
    \<and> (\<forall>x\<in>set (runes (audited_name q)). audit_keeps (fst x))"
proof (intro conjI)
  show "if \<not> is_mutation q then l = [] \<and> t' = t
      else if goes_unrecorded srv q t then l = [] \<and> (r = Inl (Internal, Could_not_complete) \<or>
        t' = t \<and> (\<exists>x. r = Inl (Unimplemented, x)) \<and> (cs_names srv = None \<or> cs_withdraw srv = None))
      else audited_as srv q r l"
    using dispatch_report [of q srv now t] unrecorded_answer [OF _ _ assms] recorded_answer [OF _ _ assms] assms by simp
  show "length (audited_name q) \<le> max_audited_name_len"
    using length_audit_name by (auto simp: audited_name_def split: rpc.splits)
  show "\<forall>x\<in>set (runes (audited_name q)). audit_keeps (fst x)"
    using audit_name_clean by (auto simp: audited_name_def split: rpc.splits)
qed

text \<open>A capability that fails after it changed the table: the change stays, and nobody wrote it down.\<close>

lemma failed_change_unrecorded:
  assumes "cs_policy srv = mutation_policy True" "cs_withdraw srv = Some (\<lambda>h t. (Panicked why, g h t))"
  shows "dispatch srv now (Remove_vhost h) t = (Inl (Internal, Could_not_complete), g h t, [])"
  using assms by (simp add: dispatch_mutation is_mutation_def authorize_def mutation_policy_def contain_def handle_rpc_def
    handle_remove_vhost_def Let_def)

definition sample_server :: "(nat, unit) control_server" where
  "sample_server =
    \<lparr>cs_peer = \<lparr>cp_pin = ''AAAABBBBCCCC''\<rparr>, cs_policy = mutation_policy False, cs_routes = None, cs_vhosts = None,
     cs_names = Some (\<lambda>h p n. (Returned None, Suc n)),
     cs_withdraw = Some (\<lambda>h n. (Returned (Inr ([], [])), n - 1)),
     cs_version = ''v1'', cs_started_ms = None\<rparr>"

theorem no_change_without_consent_witness:
  "fst (snd (serve_calls sample_server [(0, Add_vhost ''a'' 80), (1, Ping 5)] 7)) = 7 \<and>
   fst (dispatch sample_server 0 (Remove_vhost ''a'') 7) = Inl (Permission_denied, Denied_text ''RemoveVhost'')"
proof -
  have p: "cs_policy sample_server = mutation_policy False" by (simp add: sample_server_def)
  then have shut: "cs_policy sample_server = mutation_policy False \<or>
      cs_names sample_server = None \<and> cs_withdraw sample_server = None" by simp
  have m: "is_mutation (Remove_vhost ''a'')" "rpc_method (Remove_vhost ''a'') = ''RemoveVhost''"
    by (simp_all add: is_mutation_def rpc_method_def)
  note r = no_change_without_consent [OF shut, of "[(0, Add_vhost ''a'' 80), (1, Ping 5)]" 7]
  have "dispatch sample_server 0 (Remove_vhost ''a'') 7 = (Inl (Permission_denied, Denied_text ''RemoveVhost''), 7,
      [audit sample_server ''RemoveVhost'' (audited_name (Remove_vhost ''a'')) Denied Not_permitted])"
    using r [THEN conjunct2, THEN conjunct2, THEN mp, OF p] m by metis
  then show ?thesis using r by simp
qed

theorem every_attempt_is_audited_witness:
  "audited_as sample_server (Remove_vhost ''a'') (fst (dispatch sample_server 0 (Remove_vhost ''a'') 3))
     (snd (snd (dispatch sample_server 0 (Remove_vhost ''a'') 3))) \<and>
   snd (snd (dispatch sample_server 0 (Ping 5) 3)) = []"
proof -
  obtain r t l where d: "dispatch sample_server 0 (Remove_vhost ''a'') 3 = (r, t, l)" by (metis surj_pair)
  obtain r' t' l' where d': "dispatch sample_server 0 (Ping 5) 3 = (r', t', l')" by (metis surj_pair)
  have "\<not> goes_unrecorded sample_server (Remove_vhost ''a'') 3"
    by (simp add: goes_unrecorded_def sample_server_def mutation_policy_def changes_the_agent_def read_only_methods_def rpc_method_def)
  then show ?thesis
    using every_attempt_is_audited [OF d] every_attempt_is_audited [OF d'] by (simp add: d d' is_mutation_def)
qed

end
