(* ===== verification/Transport.thy ===== *)
theory Transport
  imports Go_Errors Prelude
begin

text \<open>
  Package \<^verbatim>\<open>internal/transport\<close>, \<^verbatim>\<open>quic_transport.go\<close>: how connection errors are classified, which
  decides whether a reconnect loop goes on. The QUIC library is third party; its errors appear as
  the kinds the sources tell apart, and any other error is \<open>Plain\<close>.
\<close>

datatype conn_error_kind =
    Auth_failed
  | Unreachable
  | Role_mismatch
  | Transport_error nat
  | Application_error nat
  | Close_coder "nat option"
  | Handshake_timeout
  | Net_error bool
  | Plain string

type_synonym conn_error = "conn_error_kind go_error"

definition tls_alert_base :: nat where "tls_alert_base = 256"
definition tls_alert_max :: nat where "tls_alert_max = 511"
definition alert_no_app_protocol :: nat where "alert_no_app_protocol = 376"
definition connection_refused :: nat where "connection_refused = 2"
definition role_mismatch_code :: nat where "role_mismatch_code = 2"

definition transport_code :: "conn_error_kind \<Rightarrow> nat option" where
  "transport_code k = (case k of Transport_error c \<Rightarrow> Some c | _ \<Rightarrow> None)"

text \<open>The TLS-alert rule, stated once in the sources and here.\<close>

definition is_tls_auth_alert :: "conn_error \<Rightarrow> nat option" where
  "is_tls_auth_alert e =
    (case find_as transport_code e of
       None \<Rightarrow> None
     | Some c \<Rightarrow> if tls_alert_base \<le> c \<and> c \<le> tls_alert_max \<and> c \<noteq> alert_no_app_protocol then Some c else None)"

text \<open>The kinds that satisfy Go's \<^verbatim>\<open>net.Error\<close>, and whether they are timeouts.\<close>

definition net_timeout :: "conn_error_kind \<Rightarrow> bool option" where
  "net_timeout k = (case k of Net_error t \<Rightarrow> Some t | Handshake_timeout \<Rightarrow> Some True | _ \<Rightarrow> None)"

definition classify_dial_error :: "conn_error \<Rightarrow> conn_error" where
  "classify_dial_error e =
    (if is_error Handshake_timeout e
     then Go_error (Plain ''handshake timeout'') [Go_error Unreachable [], e]
     else (let generic = (if find_as net_timeout e = Some True
                then Go_error (Plain ''no response from server'') [Go_error Unreachable [], e] else e) in
       (case find_as transport_code e of
          None \<Rightarrow> generic
        | Some c \<Rightarrow>
           if c = alert_no_app_protocol then Go_error (Plain ''protocol/version mismatch'') [e]
           else if is_tls_auth_alert e \<noteq> None
             then Go_error (Plain ''the peer pin was not accepted'') [Go_error Auth_failed [], e]
           else if c = connection_refused
             then Go_error (Plain ''connection refused'') [Go_error Unreachable [], e]
           else generic)))"

definition close_coder :: "conn_error_kind \<Rightarrow> nat option option" where
  "close_coder k = (case k of Close_coder c \<Rightarrow> Some c | _ \<Rightarrow> None)"

definition application_code :: "conn_error_kind \<Rightarrow> nat option" where
  "application_code k = (case k of Application_error c \<Rightarrow> Some c | _ \<Rightarrow> None)"

definition app_close_code :: "conn_error \<Rightarrow> nat option" where
  "app_close_code e =
    (case find_as close_coder e of
       Some c \<Rightarrow> c
     | None \<Rightarrow> find_as application_code e)"

definition is_role_mismatch :: "conn_error \<Rightarrow> bool" where
  "is_role_mismatch e \<longleftrightarrow> is_error Role_mismatch e \<or> app_close_code e = Some role_mismatch_code"

definition auth_error :: "conn_error \<Rightarrow> conn_error option" where
  "auth_error e =
    (case is_tls_auth_alert e of
       None \<Rightarrow> None
     | Some c \<Rightarrow> Some (Go_error (Plain ''peer rejected the pin'') [Go_error Auth_failed []]))"

definition is_auth_failed :: "conn_error \<Rightarrow> bool" where
  "is_auth_failed e \<longleftrightarrow> is_error Auth_failed e \<or> is_tls_auth_alert e \<noteq> None"

subsection \<open>Facts\<close>

lemma transport_code_simps [simp]:
  "transport_code (Transport_error c) = Some c" "transport_code (Plain s) = None"
  "transport_code Auth_failed = None" "transport_code Unreachable = None"
  by (simp_all add: transport_code_def)

lemma auth_error_is_auth: "auth_error e = Some e' \<Longrightarrow> is_auth_failed e'"
  by (auto simp: auth_error_def is_auth_failed_def is_error_wrap split: option.splits)

lemma auth_error_iff: "auth_error e \<noteq> None \<longleftrightarrow> is_tls_auth_alert e \<noteq> None"
  by (simp add: auth_error_def split: option.splits)

lemma find_as_transport_wrap:
  "find_as transport_code (Go_error (Plain s) [Go_error Unreachable [], e]) = find_as transport_code e"
  "find_as transport_code (Go_error (Plain s) [Go_error Auth_failed [], e]) = find_as transport_code e"
  "find_as transport_code (Go_error (Plain s) [e]) = find_as transport_code e"
  by (simp_all add: find_as_skip find_as_skip2)

lemma classify_keeps_code: "find_as transport_code (classify_dial_error e) = find_as transport_code e"
  by (auto simp: classify_dial_error_def Let_def find_as_transport_wrap split: option.splits)

text \<open>
  Classifying a dial error never changes the verdict a reconnect loop acts on: the classified
  error is an authentication failure exactly when the raw one was, so an ALPN mismatch, a refused
  connection or a timeout is never reported as rejected credentials and a rejected pin never as
  unreachable; a first TLS alert in the range other than the ALPN one always is a rejection.
\<close>

theorem classification_preserves_auth:
  "is_auth_failed (classify_dial_error e) = is_auth_failed e
   \<and> (find_as transport_code e = Some alert_no_app_protocol \<and> \<not> is_error Auth_failed e \<longrightarrow>
        \<not> is_auth_failed (classify_dial_error e))
   \<and> (is_error Unreachable (classify_dial_error e) \<and> \<not> is_error Unreachable e \<and> is_auth_failed e \<longrightarrow>
        is_error Auth_failed e \<or> is_error Handshake_timeout e)"
proof -
  have alert: "is_tls_auth_alert (classify_dial_error e) = is_tls_auth_alert e"
    by (simp add: is_tls_auth_alert_def classify_keeps_code)
  have sentinel: "is_error Auth_failed (classify_dial_error e) \<Longrightarrow> is_auth_failed e"
    by (auto simp: classify_dial_error_def is_auth_failed_def is_error_wrap Let_def
        split: if_splits option.splits)
  have keep: "is_error Auth_failed e \<Longrightarrow> is_error Auth_failed (classify_dial_error e)"
    by (auto simp: classify_dial_error_def is_error_wrap Let_def split: option.splits)
  have 1: "is_auth_failed (classify_dial_error e) = is_auth_failed e"
    using alert sentinel keep by (auto simp: is_auth_failed_def)
  have 2: "\<not> is_auth_failed e" if "find_as transport_code e = Some alert_no_app_protocol" "\<not> is_error Auth_failed e"
    using that by (simp add: is_auth_failed_def is_tls_auth_alert_def)
  have 3: "is_error Auth_failed e \<or> is_error Handshake_timeout e"
    if "is_error Unreachable (classify_dial_error e)" "\<not> is_error Unreachable e" "is_auth_failed e"
    using that
    by (auto simp: classify_dial_error_def is_auth_failed_def is_error_wrap Let_def is_tls_auth_alert_def
        split: if_splits option.splits)
  show ?thesis using 1 2 3 by blast
qed

theorem classification_preserves_auth_witness:
  "\<not> is_auth_failed (classify_dial_error (Go_error (Transport_error alert_no_app_protocol) []))"
  using classification_preserves_auth [THEN conjunct2, THEN conjunct1,
      of "Go_error (Transport_error alert_no_app_protocol) []"]
  by (simp add: find_as_first is_error_def)

text \<open>An error already classified is still an authentication failure, but \<^verbatim>\<open>AuthError\<close> no longer
  says so: the predicate is not preserved by the constructor on such an error.\<close>

lemma auth_error_not_idempotent:
  "is_auth_failed (Go_error Auth_failed []) \<and> auth_error (Go_error Auth_failed []) = None"
  by (simp add: is_auth_failed_def is_error_def auth_error_def is_tls_auth_alert_def find_as_def)

end
