(* ===== verification/Tunnel.thy ===== *)
theory Tunnel
  imports Router Control Transport
begin

text \<open>
  Package \<^verbatim>\<open>internal/tunnel\<close>, the serving side (\<^verbatim>\<open>serve.go\<close>): what becomes of one accepted
  connection, of one data stream and of the control stream.

  A handler's effects on its stream and session are a list of events in the order the code performs
  them; what the environment contributes (what arrives, whether a write succeeds, what the network
  dial yields) is an argument. The interleaving of a session's handlers with the open-deadline timer
  is the step relation \<open>session_step\<close>.
\<close>

subsection \<open>Close codes\<close>

definition role_mismatch_close :: nat where "role_mismatch_close = 2"
definition no_peer_identity_code :: nat where "no_peer_identity_code = 6"
definition control_stream_missing_code :: nat where "control_stream_missing_code = 3"
definition unsupported_proto_code :: nat where "unsupported_proto_code = 4"
definition clean_close_code :: nat where "clean_close_code = 0"

lemmas close_codes = role_mismatch_close_def no_peer_identity_code_def control_stream_missing_code_def
  unsupported_proto_code_def clean_close_code_def

subsection \<open>Errors across the boundary\<close>

definition publish_error :: "vhost_error option \<Rightarrow> vhost_error ctl_error option" where
  "publish_error e = map_option (\<lambda>x. (case x of
       Vhost_exists _ _ _ \<Rightarrow> Name_taken x
     | Vhost_rejected _ \<Rightarrow> Name_rejected x
     | Vhost_limit \<Rightarrow> Name_limit x
     | _ \<Rightarrow> Other_error x)) e"

definition withdraw_error :: "vhost_error \<Rightarrow> vhost_error ctl_error" where
  "withdraw_error x = (case x of
       Vhost_absent _ \<Rightarrow> Name_absent x
     | Vhost_immutable _ _ _ \<Rightarrow> Name_not_ours x
     | Vhost_rejected _ \<Rightarrow> Name_rejected x
     | _ \<Rightarrow> Other_error x)"

text \<open>\<^verbatim>\<open>explanationOf\<close> on the messages of the layers, outermost first.\<close>

fun explanation_of :: "string list \<Rightarrow> string \<Rightarrow> string" where
  "explanation_of [] cond = []"
| "explanation_of (msg # layers) cond =
    (if \<not> has_prefix msg cond then explanation_of layers cond
     else (let rest = trim_space (trim_prefix (trim_prefix msg cond) '':'') in
       if rest \<noteq> [] then '': '' @ rest else []))"

subsection \<open>The session's capabilities\<close>

record serve_opts =
  so_own_pin :: string
  so_policy :: "ctl_policy option"
  so_names :: "(string \<Rightarrow> int \<Rightarrow> router \<Rightarrow> vhost_error ctl_error option outcome \<times> router) option"
  so_allow :: bool
  so_version :: string
  so_started :: "int option"

definition control_detail :: "vhost_detail \<Rightarrow> ctl_detail" where
  "control_detail d = \<lparr>cd_name = vd_name d, cd_address = vd_address d, cd_builtin = vd_builtin d,
     cd_provenance = provenance_string (vd_prov d)\<rparr>"

definition publisher :: "string \<Rightarrow> int \<Rightarrow> router \<Rightarrow> vhost_error ctl_error option outcome \<times> router" where
  "publisher h p r = (let (e, r') = add_vhost h p r in (Returned (publish_error e), r'))"

definition withdrawer ::
  "string \<Rightarrow> router \<Rightarrow> (vhost_error ctl_error + (string \<times> string)) outcome \<times> router" where
  "withdrawer h r =
    (let (res, r') = remove_vhost h r
     in (Returned (case res of Inl e \<Rightarrow> Inl (withdraw_error e) | Inr w \<Rightarrow> Inr w), r'))"

text \<open>The control server of a session over a route table. The policy's default is the safe one.\<close>

definition session_server :: "serve_opts \<Rightarrow> peer_identity \<Rightarrow> (router, vhost_error) control_server" where
  "session_server opt peer =
    \<lparr>cs_peer = \<lparr>cp_pin = id_pin peer\<rparr>,
     cs_policy = (case so_policy opt of None \<Rightarrow> mutation_policy (so_allow opt) | Some p \<Rightarrow> p),
     cs_routes = Some (\<lambda>r. map control_detail (route_details r)),
     cs_vhosts = Some (\<lambda>r. map control_detail (router_vhost_details r)),
     cs_names = (if so_allow opt then (case so_names opt of Some f \<Rightarrow> Some f | None \<Rightarrow> Some publisher) else None),
     cs_withdraw = (if so_allow opt then Some withdrawer else None),
     cs_version = so_version opt, cs_started_ms = so_started opt\<rparr>"

text \<open>\<^verbatim>\<open>serveConn\<close> with no route table: the bundle is empty, whatever the operator allowed.\<close>

definition unrouted_server :: "serve_opts \<Rightarrow> peer_identity \<Rightarrow> (router, vhost_error) control_server" where
  "unrouted_server opt peer =
    (session_server opt peer)\<lparr>cs_routes := None, cs_vhosts := None, cs_names := None, cs_withdraw := None\<rparr>"

lemma unrouted_server_changes_nothing: "fst (snd (serve_calls (unrouted_server opt peer) calls r)) = r"
  by (simp add: serve_calls_without_capabilities unrouted_server_def)

definition same_identity_as_peer :: "string \<Rightarrow> peer_identity \<Rightarrow> bool" where
  "same_identity_as_peer own peer \<longleftrightarrow> own \<noteq> [] \<and> id_pin peer = own"

text \<open>The start of \<^verbatim>\<open>serveConn\<close>: refuse with a close code, or go on with the peer's identity.\<close>

definition admit_peer :: "(bytes \<Rightarrow> string) \<Rightarrow> serve_opts \<Rightarrow> bytes list \<Rightarrow> nat + peer_identity" where
  "admit_peer pin_of opt certs =
    (case identity_from_certs pin_of certs of
       Inl _ \<Rightarrow> Inl no_peer_identity_code
     | Inr peer \<Rightarrow>
         if same_identity_as_peer (so_own_pin opt) peer then Inl role_mismatch_close else Inr peer)"

subsection \<open>One stream\<close>

datatype reply_text =
    No_text
  | Agent_version
  | No_target string
  | No_service string
  | Not_authorized_for string
  | Dial_text dial_error
  | Unsupported_protocol
  | Bad_header_text proto_error
  | Unsupported_control_proto
  | Control_already_open

datatype stream_event =
    Responded status reply_text
  | Stream_closed
  | Stream_was_reset nat
  | Service_closed
  | Piped
  | Session_closed nat
  | Control_served

definition unknown_target_text :: "header \<Rightarrow> reply_text" where
  "unknown_target_text h = (if h_kind h = kind_http then No_service (h_host h) else No_target (h_target h))"

definition reply_dial_error :: "header \<Rightarrow> dial_error \<Rightarrow> stream_event list" where
  "reply_dial_error h e =
    (case e of
       Unknown_target _ \<Rightarrow> [Responded status_unknown_target (unknown_target_text h), Stream_closed]
     | Unauthorized _ \<Rightarrow> [Responded status_unauthorized (Not_authorized_for (destination_of h)), Stream_closed]
     | Dial_failed _ _ \<Rightarrow> [Responded status_dial_failed (Dial_text e), Stream_closed])"

definition reply_header_error :: "proto_error \<Rightarrow> stream_event list" where
  "reply_header_error e =
    (case e of
       Frame_too_large _ \<Rightarrow> [Stream_was_reset stream_reset_code]
     | Unsupported_version _ \<Rightarrow> [Responded status_unsupported_version Unsupported_protocol, Stream_closed]
     | Bad_header _ \<Rightarrow> [Responded status_bad_header (Bad_header_text e), Stream_closed]
     | _ \<Rightarrow> [Stream_was_reset stream_reset_code])"

text \<open>\<open>opened\<close> is \<^verbatim>\<open>controlState.open\<close>; \<open>write_ok\<close> says whether the ok response could be written.\<close>

definition mark_open :: "bool \<Rightarrow> bool \<times> bool" where
  "mark_open opened = (\<not> opened, True)"

definition serve_control :: "header \<Rightarrow> bool \<Rightarrow> bool \<Rightarrow> stream_event list \<times> bool" where
  "serve_control h write_ok opened =
    (if h_meta h ''proto'' \<noteq> Some ''1''
     then ([Responded status_unsupported_version Unsupported_control_proto, Stream_closed,
            Session_closed unsupported_proto_code], opened)
     else (let (first, opened') = mark_open opened in
       if \<not> first then ([Responded status_bad_header Control_already_open, Stream_closed], opened')
       else if \<not> write_ok
         then ([Stream_was_reset stream_reset_code, Session_closed control_stream_missing_code], opened')
       else ([Responded status_ok Agent_version, Control_served, Session_closed clean_close_code], opened')))"

definition serve_stream ::
  "(bytes \<Rightarrow> string + header) \<Rightarrow> (string \<times> string \<Rightarrow> string + 'c) \<Rightarrow> router \<Rightarrow> peer_identity
     \<Rightarrow> bool \<Rightarrow> reader \<Rightarrow> bool \<Rightarrow> stream_event list \<times> bool"
where
  "serve_stream cbor_dec net r peer write_ok rd opened =
    (case read_header cbor_dec rd of
       Inl e \<Rightarrow> (reply_header_error e, opened)
     | Inr (h, _) \<Rightarrow>
        if h_kind h = kind_control then serve_control h write_ok opened
        else (case fst (router_dial net r peer h) of
            Inl e \<Rightarrow> (reply_dial_error h e, opened)
          | Inr svc \<Rightarrow>
             if \<not> write_ok then ([Service_closed, Stream_was_reset stream_reset_code], opened)
             else ([Responded status_ok No_text, Piped], opened)))"

subsection \<open>What a stream sees\<close>

definition is_response :: "stream_event \<Rightarrow> bool" where
  "is_response e = (case e of Responded _ _ \<Rightarrow> True | _ \<Rightarrow> False)"

definition is_end :: "stream_event \<Rightarrow> bool" where
  "is_end e = (case e of Stream_closed \<Rightarrow> True | Stream_was_reset _ \<Rightarrow> True | Piped \<Rightarrow> True | Control_served \<Rightarrow> True | _ \<Rightarrow> False)"

lemma event_simps [simp]:
  "is_response (Responded s t)" "\<not> is_response Stream_closed" "\<not> is_response (Stream_was_reset n)"
  "\<not> is_response Service_closed" "\<not> is_response Piped" "\<not> is_response (Session_closed n)"
  "\<not> is_response Control_served" "\<not> is_end (Responded s t)" "is_end Stream_closed" "is_end (Stream_was_reset n)"
  "\<not> is_end Service_closed" "is_end Piped" "\<not> is_end (Session_closed n)" "is_end Control_served"
  by (simp_all add: is_response_def is_end_def)

definition well_ended :: "stream_event list \<Rightarrow> bool" where
  "well_ended es \<longleftrightarrow> length (filter is_response es) \<le> 1 \<and> length (filter is_end es) = 1 \<and>
     (\<forall>e\<in>set (takeWhile (\<lambda>e. \<not> is_response e) es). e \<noteq> Piped \<and> e \<noteq> Control_served)"

lemma reply_header_error_ends: "well_ended (reply_header_error e)"
  by (cases e) (simp_all add: reply_header_error_def well_ended_def)

lemma reply_dial_error_ends: "well_ended (reply_dial_error h e)"
  by (cases e) (simp_all add: reply_dial_error_def well_ended_def)

lemma serve_control_ends: "well_ended (fst (serve_control h w o'))"
  by (simp add: serve_control_def mark_open_def well_ended_def)

text \<open>What a stream asks for, and when a service is joined to it.\<close>

definition asks_data :: "(bytes \<Rightarrow> string + header) \<Rightarrow> reader \<Rightarrow> header \<Rightarrow> bool" where
  "asks_data cbor_dec rd h \<longleftrightarrow> (\<exists>rest. read_header cbor_dec rd = Inr (h, rest)) \<and> h_kind h \<noteq> kind_control"

definition asks_control :: "(bytes \<Rightarrow> string + header) \<Rightarrow> reader \<Rightarrow> header \<Rightarrow> bool" where
  "asks_control cbor_dec rd h \<longleftrightarrow> (\<exists>rest. read_header cbor_dec rd = Inr (h, rest)) \<and> h_kind h = kind_control"

definition joins :: "(string \<times> string \<Rightarrow> string + 'c) \<Rightarrow> router \<Rightarrow> peer_identity \<Rightarrow> header \<Rightarrow> bool" where
  "joins net r peer h \<longleftrightarrow> (\<exists>rt svc. router_resolve r h = Some rt \<and> ro_policy r peer h = None \<and>
     net (rt_network rt, rt_address rt) = Inr svc)"

text \<open>The answer a stream is owed, by cause; no answer where the stream is to be reset.\<close>

inductive owed ::
  "(bytes \<Rightarrow> string + header) \<Rightarrow> (string \<times> string \<Rightarrow> string + 'c) \<Rightarrow> router \<Rightarrow> peer_identity
     \<Rightarrow> bool \<Rightarrow> reader \<Rightarrow> bool \<Rightarrow> status \<Rightarrow> reply_text \<Rightarrow> bool"
  for dec net r peer w rd opened
where
  joined: "asks_data dec rd h \<Longrightarrow> joins net r peer h \<Longrightarrow> w \<Longrightarrow> owed dec net r peer w rd opened 0 No_text"
| no_service: "asks_data dec rd h \<Longrightarrow> router_resolve r h = None \<Longrightarrow> h_kind h = kind_http \<Longrightarrow>
    owed dec net r peer w rd opened 1 (No_service (h_host h))"
| no_target: "asks_data dec rd h \<Longrightarrow> router_resolve r h = None \<Longrightarrow> h_kind h \<noteq> kind_http \<Longrightarrow>
    owed dec net r peer w rd opened 1 (No_target (h_target h))"
| forbidden: "asks_data dec rd h \<Longrightarrow> router_resolve r h = Some rt \<Longrightarrow> ro_policy r peer h = Some why \<Longrightarrow>
    owed dec net r peer w rd opened 2 (Not_authorized_for (destination_of h))"
| unreachable: "asks_data dec rd h \<Longrightarrow> router_resolve r h = Some rt \<Longrightarrow> ro_policy r peer h = None \<Longrightarrow>
    net (rt_network rt, rt_address rt) = Inl why \<Longrightarrow>
    owed dec net r peer w rd opened 3 (Dial_text (Dial_failed (rt_raw rt) why))"
| malformed: "read_header dec rd = Inl (Bad_header b) \<Longrightarrow>
    owed dec net r peer w rd opened 5 (Bad_header_text (Bad_header b))"
| second_control: "asks_control dec rd h \<Longrightarrow> h_meta h ''proto'' = Some ''1'' \<Longrightarrow> opened \<Longrightarrow>
    owed dec net r peer w rd opened 5 Control_already_open"
| other_version: "read_header dec rd = Inl (Unsupported_version v) \<Longrightarrow>
    owed dec net r peer w rd opened 6 Unsupported_protocol"
| other_control: "asks_control dec rd h \<Longrightarrow> h_meta h ''proto'' \<noteq> Some ''1'' \<Longrightarrow>
    owed dec net r peer w rd opened 6 Unsupported_control_proto"
| control_stream: "asks_control dec rd h \<Longrightarrow> h_meta h ''proto'' = Some ''1'' \<Longrightarrow> \<not> opened \<Longrightarrow> w \<Longrightarrow>
    owed dec net r peer w rd opened 0 Agent_version"

inductive_simps owed_iff: "owed dec net r peer w rd opened s t"

lemma asked:
  assumes "read_header dec rd = x"
  shows "asks_data dec rd h \<longleftrightarrow> (\<exists>rest. x = Inr (h, rest) \<and> h_kind h \<noteq> kind_control)"
    and "asks_control dec rd h \<longleftrightarrow> (\<exists>rest. x = Inr (h, rest) \<and> h_kind h = kind_control)"
  using assms by (auto simp: asks_data_def asks_control_def)

lemma joins_iff: "joins net r peer h \<longleftrightarrow> (\<exists>svc. fst (router_dial net r peer h) = Inr svc)"
  by (auto simp: joins_def router_dial_def split: option.splits sum.splits)

text \<open>The four ways a stream goes.\<close>

lemma serve_stream_cases [case_names unread control refused joined]:
  obtains (unread) e where "read_header dec rd = Inl e" "serve_stream dec net r peer w rd opened = (reply_header_error e, opened)"
  | (control) h rest where "read_header dec rd = Inr (h, rest)" "h_kind h = kind_control"
      "serve_stream dec net r peer w rd opened = serve_control h w opened"
  | (refused) h rest e where "read_header dec rd = Inr (h, rest)" "h_kind h \<noteq> kind_control"
      "fst (router_dial net r peer h) = Inl e" "serve_stream dec net r peer w rd opened = (reply_dial_error h e, opened)"
  | (joined) h rest svc where "read_header dec rd = Inr (h, rest)" "h_kind h \<noteq> kind_control"
      "fst (router_dial net r peer h) = Inr svc"
      "serve_stream dec net r peer w rd opened =
        (if \<not> w then [Service_closed, Stream_was_reset stream_reset_code] else [Responded status_ok No_text, Piped], opened)"
  by (cases "read_header dec rd"; cases "fst (router_dial net r peer (fst (projr (read_header dec rd))))";
      cases "h_kind (fst (projr (read_header dec rd))) = kind_control"; force simp: serve_stream_def)

lemma serve_stream_ends: "well_ended (fst (serve_stream dec net r peer w rd opened))"
  by (cases rule: serve_stream_cases [of dec rd net r peer w opened])
    (simp_all add: reply_header_error_ends reply_dial_error_ends serve_control_ends, simp add: well_ended_def)

lemma owed_unread: 
  assumes "read_header dec rd = Inl e"
  shows "owed dec net r peer w rd opened s t \<longleftrightarrow> Responded s t \<in> set (reply_header_error e)"
  by (cases e) (auto simp: owed_iff asked [OF assms] assms reply_header_error_def status_defs)

lemma owed_control:
  assumes "read_header dec rd = Inr (h, rest)" "h_kind h = kind_control"
  shows "owed dec net r peer w rd opened s t \<longleftrightarrow> Responded s t \<in> set (fst (serve_control h w opened))"
  using assms(2) by (auto simp: owed_iff asked [OF assms(1)] assms(1) serve_control_def mark_open_def status_defs)

lemma owed_refused:
  assumes "read_header dec rd = Inr (h, rest)" "h_kind h \<noteq> kind_control" "fst (router_dial net r peer h) = Inl e"
  shows "owed dec net r peer w rd opened s t \<longleftrightarrow> Responded s t \<in> set (reply_dial_error h e)"
proof -
  have "\<not> joins net r peer h" using assms(3) by (simp add: joins_iff)
  then show ?thesis
    using assms(2,3)
    by (auto simp: owed_iff asked [OF assms(1)] assms(1) router_dial_def reply_dial_error_def unknown_target_text_def
        status_defs split: option.splits sum.splits if_splits)
qed

lemma owed_joined:
  assumes "read_header dec rd = Inr (h, rest)" "h_kind h \<noteq> kind_control" "fst (router_dial net r peer h) = Inr svc"
  shows "owed dec net r peer w rd opened s t \<longleftrightarrow> w \<and> s = status_ok \<and> t = No_text"
proof -
  have "joins net r peer h" using assms(3) by (simp add: joins_iff)
  then show ?thesis
    using assms(2,3)
    by (auto simp: owed_iff asked [OF assms(1)] assms(1) router_dial_def status_defs split: option.splits sum.splits)
qed

lemma serve_stream_owed:
  "Responded s t \<in> set (fst (serve_stream dec net r peer w rd opened)) \<longleftrightarrow> owed dec net r peer w rd opened s t"
proof (cases rule: serve_stream_cases [of dec rd net r peer w opened])
  case (joined h rest svc)
  then show ?thesis by (auto simp: owed_joined)
qed (simp_all add: owed_unread owed_control owed_refused)

lemma serve_stream_joins:
  "Piped \<in> set (fst (serve_stream dec net r peer w rd opened)) \<longleftrightarrow> w \<and> (\<exists>h. asks_data dec rd h \<and> joins net r peer h)"
proof (cases rule: serve_stream_cases [of dec rd net r peer w opened])
  case (unread e)
  then show ?thesis by (cases e) (simp_all add: asked reply_header_error_def)
next
  case (refused h rest e)
  then show ?thesis by (cases e) (simp_all add: asked joins_iff reply_dial_error_def)
qed (simp_all add: asked joins_iff serve_control_def mark_open_def)

text \<open>A control stream that speaks the protocol: it opens the session's control plane.\<close>

lemma serve_stream_control:
  "Control_served \<in> set (fst (serve_stream dec net r peer w rd opened)) \<longleftrightarrow>
    w \<and> \<not> opened \<and> (\<exists>h. asks_control dec rd h \<and> h_meta h ''proto'' = Some ''1'')"
proof (cases rule: serve_stream_cases [of dec rd net r peer w opened])
  case (unread e)
  then show ?thesis by (cases e) (simp_all add: asked reply_header_error_def)
next
  case (refused h rest e)
  then show ?thesis by (cases e) (simp_all add: asked reply_dial_error_def)
next
  case (control h rest)
  then show ?thesis by (auto simp: asked serve_control_def mark_open_def)
qed (simp_all add: asked)

lemma serve_stream_opens:
  "snd (serve_stream dec net r peer w rd opened) \<longleftrightarrow>
    opened \<or> (\<exists>h. asks_control dec rd h \<and> h_meta h ''proto'' = Some ''1'')"
proof (cases rule: serve_stream_cases [of dec rd net r peer w opened])
  case (control h rest)
  then show ?thesis by (auto simp: asked serve_control_def mark_open_def)
qed (simp_all add: asked)

lemma serve_stream_resets:
  "Stream_was_reset c \<in> set (fst (serve_stream dec net r peer w rd opened)) \<longleftrightarrow> c = stream_reset_code \<and>
    ((\<exists>e. read_header dec rd = Inl e \<and> (\<nexists>v. e = Unsupported_version v) \<and> (\<nexists>b. e = Bad_header b)) \<or>
     (\<not> w \<and> ((\<exists>h. asks_data dec rd h \<and> joins net r peer h) \<or>
       \<not> opened \<and> (\<exists>h. asks_control dec rd h \<and> h_meta h ''proto'' = Some ''1''))))"
proof (cases rule: serve_stream_cases [of dec rd net r peer w opened])
  case (unread e)
  then show ?thesis by (cases e) (simp_all add: asked reply_header_error_def)
next
  case (refused h rest e)
  then show ?thesis by (cases e) (simp_all add: asked joins_iff reply_dial_error_def)
next
  case (control h rest)
  then show ?thesis by (auto simp: asked serve_control_def mark_open_def)
qed (simp_all add: asked joins_iff)

lemma serve_stream_session_close:
  "Session_closed c \<in> set (fst (serve_stream dec net r peer w rd opened)) \<longleftrightarrow> (\<exists>h. asks_control dec rd h \<and>
    (if h_meta h ''proto'' \<noteq> Some ''1'' then c = 4 else \<not> opened \<and> c = (if w then 0 else 3)))"
proof (cases rule: serve_stream_cases [of dec rd net r peer w opened])
  case (unread e)
  then show ?thesis by (cases e) (simp_all add: asked reply_header_error_def)
next
  case (refused h rest e)
  then show ?thesis by (cases e) (simp_all add: asked reply_dial_error_def)
next
  case (control h rest)
  then show ?thesis by (auto simp: asked serve_control_def mark_open_def close_codes)
qed (simp_all add: asked)

text \<open>
  C12: Every stream a client opens is answered at most once and ended exactly once, and the answer is
  the one its cause is owed, with that cause's status and text: 0 when the service was joined or the
  control stream accepted, 1 for a name nobody serves, 2 for a peer the policy refuses, 3 for a service
  that could not be dialled, 5 for a malformed header or a second control stream, 6 for another version
  of the protocol. Payload flows exactly when a data header resolved, was let in and was dialled and the
  answer went out, and never before it; control calls are served exactly on the first well-spoken
  control stream; every other failure (an oversized frame, a read that failed, an answer that could not
  be written) resets the stream, unanswered; and only control streams close the session, with the code
  that says why.
\<close>

theorem stream_answered_once:
  fixes net :: "string \<times> string \<Rightarrow> string + 'c" and cbor_dec :: "bytes \<Rightarrow> string + header"
    and r :: router and peer :: peer_identity
  defines "evs \<equiv> \<lambda>w rd o'. fst (serve_stream cbor_dec net r peer w rd o')"
  shows "well_ended (evs w rd o') \<and>
    (\<forall>s t. Responded s t \<in> set (evs w rd o') \<longleftrightarrow> owed cbor_dec net r peer w rd o' s t) \<and>
    (Piped \<in> set (evs w rd o') \<longleftrightarrow> w \<and> (\<exists>h. asks_data cbor_dec rd h \<and> joins net r peer h)) \<and>
    (Control_served \<in> set (evs w rd o') \<longleftrightarrow>
      w \<and> \<not> o' \<and> (\<exists>h. asks_control cbor_dec rd h \<and> h_meta h ''proto'' = Some ''1'')) \<and>
    (\<forall>c. Stream_was_reset c \<in> set (evs w rd o') \<longleftrightarrow> c = stream_reset_code \<and>
      ((\<exists>e. read_header cbor_dec rd = Inl e \<and> (\<nexists>v. e = Unsupported_version v) \<and> (\<nexists>b. e = Bad_header b)) \<or>
       (\<not> w \<and> ((\<exists>h. asks_data cbor_dec rd h \<and> joins net r peer h) \<or>
         \<not> o' \<and> (\<exists>h. asks_control cbor_dec rd h \<and> h_meta h ''proto'' = Some ''1''))))) \<and>
    (\<forall>c. Session_closed c \<in> set (evs w rd o') \<longleftrightarrow> (\<exists>h. asks_control cbor_dec rd h \<and>
      (if h_meta h ''proto'' \<noteq> Some ''1'' then c = 4 else \<not> o' \<and> c = (if w then 0 else 3)))) \<and>
    (snd (serve_stream cbor_dec net r peer w rd o') \<longleftrightarrow>
      o' \<or> (\<exists>h. asks_control cbor_dec rd h \<and> h_meta h ''proto'' = Some ''1''))"
  unfolding evs_def
  by (intro conjI allI serve_stream_ends serve_stream_owed serve_stream_joins serve_stream_control serve_stream_resets
      serve_stream_session_close serve_stream_opens)

text \<open>The frame of a header that encodes to nothing, for concrete runs.\<close>

lemma sample_frame: "frame_bytes [] = Inr [CHR 0x01, CHR 0x00, CHR 0x00]"
  by (simp add: frame_bytes_def max_frame_payload_def proto_version_def be16_def char_of_eq_iff)

text \<open>A name nobody serves, on a stream that speaks the protocol: one answer, status 1.\<close>

theorem stream_answered_once_witness:
  "Responded 1 (No_target ''db'') \<in> set (fst (serve_stream
     (\<lambda>_. Inr \<lparr>h_kind = kind_tcp, h_target = ''db'', h_host = [], h_port = 0, h_meta = Map.empty\<rparr>)
     (\<lambda>_. Inl [] :: string + unit)
     \<lparr>ro_routes = Map.empty, ro_vhosts = None, ro_policy = (\<lambda>_ _. None)\<rparr> \<lparr>id_pin = ''p''\<rparr> True
     \<lparr>avail = [CHR 0x01, CHR 0x00, CHR 0x00], fin = EOF\<rparr> False))"
proof -
  let ?h = "\<lparr>h_kind = kind_tcp, h_target = ''db'', h_host = [], h_port = 0, h_meta = Map.empty\<rparr>"
    and ?rd = "\<lparr>avail = [CHR 0x01, CHR 0x00, CHR 0x00], fin = EOF\<rparr>"
  have "good_header ?h" by (simp add: good_header_def)
  then have "read_header (\<lambda>_. Inr ?h) ?rd = Inr (?h, \<lparr>avail = [], fin = EOF\<rparr>)"
    using read_header_framed [of "\<lambda>_. Inr ?h" "[]" ?h "[CHR 0x01, CHR 0x00, CHR 0x00]" "[]" EOF] sample_frame by simp
  then have "asks_data (\<lambda>_. Inr ?h) ?rd ?h" by (simp add: asks_data_def)
  then have "owed (\<lambda>_. Inr ?h) (\<lambda>_. Inl [] :: string + unit)
      \<lparr>ro_routes = Map.empty, ro_vhosts = None, ro_policy = (\<lambda>_ _. None)\<rparr> p True ?rd False 1 (No_target (h_target ?h))" for p
    by (rule owed.no_target) (simp_all add: router_resolve_def)
  then show ?thesis
    using stream_answered_once [of "\<lambda>_. Inr ?h" "\<lambda>_. Inl [] :: string + unit"] by simp
qed

subsection \<open>A session with its handlers and its timer\<close>

text \<open>
  Where a handler of the control stream is: past \<^verbatim>\<open>markOpen\<close>, past stopping the timer, or serving.
\<close>

datatype phase = Marked | Answering | Serving

text \<open>
  What the goroutines of one connection share: \<^verbatim>\<open>controlState.open\<close>, the deadline's timer (armed, or
  fired and about to close), the accept loop, the streams whose header is still being read, the handler
  of the control stream, and the calls of \<^verbatim>\<open>CloseWithError\<close> so far, with their codes and reasons.
\<close>

record session =
  ss_open :: bool
  ss_timer :: bool
  ss_late :: bool
  ss_accepting :: bool
  ss_reading :: nat
  ss_handlers :: "phase list"
  ss_closes :: "(nat \<times> string) list"
  ss_opened :: nat

definition new_session :: session where
  "new_session = \<lparr>ss_open = False, ss_timer = True, ss_late = False, ss_accepting = True, ss_reading = 0,
     ss_handlers = [], ss_closes = [], ss_opened = 0\<rparr>"

definition bad_proto_close :: "nat \<times> string" where
  "bad_proto_close = (unsupported_proto_code, ''unsupported control proto'')"

definition write_failed_close :: "nat \<times> string" where
  "write_failed_close = (control_stream_missing_code, ''control response write failed'')"

definition control_over_close :: "nat \<times> string" where
  "control_over_close = (clean_close_code, ''control stream closed'')"

definition deadline_close :: "nat \<times> string" where
  "deadline_close = (control_stream_missing_code, ''control stream not opened within deadline'')"

definition shutdown_close :: "nat \<times> string" where
  "shutdown_close = (clean_close_code, ''agent shutting down'')"

lemmas close_defs = bad_proto_close_def write_failed_close_def control_over_close_def deadline_close_def
  shutdown_close_def close_codes

text \<open>
  One step of one goroutine. The timer's callback looks and closes in two steps, so a control stream may
  be opened between them; handlers outlive the accept loop, which ends when the agent shuts down (and
  says so) or when the connection is gone.
\<close>

inductive session_step :: "session \<Rightarrow> session \<Rightarrow> bool" where
  accepted: "ss_accepting s \<Longrightarrow> session_step s (s\<lparr>ss_reading := Suc (ss_reading s)\<rparr>)"
| data_stream: "ss_reading s = Suc n \<Longrightarrow> session_step s (s\<lparr>ss_reading := n\<rparr>)"
| bad_proto: "ss_reading s = Suc n \<Longrightarrow> session_step s
    (s\<lparr>ss_reading := n, ss_closes := ss_closes s @ [bad_proto_close]\<rparr>)"
| control_opened: "ss_reading s = Suc n \<Longrightarrow> mark_open (ss_open s) = (True, o') \<Longrightarrow> session_step s
    (s\<lparr>ss_reading := n, ss_open := o', ss_handlers := Marked # ss_handlers s, ss_opened := Suc (ss_opened s)\<rparr>)"
| duplicate: "ss_reading s = Suc n \<Longrightarrow> mark_open (ss_open s) = (False, o') \<Longrightarrow> session_step s
    (s\<lparr>ss_reading := n, ss_open := o'\<rparr>)"
| timer_stopped: "ss_handlers s = xs @ Marked # ys \<Longrightarrow> session_step s
    (s\<lparr>ss_timer := False, ss_handlers := xs @ Answering # ys\<rparr>)"
| answered: "ss_handlers s = xs @ Answering # ys \<Longrightarrow> session_step s (s\<lparr>ss_handlers := xs @ Serving # ys\<rparr>)"
| answer_failed: "ss_handlers s = xs @ Answering # ys \<Longrightarrow> session_step s
    (s\<lparr>ss_handlers := xs @ ys, ss_closes := ss_closes s @ [write_failed_close]\<rparr>)"
| control_ended: "ss_handlers s = xs @ Serving # ys \<Longrightarrow> session_step s
    (s\<lparr>ss_handlers := xs @ ys, ss_closes := ss_closes s @ [control_over_close]\<rparr>)"
| deadline_fires: "ss_timer s \<Longrightarrow> session_step s (s\<lparr>ss_timer := False, ss_late := \<not> ss_open s\<rparr>)"
| deadline_closes: "ss_late s \<Longrightarrow> session_step s
    (s\<lparr>ss_late := False, ss_closes := ss_closes s @ [deadline_close]\<rparr>)"
| shut_down: "ss_accepting s \<Longrightarrow> session_step s
    (s\<lparr>ss_accepting := False, ss_timer := False, ss_closes := ss_closes s @ [shutdown_close]\<rparr>)"
| connection_lost: "ss_accepting s \<Longrightarrow> session_step s (s\<lparr>ss_accepting := False, ss_timer := False\<rparr>)"

lemmas session_run = converse_rtranclp_into_rtranclp [where r = session_step]
lemmas session_run_one = r_into_rtranclp [where r = session_step]

inductive_cases session_stepE: "session_step s s'"

definition closed_by :: "session \<Rightarrow> nat \<times> string \<Rightarrow> nat" where
  "closed_by s c = count_list (ss_closes s) c"

definition session_inv :: "session \<Rightarrow> bool" where
  "session_inv s \<longleftrightarrow> ss_opened s \<le> 1 \<and> (ss_open s \<longleftrightarrow> ss_opened s = 1) \<and>
     length (ss_handlers s) + closed_by s write_failed_close + closed_by s control_over_close = ss_opened s \<and>
     closed_by s deadline_close + (if ss_late s then 1 else 0) + (if ss_timer s then 1 else 0) \<le> 1 \<and>
     closed_by s shutdown_close + (if ss_accepting s then 1 else 0) \<le> 1 \<and>
     set (ss_closes s) \<subseteq> {bad_proto_close, write_failed_close, control_over_close, deadline_close, shutdown_close}"

lemma session_step_inv [inv_intros]: "session_step s s' \<Longrightarrow> session_inv s \<Longrightarrow> session_inv s'"
  by (erule session_stepE) (auto simp: session_inv_def closed_by_def close_defs mark_open_def split: if_splits)

lemma session_runs_inv: "session_step\<^sup>*\<^sup>* new_session s \<Longrightarrow> session_inv s"
proof (induction rule: rtranclp_induct)
  case base
  show ?case by (simp add: session_inv_def new_session_def closed_by_def)
qed (rule session_step_inv)

text \<open>With the control stream open and the deadline not already past, the deadline is off for good.\<close>

lemma deadline_is_off:
  assumes "session_step\<^sup>*\<^sup>* s s'" "ss_open s" "\<not> ss_late s"
  shows "ss_open s' \<and> \<not> ss_late s' \<and> closed_by s' deadline_close = closed_by s deadline_close"
  using assms(1)
proof (induction rule: rtranclp_induct)
  case base
  show ?case using assms(2,3) by simp
next
  case (step y z)
  from step(2) show ?case
    using step.IH by cases (auto simp: closed_by_def close_defs mark_open_def)
qed

text \<open>
  C13: Over any interleaving of a session's streams, its open deadline, its shutdown and the loss of its
  connection, at most one control stream is ever opened, one handler serves it, and it is over at most
  once; the session is closed with no code and reason but the five documented ones, at most once for a
  missed deadline and once for a shutdown; and once the control stream is open, unless the deadline had
  already passed when it was, no later moment of the session closes it for a missed deadline.
\<close>

theorem one_control_stream:
  assumes "session_step\<^sup>*\<^sup>* new_session s"
  shows "ss_opened s \<le> 1 \<and>
    length (ss_handlers s) + closed_by s (3, ''control response write failed'') + closed_by s (0, ''control stream closed'')
      = ss_opened s \<and>
    closed_by s (3, ''control stream not opened within deadline'') \<le> 1 \<and> closed_by s (0, ''agent shutting down'') \<le> 1 \<and>
    set (ss_closes s) \<subseteq> {(4, ''unsupported control proto''), (3, ''control response write failed''),
      (0, ''control stream closed''), (3, ''control stream not opened within deadline''), (0, ''agent shutting down'')} \<and>
    (ss_open s \<and> \<not> ss_late s \<longrightarrow> (\<forall>s'. session_step\<^sup>*\<^sup>* s s' \<longrightarrow>
      closed_by s' (3, ''control stream not opened within deadline'')
        = closed_by s (3, ''control stream not opened within deadline'')))"
proof -
  have inv: "session_inv s" using assms by (rule session_runs_inv)
  have "closed_by s' deadline_close = closed_by s deadline_close"
    if "ss_open s \<and> \<not> ss_late s" "session_step\<^sup>*\<^sup>* s s'" for s'
    using deadline_is_off [OF that(2)] that(1) by simp
  moreover have "closed_by s deadline_close \<le> 1" "closed_by s shutdown_close \<le> 1"
    using inv by (simp_all add: session_inv_def)
  ultimately have "ss_opened s \<le> 1 \<and>
      length (ss_handlers s) + closed_by s write_failed_close + closed_by s control_over_close = ss_opened s \<and>
      closed_by s deadline_close \<le> 1 \<and> closed_by s shutdown_close \<le> 1 \<and>
      set (ss_closes s) \<subseteq> {bad_proto_close, write_failed_close, control_over_close, deadline_close, shutdown_close} \<and>
      (ss_open s \<and> \<not> ss_late s \<longrightarrow> (\<forall>s'. session_step\<^sup>*\<^sup>* s s' \<longrightarrow>
        closed_by s' deadline_close = closed_by s deadline_close))"
    using inv unfolding session_inv_def by blast
  then show ?thesis unfolding close_defs .
qed

text \<open>A session whose client opened two control streams, one of which was served and ended.\<close>

theorem one_control_stream_witness:
  "\<exists>s. session_step\<^sup>*\<^sup>* new_session s \<and> ss_opened s = 1 \<and> ss_reading s = 0 \<and>
     ss_closes s = [(0, ''control stream closed'')] \<and>
     (\<forall>s'. session_step\<^sup>*\<^sup>* s s' \<longrightarrow> closed_by s' (3, ''control stream not opened within deadline'') = 0)"
proof -
  let ?at = "\<lambda>t n hs cs. \<lparr>ss_open = hs \<noteq> [] \<or> cs \<noteq> [], ss_timer = t, ss_late = False, ss_accepting = True, ss_reading = n,
      ss_handlers = hs, ss_closes = cs, ss_opened = (if hs \<noteq> [] \<or> cs \<noteq> [] then 1 else 0)\<rparr>"
  have 1: "session_step new_session (?at True 1 [] [])"
    using session_step.accepted [of new_session] by (simp add: new_session_def)
  have 2: "session_step (?at True 1 [] []) (?at True 2 [] [])"
    using session_step.accepted [of "?at True 1 [] []"] by (simp add: numeral_2_eq_2)
  have 3: "session_step (?at True 2 [] []) (?at True 1 [Marked] [])"
    using session_step.control_opened [of "?at True 2 [] []" 1 True] by (simp add: mark_open_def numeral_2_eq_2)
  have 4: "session_step (?at True 1 [Marked] []) (?at False 1 [Answering] [])"
    using session_step.timer_stopped [of "?at True 1 [Marked] []" "[]" "[]"] by simp
  have 5: "session_step (?at False 1 [Answering] []) (?at False 1 [Serving] [])"
    using session_step.answered [of "?at False 1 [Answering] []" "[]" "[]"] by simp
  have 6: "session_step (?at False 1 [Serving] []) (?at False 0 [Serving] [])"
    using session_step.duplicate [of "?at False 1 [Serving] []" 0 True] by (simp add: mark_open_def)
  have 7: "session_step (?at False 0 [Serving] []) (?at False 0 [] [control_over_close])"
    using session_step.control_ended [of "?at False 0 [Serving] []" "[]" "[]"] by simp
  have run: "session_step\<^sup>*\<^sup>* new_session (?at False 0 [] [control_over_close])"
    by (rule session_run [OF 1] session_run [OF 2]
      session_run [OF 3] session_run [OF 4] session_run [OF 5]
      session_run [OF 6] session_run_one [OF 7])+
  let ?s = "?at False 0 [] [control_over_close]"
  have none: "closed_by ?s (3, ''control stream not opened within deadline'') = 0"
    by (simp add: closed_by_def close_defs)
  have up: "ss_open ?s \<and> \<not> ss_late ?s" by simp
  note off = one_control_stream [OF run, THEN conjunct2, THEN conjunct2, THEN conjunct2, THEN conjunct2, THEN conjunct2,
    THEN mp, OF up]
  have "closed_by s' (3, ''control stream not opened within deadline'') = 0" if "session_step\<^sup>*\<^sup>* ?s s'" for s'
    using off [THEN spec, THEN mp, OF that] unfolding none .
  moreover have "ss_opened ?s = 1" "ss_reading ?s = 0" "ss_closes ?s = [(0, ''control stream closed'')]"
    by (simp_all add: close_defs)
  ultimately show ?thesis using run by blast
qed

text \<open>The race the comments describe: the deadline looks, the client opens, and the close still comes.\<close>

lemma late_deadline_closes_an_open_session:
  "\<exists>s. session_step\<^sup>*\<^sup>* new_session s \<and> ss_opened s = 1 \<and> ss_closes s = [deadline_close]"
proof -
  let ?a = "new_session\<lparr>ss_reading := 1\<rparr>" and ?b = "new_session\<lparr>ss_reading := 1, ss_timer := False, ss_late := True\<rparr>"
    and ?c = "new_session\<lparr>ss_open := True, ss_timer := False, ss_late := True, ss_handlers := [Marked], ss_opened := 1\<rparr>"
    and ?d = "new_session\<lparr>ss_open := True, ss_timer := False, ss_handlers := [Marked], ss_closes := [deadline_close],
      ss_opened := 1\<rparr>"
  have 1: "session_step new_session ?a" using session_step.accepted [of new_session] by (simp add: new_session_def)
  have 2: "session_step ?a ?b" using session_step.deadline_fires [of ?a] by (simp add: new_session_def)
  have 3: "session_step ?b ?c"
    using session_step.control_opened [of ?b 0 True] by (simp add: new_session_def mark_open_def)
  have 4: "session_step ?c ?d" using session_step.deadline_closes [of ?c] by (simp add: new_session_def)
  have "session_step\<^sup>*\<^sup>* new_session ?d"
    by (rule session_run [OF 1] session_run [OF 2]
      session_run [OF 3] session_run_one [OF 4])+
  then show ?thesis by (intro exI [of _ ?d]) (simp add: new_session_def)
qed

subsection \<open>The whole agent\<close>

interpretation agent_session: served_table add_vhost remove_vhost shown_entry removable_entry router_ok
    "session_server (opt\<lparr>so_names := None\<rparr>) peer" for opt peer
  by unfold_locales (auto simp: session_server_def publisher_def withdrawer_def split_def Let_def split: if_splits)

text \<open>
  C2: An authenticated client cannot take over an agent through its control stream: for an agent
  built from the operator's configuration and any sequence of calls on a session, the operator's
  names and every target route are as before, and any other name is a loopback port; and if the
  operator did not allow remote changes, nothing at all has changed.
\<close>

theorem control_stream_cannot_displace:
  assumes "new_with_vhosts overrides hosts pol = Inr r" and "so_names opt = None"
  shows "let r' = fst (snd (serve_calls (session_server opt peer) calls r)) in
    (\<forall>n e. shown_entry r n = Some e \<longrightarrow> shown_entry r' n = Some e) \<and>
    (\<forall>n e. shown_entry r' n = Some e \<longrightarrow>
        shown_entry r n = Some e \<or> (\<exists>p. 1 \<le> p \<and> p \<le> 65535 \<and> e = runtime_entry p)) \<and>
    ro_routes r' = ro_routes r \<and> (\<not> so_allow opt \<longrightarrow> r' = r)"
proof -
  let ?srv = "session_server opt peer"
  have own: "opt\<lparr>so_names := None\<rparr> = opt" using assms(2) by simp
  have ok: "router_ok r" using assms(1) by (rule new_with_vhosts_ok)
  obtain ops where ops: "fst (snd (serve_calls ?srv calls r)) = run_ops ops r"
    using agent_session.serve_calls_is_run [of opt peer calls r] run_ops_run own by metis
  have cfg: "shown_entry r n = Some e \<Longrightarrow> rt_prov e = Config" for n e
    using new_with_vhosts_config [OF assms(1)] by blast
  then have conf: "runtime_confined r" by (simp add: runtime_confined_def)
  have 1: "shown_entry r n = Some e \<Longrightarrow> shown_entry (run_ops ops r) n = Some e" for n e
    using agent_names.run_keeps_fixed [OF ok, of n e ops] cfg [of n e]
    by (simp add: removable_entry_def run_ops_run)
  have 2: "shown_entry (run_ops ops r) n = Some e \<Longrightarrow>
      shown_entry r n = Some e \<or> (\<exists>p. 1 \<le> p \<and> p \<le> 65535 \<and> e = runtime_entry p)" for n e
    using agent_names.run_origin [OF ok, of ops n e] run_ops_confined [OF ok conf, of ops]
    by (auto simp: run_ops_run removable_entry_def runtime_confined_def)
  have 3: "fst (snd (serve_calls ?srv calls r)) = r" if "\<not> so_allow opt"
    using that by (intro serve_calls_without_capabilities) (simp_all add: session_server_def)
  show ?thesis
    unfolding Let_def ops using 1 2 3 ops run_ops_routes by auto
qed

theorem control_stream_cannot_displace_witness:
  "\<exists>r. new_with_vhosts [] [] None = Inr r \<and>
     fst (snd (serve_calls (session_server \<lparr>so_own_pin = [], so_policy = None, so_names = None, so_allow = False,
         so_version = [], so_started = None\<rparr> \<lparr>id_pin = ''p''\<rparr>)
       [(0, Add_vhost ''a.home'' 80)] r)) = r"
proof -
  obtain r where r: "new_with_vhosts [] [] None = Inr r"
    using built_in_routes by (auto simp: new_with_vhosts_def new_vhosts_def max_vhosts_def)
  let ?o = "\<lparr>so_own_pin = [], so_policy = None, so_names = None, so_allow = False,
        so_version = [], so_started = None\<rparr>"
  have "so_names ?o = None" "\<not> so_allow ?o" by simp_all
  then have "fst (snd (serve_calls (session_server ?o peer) calls r)) = r" for peer calls
    using control_stream_cannot_displace [OF r, of ?o peer calls] unfolding Let_def by blast
  then show ?thesis using r by blast
qed

end
