(* ===== verification/Tunnel_Attach.thy ===== *)
theory Tunnel_Attach
  imports Tunnel
begin

text \<open>
  Package \<^verbatim>\<open>internal/tunnel\<close>, the client's side (\<^verbatim>\<open>attach.go\<close>), the splice both sides share
  (\<^verbatim>\<open>pipe\<close> in \<^verbatim>\<open>serve.go\<close>), and the opening of the control stream (\<^verbatim>\<open>control/open.go\<close>).

  The operations' effects on the stream and on the local leg are events in the order the code performs
  them. \<open>race\<close> says which arm of a \<^verbatim>\<open>select\<close> wins. The splice is the step relation \<open>pipe_step\<close>:
  its two copying goroutines interleave in any order and fail at any moment.
\<close>

subsection \<open>Awaiting the response\<close>

datatype race = Read_first | Timer_first | Context_first

datatype await_error = Await_proto proto_error | Await_timeout | Await_cancelled

text \<open>The result, and whether the stream was reset.\<close>

definition await_response ::
  "(bytes \<Rightarrow> string + response) \<Rightarrow> reader \<Rightarrow> race \<Rightarrow> (await_error + response) \<times> bool"
where
  "await_response cbor_dec rd race =
    (case race of
       Read_first \<Rightarrow>
         (case read_response cbor_dec rd of
            Inl e \<Rightarrow> (Inl (Await_proto e), True)
          | Inr (resp, _) \<Rightarrow> (Inr resp, False))
     | Timer_first \<Rightarrow> (Inl Await_timeout, True)
     | Context_first \<Rightarrow> (Inl Await_cancelled, True))"

lemma await_response_reset: "snd (await_response cbor_dec rd race) \<longleftrightarrow> \<not> is_ok (fst (await_response cbor_dec rd race))"
  by (simp add: await_response_def split: race.splits sum.splits prod.splits)

subsection \<open>Attaching\<close>

datatype attach_event =
    Stream_resets nat
  | Local_resets
  | Ack_relayed response
  | Joined

datatype attach_error =
    Open_failed string
  | Write_failed proto_error
  | Await_failed await_error
  | Relay_failed string
  | Agent_refused status string
  | Replay_failed io_error

text \<open>What the surroundings contribute: whether the stream opens, what it accepts and delivers, who
  wins the wait, and the relay callback when there is one.\<close>

record attach_env =
  ae_open :: "string option"
  ae_writer :: writer
  ae_reader :: reader
  ae_race :: race
  ae_relay :: "(response \<Rightarrow> string option) option"

definition relay_ack :: "(response \<Rightarrow> string option) option \<Rightarrow> response \<Rightarrow> string option \<times> attach_event list" where
  "relay_ack relay resp =
    (case relay of None \<Rightarrow> (None, []) | Some f \<Rightarrow> (f resp, [Ack_relayed resp]))"

definition attach_with_header ::
  "(header \<Rightarrow> string + bytes) \<Rightarrow> (bytes \<Rightarrow> string + response) \<Rightarrow> attach_env \<Rightarrow> header \<Rightarrow> bytes
     \<Rightarrow> attach_error option \<times> writer \<times> attach_event list"
where
  "attach_with_header cbor_enc cbor_dec env hdr pfx =
    (let tear = [Stream_resets stream_reset_code, Local_resets]; w0 = ae_writer env in
     case ae_open env of
       Some e \<Rightarrow> (Some (Open_failed e), w0, [])
     | None \<Rightarrow>
       (case write_header cbor_enc w0 hdr of
          (Some e, w1) \<Rightarrow> (Some (Write_failed e), w1, tear)
        | (None, w1) \<Rightarrow>
          (case fst (await_response cbor_dec (ae_reader env) (ae_race env)) of
             Inl e \<Rightarrow> (Some (Await_failed e), w1, tear)
           | Inr resp \<Rightarrow>
             (let (err, ack) = relay_ack (ae_relay env) resp in
              case err of
                Some e \<Rightarrow> (Some (Relay_failed e), w1, ack @ tear)
              | None \<Rightarrow>
                if r_status resp \<noteq> status_ok
                then (Some (Agent_refused (r_status resp) (r_msg resp)), w1, ack @ tear)
                else if pfx \<noteq> []
                then (case write_bytes pfx w1 of
                        (Some e, w2) \<Rightarrow> (Some (Replay_failed e), w2, ack @ tear)
                      | (None, w2) \<Rightarrow> (None, w2, ack @ [Joined]))
                else (None, w1, ack @ [Joined])))))"

definition tcp_header :: "string \<Rightarrow> string \<Rightarrow> header" where
  "tcp_header target reqid =
    \<lparr>h_kind = kind_tcp, h_target = target, h_host = [], h_port = 0, h_meta = [''reqid'' \<mapsto> reqid]\<rparr>"

definition http_header :: "string \<Rightarrow> string \<Rightarrow> header" where
  "http_header host reqid =
    \<lparr>h_kind = kind_http, h_target = [], h_host = host, h_port = 0, h_meta = [''reqid'' \<mapsto> reqid]\<rparr>"

definition do_attach ::
  "(header \<Rightarrow> string + bytes) \<Rightarrow> (bytes \<Rightarrow> string + response) \<Rightarrow> attach_env \<Rightarrow> string \<Rightarrow> string
     \<Rightarrow> attach_error option \<times> writer \<times> attach_event list"
where
  "do_attach cbor_enc cbor_dec env target reqid =
    attach_with_header cbor_enc cbor_dec env (tcp_header target reqid) []"

definition do_attach_http ::
  "(header \<Rightarrow> string + bytes) \<Rightarrow> (bytes \<Rightarrow> string + response) \<Rightarrow> attach_env \<Rightarrow> string \<Rightarrow> string \<Rightarrow> bytes
     \<Rightarrow> attach_error option \<times> writer \<times> attach_event list"
where
  "do_attach_http cbor_enc cbor_dec env host reqid pfx =
    attach_with_header cbor_enc cbor_dec env (http_header host reqid) pfx"

lemma attach_cases:
  fixes cbor_enc :: "header \<Rightarrow> string + bytes"
  assumes "attach_with_header cbor_enc cbor_dec env hdr pfx = (err, w, es)"
  obtains
    (not_opened) e where "ae_open env = Some e" "err = Some (Open_failed e)" "w = ae_writer env" "es = []"
  | (not_written) e where "ae_open env = None" "write_header cbor_enc (ae_writer env) hdr = (Some e, w)"
      "err = Some (Write_failed e)" "es = [Stream_resets stream_reset_code, Local_resets]"
  | (no_answer) e where "ae_open env = None" "write_header cbor_enc (ae_writer env) hdr = (None, w)"
      "fst (await_response cbor_dec (ae_reader env) (ae_race env)) = Inl e" "err = Some (Await_failed e)"
      "es = [Stream_resets stream_reset_code, Local_resets]"
  | (given_up) resp ack e where "ae_open env = None" "write_header cbor_enc (ae_writer env) hdr = (None, w)"
      "fst (await_response cbor_dec (ae_reader env) (ae_race env)) = Inr resp"
      "relay_ack (ae_relay env) resp = (e, ack)" "e \<noteq> None \<or> r_status resp \<noteq> status_ok" "err \<noteq> None"
      "es = ack @ [Stream_resets stream_reset_code, Local_resets]"
  | (not_replayed) resp ack e w1 where "ae_open env = None"
      "write_header cbor_enc (ae_writer env) hdr = (None, w1)"
      "fst (await_response cbor_dec (ae_reader env) (ae_race env)) = Inr resp" "r_status resp = status_ok"
      "relay_ack (ae_relay env) resp = (None, ack)" "write_bytes pfx w1 = (Some e, w)"
      "err = Some (Replay_failed e)" "es = ack @ [Stream_resets stream_reset_code, Local_resets]"
  | (attached) resp ack w1 where "ae_open env = None" "write_header cbor_enc (ae_writer env) hdr = (None, w1)"
      "fst (await_response cbor_dec (ae_reader env) (ae_race env)) = Inr resp" "r_status resp = status_ok"
      "relay_ack (ae_relay env) resp = (None, ack)" "write_bytes pfx w1 = (None, w) \<or> pfx = [] \<and> w = w1"
      "err = None" "es = ack @ [Joined]"
  using assms
  by (auto simp: attach_with_header_def Let_def split: option.splits prod.splits sum.splits if_splits)

lemma relay_ack_events: "relay_ack relay resp = (e, ack) \<Longrightarrow> ack = (if relay = None then [] else [Ack_relayed resp])"
  by (auto simp: relay_ack_def split: option.splits)

text \<open>
  An attach either joins the two legs or tears both down: it succeeds exactly when the last event
  is the join; every failure after the stream opened resets the stream once and the local leg once, and
  when the stream could not be opened nothing is touched. The acknowledgement is relayed at most once
  and first. No byte of the client's request is written before an ok response was read: unless that
  happened the stream has carried at most the header frame, and after a success exactly the header
  frame and the client's bytes.
\<close>

theorem attach_all_or_nothing:
  fixes cbor_enc :: "header \<Rightarrow> string + bytes"
  assumes "attach_with_header cbor_enc cbor_dec env hdr pfx = (err, w, es)" and "sent (ae_writer env) = []"
  shows "(err = None \<longleftrightarrow> es \<noteq> [] \<and> last es = Joined) \<and>
    (err \<noteq> None \<longrightarrow> (if ae_open env = None
        then filter (\<lambda>e. case e of Ack_relayed _ \<Rightarrow> False | _ \<Rightarrow> True) es
               = [Stream_resets stream_reset_code, Local_resets]
        else es = [] \<and> sent w = [])) \<and>
    (\<forall>x\<in>set (tl es). \<forall>r. x \<noteq> Ack_relayed r) \<and>
    (err = None \<longrightarrow> (\<exists>p f resp rest. cbor_enc hdr = Inr p \<and> frame_bytes p = Inr f \<and> sent w = f @ pfx \<and>
        read_response cbor_dec (ae_reader env) = Inr (resp, rest) \<and> r_status resp = status_ok)) \<and>
    ((\<nexists>resp rest. read_response cbor_dec (ae_reader env) = Inr (resp, rest) \<and> r_status resp = status_ok) \<longrightarrow>
        sent w = [] \<or> (\<exists>p f. cbor_enc hdr = Inr p \<and> frame_bytes p = Inr f \<and> prefix (sent w) f))"
proof -
  have hdr_bytes: "sent w1 = [] \<or> (\<exists>p f. cbor_enc hdr = Inr p \<and> frame_bytes p = Inr f \<and> prefix (sent w1) f)"
    if "write_header cbor_enc (ae_writer env) hdr = (e, w1)" for e w1
    using that assms(2)
    by (auto simp: write_header_def write_frame_def write_bytes_def take_is_prefix Let_def
        split: sum.splits option.splits if_splits)
  have answer: "\<exists>rest. read_response cbor_dec (ae_reader env) = Inr (resp, rest)"
    if "fst (await_response cbor_dec (ae_reader env) (ae_race env)) = Inr resp" for resp
    using that by (auto simp: await_response_def split: race.splits sum.splits)
  show ?thesis
    using assms(1)
  proof (cases rule: attach_cases)
    case not_opened
    then show ?thesis using assms(2) by simp
  next
    case not_written
    then show ?thesis using hdr_bytes by auto
  next
    case no_answer
    then show ?thesis using hdr_bytes by auto
  next
    case given_up
    then show ?thesis using hdr_bytes [OF given_up(2)] relay_ack_events [OF given_up(4)] by auto
  next
    case not_replayed
    then show ?thesis using answer relay_ack_events [OF not_replayed(5)] by auto
  next
    case (attached resp ack w1)
    have "sent w = sent w1 @ pfx" using attached(6) write_bytes_sent [of pfx w1 w] by auto
    then show ?thesis
      using attached answer [OF attached(3)] relay_ack_events [OF attached(5)] write_header_bytes [OF attached(2)] assms(2)
      by auto
  qed
qed

text \<open>A sample run: the agent answers ok, the acknowledgement is relayed, and two bytes are replayed.\<close>

definition sample_env :: attach_env where
  "sample_env = \<lparr>ae_open = None, ae_writer = \<lparr>sent = [], room = None\<rparr>,
     ae_reader = \<lparr>avail = [CHR 0x01, CHR 0x00, CHR 0x00], fin = EOF\<rparr>, ae_race = Read_first, ae_relay = None\<rparr>"

theorem attach_all_or_nothing_witness:
  "\<exists>w es. attach_with_header (\<lambda>_. Inr []) (\<lambda>_. Inr \<lparr>r_status = status_ok, r_msg = []\<rparr>) sample_env
       (http_header ''a.home'' ''id'') ''hi'' = (None, w, es) \<and> es \<noteq> [] \<and> last es = Joined"
proof -
  let ?run = "attach_with_header (\<lambda>_. Inr []) (\<lambda>_. Inr \<lparr>r_status = status_ok, r_msg = []\<rparr>) sample_env
       (http_header ''a.home'' ''id'') ''hi''"
  have "read_response (\<lambda>_. Inr \<lparr>r_status = status_ok, r_msg = []\<rparr>) (ae_reader sample_env)
      = Inr (\<lparr>r_status = status_ok, r_msg = []\<rparr>, \<lparr>avail = [], fin = EOF\<rparr>)"
    using read_response_framed [OF _ sample_frame, of _ _ "[]" EOF] by (simp add: sample_env_def)
  then have none: "fst ?run = None"
    by (simp add: attach_with_header_def sample_env_def write_header_unbounded [OF _ sample_frame]
        await_response_def relay_ack_def write_bytes_def Let_def)
  obtain w es where run: "?run = (None, w, es)" using none by (cases ?run) auto
  moreover have "sent (ae_writer sample_env) = []" by (simp add: sample_env_def)
  ultimately show ?thesis using attach_all_or_nothing [OF run] by blast
qed

subsection \<open>Both ends of an attach\<close>

text \<open>The responses among the agent's events, and the bytes they are on the wire; \<open>render\<close> is the text
  of a reply.\<close>

fun answers :: "(reply_text \<Rightarrow> string) \<Rightarrow> stream_event list \<Rightarrow> response list" where
  "answers render [] = []"
| "answers render (Responded s t # es) = \<lparr>r_status = s, r_msg = render t\<rparr> # answers render es"
| "answers render (_ # es) = answers render es"

definition response_bytes :: "(response \<Rightarrow> string + bytes) \<Rightarrow> response \<Rightarrow> bytes" where
  "response_bytes cbor_enc x = sent (snd (write_response cbor_enc \<lparr>sent = [], room = None\<rparr> x))"

definition codec_ok :: "('a \<Rightarrow> string + bytes) \<Rightarrow> (bytes \<Rightarrow> string + 'a) \<Rightarrow> 'a \<Rightarrow> bool" where
  "codec_ok enc dec x \<longleftrightarrow> (case enc x of Inl _ \<Rightarrow> False | Inr p \<Rightarrow> dec p = Inr x \<and> length p \<le> max_frame_payload)"

lemma codec_okE:
  assumes "codec_ok enc dec x"
  obtains p f where "enc x = Inr p" "dec p = Inr x" "frame_bytes p = Inr f"
  using assms frame_bytes_ok_iff by (auto simp: codec_ok_def split: sum.splits)

lemma read_response_bytes:
  assumes "codec_ok enc dec x"
  shows "read_response dec \<lparr>avail = response_bytes enc x @ rest, fin = e\<rparr> = Inr (x, \<lparr>avail = rest, fin = e\<rparr>)"
  using assms
  by (elim codec_okE) (simp add: response_bytes_def write_response_unbounded [of enc x _ _ "[]", simplified] read_response_framed)

lemma serve_data_stream:
  assumes "read_header dec rd = Inr (h, rest)" "h_kind h \<noteq> kind_control"
  shows "\<exists>s t. answers render (fst (serve_stream dec net r peer True rd opened)) = [\<lparr>r_status = s, r_msg = render t\<rparr>] \<and>
    (s = status_ok \<longleftrightarrow> Piped \<in> set (fst (serve_stream dec net r peer True rd opened)))"
proof (cases "fst (router_dial net r peer h)")
  case (Inl e)
  then show ?thesis
    using assms by (cases e) (auto simp: serve_stream_def reply_dial_error_def status_defs)
qed (use assms in \<open>auto simp: serve_stream_def\<close>)

lemma agent_reads_header:
  fixes enc :: "header \<Rightarrow> string + bytes"
  assumes "codec_ok enc dec hdr" "good_header hdr"
    and "attach_with_header enc decr \<lparr>ae_open = None, ae_writer = \<lparr>sent = [], room = None\<rparr>, ae_reader = rd,
           ae_race = Read_first, ae_relay = None\<rparr> hdr pfx = (err, w, cs)"
  shows "\<exists>rest. read_header dec \<lparr>avail = sent w, fin = e\<rparr> = Inr (hdr, \<lparr>avail = rest, fin = e\<rparr>) \<and>
    (err = None \<longrightarrow> rest = pfx)"
proof -
  obtain p f where pf: "enc hdr = Inr p" "dec p = Inr hdr" "frame_bytes p = Inr f"
    using assms(1) by (rule codec_okE)
  have "\<exists>x. sent w = f @ x \<and> (err = None \<longrightarrow> x = pfx)"
    using assms(3) write_header_unbounded [of enc hdr p f "[]"] pf
    by (auto simp: attach_with_header_def relay_ack_def write_bytes_def Let_def split: sum.splits if_splits)
  then show ?thesis using read_header_framed [of dec p hdr f _ e, OF pf(2,3) assms(2)] by auto
qed

lemma answer_decides:
  fixes enc :: "header \<Rightarrow> string + bytes"
  assumes "codec_ok enc dec hdr" "read_response decr rd = Inr (x, rest)"
    and "attach_with_header enc decr \<lparr>ae_open = None, ae_writer = \<lparr>sent = [], room = None\<rparr>, ae_reader = rd,
           ae_race = Read_first, ae_relay = None\<rparr> hdr pfx = (err, w, cs)"
  shows "err = (if r_status x = status_ok then None else Some (Agent_refused (r_status x) (r_msg x)))"
proof -
  obtain p f where pf: "enc hdr = Inr p" "frame_bytes p = Inr f" using assms(1) by (rule codec_okE)
  have wh: "write_header enc \<lparr>sent = [], room = None\<rparr> hdr = (None, \<lparr>sent = f, room = None\<rparr>)"
    using write_header_unbounded [of enc hdr p f "[]"] pf by simp
  show ?thesis
    using assms(2,3) wh
    by (auto simp: attach_with_header_def await_response_def relay_ack_def write_bytes_def Let_def split: if_splits)
qed

text \<open>
  C18: The two ends agree. When the header is a valid data header, both messages fit a frame and the
  codec reads back what it wrote, a client that opens its stream to an agent and reads what the agent
  answers joins the legs exactly when the agent joins the stream to the service; otherwise it fails with
  the status the agent sent. The agent reads exactly the header the client meant, and behind it exactly
  the client's own bytes.
\<close>

theorem attach_meets_agent:
  fixes enc :: "header \<Rightarrow> string + bytes" and encr :: "response \<Rightarrow> string + bytes"
  assumes "codec_ok enc dec hdr" "good_header hdr" "h_kind hdr \<noteq> kind_control"
    and "es = fst (serve_stream dec net r peer True \<lparr>avail = sent w, fin = e\<rparr> opened)"
    and "\<forall>x\<in>set (answers render es). codec_ok encr decr x"
    and "attach_with_header enc decr \<lparr>ae_open = None, ae_writer = \<lparr>sent = [], room = None\<rparr>,
           ae_reader = \<lparr>avail = concat (map (response_bytes encr) (answers render es)), fin = e'\<rparr>,
           ae_race = Read_first, ae_relay = None\<rparr> hdr pfx = (err, w, cs)"
  shows "(err = None \<longleftrightarrow> Piped \<in> set es) \<and>
    (err \<noteq> None \<longrightarrow> (\<exists>x. answers render es = [x] \<and> err = Some (Agent_refused (r_status x) (r_msg x)))) \<and>
    (\<exists>rest. read_header dec \<lparr>avail = sent w, fin = e\<rparr> = Inr (hdr, \<lparr>avail = rest, fin = e\<rparr>) \<and>
       (err = None \<longrightarrow> rest = pfx))"
proof -
  obtain rest where rd: "read_header dec \<lparr>avail = sent w, fin = e\<rparr> = Inr (hdr, \<lparr>avail = rest, fin = e\<rparr>)"
      "err = None \<longrightarrow> rest = pfx"
    using agent_reads_header [OF assms(1,2,6)] by blast
  obtain s t where s: "answers render es = [\<lparr>r_status = s, r_msg = render t\<rparr>]" "s = status_ok \<longleftrightarrow> Piped \<in> set es"
    using serve_data_stream [OF rd(1) assms(3)] assms(4) by metis
  let ?x = "\<lparr>r_status = s, r_msg = render t\<rparr>"
  have "read_response decr \<lparr>avail = concat (map (response_bytes encr) (answers render es)), fin = e'\<rparr>
      = Inr (?x, \<lparr>avail = [], fin = e'\<rparr>)"
    using read_response_bytes [of encr decr ?x "[]" e'] assms(5) s(1) by simp
  then have "err = (if s = status_ok then None else Some (Agent_refused s (render t)))"
    using answer_decides [OF assms(1) _ assms(6)] by fastforce
  then show ?thesis using rd s by auto
qed

theorem attach_meets_agent_witness:
  "\<exists>err w cs. attach_with_header (\<lambda>_. Inr []) (\<lambda>_. Inr \<lparr>r_status = status_unknown_target, r_msg = []\<rparr>)
      \<lparr>ae_open = None, ae_writer = \<lparr>sent = [], room = None\<rparr>,
       ae_reader = \<lparr>avail = response_bytes (\<lambda>_. Inr []) \<lparr>r_status = status_unknown_target, r_msg = []\<rparr>, fin = EOF\<rparr>,
       ae_race = Read_first, ae_relay = None\<rparr> (tcp_header ''db'' []) ''hi'' = (err, w, cs) \<and>
     err = Some (Agent_refused status_unknown_target [])"
proof -
  let ?r = "\<lparr>ro_routes = Map.empty, ro_vhosts = None, ro_policy = (\<lambda>_ _. None)\<rparr>"
  let ?h = "tcp_header ''db'' []" and ?x = "\<lparr>r_status = status_unknown_target, r_msg = []\<rparr>"
  let ?es = "fst (serve_stream (\<lambda>_. Inr ?h) (\<lambda>_. Inl [] :: string + unit) ?r \<lparr>id_pin = ''p''\<rparr> True
      \<lparr>avail = [CHR 0x01, CHR 0x00, CHR 0x00], fin = EOF\<rparr> False)"
  have g: "good_header ?h" by (simp add: good_header_def tcp_header_def)
  have rd: "read_header (\<lambda>_. Inr ?h) \<lparr>avail = [CHR 0x01, CHR 0x00, CHR 0x00], fin = EOF\<rparr>
      = Inr (?h, \<lparr>avail = [], fin = EOF\<rparr>)"
    using read_header_framed [of "\<lambda>_. Inr ?h" "[]" ?h "[CHR 0x01, CHR 0x00, CHR 0x00]" "[]" EOF] sample_frame g
    by simp
  have es: "?es = [Responded status_unknown_target (No_target ''db''), Stream_closed]"
    by (simp add: serve_stream_def rd router_dial_def router_resolve_def reply_dial_error_def
        unknown_target_text_def) (simp add: tcp_header_def)
  let ?env = "\<lparr>ae_open = None, ae_writer = \<lparr>sent = [], room = None\<rparr>,
       ae_reader = \<lparr>avail = response_bytes (\<lambda>_. Inr []) ?x, fin = EOF\<rparr>,
       ae_race = Read_first, ae_relay = None\<rparr>"
  have co: "codec_ok (\<lambda>_. Inr []) (\<lambda>_. Inr a) a" for a :: 'a
    by (simp add: codec_ok_def)
  have rr: "read_response (\<lambda>_. Inr ?x) (ae_reader ?env) = Inr (?x, \<lparr>avail = [], fin = EOF\<rparr>)"
    using read_response_bytes [OF co, of ?x "[]" EOF] by simp
  let ?w = "\<lparr>sent = [CHR 0x01, CHR 0x00, CHR 0x00], room = None\<rparr>"
  have wh: "write_header (\<lambda>_. Inr []) \<lparr>sent = [], room = None\<rparr> ?h = (None, ?w)"
    using write_header_unbounded [of "\<lambda>_. Inr []" ?h "[]" _ "[]"] sample_frame by simp
  have ne: "status_unknown_target \<noteq> status_ok" by (simp add: status_defs)
  obtain err cs where run: "attach_with_header (\<lambda>_. Inr []) (\<lambda>_. Inr ?x) ?env ?h ''hi'' = (err, ?w, cs)"
    using rr wh ne by (simp add: attach_with_header_def await_response_def relay_ack_def Let_def)
  have one: "answers (\<lambda>_. []) ?es = [?x]" by (simp add: es)
  have "Piped \<notin> set ?es" unfolding es by simp
  moreover have "h_kind ?h \<noteq> kind_control" by (simp add: tcp_header_def)
  ultimately show ?thesis
    using attach_meets_agent [where hdr = ?h and enc = "\<lambda>_. Inr []" and dec = "\<lambda>_. Inr ?h" and w = ?w and es = ?es
        and net = "\<lambda>_. Inl [] :: string + unit" and r = ?r and peer = "\<lparr>id_pin = ''p''\<rparr>" and e = EOF and opened = False
        and render = "\<lambda>_. []" and encr = "\<lambda>_. Inr []" and decr = "\<lambda>_. Inr ?x" and e' = EOF and pfx = "''hi''"
        and err = err and cs = cs] co g run one by (auto simp: co)
qed

subsection \<open>The splice\<close>

text \<open>A leg is a TCP connection, a stream, or something else that may or may not offer a half-close.\<close>

datatype leg_kind = Tcp_leg | Stream_leg | Other_leg bool

datatype leg_op = Close_write | Close_whole | Linger_zero | Reset_code nat

definition close_write :: "leg_kind \<Rightarrow> leg_op list" where
  "close_write k = (case k of Tcp_leg \<Rightarrow> [Close_write] | Stream_leg \<Rightarrow> [Close_whole]
     | Other_leg half \<Rightarrow> if half then [Close_write] else [Close_whole])"

definition reset_conn :: "leg_kind \<Rightarrow> leg_op list" where
  "reset_conn k = (case k of Tcp_leg \<Rightarrow> [Linger_zero, Close_whole] | Stream_leg \<Rightarrow> [Reset_code stream_reset_code]
     | Other_leg _ \<Rightarrow> [Close_whole])"

datatype copying = Copying | Clean_end | Failed_end

text \<open>One \<^verbatim>\<open>io.Copy\<close>: what its source will still deliver before EOF, and what went to its sink.\<close>

record copier =
  cp_pending :: bytes
  cp_passed :: bytes
  cp_state :: copying

definition end_ops :: "leg_kind \<Rightarrow> copying \<Rightarrow> leg_op list" where
  "end_ops sink c = (case c of Copying \<Rightarrow> [] | Clean_end \<Rightarrow> close_write sink | Failed_end \<Rightarrow> reset_conn sink)"

inductive copy_step :: "copier \<Rightarrow> copier \<Rightarrow> bool" where
  passes: "cp_state c = Copying \<Longrightarrow> cp_pending c = xs @ ys \<Longrightarrow> xs \<noteq> [] \<Longrightarrow>
    copy_step c \<lparr>cp_pending = ys, cp_passed = cp_passed c @ xs, cp_state = Copying\<rparr>"
| ends: "cp_state c = Copying \<Longrightarrow> cp_pending c = [] \<Longrightarrow> copy_step c (c\<lparr>cp_state := Clean_end\<rparr>)"
| fails: "cp_state c = Copying \<Longrightarrow> cp_pending c = xs @ ys \<Longrightarrow>
    copy_step c \<lparr>cp_pending = ys, cp_passed = cp_passed c @ xs, cp_state = Failed_end\<rparr>"

inductive_cases copy_stepE: "copy_step c c'"

record splice =
  sp_ab :: copier
  sp_ba :: copier
  sp_ops_a :: "leg_op list"
  sp_ops_b :: "leg_op list"
  sp_released :: bool

definition new_splice :: "bytes \<Rightarrow> bytes \<Rightarrow> splice" where
  "new_splice from_a from_b =
    \<lparr>sp_ab = \<lparr>cp_pending = from_a, cp_passed = [], cp_state = Copying\<rparr>,
     sp_ba = \<lparr>cp_pending = from_b, cp_passed = [], cp_state = Copying\<rparr>,
     sp_ops_a = [], sp_ops_b = [], sp_released = False\<rparr>"

inductive pipe_step :: "leg_kind \<Rightarrow> leg_kind \<Rightarrow> splice \<Rightarrow> splice \<Rightarrow> bool" for ka kb where
  a_to_b: "copy_step (sp_ab s) c \<Longrightarrow> pipe_step ka kb s
    (s\<lparr>sp_ab := c, sp_ops_b := sp_ops_b s @ end_ops kb (cp_state c)\<rparr>)"
| b_to_a: "copy_step (sp_ba s) c \<Longrightarrow> pipe_step ka kb s
    (s\<lparr>sp_ba := c, sp_ops_a := sp_ops_a s @ end_ops ka (cp_state c)\<rparr>)"
| release: "cp_state (sp_ab s) \<noteq> Copying \<Longrightarrow> cp_state (sp_ba s) \<noteq> Copying \<Longrightarrow> \<not> sp_released s \<Longrightarrow>
    pipe_step ka kb s (s\<lparr>sp_ops_a := sp_ops_a s @ [Close_whole], sp_ops_b := sp_ops_b s @ [Close_whole],
      sp_released := True\<rparr>)"

inductive_cases pipe_stepE: "pipe_step ka kb s s'"
inductive_simps copy_step_ended: "copy_step \<lparr>cp_pending = p, cp_passed = q, cp_state = Clean_end\<rparr> c'"

definition copier_ok :: "bytes \<Rightarrow> copier \<Rightarrow> bool" where
  "copier_ok input c \<longleftrightarrow> cp_passed c @ cp_pending c = input \<and> (cp_state c = Clean_end \<longrightarrow> cp_pending c = [])"

definition splice_ok :: "leg_kind \<Rightarrow> leg_kind \<Rightarrow> bytes \<Rightarrow> bytes \<Rightarrow> splice \<Rightarrow> bool" where
  "splice_ok ka kb from_a from_b s \<longleftrightarrow> copier_ok from_a (sp_ab s) \<and> copier_ok from_b (sp_ba s) \<and>
    (sp_released s \<longrightarrow> cp_state (sp_ab s) \<noteq> Copying \<and> cp_state (sp_ba s) \<noteq> Copying) \<and>
    sp_ops_a s = end_ops ka (cp_state (sp_ba s)) @ (if sp_released s then [Close_whole] else []) \<and>
    sp_ops_b s = end_ops kb (cp_state (sp_ab s)) @ (if sp_released s then [Close_whole] else [])"

lemma copy_step_ok [inv_intros]: "copy_step c c' \<Longrightarrow> copier_ok i c \<Longrightarrow> copier_ok i c'"
  by (erule copy_stepE) (auto simp: copier_ok_def)

lemma copy_step_state: "copy_step c c' \<Longrightarrow> cp_state c = Copying"
  by (erule copy_stepE)

lemma pipe_step_ok [inv_intros]: "pipe_step ka kb s s' \<Longrightarrow> splice_ok ka kb fa fb s \<Longrightarrow> splice_ok ka kb fa fb s'"
  by (erule pipe_stepE) (auto simp: splice_ok_def end_ops_def copy_step_ok dest: copy_step_state)

lemma new_splice_ok: "splice_ok ka kb fa fb (new_splice fa fb)"
  by (simp add: splice_ok_def new_splice_def copier_ok_def end_ops_def)

lemma reachable_splice_ok: "(pipe_step ka kb)\<^sup>*\<^sup>* (new_splice fa fb) s \<Longrightarrow> splice_ok ka kb fa fb s"
  by (induction rule: rtranclp_induct) (auto intro: new_splice_ok pipe_step_ok)

text \<open>Every step uses up something: the splice cannot run for ever.\<close>

definition copier_left :: "copier \<Rightarrow> nat" where
  "copier_left c = length (cp_pending c) + (if cp_state c = Copying then 1 else 0)"

definition splice_left :: "splice \<Rightarrow> nat" where
  "splice_left s = copier_left (sp_ab s) + copier_left (sp_ba s) + (if sp_released s then 0 else 1)"

lemma copy_step_left: "copy_step c c' \<Longrightarrow> copier_left c' < copier_left c"
  by (erule copy_stepE) (auto simp: copier_left_def)

lemma pipe_step_left: "pipe_step ka kb s s' \<Longrightarrow> splice_left s' < splice_left s"
  by (erule pipe_stepE) (auto simp: splice_left_def dest: copy_step_left)

lemma copy_can_step: "cp_state c = Copying \<Longrightarrow> \<exists>c'. copy_step c c' \<and> cp_state c' \<noteq> Failed_end"
proof (cases "cp_pending c")
  case Nil
  assume "cp_state c = Copying"
  then show ?thesis using Nil copy_step.ends [of c] by (intro exI [of _ "c\<lparr>cp_state := Clean_end\<rparr>"]) simp
next
  case (Cons x xs)
  assume "cp_state c = Copying"
  then show ?thesis using Cons copy_step.passes [of c "x # xs" "[]"] by fastforce
qed

lemma pipe_can_step: "\<not> sp_released s \<Longrightarrow> \<exists>s'. pipe_step ka kb s s'"
  using copy_can_step [of "sp_ab s"] copy_can_step [of "sp_ba s"] pipe_step.intros by meson

lemma finishes: "\<exists>s'. (pipe_step ka kb)\<^sup>*\<^sup>* s s' \<and> sp_released s'"
proof (induction "splice_left s" arbitrary: s rule: less_induct)
  case less
  show ?case
  proof (cases "sp_released s")
    case False
    then obtain s1 where s1: "pipe_step ka kb s s1" using pipe_can_step by blast
    then show ?thesis
      using less [OF pipe_step_left [OF s1]] by (meson converse_rtranclp_into_rtranclp)
  qed auto
qed

text \<open>
  C19: The splice keeps half-closes half-closes. Over any interleaving of its two copies, what a leg was
  sent is a prefix of what the other leg produced, in order; a leg is touched only by its own
  direction's end, with a half-close exactly when everything the other leg produced was delivered and
  with a reset exactly when that copy failed, while the other direction goes on; both legs are closed
  only after both directions ended. No run is stuck before that or goes on for ever.
\<close>

theorem splice_preserves_half_close:
  assumes "(pipe_step ka kb)\<^sup>*\<^sup>* (new_splice from_a from_b) s"
  shows "prefix (cp_passed (sp_ab s)) from_a \<and> prefix (cp_passed (sp_ba s)) from_b \<and>
    (cp_state (sp_ab s) = Clean_end \<longrightarrow> cp_passed (sp_ab s) = from_a) \<and>
    (cp_state (sp_ba s) = Clean_end \<longrightarrow> cp_passed (sp_ba s) = from_b) \<and>
    (cp_state (sp_ab s) = Copying \<longrightarrow> sp_ops_b s = []) \<and> (cp_state (sp_ba s) = Copying \<longrightarrow> sp_ops_a s = []) \<and>
    sp_ops_b s = end_ops kb (cp_state (sp_ab s)) @ (if sp_released s then [Close_whole] else []) \<and>
    sp_ops_a s = end_ops ka (cp_state (sp_ba s)) @ (if sp_released s then [Close_whole] else []) \<and>
    (sp_released s \<longleftrightarrow> (\<nexists>s'. pipe_step ka kb s s')) \<and>
    (\<exists>s'. (pipe_step ka kb)\<^sup>*\<^sup>* s s' \<and> sp_released s') \<and>
    (\<forall>s'. pipe_step ka kb s s' \<longrightarrow> splice_left s' < splice_left s)"
proof -
  have ok: "splice_ok ka kb from_a from_b s" using assms by (rule reachable_splice_ok)
  have "\<not> pipe_step ka kb s s'" if "sp_released s" for s'
    using that ok by (auto simp: splice_ok_def elim!: pipe_stepE dest: copy_step_state)
  then show ?thesis
    using ok pipe_can_step [of s ka kb] finishes [of ka kb s] pipe_step_left
    by (auto simp: splice_ok_def copier_ok_def end_ops_def)
qed

theorem splice_preserves_half_close_witness:
  "\<exists>s. (pipe_step Tcp_leg Stream_leg)\<^sup>*\<^sup>* (new_splice ''hi'' []) s \<and> cp_passed (sp_ab s) = ''hi'' \<and>
     sp_ops_b s = [Close_whole] \<and> sp_ops_a s = []"
proof -
  let ?s0 = "new_splice ''hi'' []"
  let ?c1 = "\<lparr>cp_pending = [], cp_passed = ''hi'', cp_state = Copying\<rparr>"
  let ?s1 = "?s0\<lparr>sp_ab := ?c1\<rparr>"
  let ?s2 = "?s1\<lparr>sp_ab := ?c1\<lparr>cp_state := Clean_end\<rparr>, sp_ops_b := [Close_whole]\<rparr>"
  have "copy_step (sp_ab ?s0) ?c1" using copy_step.passes [of "sp_ab ?s0" "''hi''" "[]"] by (simp add: new_splice_def)
  then have 1: "pipe_step Tcp_leg Stream_leg ?s0 ?s1"
    using pipe_step.a_to_b [of ?s0 ?c1 Tcp_leg Stream_leg] by (simp add: new_splice_def end_ops_def)
  have "copy_step (sp_ab ?s1) (?c1\<lparr>cp_state := Clean_end\<rparr>)" using copy_step.ends [of ?c1] by (simp add: new_splice_def)
  then have 2: "pipe_step Tcp_leg Stream_leg ?s1 ?s2"
    using pipe_step.a_to_b [of ?s1 "?c1\<lparr>cp_state := Clean_end\<rparr>" Tcp_leg Stream_leg]
    by (simp add: new_splice_def end_ops_def close_write_def)
  have r: "(pipe_step Tcp_leg Stream_leg)\<^sup>*\<^sup>* ?s0 ?s2" using 1 2 by (rule converse_rtranclp_into_rtranclp [OF _ r_into_rtranclp])
  then show ?thesis using splice_preserves_half_close [OF r] by (intro exI [of _ ?s2]) (simp add: new_splice_def)
qed

end
