(* ===== verification/Backoff.thy ===== *)
theory Backoff
  imports Complex_Main Prelude
begin

text \<open>
  Package \<^verbatim>\<open>internal/backoff\<close>: the reconnect schedule both sides of a tunnel share.

  Durations are integers of nanoseconds. The schedule is computed in the source with floating-point
  numbers; here with rationals, so the rounding of a product is not modelled. The jitter draw, a
  fraction from 0 up to but not including 1, is an argument.
\<close>

record exponential =
  ex_base :: int
  ex_factor :: rat
  ex_cap :: int
  ex_stable_for :: int

text \<open>The policy interface: the wait before attempt \<open>n\<close>, and the uptime that counts as stable.\<close>

record backoff_policy =
  bp_backoff :: "int \<Rightarrow> int"
  bp_stable_after :: int

definition ceiling_of :: "exponential \<Rightarrow> int \<Rightarrow> rat" where
  "ceiling_of p n =
    (let n' = (if n < 0 then 0 else n); c = of_int (ex_base p) * ex_factor p ^ nat n'
     in if of_int (ex_cap p) < c then of_int (ex_cap p) else c)"

text \<open>The conversion to a duration truncates towards zero.\<close>

definition truncate_rat :: "rat \<Rightarrow> int" where
  "truncate_rat x = (if x < 0 then \<lceil>x\<rceil> else \<lfloor>x\<rfloor>)"

definition exp_backoff :: "exponential \<Rightarrow> rat \<Rightarrow> int \<Rightarrow> int" where
  "exp_backoff p draw n = truncate_rat (draw * ceiling_of p n)"

definition exp_policy :: "exponential \<Rightarrow> (int \<Rightarrow> rat) \<Rightarrow> backoff_policy" where
  "exp_policy p draws = \<lparr>bp_backoff = (\<lambda>n. exp_backoff p (draws n) n), bp_stable_after = ex_stable_for p\<rparr>"

definition millisecond :: int where "millisecond = 1000000"
definition second :: int where "second = 1000 * millisecond"

definition default_exponential :: exponential where
  "default_exponential = \<lparr>ex_base = 250 * millisecond, ex_factor = 2, ex_cap = 15 * second, ex_stable_for = 60 * second\<rparr>"

subsection \<open>The schedule\<close>

definition sane_schedule :: "exponential \<Rightarrow> bool" where
  "sane_schedule p \<longleftrightarrow> 0 \<le> ex_base p \<and> 1 \<le> ex_factor p \<and> 0 \<le> ex_cap p"

lemma ceiling_of_min:
  "ceiling_of p n = min (of_int (ex_cap p)) (of_int (ex_base p) * ex_factor p ^ nat n)"
  by (simp add: ceiling_of_def Let_def min_def)

lemma ceiling_nonneg: "sane_schedule p \<Longrightarrow> 0 \<le> ceiling_of p n"
  by (simp add: ceiling_of_min sane_schedule_def)

lemma ceiling_cap: "ceiling_of p n \<le> of_int (ex_cap p)"
  by (simp add: ceiling_of_min)

lemma ceiling_mono:
  assumes "sane_schedule p" "m \<le> n"
  shows "ceiling_of p m \<le> ceiling_of p n"
proof -
  have "ex_factor p ^ nat m \<le> ex_factor p ^ nat n"
    using assms by (intro power_increasing nat_mono) (simp_all add: sane_schedule_def)
  then have "of_int (ex_base p) * ex_factor p ^ nat m \<le> of_int (ex_base p) * ex_factor p ^ nat n"
    using assms(1) by (intro mult_left_mono) (simp_all add: sane_schedule_def)
  then show ?thesis by (simp add: ceiling_of_min min_def)
qed

lemma draw_between:
  assumes "0 \<le> d" "d \<le> 1" "0 \<le> c"
  shows "0 \<le> truncate_rat (d * c) \<and> of_int (truncate_rat (d * c)) \<le> (c :: rat)"
proof -
  have "0 \<le> d * c" "d * c \<le> c"
    using assms by (simp_all add: mult_left_le_one_le)
  then show ?thesis by (simp add: truncate_rat_def) (meson of_int_floor_le order_trans)
qed

text \<open>
  Every wait of the reconnect schedule is between zero and its attempt's ceiling, the ceiling never
  decreases and never exceeds the cap, a negative attempt counts as the first, and the default schedule
  starts at 250 ms, doubles, and stays at 15 s from the sixth retry on, however long the outage.
\<close>

theorem backoff_bounded:
  assumes "sane_schedule p" "0 \<le> d" "d \<le> 1"
  shows "0 \<le> exp_backoff p d n \<and> of_int (exp_backoff p d n) \<le> ceiling_of p n \<and> exp_backoff p d n \<le> ex_cap p \<and>
    (\<forall>m \<le> n. ceiling_of p m \<le> ceiling_of p n) \<and>
    (n \<le> 0 \<longrightarrow> exp_backoff p d n = exp_backoff p d 0) \<and>
    ceiling_of default_exponential 0 = 250000000 \<and> ceiling_of default_exponential 1 = 500000000 \<and>
    (6 \<le> n \<longrightarrow> ceiling_of default_exponential n = 15000000000)"
proof -
  have b: "0 \<le> exp_backoff p d n \<and> of_int (exp_backoff p d n) \<le> ceiling_of p n"
    unfolding exp_backoff_def using assms ceiling_nonneg [OF assms(1)] by (intro draw_between)
  then have "exp_backoff p d n \<le> ex_cap p"
    using ceiling_cap [of p n] by (meson of_int_le_iff order_trans)
  moreover have "ceiling_of default_exponential n = 15000000000" if "6 \<le> n"
  proof -
    have s: "sane_schedule default_exponential"
      by (simp add: sane_schedule_def default_exponential_def second_def millisecond_def)
    have "ceiling_of default_exponential 6 = 15000000000"
      by (simp add: ceiling_of_def default_exponential_def second_def millisecond_def)
    then show ?thesis
      using ceiling_mono [OF s that] ceiling_cap [of default_exponential n]
      by (simp add: default_exponential_def second_def millisecond_def)
  qed
  moreover have "n \<le> 0 \<Longrightarrow> exp_backoff p d n = exp_backoff p d 0"
    by (simp add: exp_backoff_def ceiling_of_def)
  moreover have "\<forall>m \<le> n. ceiling_of p m \<le> ceiling_of p n"
    using ceiling_mono [OF assms(1)] by blast
  ultimately show ?thesis
    using b by (simp add: ceiling_of_def default_exponential_def second_def millisecond_def)
qed

theorem backoff_bounded_witness:
  "0 \<le> exp_backoff default_exponential (1 / 2) 9 \<and> exp_backoff default_exponential (1 / 2) 9 \<le> 15000000000"
  using backoff_bounded [of default_exponential "1 / 2" 9]
  by (simp add: sane_schedule_def default_exponential_def second_def millisecond_def)

end
