(* ===== verification/Dial_Loop.thy ===== *)
theory Dial_Loop
  imports Transport Backoff
begin

text \<open>
  Package \<^verbatim>\<open>internal/tunnel\<close>, \<^verbatim>\<open>dial.go\<close>: the agent's loop when it is the side that connects out.

  One turn of the loop meets the world in the values of an \<open>attempt\<close>: whether the context is found
  ended at the three places the loop looks, what dialling gives, and, when it connected, how long the
  session lasted and why it ended. \<open>dial_and_serve\<close> runs the loop over such attempts, so a finite
  script stands for any run up to its length; a script that runs out leaves the loop going.
\<close>

definition both_dial_hint_after :: nat where "both_dial_hint_after = 20"

record attempt =
  at_top :: bool
  at_dial :: "conn_error + int \<times> conn_error option"
  at_after :: bool
  at_waiting :: bool

datatype loop_event = Waits int | Hints | Serves

datatype loop_result = Gave_up conn_error | Context_ended | Going int nat

definition auth_cause :: "conn_error option \<Rightarrow> bool" where
  "auth_cause c = (case c of None \<Rightarrow> False | Some e \<Rightarrow> is_auth_failed e)"

definition role_cause :: "conn_error option \<Rightarrow> bool" where
  "role_cause c = (case c of None \<Rightarrow> False | Some e \<Rightarrow> is_role_mismatch e)"

fun dial_and_serve ::
  "backoff_policy \<Rightarrow> attempt list \<Rightarrow> int \<Rightarrow> nat \<Rightarrow> loop_event list \<times> loop_result"
where
  "dial_and_serve pol [] attempt fails = ([], Going attempt fails)"
| "dial_and_serve pol (a # as) attempt fails =
    (if at_top a then ([], Context_ended)
     else (case at_dial a of
       Inl err \<Rightarrow>
         if at_after a then ([], Context_ended)
         else if is_auth_failed err then ([], Gave_up err)
         else if is_role_mismatch err then ([], Gave_up err)
         else (let fails' = Suc fails; d = bp_backoff pol attempt; attempt' = attempt + 1;
                   es = (if fails' = both_dial_hint_after then [Hints] else []) @ [Waits d]
           in if at_waiting a then (es, Context_ended)
              else (let (es', r) = dial_and_serve pol as attempt' fails' in (es @ es', r)))
     | Inr (uptime, cause) \<Rightarrow>
         (if at_after a then ([Serves], Context_ended)
          else if auth_cause cause then ([Serves], Gave_up (the cause))
          else if role_cause cause then ([Serves], Gave_up (the cause))
          else (let attempt0 = 0;
                    attempt1 = (if bp_stable_after pol < uptime then 0 else attempt0);
                    d = bp_backoff pol attempt1; attempt' = attempt1 + 1; es = [Serves, Waits d]
            in if at_waiting a then (es, Context_ended)
               else (let (es', r) = dial_and_serve pol as attempt' 0 in (es @ es', r))))))"

subsection \<open>Properties\<close>

text \<open>The verdict of one turn that no retry can change.\<close>

definition terminal_of :: "attempt \<Rightarrow> conn_error option" where
  "terminal_of a =
    (case at_dial a of
       Inl e \<Rightarrow> if is_auth_failed e \<or> is_role_mismatch e then Some e else None
     | Inr (_, cause) \<Rightarrow> if auth_cause cause \<or> role_cause cause then cause else None)"

definition ctx_ends :: "attempt \<Rightarrow> bool" where
  "ctx_ends a \<longleftrightarrow> at_top a \<or> at_after a \<or> at_waiting a"

lemma one_turn:
  "dial_and_serve pol (a # as) n f =
    (if at_top a then ([], Context_ended)
     else if at_after a then (if is_ok (at_dial a) then [Serves] else [], Context_ended)
     else (case terminal_of a of
        Some e \<Rightarrow> (if is_ok (at_dial a) then [Serves] else [], Gave_up e)
      | None \<Rightarrow>
         let n0 = (if is_ok (at_dial a) then 0 else n); f' = (if is_ok (at_dial a) then 0 else Suc f);
             es = (if is_ok (at_dial a) then [Serves] else if f' = both_dial_hint_after then [Hints] else [])
                    @ [Waits (bp_backoff pol n0)]
         in if at_waiting a then (es, Context_ended)
            else (es @ fst (dial_and_serve pol as (n0 + 1) f'), snd (dial_and_serve pol as (n0 + 1) f'))))"
  by (auto simp: terminal_of_def auth_cause_def role_cause_def Let_def split_def split: sum.splits prod.splits option.splits)

declare dial_and_serve.simps(2) [simp del]

lemma script_prefix:
  assumes "\<forall>a\<in>set as. \<not> ctx_ends a \<and> terminal_of a = None"
  shows "snd (dial_and_serve pol (as @ bs) n f) =
    (case snd (dial_and_serve pol as n f) of Going n' f' \<Rightarrow> snd (dial_and_serve pol bs n' f') | r \<Rightarrow> r) \<and>
    (\<exists>n' f'. snd (dial_and_serve pol as n f) = Going n' f')"
  using assms by (induction as arbitrary: n f) (auto simp: one_turn ctx_ends_def Let_def)

text \<open>
  C40: The loop gives up exactly on what retrying cannot change. As long as the context lives it stops
  at the first attempt whose dial error or close cause is a rejection of our identity or a shared
  identity, with that error, and at no other; every other failure, however many, is followed by a wait
  and another attempt.
\<close>

theorem gives_up_only_when_hopeless:
  assumes "\<forall>a\<in>set as. \<not> ctx_ends a"
  shows "(snd (dial_and_serve pol as n f) = Gave_up e \<longleftrightarrow>
      (\<exists>a. find (\<lambda>a. terminal_of a \<noteq> None) as = Some a \<and> terminal_of a = Some e)) \<and>
    ((\<exists>n' f'. snd (dial_and_serve pol as n f) = Going n' f') \<longleftrightarrow> (\<forall>a\<in>set as. terminal_of a = None)) \<and>
    snd (dial_and_serve pol as n f) \<noteq> Context_ended"
  using assms
proof (induction as arbitrary: n f)
  case Nil
  then show ?case by simp
next
  case (Cons a as)
  have ctx: "\<not> at_top a" "\<not> at_after a" "\<not> at_waiting a" and rest: "\<forall>a\<in>set as. \<not> ctx_ends a"
    using Cons.prems by (auto simp: ctx_ends_def)
  show ?case
    using ctx Cons.IH [OF rest] by (cases "terminal_of a") (simp_all add: one_turn Let_def)
qed

theorem gives_up_only_when_hopeless_witness:
  "snd (dial_and_serve (exp_policy default_exponential (\<lambda>_. 0))
     [\<lparr>at_top = False, at_dial = Inl (Go_error Unreachable []), at_after = False, at_waiting = False\<rparr>,
      \<lparr>at_top = False, at_dial = Inl (Go_error Auth_failed []), at_after = False, at_waiting = False\<rparr>] 0 0)
     = Gave_up (Go_error Auth_failed [])"
proof -
  let ?a = "\<lparr>at_top = False, at_dial = Inl (Go_error Unreachable []), at_after = False, at_waiting = False\<rparr>"
  let ?b = "\<lparr>at_top = False, at_dial = Inl (Go_error Auth_failed []), at_after = False, at_waiting = False\<rparr>"
  have "terminal_of ?a = None"
    by (simp add: terminal_of_def is_auth_failed_def is_role_mismatch_def is_error_def is_tls_auth_alert_def
        find_as_def transport_code_def app_close_code_def close_coder_def application_code_def)
  moreover have "terminal_of ?b = Some (Go_error Auth_failed [])"
    by (simp add: terminal_of_def is_auth_failed_def is_error_def)
  ultimately show ?thesis
    using gives_up_only_when_hopeless [of "[?a, ?b]" "exp_policy default_exponential (\<lambda>_. 0)" 0 0 "Go_error Auth_failed []"]
    by (simp add: ctx_ends_def)
qed

text \<open>
  The waits follow the schedule from its start after every connection: in a run of failed dials the
  \<open>k\<close>-th wait is the schedule's \<open>k\<close>-th, the operator's hint is raised exactly at the twentieth
  consecutive failure, and a session that ends is followed by the schedule's first wait, whatever came
  before and however long the session lasted: the stability threshold never changes anything.
\<close>

theorem reconnect_follows_schedule:
  assumes "\<forall>a\<in>set as. \<not> ctx_ends a \<and> terminal_of a = None \<and> \<not> is_ok (at_dial a)"
  shows "filter (\<lambda>e. e \<noteq> Hints) (fst (dial_and_serve pol as n f))
        = map (\<lambda>k. Waits (bp_backoff pol (n + int k))) [0..<length as] \<and>
    snd (dial_and_serve pol as n f) = Going (n + int (length as)) (f + length as) \<and>
    (Hints \<in> set (fst (dial_and_serve pol as n f)) \<longleftrightarrow> f < both_dial_hint_after \<and> both_dial_hint_after \<le> f + length as) \<and>
    (\<forall>u c bs. terminal_of \<lparr>at_top = False, at_dial = Inr (u, c), at_after = False, at_waiting = False\<rparr> = None \<longrightarrow>
       dial_and_serve pol (\<lparr>at_top = False, at_dial = Inr (u, c), at_after = False, at_waiting = False\<rparr> # bs) n f
         = (Serves # Waits (bp_backoff pol 0) # fst (dial_and_serve pol bs 1 0), snd (dial_and_serve pol bs 1 0))) \<and>
    (\<forall>bs s. dial_and_serve (pol\<lparr>bp_stable_after := s\<rparr>) bs n f = dial_and_serve pol bs n f)"
proof -
  have served: "terminal_of \<lparr>at_top = False, at_dial = Inr (u, c), at_after = False, at_waiting = False\<rparr> = None \<Longrightarrow>
       dial_and_serve pol (\<lparr>at_top = False, at_dial = Inr (u, c), at_after = False, at_waiting = False\<rparr> # bs) n f
         = (Serves # Waits (bp_backoff pol 0) # fst (dial_and_serve pol bs 1 0), snd (dial_and_serve pol bs 1 0))"
    for u c bs by (simp add: one_turn Let_def)
  have stable: "dial_and_serve (pol\<lparr>bp_stable_after := s\<rparr>) bs n f = dial_and_serve pol bs n f" for bs s
    by (induction bs arbitrary: n f) (simp_all add: one_turn Let_def split: option.splits)
  have failed: "dial_and_serve pol (a # as) n f =
      ((if Suc f = both_dial_hint_after then [Hints] else []) @ Waits (bp_backoff pol n) #
         fst (dial_and_serve pol as (n + 1) (Suc f)), snd (dial_and_serve pol as (n + 1) (Suc f)))"
    if "\<not> ctx_ends a \<and> terminal_of a = None \<and> \<not> is_ok (at_dial a)" for a as n f
    using that by (simp add: one_turn Let_def ctx_ends_def)
  have 1: "filter (\<lambda>e. e \<noteq> Hints) (fst (dial_and_serve pol as n f))
        = map (\<lambda>k. Waits (bp_backoff pol (n + int k))) [0..<length as]"
    using assms
  proof (induction as arbitrary: n f)
    case (Cons a as)
    have "[0..<length (a # as)] = 0 # map Suc [0..<length as]" by (simp add: upt_conv_Cons map_Suc_upt del: upt_Suc)
    then show ?case
      using Cons.prems Cons.IH [of "n + 1" "Suc f"] by (simp add: failed o_def add.assoc del: upt_Suc)
  qed simp
  have 2: "snd (dial_and_serve pol as n f) = Going (n + int (length as)) (f + length as)"
    using assms by (induction as arbitrary: n f) (simp_all add: failed)
  have 3: "Hints \<in> set (fst (dial_and_serve pol as n f)) \<longleftrightarrow> f < both_dial_hint_after \<and> both_dial_hint_after \<le> f + length as"
    using assms
  proof (induction as arbitrary: n f)
    case (Cons a as)
    then show ?case using Cons.IH [of "n + 1" "Suc f"] by (simp add: failed) arith
  qed simp
  show ?thesis using 1 2 3 served stable by blast
qed

theorem reconnect_follows_schedule_witness:
  "let a = \<lparr>at_top = False, at_dial = Inl (Go_error Unreachable []), at_after = False, at_waiting = False\<rparr>
   in snd (dial_and_serve (exp_policy default_exponential (\<lambda>_. 0)) [a, a] 0 18) = Going 2 20 \<and>
      Hints \<in> set (fst (dial_and_serve (exp_policy default_exponential (\<lambda>_. 0)) [a, a] 0 18))"
proof -
  let ?a = "\<lparr>at_top = False, at_dial = Inl (Go_error Unreachable []), at_after = False, at_waiting = False\<rparr>"
  have "terminal_of ?a = None"
    by (simp add: terminal_of_def is_auth_failed_def is_role_mismatch_def is_error_def is_tls_auth_alert_def
        find_as_def transport_code_def app_close_code_def close_coder_def application_code_def)
  then show ?thesis
    using reconnect_follows_schedule [of "[?a, ?a]" "exp_policy default_exponential (\<lambda>_. 0)" 0 18]
    by (simp add: ctx_ends_def both_dial_hint_after_def Let_def)
qed

end
