(* ===== verification/Identity.thy ===== *)
theory Identity
  imports Go_Base64 Go_SHA256 Router
begin

text \<open>
  Package \<^verbatim>\<open>internal/identity\<close>: the pin, its parsing, the pinning TLS configuration, and keys on disk.

  A pin is the base64 text of the SHA-256 digest of a public key. X.509, PEM and TOML parsing are
  arguments. What \<^verbatim>\<open>crypto/tls\<close> does with a configuration is \<open>tls_accepts\<close>; a file system is a map from
  paths to contents and permission bits, and the atomic write returns every state it passes through.
\<close>

subsection \<open>Pins\<close>

definition pin :: "bytes \<Rightarrow> string" where "pin spki = b64_encode (sha256 spki)"

definition digest_size :: nat where "digest_size = 32"

datatype pin_error = Pin_empty | Pin_not_base64 | Pin_wrong_size nat | Pin_not_canonical

definition parse_pin :: "string \<Rightarrow> pin_error + string" where
  "parse_pin s0 =
    (let s = trim_space s0 in
     if s = [] then Inl Pin_empty
     else (case b64_decode s of
        None \<Rightarrow> Inl Pin_not_base64
      | Some raw \<Rightarrow>
          if length raw \<noteq> digest_size then Inl (Pin_wrong_size (length raw))
          else Inr (b64_encode raw)))"

definition parse_pin_strict :: "string \<Rightarrow> pin_error + string" where
  "parse_pin_strict s =
    (case parse_pin s of
       Inl e \<Rightarrow> Inl e
     | Inr canonical \<Rightarrow> if canonical \<noteq> s then Inl Pin_not_canonical else Inr canonical)"

lemma trim_space_b64: "trim_space (b64_encode bs) = b64_encode bs"
proof (rule trim_space_id, rule ballI)
  fix c assume "c \<in> set (b64_encode bs)"
  then have "43 \<le> ord c \<and> ord c \<le> 122" by (rule b64_encode_chars)
  then show "ord c < 128 \<and> \<not> ascii_space c" by (auto simp: ascii_space_def is_space_rune_def)
qed

lemma parse_pin_canonical:
  assumes "length d = digest_size"
  shows "parse_pin (b64_encode d) = Inr (b64_encode d)"
proof -
  have "b64_encode d \<noteq> []"
    using assms length_b64_encode [of d] by (auto simp: digest_size_def)
  then show ?thesis using assms by (simp add: parse_pin_def trim_space_b64)
qed

lemma parse_pin_InrD:
  "parse_pin s = Inr p \<Longrightarrow> \<exists>d. length d = digest_size \<and> p = b64_encode d \<and> b64_decode (trim_space s) = Some d"
  by (auto simp: parse_pin_def Let_def split: if_splits option.splits)

lemma parse_pin_strict_iff: "parse_pin_strict s = Inr p \<longleftrightarrow> p = s \<and> (\<exists>d. length d = digest_size \<and> s = b64_encode d)"
  using parse_pin_InrD [of s p] parse_pin_canonical
  by (auto simp: parse_pin_strict_def split: sum.splits if_splits dest: parse_pin_InrD)

lemma strict_pin_nonempty: "parse_pin_strict p = Inr q \<Longrightarrow> p \<noteq> []"
proof -
  assume "parse_pin_strict p = Inr q"
  then obtain d where "length d = 32" "p = b64_encode d" by (auto simp: parse_pin_strict_iff digest_size_def)
  then show ?thesis using length_b64_encode [of d] by auto
qed

lemma pin_strict [simp]: "parse_pin_strict (pin spki) = Inr (pin spki)"
  unfolding parse_pin_strict_iff pin_def by (auto simp: digest_size_def intro: exI [of _ "sha256 spki"])

text \<open>
  The strict parser accepts exactly the canonical texts of 32-byte digests, unchanged, so the pins
  it lets in are equal as text exactly when they are the same digest, and every pin computed in a
  handshake is one it accepts. The lenient parser accepts no other digests: what it returns is always
  strict, is its own reparse, and is the text it was given up to surrounding space, line breaks and
  unused bits.
\<close>

theorem strict_pins_are_digests:
  "(parse_pin_strict s = Inr p \<longleftrightarrow> p = s \<and> (\<exists>d. length d = 32 \<and> s = b64_encode d)) \<and>
   parse_pin_strict (pin spki) = Inr (pin spki) \<and> length (pin spki) = 44 \<and>
   (parse_pin s = Inr p \<longrightarrow> parse_pin_strict p = Inr p \<and> b64_decode (trim_space s) = b64_decode p) \<and>
   (parse_pin_strict s = Inr s \<and> parse_pin_strict t = Inr t \<longrightarrow> (b64_decode s = b64_decode t \<longleftrightarrow> s = t))"
proof (intro conjI)
  show "parse_pin s = Inr p \<longrightarrow> parse_pin_strict p = Inr p \<and> b64_decode (trim_space s) = b64_decode p"
    using parse_pin_InrD [of s p] by (auto simp: parse_pin_strict_iff)
  show "parse_pin_strict (pin spki) = Inr (pin spki)" by simp
  show "length (pin spki) = 44" by (simp add: pin_def length_b64_encode)
qed (auto simp: parse_pin_strict_iff digest_size_def)

theorem strict_pins_are_digests_witness:
  "parse_pin_strict (b64_encode (replicate 32 CHR 0x00)) = Inr (b64_encode (replicate 32 CHR 0x00)) \<and>
   b64_decode (trim_space (b64_encode (replicate 32 CHR 0x00))) = b64_decode (b64_encode (replicate 32 CHR 0x00))"
proof -
  let ?s = "b64_encode (replicate 32 CHR 0x00)"
  have "parse_pin ?s = Inr ?s" by (rule parse_pin_canonical) (simp add: digest_size_def)
  then show ?thesis using strict_pins_are_digests [of ?s ?s] by blast
qed

subsection \<open>The pinning TLS configuration\<close>

datatype client_auth = No_client_cert | Require_any_client_cert

datatype transport_mode = Mode_dial | Mode_listen

datatype verify_error = No_peer_cert | Bad_peer_cert string | Pin_mismatch string

text \<open>\<open>parse_cert\<close> is X.509 parsing: the SubjectPublicKeyInfo of a certificate.\<close>

definition verify_pin ::
  "(bytes \<Rightarrow> string + bytes) \<Rightarrow> string list \<Rightarrow> bytes list \<Rightarrow> verify_error option"
where
  "verify_pin parse_cert allowed certs =
    (case certs of
       [] \<Rightarrow> Some No_peer_cert
     | leaf # _ \<Rightarrow>
        (case parse_cert leaf of
           Inl e \<Rightarrow> Some (Bad_peer_cert e)
         | Inr spki \<Rightarrow> (let p = pin spki in
             if p \<notin> set allowed then Some (Pin_mismatch (if 8 < length p then take 8 p else p)) else None)))"

record tls_config =
  tc_verify :: "bytes list \<Rightarrow> verify_error option"
  tc_min_version :: nat
  tc_tickets_disabled :: bool
  tc_client_auth :: client_auth
  tc_skip_chain :: bool

definition version_tls13 :: nat where "version_tls13 = 0x0304"

datatype tls_error = No_pins | Empty_pin | Carrier_failed string

definition pinning_tls ::
  "(bytes \<Rightarrow> string + bytes) \<Rightarrow> string option \<Rightarrow> transport_mode \<Rightarrow> string list \<Rightarrow> tls_error + tls_config"
where
  "pinning_tls parse_cert carrier mode allowed =
    (if allowed = [] then Inl No_pins
     else if [] \<in> set allowed then Inl Empty_pin
     else (case carrier of
        Some e \<Rightarrow> Inl (Carrier_failed e)
      | None \<Rightarrow>
         (let conf = \<lparr>tc_verify = verify_pin parse_cert allowed, tc_min_version = version_tls13,
                      tc_tickets_disabled = True, tc_client_auth = No_client_cert, tc_skip_chain = False\<rparr>
          in Inr (case mode of
               Mode_listen \<Rightarrow> conf\<lparr>tc_client_auth := Require_any_client_cert\<rparr>
             | Mode_dial \<Rightarrow> conf\<lparr>tc_skip_chain := True\<rparr>))))"

definition client_dial_tls where
  "client_dial_tls parse_cert carrier server_pin = pinning_tls parse_cert carrier Mode_dial [server_pin]"

definition client_listen_tls where
  "client_listen_tls parse_cert carrier server_pin = pinning_tls parse_cert carrier Mode_listen [server_pin]"

definition agent_listen_tls where
  "agent_listen_tls parse_cert carrier authorized = pinning_tls parse_cert carrier Mode_listen authorized"

definition agent_dial_tls where
  "agent_dial_tls parse_cert carrier authorized = pinning_tls parse_cert carrier Mode_dial authorized"

text \<open>
  Whether \<^verbatim>\<open>crypto/tls\<close> completes a handshake. A resumed handshake, possible only while tickets are on,
  runs no callback. A listener that asks for no certificate gets none and runs no callback; one that
  requires a certificate refuses an empty chain. A dialling side checks the chain unless told not to.
\<close>

definition tls_accepts ::
  "(bytes list \<Rightarrow> bool) \<Rightarrow> transport_mode \<Rightarrow> tls_config \<Rightarrow> bool \<Rightarrow> bytes list \<Rightarrow> bool"
where
  "tls_accepts chain_ok mode conf resumed certs =
    (if resumed \<and> \<not> tc_tickets_disabled conf then True
     else (case mode of
        Mode_listen \<Rightarrow> (case tc_client_auth conf of
            No_client_cert \<Rightarrow> True
          | Require_any_client_cert \<Rightarrow> certs \<noteq> [] \<and> tc_verify conf certs = None)
      | Mode_dial \<Rightarrow> certs \<noteq> [] \<and> (tc_skip_chain conf \<or> chain_ok certs) \<and> tc_verify conf certs = None))"

text \<open>The certificate's pin as the router computes it for an accepted peer.\<close>

definition pin_of_cert :: "(bytes \<Rightarrow> string + bytes) \<Rightarrow> bytes \<Rightarrow> string" where
  "pin_of_cert parse_cert c = (case parse_cert c of Inl _ \<Rightarrow> [] | Inr spki \<Rightarrow> pin spki)"

lemma admits_listed:
  assumes "pinning_tls parse_cert None mode allowed = Inr conf"
  shows "tls_accepts chain_ok mode conf resumed certs \<longleftrightarrow>
      (\<exists>leaf rest spki. certs = leaf # rest \<and> parse_cert leaf = Inr spki \<and> pin spki \<in> set allowed)"
proof -
  have conf: "tc_verify conf = verify_pin parse_cert allowed" "tc_tickets_disabled conf"
    "mode = Mode_listen \<longrightarrow> tc_client_auth conf = Require_any_client_cert" "mode = Mode_dial \<longrightarrow> tc_skip_chain conf"
    using assms by (auto simp: pinning_tls_def Let_def split: if_splits transport_mode.splits)
  have "tls_accepts chain_ok mode conf resumed certs \<longleftrightarrow> certs \<noteq> [] \<and> verify_pin parse_cert allowed certs = None"
    using conf by (cases mode) (simp_all add: tls_accepts_def)
  then show ?thesis
    by (cases certs) (auto simp: verify_pin_def Let_def split: sum.splits)
qed

lemma listed_pins_configure:
  assumes "allowed \<noteq> []" "[] \<notin> set allowed"
  shows "\<forall>mode. \<exists>conf. pinning_tls parse_cert None mode allowed = Inr conf \<and>
    (\<forall>certs. tls_accepts chain_ok mode conf resumed certs \<longleftrightarrow>
      (\<exists>leaf rest spki. certs = leaf # rest \<and> parse_cert leaf = Inr spki \<and> pin spki \<in> set allowed))"
proof
  fix mode
  obtain conf where c: "pinning_tls parse_cert None mode allowed = Inr conf"
    using assms by (simp add: pinning_tls_def Let_def)
  show "\<exists>conf. pinning_tls parse_cert None mode allowed = Inr conf \<and>
    (\<forall>certs. tls_accepts chain_ok mode conf resumed certs \<longleftrightarrow>
      (\<exists>leaf rest spki. certs = leaf # rest \<and> parse_cert leaf = Inr spki \<and> pin spki \<in> set allowed))"
    by (intro exI [of _ conf] conjI allI c admits_listed [OF c])
qed

text \<open>
  C15: Nobody gets in without a listed key, in either direction of the connection and on resumption too:
  a configuration is built exactly for a non-empty list of non-empty pins, and under it a handshake
  completes exactly when the peer's first certificate parses and its pin is on the list. The identity
  the router then works with is that pin.
\<close>

theorem only_pinned_peers:
  assumes "pinning_tls parse_cert None mode allowed = Inr conf"
  shows "allowed \<noteq> [] \<and> [] \<notin> set allowed \<and>
    (tls_accepts chain_ok mode conf resumed certs \<longleftrightarrow>
      (\<exists>leaf rest spki. certs = leaf # rest \<and> parse_cert leaf = Inr spki \<and> pin spki \<in> set allowed)) \<and>
    (tls_accepts chain_ok mode conf resumed certs \<longrightarrow>
      (\<exists>i. identity_from_certs (pin_of_cert parse_cert) certs = Inr i \<and> id_pin i \<in> set allowed))"
proof -
  have "allowed \<noteq> []" "[] \<notin> set allowed"
    using assms by (auto simp: pinning_tls_def split: if_splits)
  then show ?thesis
    unfolding admits_listed [OF assms] by (auto simp: identity_from_certs_def pin_of_cert_def)
qed

theorem only_pinned_peers_witness:
  "\<exists>conf. pinning_tls Inr None Mode_listen [pin ''k''] = Inr conf \<and>
     tls_accepts (\<lambda>_. False) Mode_listen conf True [''k''] \<and>
     (tls_accepts (\<lambda>_. False) Mode_listen conf True [''other''] \<longleftrightarrow> pin ''other'' = pin ''k'')"
proof -
  have "pin ''k'' \<noteq> []" using length_b64_encode [of "sha256 ''k''"] by (auto simp: pin_def)
  then obtain conf where "pinning_tls Inr None Mode_listen [pin ''k''] = Inr conf"
    by (simp add: pinning_tls_def Let_def)
  then show ?thesis using only_pinned_peers [of Inr Mode_listen "[pin ''k'']" conf] by auto
qed

subsection \<open>Keys on disk\<close>

type_synonym file_store = "string \<rightharpoonup> bytes \<times> nat"

text \<open>How each operation of an atomic write turns out; \<open>Some\<close> is a failure, and a failing write may
  have written part of the data.\<close>

record write_env =
  we_mkdir :: "string option"
  we_temp :: "string + string"
  we_chmod :: "string option"
  we_write :: "(nat \<times> string) option"
  we_close :: "string option"
  we_rename :: "string option"

definition temp_mode :: nat where "temp_mode = 6 * 64"

definition write_file_atomic ::
  "write_env \<Rightarrow> string \<Rightarrow> bytes \<Rightarrow> nat \<Rightarrow> file_store \<Rightarrow> string option \<times> file_store list"
where
  "write_file_atomic env path data mode fs =
    (case we_mkdir env of
       Some e \<Rightarrow> (Some e, [fs])
     | None \<Rightarrow>
      (case we_temp env of
         Inl e \<Rightarrow> (Some e, [fs])
       | Inr tmp \<Rightarrow>
        (let s1 = fs(tmp \<mapsto> ([], temp_mode)); s2 = fs(tmp \<mapsto> ([], mode)); s3 = fs(tmp \<mapsto> (data, mode));
             removed = fs(tmp := None) in
         case we_chmod env of
           Some e \<Rightarrow> (Some e, [fs, s1, removed])
         | None \<Rightarrow>
          (case we_write env of
             Some (n, e) \<Rightarrow> (Some e, [fs, s1, s2, fs(tmp \<mapsto> (take n data, mode)), removed])
           | None \<Rightarrow>
            (case we_close env of
               Some e \<Rightarrow> (Some e, [fs, s1, s2, s3, removed])
             | None \<Rightarrow>
              (case we_rename env of
                 Some e \<Rightarrow> (Some e, [fs, s1, s2, s3, removed])
               | None \<Rightarrow> (None, [fs, s1, s2, s3, fs(tmp := None, path \<mapsto> (data, mode))])))))))"

definition key_mode :: nat where "key_mode = 6 * 64"

definition write_key ::
  "('k \<Rightarrow> string + bytes) \<Rightarrow> (bytes \<Rightarrow> bytes) \<Rightarrow> write_env \<Rightarrow> string \<Rightarrow> 'k \<Rightarrow> file_store
     \<Rightarrow> string option \<times> file_store list"
where
  "write_key marshal pem env path key fs =
    (case marshal key of Inl e \<Rightarrow> (Some e, [fs]) | Inr der \<Rightarrow> write_file_atomic env path (pem der) key_mode fs)"

definition meta_path :: "string \<Rightarrow> string" where "meta_path key_path = key_path @ ''.meta''"

definition meta_content :: "string \<Rightarrow> bytes" where
  "meta_content rfc3339 = ''created = '' @ [CHR 0x22] @ rfc3339 @ [CHR 0x22, CHR 0x0A]"

definition write_meta :: "(int \<Rightarrow> string) \<Rightarrow> write_env \<Rightarrow> string \<Rightarrow> int \<Rightarrow> file_store \<Rightarrow> string option \<times> file_store list" where
  "write_meta format_time env key_path created fs =
    write_file_atomic env (meta_path key_path) (meta_content (format_time created)) key_mode fs"

datatype key_error = Key_missing | No_pem_block | Bad_pkcs8 string | Not_ed25519

text \<open>\<open>pem_decode\<close> and \<open>parse_pkcs8\<close> are the parsers; a parsed key that is not Ed25519 is \<open>Inr None\<close>.\<close>

definition load_key ::
  "(bytes \<Rightarrow> bytes option) \<Rightarrow> (bytes \<Rightarrow> string + 'k option) \<Rightarrow> string \<Rightarrow> file_store \<Rightarrow> key_error + 'k"
where
  "load_key pem_decode parse_pkcs8 path fs =
    (case fs path of
       None \<Rightarrow> Inl Key_missing
     | Some (content, _) \<Rightarrow>
        (case pem_decode content of
           None \<Rightarrow> Inl No_pem_block
         | Some block \<Rightarrow>
            (case parse_pkcs8 block of
               Inl e \<Rightarrow> Inl (Bad_pkcs8 e)
             | Inr None \<Rightarrow> Inl Not_ed25519
             | Inr (Some k) \<Rightarrow> Inr k)))"

datatype meta_error = Bad_toml string | No_created | Bad_time string

definition read_meta ::
  "(bytes \<Rightarrow> string + string) \<Rightarrow> (string \<Rightarrow> string + int) \<Rightarrow> string \<Rightarrow> file_store \<Rightarrow> meta_error + int option"
where
  "read_meta toml_created parse_time key_path fs =
    (case fs (meta_path key_path) of
       None \<Rightarrow> Inr None
     | Some (content, _) \<Rightarrow>
        (case toml_created content of
           Inl e \<Rightarrow> Inl (Bad_toml e)
         | Inr s \<Rightarrow>
            if s = [] then Inl No_created
            else (case parse_time s of Inl e \<Rightarrow> Inl (Bad_time e) | Inr t \<Rightarrow> Inr (Some t))))"

text \<open>The states an atomic write passes through.\<close>

lemma write_file_atomic_states:
  assumes "s \<in> set (snd (write_file_atomic env path data mode fs))"
  shows "s = fs \<or> (\<exists>tmp. we_temp env = Inr tmp \<and>
    (s = fs(tmp := None) \<or> s = fs(tmp \<mapsto> ([], temp_mode)) \<or> (\<exists>n. s = fs(tmp \<mapsto> (take n data, mode)))
     \<or> s = fs(tmp := None, path \<mapsto> (data, mode)) \<and> fst (write_file_atomic env path data mode fs) = None))"
  using assms
  by (auto simp: write_file_atomic_def Let_def split: option.splits sum.splits)
     (metis take0 list.size(3) take_all_iff order_refl)+

lemma write_file_atomic_end:
  "we_temp env = Inr tmp \<Longrightarrow> fs tmp = None \<Longrightarrow> last (snd (write_file_atomic env path data mode fs)) =
     (if fst (write_file_atomic env path data mode fs) = None then fs(path \<mapsto> (data, mode)) else fs)"
  by (auto simp: write_file_atomic_def Let_def fun_upd_idem split: option.splits sum.splits)

text \<open>
  C16: A key file is all or nothing and never readable by others. In every state an atomic write passes
  through, however it fails, the path holds either its old file or the complete new one, no other file
  but the fresh temporary one differs from before, and every file that was touched has mode 0600. At the
  end the write succeeded and the key is there, or it failed and the store is exactly as before.
\<close>

theorem key_write_atomic:
  assumes "we_temp env = Inr tmp" "fs tmp = None" "tmp \<noteq> path" "marshal key = Inr der"
    and "write_key marshal pem env path key fs = (err, states)"
  shows "(\<forall>s\<in>set states. (s path = fs path \<or> s path = Some (pem der, key_mode)) \<and>
      (\<forall>q. q \<noteq> path \<and> q \<noteq> tmp \<longrightarrow> s q = fs q) \<and> (\<forall>q c m. s q = Some (c, m) \<and> s q \<noteq> fs q \<longrightarrow> m = key_mode)) \<and>
    last states = (if err = None then fs(path \<mapsto> (pem der, key_mode)) else fs) \<and>
    (err = None \<and> pem_decode (pem der) = Some der \<and> parse_pkcs8 der = Inr (Some key) \<longrightarrow>
       load_key pem_decode parse_pkcs8 path (last states) = Inr key)"
proof -
  have w: "write_file_atomic env path (pem der) key_mode fs = (err, states)"
    using assms(4,5) by (simp add: write_key_def)
  have "(s path = fs path \<or> s path = Some (pem der, key_mode)) \<and>
      (\<forall>q. q \<noteq> path \<and> q \<noteq> tmp \<longrightarrow> s q = fs q) \<and> (\<forall>q c m. s q = Some (c, m) \<and> s q \<noteq> fs q \<longrightarrow> m = key_mode)"
    if "s \<in> set states" for s
    using write_file_atomic_states [of s env path "pem der" key_mode fs] that w assms(1,3)
    by (auto simp: temp_mode_def key_mode_def split: if_splits)
  moreover have e: "last states = (if err = None then fs(path \<mapsto> (pem der, key_mode)) else fs)"
    using write_file_atomic_end [of env tmp fs path "pem der" key_mode] assms(1,2) w by simp
  ultimately show ?thesis by (simp add: load_key_def)
qed

theorem key_write_atomic_witness:
  "last (snd (write_key Inr (\<lambda>d. d) \<lparr>we_mkdir = None, we_temp = Inr ''t'', we_chmod = None,
      we_write = Some (1, ''full''), we_close = None, we_rename = None\<rparr> ''key'' ''secret'' [''key'' \<mapsto> (''old'', 0)]))
     = [''key'' \<mapsto> (''old'', 0)]"
proof -
  let ?env = "\<lparr>we_mkdir = None, we_temp = Inr ''t'', we_chmod = None, we_write = Some (1, ''full''),
      we_close = None, we_rename = None\<rparr>"
  let ?run = "write_key Inr (\<lambda>d. d) ?env ''key'' ''secret'' [''key'' \<mapsto> (''old'', 0)]"
  have "fst ?run = Some ''full''" by (simp add: write_key_def write_file_atomic_def)
  then show ?thesis
    using key_write_atomic [where env = ?env and tmp = "''t''" and path = "''key''" and key = "''secret''"
        and marshal = Inr and pem = "\<lambda>d. d" and fs = "[''key'' \<mapsto> (''old'', 0)]" and err = "fst ?run"
        and states = "snd ?run"] by simp
qed

end
