(* ===== verification/Config_Naming.thy ===== *)
theory Config_Naming
  imports Names_Zone Go_SHA256
begin

text \<open>
  Package \<^verbatim>\<open>internal/config\<close>: the naming table (\<^verbatim>\<open>naming.go\<close>), local ports (\<^verbatim>\<open>ports.go\<close>) and addresses
  that can be dialled at all (\<^verbatim>\<open>dialable.go\<close>). Every refusal of the source wraps \<^verbatim>\<open>ErrInvalid\<close>; the
  constructors here tell them apart.
\<close>

subsection \<open>The naming table\<close>

definition default_dns_port :: int where "default_dns_port = 15353"
definition default_http_port :: int where "default_http_port = 18080"
definition default_https_port :: int where "default_https_port = 18443"
definition default_suffix :: string where "default_suffix = ''internal''"
definition lowest_unprivileged_port :: int where "lowest_unprivileged_port = 1024"

definition reserved_suffixes :: "string list" where
  "reserved_suffixes = [''internal'', ''home.arpa'', ''test'']"

record names_table =
  nm_suffix :: string
  nm_dns_port :: int
  nm_http_port :: int
  nm_https_port :: int
  nm_mine :: bool

definition empty_names :: names_table where
  "empty_names = \<lparr>nm_suffix = [], nm_dns_port = 0, nm_http_port = 0, nm_https_port = 0, nm_mine = False\<rparr>"

record naming =
  ng_suffix :: string
  ng_dns_port :: int
  ng_http_port :: int
  ng_https_port :: int

datatype naming_error =
    Suffix_whitespace string
  | Suffix_root
  | Suffix_too_long nat
  | Suffix_label string string
  | Suffix_infrastructure string
  | Suffix_multicast
  | Suffix_localhost
  | Suffix_unowned string
  | Port_not_a_port string int
  | Port_privileged string int
  | Port_shared string string int

definition is_reserved_suffix :: "string \<Rightarrow> bool" where
  "is_reserved_suffix s \<longleftrightarrow> list_ex (\<lambda>r. s = r \<or> has_suffix s (CHR ''.'' # r)) reserved_suffixes"

definition resolve_naming_port :: "string \<Rightarrow> int \<Rightarrow> int \<Rightarrow> naming_error + int" where
  "resolve_naming_port key v def =
    (if v = 0 then Inr def
     else if v < 0 \<or> 65535 < v then Inl (Port_not_a_port key v)
     else if v < lowest_unprivileged_port then Inl (Port_privileged key v)
     else Inr v)"

definition resolve_suffix :: "string \<Rightarrow> bool \<Rightarrow> naming_error + string" where
  "resolve_suffix raw is_mine =
    (if raw = [] then Inr default_suffix
     else if trim_space raw \<noteq> raw then Inl (Suffix_whitespace raw)
     else (let s = trim_suffix (to_lower raw) ''.'' in
       if s = [] then Inl Suffix_root
       else if 253 < length s then Inl (Suffix_too_long (length s))
       else (case find (\<lambda>l. \<not> valid_label l) (split_on (CHR ''.'') s) of
          Some l \<Rightarrow> Inl (Suffix_label raw l)
        | None \<Rightarrow>
            if (s = ''arpa'' \<or> has_suffix s ''.arpa'') \<and> \<not> is_reserved_suffix s then Inl (Suffix_infrastructure s)
            else if s = ''local'' then Inl Suffix_multicast
            else if s = ''localhost'' then Inl Suffix_localhost
            else if is_reserved_suffix s \<or> is_mine then Inr s
            else Inl (Suffix_unowned s))))"

fun distinct_ports :: "(string \<times> int) list \<Rightarrow> (int \<rightharpoonup> string) \<Rightarrow> naming_error option" where
  "distinct_ports [] seen = None"
| "distinct_ports ((key, v) # ps) seen =
    (case seen v of
       Some other \<Rightarrow> Some (Port_shared other key v)
     | None \<Rightarrow> distinct_ports ps (seen(v \<mapsto> key)))"

definition config_naming :: "names_table option \<Rightarrow> naming_error + naming" where
  "config_naming names =
    (let raw = (case names of None \<Rightarrow> empty_names | Some n \<Rightarrow> n) in
     bind_result (resolve_suffix (nm_suffix raw) (nm_mine raw)) (\<lambda>suffix.
     bind_result (resolve_naming_port ''dns_port'' (nm_dns_port raw) default_dns_port) (\<lambda>dns.
     bind_result (resolve_naming_port ''http_port'' (nm_http_port raw) default_http_port) (\<lambda>http.
     bind_result (resolve_naming_port ''https_port'' (nm_https_port raw) default_https_port) (\<lambda>https.
       case distinct_ports [(''dns_port'', dns), (''http_port'', http), (''https_port'', https)] Map.empty of
         Some e \<Rightarrow> Inl e
       | None \<Rightarrow> Inr \<lparr>ng_suffix = suffix, ng_dns_port = dns, ng_http_port = http, ng_https_port = https\<rparr>)))))"

datatype server_name_error = Sn_empty | Sn_not_lowercase | Sn_too_long nat | Sn_not_a_label

definition validate_server_name :: "string \<Rightarrow> server_name_error option" where
  "validate_server_name name =
    (if name = [] then Some Sn_empty
     else if valid_label name then None
     else if to_lower name \<noteq> name then Some Sn_not_lowercase
     else if 63 < length name then Some (Sn_too_long (length name))
     else Some Sn_not_a_label)"

lemma validate_server_name_iff: "validate_server_name name = None \<longleftrightarrow> valid_label name"
  by (auto simp: validate_server_name_def valid_label_def dns_label_bytes_iff)

subsection \<open>What a resolved table guarantees\<close>

lemma find_bad_label: "find (\<lambda>l. \<not> valid_label l) (split_on (CHR ''.'') s) = None \<longleftrightarrow> host_form s"
  by (auto simp: find_None_iff host_form_def list_all_iff valid_label_def)

lemma host_form_lower: "host_form s \<Longrightarrow> to_lower s = s"
  using host_form_plain [of s] by (intro to_lower_id) blast

lemma host_form_trims: "host_form s \<Longrightarrow> trim_space s = s"
  using host_form_plain [of s] by (intro trim_space_id) blast

lemma host_form_keeps_end: "host_form s \<Longrightarrow> trim_suffix s ''.'' = s"
  using host_form_no_final_dot [of s] by (simp add: trim_suffix_def)

definition good_suffix :: "bool \<Rightarrow> string \<Rightarrow> bool" where
  "good_suffix is_mine s \<longleftrightarrow> host_form s \<and> length s \<le> 253 \<and> s \<noteq> ''local'' \<and> s \<noteq> ''localhost'' \<and>
     ((s = ''arpa'' \<or> has_suffix s ''.arpa'') \<longrightarrow> s = ''home.arpa'' \<or> has_suffix s ''.home.arpa'') \<and>
     (is_mine \<or> is_reserved_suffix s)"

lemma reserved_arpa:
  assumes "s = ''arpa'' \<or> has_suffix s ''.arpa''"
  shows "is_reserved_suffix s \<longleftrightarrow> s = ''home.arpa'' \<or> has_suffix s ''.home.arpa''"
  using assms by (auto simp: is_reserved_suffix_def reserved_suffixes_def has_suffix_iff append_eq_append_conv2 Cons_eq_append_conv)

lemma default_suffix_good: "good_suffix is_mine default_suffix"
  by (simp add: good_suffix_def default_suffix_def host_form_def dns_label_bytes_iff lower_or_digit_or_dash_def
      has_suffix_def is_reserved_suffix_def reserved_suffixes_def)

lemma good_suffix_alt:
  "good_suffix is_mine s \<longleftrightarrow> host_form s \<and> length s \<le> 253 \<and> s \<noteq> ''local'' \<and> s \<noteq> ''localhost'' \<and>
     \<not> ((s = ''arpa'' \<or> has_suffix s ''.arpa'') \<and> \<not> is_reserved_suffix s) \<and> (is_mine \<or> is_reserved_suffix s)"
  unfolding good_suffix_def using reserved_arpa [of s] by blast

lemma resolve_suffix_iff:
  assumes "raw \<noteq> []"
  shows "resolve_suffix raw is_mine = Inr s \<longleftrightarrow>
    trim_space raw = raw \<and> s = trim_suffix (to_lower raw) ''.'' \<and> good_suffix is_mine s"
proof -
  define s' where "s' = trim_suffix (to_lower raw) ''.''"
  define infra where "infra \<longleftrightarrow> (s' = ''arpa'' \<or> has_suffix s' ''.arpa'') \<and> \<not> is_reserved_suffix s'"
  define g where "g \<longleftrightarrow> good_suffix is_mine s'"
  have rhs: "good_suffix is_mine s \<longleftrightarrow> g" if "s = s'" using that by (simp add: g_def)
  then have rhs: "trim_space raw = raw \<and> s = s' \<and> good_suffix is_mine s \<longleftrightarrow> trim_space raw = raw \<and> s = s' \<and> g" by blast
  have good: "g \<longleftrightarrow> host_form s' \<and> length s' \<le> 253 \<and> s' \<noteq> ''local'' \<and> s' \<noteq> ''localhost'' \<and>
     \<not> infra \<and> (is_mine \<or> is_reserved_suffix s')"
    unfolding g_def good_suffix_alt infra_def by blast
  have r: "resolve_suffix raw is_mine =
    (if trim_space raw \<noteq> raw then Inl (Suffix_whitespace raw)
     else if s' = [] then Inl Suffix_root
     else if 253 < length s' then Inl (Suffix_too_long (length s'))
     else (case find (\<lambda>l. \<not> valid_label l) (split_on (CHR ''.'') s') of
          Some l \<Rightarrow> Inl (Suffix_label raw l)
        | None \<Rightarrow> if infra then Inl (Suffix_infrastructure s')
            else if s' = ''local'' then Inl Suffix_multicast
            else if s' = ''localhost'' then Inl Suffix_localhost
            else if is_reserved_suffix s' \<or> is_mine then Inr s'
            else Inl (Suffix_unowned s')))"
    using assms by (simp only: resolve_suffix_def Let_def s'_def infra_def if_False)
  show ?thesis
  proof (cases "find (\<lambda>l. \<not> valid_label l) (split_on (CHR ''.'') s')")
    case None
    then have "host_form s'" by (simp add: find_bad_label)
    moreover from this have "s' \<noteq> []" by (rule host_form_nonempty)
    ultimately show ?thesis
      unfolding r None s'_def [symmetric] rhs using good by (cases g) (auto split: if_splits)
  next
    case (Some l)
    then have "\<not> host_form s'" using find_bad_label [of s'] by simp
    then show ?thesis unfolding r Some s'_def [symmetric] rhs using good by (auto split: if_splits)
  qed
qed

lemma resolve_suffix_good: "resolve_suffix raw is_mine = Inr s \<Longrightarrow> good_suffix is_mine s"
proof (cases "raw = []")
  case True
  moreover assume "resolve_suffix raw is_mine = Inr s"
  ultimately show ?thesis using default_suffix_good by (simp add: resolve_suffix_def)
next
  case False
  moreover assume "resolve_suffix raw is_mine = Inr s"
  ultimately show ?thesis using resolve_suffix_iff by blast
qed

lemma resolve_suffix_again:
  assumes "good_suffix is_mine s"
  shows "resolve_suffix s is_mine = Inr s"
proof -
  have h: "host_form s" using assms unfolding good_suffix_def by blast
  have "trim_suffix (to_lower s) ''.'' = s" using h host_form_lower host_form_keeps_end by simp
  then show ?thesis
    using resolve_suffix_iff [OF host_form_nonempty [OF h], of is_mine s] assms host_form_trims [OF h] by simp
qed

lemma resolve_naming_port_range:
  "resolve_naming_port key v def = Inr p \<Longrightarrow> 1024 \<le> def \<and> def \<le> 65535 \<Longrightarrow>
     1024 \<le> p \<and> p \<le> 65535 \<and> p = (if v = 0 then def else v)"
  by (auto simp: resolve_naming_port_def lowest_unprivileged_port_def split: if_splits)

lemma resolved_suffix_good:
  "config_naming names = Inr n \<Longrightarrow> good_suffix (nm_mine (case names of None \<Rightarrow> empty_names | Some t \<Rightarrow> t)) (ng_suffix n)"
  by (rule resolve_suffix_good [of "nm_suffix (case names of None \<Rightarrow> empty_names | Some t \<Rightarrow> t)"])
    (auto simp: config_naming_def Let_def bind_result_def split: sum.splits option.splits if_splits)

text \<open>An absent table gives the defaults.\<close>

lemma default_naming:
  "config_naming None = Inr \<lparr>ng_suffix = ''internal'', ng_dns_port = 15353, ng_http_port = 18080, ng_https_port = 18443\<rparr>"
  by (simp add: config_naming_def empty_names_def resolve_suffix_def default_suffix_def resolve_naming_port_def
      default_dns_port_def default_http_port_def default_https_port_def)

text \<open>
  C17: The suffix the system resolver is pointed at is never one that takes a namespace away: whatever
  table resolves, its suffix is a lowercase hostname of valid labels, neither the root nor a name
  with a meaning of its own nor reverse DNS, and reserved for private use unless the operator claimed it;
  resolving it again gives it back. The three ports are unprivileged and different, the operator's
  wherever one was set; an absent table gives the defaults; and the zone built from the suffix and any
  valid server names has exactly that suffix and those servers.
\<close>

theorem naming_is_usable:
  assumes "config_naming names = Inr n"
  defines "raw \<equiv> (case names of None \<Rightarrow> empty_names | Some t \<Rightarrow> t)"
  shows "good_suffix (nm_mine raw) (ng_suffix n) \<and> resolve_suffix (ng_suffix n) (nm_mine raw) = Inr (ng_suffix n) \<and>
    (\<forall>p\<in>{ng_dns_port n, ng_http_port n, ng_https_port n}. 1024 \<le> p \<and> p \<le> 65535) \<and>
    distinct [ng_dns_port n, ng_http_port n, ng_https_port n] \<and>
    (nm_dns_port raw \<noteq> 0 \<longrightarrow> ng_dns_port n = nm_dns_port raw) \<and>
    (nm_http_port raw \<noteq> 0 \<longrightarrow> ng_http_port n = nm_http_port raw) \<and>
    (nm_https_port raw \<noteq> 0 \<longrightarrow> ng_https_port n = nm_https_port raw) \<and>
    (names = None \<longrightarrow> n = \<lparr>ng_suffix = ''internal'', ng_dns_port = 15353, ng_http_port = 18080, ng_https_port = 18443\<rparr>) \<and>
    ((\<forall>s\<in>set ss. validate_server_name s = None) \<longrightarrow>
       (\<exists>z. new_zone (ng_suffix n) ss = Inr z \<and> z_suffix z = ng_suffix n \<and> z_servers z = set ss))"
proof -
  have s: "resolve_suffix (nm_suffix raw) (nm_mine raw) = Inr (ng_suffix n)"
    and d: "resolve_naming_port ''dns_port'' (nm_dns_port raw) default_dns_port = Inr (ng_dns_port n)"
    and h: "resolve_naming_port ''http_port'' (nm_http_port raw) default_http_port = Inr (ng_http_port n)"
    and t: "resolve_naming_port ''https_port'' (nm_https_port raw) default_https_port = Inr (ng_https_port n)"
    and dist: "distinct [ng_dns_port n, ng_http_port n, ng_https_port n]"
    using assms(1) unfolding raw_def config_naming_def Let_def bind_result_def
    by (auto split: sum.splits option.splits if_splits)
  have g: "good_suffix (nm_mine raw) (ng_suffix n)" using s by (rule resolve_suffix_good)
  have ports: "1024 \<le> ng_dns_port n \<and> ng_dns_port n \<le> 65535 \<and> ng_dns_port n = (if nm_dns_port raw = 0 then default_dns_port else nm_dns_port raw)"
    "1024 \<le> ng_http_port n \<and> ng_http_port n \<le> 65535 \<and> ng_http_port n = (if nm_http_port raw = 0 then default_http_port else nm_http_port raw)"
    "1024 \<le> ng_https_port n \<and> ng_https_port n \<le> 65535 \<and> ng_https_port n = (if nm_https_port raw = 0 then default_https_port else nm_https_port raw)"
    using resolve_naming_port_range [OF d] resolve_naming_port_range [OF h] resolve_naming_port_range [OF t]
    by (simp_all add: default_dns_port_def default_http_port_def default_https_port_def)
  have none: "n = \<lparr>ng_suffix = ''internal'', ng_dns_port = 15353, ng_http_port = 18080, ng_https_port = 18443\<rparr>" if "names = None"
    using that s ports by (simp add: raw_def empty_names_def resolve_suffix_def default_suffix_def
        default_dns_port_def default_http_port_def default_https_port_def)
  have zone: "\<exists>z. new_zone (ng_suffix n) ss = Inr z \<and> z_suffix z = ng_suffix n \<and> z_servers z = set ss"
    if ss: "\<forall>s\<in>set ss. validate_server_name s = None"
  proof -
    have v: "valid_label s \<and> s \<noteq> [] \<and> to_lower s = s" if "s \<in> set ss" for s
      using ss that host_form_lower [OF valid_label_host_form, of s]
      by (auto simp: validate_server_name_iff valid_label_def dns_label_bytes_iff)
    obtain z where z: "new_zone (ng_suffix n) ss = Inr z"
      using add_servers_InlD [of ss "{}"] v by (cases "add_servers ss {}") (auto simp: new_zone_def)
    have "z_servers z = set ss" using new_zone_ok [OF z] v by fastforce
    moreover have "z_suffix z = ng_suffix n"
      using new_zone_ok [OF z] g host_form_keeps_end host_form_lower by (simp add: good_suffix_def)
    ultimately show ?thesis using z by blast
  qed
  show ?thesis using g resolve_suffix_again [OF g] ports dist none zone by auto
qed

theorem naming_is_usable_witness:
  "\<exists>n. config_naming None = Inr n \<and> ng_dns_port n = 15353 \<and>
     (\<exists>z. new_zone (ng_suffix n) [''db''] = Inr z \<and> z_servers z = {''db''})"
proof -
  obtain n where n: "config_naming None = Inr n"
    by (simp add: config_naming_def empty_names_def resolve_suffix_def resolve_naming_port_def
        default_dns_port_def default_http_port_def default_https_port_def)
  have "validate_server_name ''db'' = None"
    by (simp add: validate_server_name_iff valid_label_def dns_label_bytes_iff lower_or_digit_or_dash_def)
  then have ss: "\<forall>s\<in>set [''db'']. validate_server_name s = None" by simp
  have "n = \<lparr>ng_suffix = ''internal'', ng_dns_port = 15353, ng_http_port = 18080, ng_https_port = 18443\<rparr>"
    and "\<exists>z. new_zone (ng_suffix n) [''db''] = Inr z \<and> z_suffix z = ng_suffix n \<and> z_servers z = set [''db'']"
    using naming_is_usable [OF n, of "[''db'']"] ss by blast+
  then show ?thesis using n by auto
qed

subsection \<open>Local ports\<close>

definition local_port_base :: "string \<Rightarrow> int" where
  "local_port_base name =
    (let h = sha256 (''quic-link-v1:'' @ name); slot = unbe (take 2 h) mod 2000 in 42000 + 10 * int slot)"

definition local_ports :: "string \<Rightarrow> (string \<rightharpoonup> int) \<Rightarrow> int \<times> int" where
  "local_ports name override =
    (let base = local_port_base name;
         pick = (\<lambda>key def. case override key of Some v \<Rightarrow> if v \<noteq> 0 then v else def | None \<Rightarrow> def)
     in (pick ''ssh'' base, pick ''docker'' (base + 1)))"

text \<open>
  A server's automatic ports are unprivileged ports of a fixed range, and the automatic ports of two
  servers that landed in different slots never meet: their bases are at least ten apart. An override
  takes the place of its own port only.
\<close>

theorem local_ports_in_range:
  "42000 \<le> local_port_base name \<and> local_port_base name \<le> 61990 \<and> 10 dvd local_port_base name \<and>
   (local_port_base a \<noteq> local_port_base b \<longrightarrow> 10 \<le> \<bar>local_port_base a - local_port_base b\<bar>) \<and>
   local_ports name Map.empty = (local_port_base name, local_port_base name + 1) \<and>
   (v \<noteq> 0 \<longrightarrow> local_ports name [''ssh'' \<mapsto> v] = (v, local_port_base name + 1) \<and>
     local_ports name [''docker'' \<mapsto> v] = (local_port_base name, v))"
proof -
  have slot: "\<exists>k. local_port_base n = 42000 + 10 * int k \<and> k < 2000" for n
    by (auto simp: local_port_base_def Let_def intro!: exI [of _ "unbe (take 2 (sha256 (''quic-link-v1:'' @ n))) mod 2000"])
  obtain k where k: "local_port_base name = 42000 + 10 * int k" "k < 2000" using slot by blast
  obtain i where i: "local_port_base a = 42000 + 10 * int i" using slot by blast
  obtain j where j: "local_port_base b = 42000 + 10 * int j" using slot by blast
  have "(10 :: int) dvd 42000 + 10 * int k" by (simp add: dvd_add)
  moreover have "10 \<le> \<bar>local_port_base a - local_port_base b\<bar>" if "local_port_base a \<noteq> local_port_base b"
    using that i j by (cases i j rule: linorder_cases) (simp_all add: abs_if)
  ultimately show ?thesis using k by (simp add: local_ports_def Let_def)
qed

theorem local_ports_in_range_witness:
  "local_ports ''db'' [''ssh'' \<mapsto> 2222] = (2222, local_port_base ''db'' + 1)"
  using local_ports_in_range [of "''db''" "''a''" "''b''" 2222] by simp

subsection \<open>Addresses that can be dialled\<close>

datatype dialable_error = Needs_host_and_port addr_error | No_dial_host

definition dialable_addr :: "string \<Rightarrow> dialable_error option" where
  "dialable_addr addr =
    (case split_host_port addr of
       Inl e \<Rightarrow> Some (Needs_host_and_port e)
     | Inr (host, _) \<Rightarrow> if host = [] then Some No_dial_host else None)"

end
