(* ===== verification/Config.thy ===== *)
theory Config
  imports Config_Naming Identity Go_Path
begin

text \<open>
  Package \<^verbatim>\<open>internal/config\<close>, \<^verbatim>\<open>config.go\<close>: defaults, the file, the environment, and validation.

  A Go map that is ranged over is the list of its entries in the order the run meets them, so which of
  several problems is reported first depends on the list, as it does in the program; the keys of such a
  list are distinct. The TOML decoder is third party: it is the argument \<open>toml\<close> of \<open>load_file\<close>. An
  \<^verbatim>\<open>ErrInvalid\<close> is a constructor that tells the problem.
\<close>

subsection \<open>The configuration\<close>

record identity_section =
  is_key_file :: string
  is_warn_days :: int
  is_refuse_old :: bool

record server =
  sv_addr :: string
  sv_listen :: string
  sv_pin :: string
  sv_enabled :: "bool option"
  sv_local_ports :: "string \<rightharpoonup> int"

record agent =
  ag_listen :: string
  ag_dial :: string
  ag_clients :: "string list"
  ag_routes :: "(string \<times> string) list"
  ag_vhosts :: "(string \<times> string) list"
  ag_allow_mutation :: bool

record log_section =
  lg_level :: string
  lg_format :: string

record config =
  cf_schema :: int
  cf_identity :: identity_section
  cf_servers :: "(string \<times> server) list"
  cf_agent :: "agent option"
  cf_names :: "names_table option"
  cf_log :: log_section

definition empty_agent :: agent where
  "empty_agent = \<lparr>ag_listen = [], ag_dial = [], ag_clients = [], ag_routes = [], ag_vhosts = [], ag_allow_mutation = False\<rparr>"

datatype role = Role_client | Role_agent

datatype server_error =
    Sv_name server_name_error
  | Sv_both_set
  | Sv_neither_set
  | Sv_pin_not_canonical
  | Sv_pin_invalid pin_error

datatype agent_error =
    Ag_missing
  | Ag_both_set
  | Ag_neither_set
  | Ag_no_clients
  | Ag_client_not_canonical nat
  | Ag_client_invalid nat pin_error
  | Ag_route_name string name_rule
  | Ag_route_addr string parse_addr_error
  | Ag_too_many_vhosts nat
  | Ag_vhost_key vhost_rule
  | Ag_vhost_addr string parse_addr_error

datatype removed_key = Removed_ports | Removed_block

datatype toml_error = Toml_unknown_keys string | Toml_type string | Toml_other string

datatype config_error =
    Cf_not_found string
  | Cf_unreadable string
  | Cf_removed removed_key
  | Cf_toml toml_error
  | Cf_env_int string string
  | Cf_env_bool string string
  | Cf_schema int
  | Cf_naming naming_error
  | Cf_server string server_error
  | Cf_shared_pin string string
  | Cf_agent agent_error

datatype warning =
    Wn_disabled_server string server_error
  | Wn_inactive_server string server_error
  | Wn_inactive_agent agent_error
  | Wn_inactive_names naming_error

subsection \<open>Defaults and paths\<close>

text \<open>\<open>home\<close> is \<^verbatim>\<open>os.UserHomeDir\<close>, \<open>None\<close> when it fails.\<close>

definition default_key_file :: "string option \<Rightarrow> string" where
  "default_key_file home =
    (case home of None \<Rightarrow> ''key.pem''
     | Some h \<Rightarrow> if h = [] then ''key.pem'' else path_join [h, ''.config'', ''quic-link'', ''key.pem''])"

definition default_config_file :: "string option \<Rightarrow> string" where
  "default_config_file home =
    (case home of None \<Rightarrow> ''config.toml''
     | Some h \<Rightarrow> if h = [] then ''config.toml'' else path_join [h, ''.config'', ''quic-link'', ''config.toml''])"

definition file_in_use :: "string option \<Rightarrow> string \<Rightarrow> string" where
  "file_in_use home path_flag = (if path_flag \<noteq> [] then path_flag else default_config_file home)"

definition expand_home :: "string option \<Rightarrow> string \<Rightarrow> string" where
  "expand_home home p =
    (if p \<noteq> ''~'' \<and> \<not> has_prefix p ''~/'' then p
     else (case home of None \<Rightarrow> p | Some h \<Rightarrow> if p = ''~'' then h else path_join [h, drop 2 p]))"

definition defaults :: "string option \<Rightarrow> config" where
  "defaults home =
    \<lparr>cf_schema = 0,
     cf_identity = \<lparr>is_key_file = default_key_file home, is_warn_days = 180, is_refuse_old = False\<rparr>,
     cf_servers = [], cf_agent = None, cf_names = None,
     cf_log = \<lparr>lg_level = ''info'', lg_format = ''text''\<rparr>\<rparr>"

subsection \<open>The file\<close>

datatype file_read = File_absent | File_unreadable | File_data bytes

text \<open>\<open>survey\<close> is the permissive decoding: whether a \<^verbatim>\<open>ports\<close> key and a \<^verbatim>\<open>names.block\<close> key are there;
  \<open>decode\<close> the strict decoding over what is there already.\<close>

record toml_lib =
  tl_survey :: "bytes \<Rightarrow> (bool \<times> bool) option"
  tl_decode :: "bytes \<Rightarrow> config \<Rightarrow> toml_error + config"

definition check_removed_keys :: "bool \<times> bool \<Rightarrow> removed_key option" where
  "check_removed_keys s = (if fst s then Some Removed_ports else if snd s then Some Removed_block else None)"

definition load_file ::
  "toml_lib \<Rightarrow> (string \<Rightarrow> file_read) \<Rightarrow> string \<Rightarrow> bool \<Rightarrow> config \<Rightarrow> config_error + config"
where
  "load_file toml read path explicit cfg =
    (case read path of
       File_absent \<Rightarrow> if explicit then Inl (Cf_not_found path) else Inr cfg
     | File_unreadable \<Rightarrow> Inl (Cf_unreadable path)
     | File_data data \<Rightarrow>
        (case (case tl_survey toml data of None \<Rightarrow> None | Some s \<Rightarrow> check_removed_keys s) of
           Some k \<Rightarrow> Inl (Cf_removed k)
         | None \<Rightarrow> (case tl_decode toml data cfg of Inl e \<Rightarrow> Inl (Cf_toml e) | Inr cfg' \<Rightarrow> Inr cfg')))"

subsection \<open>The environment\<close>

definition parse_bool :: "string \<Rightarrow> bool option" where
  "parse_bool s =
    (if s \<in> set [''1'', ''t'', ''T'', ''TRUE'', ''true'', ''True''] then Some True
     else if s \<in> set [''0'', ''f'', ''F'', ''FALSE'', ''false'', ''False''] then Some False
     else None)"

definition env_int :: "string \<Rightarrow> string \<Rightarrow> (int \<Rightarrow> config) \<Rightarrow> config_error + bool \<times> config" where
  "env_int key val put = (case atoi val of None \<Rightarrow> Inl (Cf_env_int key val) | Some n \<Rightarrow> Inr (True, put n))"

definition env_bool :: "string \<Rightarrow> string \<Rightarrow> (bool \<Rightarrow> config) \<Rightarrow> config_error + bool \<times> config" where
  "env_bool key val put = (case parse_bool val of None \<Rightarrow> Inl (Cf_env_bool key val) | Some b \<Rightarrow> Inr (True, put b))"

definition set_agent :: "(agent \<Rightarrow> agent) \<Rightarrow> config \<Rightarrow> config" where
  "set_agent f cfg = cfg\<lparr>cf_agent := Some (f (case cf_agent cfg of None \<Rightarrow> empty_agent | Some a \<Rightarrow> a))\<rparr>"

definition set_names :: "(names_table \<Rightarrow> names_table) \<Rightarrow> config \<Rightarrow> config" where
  "set_names f cfg = cfg\<lparr>cf_names := Some (f (case cf_names cfg of None \<Rightarrow> empty_names | Some n \<Rightarrow> n))\<rparr>"

definition apply_env_var :: "config \<Rightarrow> string \<Rightarrow> string \<Rightarrow> config_error + bool \<times> config" where
  "apply_env_var cfg key val =
    (if key = ''QUIC_LINK_SCHEMA'' then env_int key val (\<lambda>n. cfg\<lparr>cf_schema := n\<rparr>)
     else if key = ''QUIC_LINK_IDENTITY_KEY_FILE''
       then Inr (True, cfg\<lparr>cf_identity := (cf_identity cfg)\<lparr>is_key_file := val\<rparr>\<rparr>)
     else if key = ''QUIC_LINK_IDENTITY_WARN_KEY_AGE_DAYS''
       then env_int key val (\<lambda>n. cfg\<lparr>cf_identity := (cf_identity cfg)\<lparr>is_warn_days := n\<rparr>\<rparr>)
     else if key = ''QUIC_LINK_IDENTITY_REFUSE_OLD_KEY''
       then env_bool key val (\<lambda>b. cfg\<lparr>cf_identity := (cf_identity cfg)\<lparr>is_refuse_old := b\<rparr>\<rparr>)
     else if key = ''QUIC_LINK_AGENT_LISTEN'' then Inr (True, set_agent (\<lambda>a. a\<lparr>ag_listen := val\<rparr>) cfg)
     else if key = ''QUIC_LINK_AGENT_DIAL'' then Inr (True, set_agent (\<lambda>a. a\<lparr>ag_dial := val\<rparr>) cfg)
     else if key = ''QUIC_LINK_LOG_LEVEL'' then Inr (True, cfg\<lparr>cf_log := (cf_log cfg)\<lparr>lg_level := val\<rparr>\<rparr>)
     else if key = ''QUIC_LINK_LOG_FORMAT'' then Inr (True, cfg\<lparr>cf_log := (cf_log cfg)\<lparr>lg_format := val\<rparr>\<rparr>)
     else if key = ''QUIC_LINK_PORTS_MODE'' then Inl (Cf_removed Removed_ports)
     else if key = ''QUIC_LINK_NAMES_SUFFIX'' then Inr (True, set_names (\<lambda>n. n\<lparr>nm_suffix := val\<rparr>) cfg)
     else if key = ''QUIC_LINK_NAMES_BLOCK'' then Inl (Cf_removed Removed_block)
     else if key = ''QUIC_LINK_NAMES_DNS_PORT'' then env_int key val (\<lambda>v. set_names (\<lambda>n. n\<lparr>nm_dns_port := v\<rparr>) cfg)
     else if key = ''QUIC_LINK_NAMES_HTTP_PORT'' then env_int key val (\<lambda>v. set_names (\<lambda>n. n\<lparr>nm_http_port := v\<rparr>) cfg)
     else if key = ''QUIC_LINK_NAMES_HTTPS_PORT'' then env_int key val (\<lambda>v. set_names (\<lambda>n. n\<lparr>nm_https_port := v\<rparr>) cfg)
     else if key = ''QUIC_LINK_NAMES_SUFFIX_IS_MINE'' then env_bool key val (\<lambda>b. set_names (\<lambda>n. n\<lparr>nm_mine := b\<rparr>) cfg)
     else Inr (False, cfg))"

text \<open>\<^verbatim>\<open>strings.Cut\<close> at the first \<^verbatim>\<open>=\<close>.\<close>

definition cut_env :: "string \<Rightarrow> (string \<times> string) option" where
  "cut_env e = map_option (\<lambda>i. (take i e, drop (Suc i) e)) (index_byte e (CHR ''=''))"

text \<open>The overlay and the variables nobody reads, which are warned about in sorted order.\<close>

fun merge_env :: "string list \<Rightarrow> config \<Rightarrow> string list \<Rightarrow> config_error + config \<times> string list" where
  "merge_env [] cfg unknown = Inr (cfg, sort unknown)"
| "merge_env (e # es) cfg unknown =
    (case cut_env e of
       None \<Rightarrow> merge_env es cfg unknown
     | Some (key, val) \<Rightarrow>
        if \<not> has_prefix key ''QUIC_LINK_'' then merge_env es cfg unknown
        else (case apply_env_var cfg key val of
           Inl err \<Rightarrow> Inl err
         | Inr (recognised, cfg') \<Rightarrow> merge_env es cfg' (if recognised then unknown else unknown @ [key])))"

definition load_config ::
  "toml_lib \<Rightarrow> (string \<Rightarrow> file_read) \<Rightarrow> string option \<Rightarrow> string list \<Rightarrow> string \<Rightarrow> config_error + config"
where
  "load_config toml read home environ path =
    (let explicit = (path \<noteq> []); p = (if explicit then path else default_config_file home) in
     bind_result (load_file toml read p explicit (defaults home)) (\<lambda>cfg.
     bind_result (merge_env environ cfg []) (\<lambda>(cfg, _).
       if cf_schema cfg \<noteq> 0 \<and> cf_schema cfg \<noteq> 1 then Inl (Cf_schema (cf_schema cfg))
       else Inr (cfg\<lparr>cf_schema := 1,
              cf_identity := (cf_identity cfg)\<lparr>is_key_file := expand_home home (is_key_file (cf_identity cfg))\<rparr>\<rparr>))))"

subsection \<open>Validation\<close>

definition validate_server_settings :: "server \<Rightarrow> server_error option" where
  "validate_server_settings srv =
    (if sv_addr srv \<noteq> [] \<and> sv_listen srv \<noteq> [] then Some Sv_both_set
     else if sv_addr srv = [] \<and> sv_listen srv = [] then Some Sv_neither_set
     else (case parse_pin_strict (sv_pin srv) of
        Inr _ \<Rightarrow> None
      | Inl e \<Rightarrow> Some (if e = Pin_not_canonical then Sv_pin_not_canonical else Sv_pin_invalid e)))"

definition validate_server :: "string \<Rightarrow> server \<Rightarrow> server_error option" where
  "validate_server name srv =
    (case validate_server_name name of Some e \<Rightarrow> Some (Sv_name e) | None \<Rightarrow> validate_server_settings srv)"

definition sv_disabled :: "server \<Rightarrow> bool" where
  "sv_disabled srv \<longleftrightarrow> sv_enabled srv = Some False"

fun listen_pins :: "(string \<times> server) list \<Rightarrow> (string \<rightharpoonup> string) \<Rightarrow> config_error option" where
  "listen_pins [] seen = None"
| "listen_pins ((name, srv) # ss) seen =
    (if sv_disabled srv then listen_pins ss seen
     else if sv_listen srv = [] \<or> sv_addr srv \<noteq> [] then listen_pins ss seen
     else (case seen (sv_pin srv) of
        Some other \<Rightarrow> Some (Cf_shared_pin other name)
      | None \<Rightarrow> listen_pins ss (seen(sv_pin srv \<mapsto> name))))"

definition validate_distinct_listen_pins :: "(string \<times> server) list \<Rightarrow> config_error option" where
  "validate_distinct_listen_pins ss = listen_pins (sort_key fst ss) Map.empty"

fun check_servers :: "(string \<times> server) list \<Rightarrow> warning list \<Rightarrow> warning list \<times> config_error option" where
  "check_servers [] ws = (ws, None)"
| "check_servers ((name, srv) # ss) ws =
    (case validate_server name srv of
       None \<Rightarrow> check_servers ss ws
     | Some e \<Rightarrow> if sv_disabled srv then check_servers ss (ws @ [Wn_disabled_server name e]) else (ws, Some (Cf_server name e)))"

definition validate_servers :: "config \<Rightarrow> warning list \<times> config_error option" where
  "validate_servers c =
    (let (ws, e) = check_servers (cf_servers c) [] in
     case e of Some _ \<Rightarrow> (ws, e) | None \<Rightarrow> (ws, validate_distinct_listen_pins (cf_servers c)))"

definition validate_servers_warnings :: "(string \<times> server) list \<Rightarrow> warning list" where
  "validate_servers_warnings ss =
    concat (map (\<lambda>(name, srv). case validate_server name srv of None \<Rightarrow> [] | Some e \<Rightarrow> [Wn_inactive_server name e]) ss)"

fun check_clients :: "nat \<Rightarrow> string list \<Rightarrow> agent_error option" where
  "check_clients i [] = None"
| "check_clients i (p # ps) =
    (case parse_pin_strict p of
       Inr _ \<Rightarrow> check_clients (Suc i) ps
     | Inl e \<Rightarrow> Some (if e = Pin_not_canonical then Ag_client_not_canonical i else Ag_client_invalid i e))"

fun check_routes :: "(string \<times> string) list \<Rightarrow> agent_error option" where
  "check_routes [] = None"
| "check_routes ((target, addr) # rs) =
    (case validate_route_name target of
       Some e \<Rightarrow> Some (Ag_route_name target e)
     | None \<Rightarrow> (case parse_addr addr of Inl e \<Rightarrow> Some (Ag_route_addr target e) | Inr _ \<Rightarrow> check_routes rs))"

fun check_vhosts :: "(string \<times> string) list \<Rightarrow> agent_error option" where
  "check_vhosts [] = None"
| "check_vhosts ((host, addr) # vs) =
    (case validate_vhost_key host of
       Some e \<Rightarrow> Some (Ag_vhost_key e)
     | None \<Rightarrow> (case parse_addr addr of Inl e \<Rightarrow> Some (Ag_vhost_addr host e) | Inr _ \<Rightarrow> check_vhosts vs))"

definition validate_agent :: "config \<Rightarrow> agent_error option" where
  "validate_agent c =
    (case cf_agent c of
       None \<Rightarrow> Some Ag_missing
     | Some a \<Rightarrow>
        if ag_listen a \<noteq> [] \<and> ag_dial a \<noteq> [] then Some Ag_both_set
        else if ag_listen a = [] \<and> ag_dial a = [] then Some Ag_neither_set
        else if ag_clients a = [] then Some Ag_no_clients
        else (case check_clients 0 (ag_clients a) of
           Some e \<Rightarrow> Some e
         | None \<Rightarrow>
          (case check_routes (ag_routes a) of
             Some e \<Rightarrow> Some e
           | None \<Rightarrow> if max_vhosts < length (ag_vhosts a) then Some (Ag_too_many_vhosts (length (ag_vhosts a)))
                     else check_vhosts (ag_vhosts a))))"

definition client_warning :: "nat \<Rightarrow> string \<Rightarrow> agent_error list" where
  "client_warning i p = (case parse_pin_strict p of Inr _ \<Rightarrow> []
     | Inl e \<Rightarrow> [if e = Pin_not_canonical then Ag_client_not_canonical i else Ag_client_invalid i e])"

definition route_warnings :: "string \<times> string \<Rightarrow> agent_error list" where
  "route_warnings r =
    (case validate_route_name (fst r) of Some e \<Rightarrow> [Ag_route_name (fst r) e] | None \<Rightarrow> [])
    @ (case parse_addr (snd r) of Inl e \<Rightarrow> [Ag_route_addr (fst r) e] | Inr _ \<Rightarrow> [])"

definition validate_agent_warnings :: "agent \<Rightarrow> warning list" where
  "validate_agent_warnings a = map Wn_inactive_agent
    ((if ag_listen a \<noteq> [] \<and> ag_dial a \<noteq> [] then [Ag_both_set] else [])
     @ (if ag_listen a = [] \<and> ag_dial a = [] then [Ag_neither_set] else [])
     @ (if ag_clients a = [] then [Ag_no_clients] else [])
     @ concat (map2 client_warning [0..<length (ag_clients a)] (ag_clients a))
     @ concat (map route_warnings (ag_routes a)))"

definition validate_config :: "role \<Rightarrow> config \<Rightarrow> warning list \<times> config_error option" where
  "validate_config active c =
    (case active of
       Role_client \<Rightarrow>
         (case config_naming (cf_names c) of
            Inl e \<Rightarrow> ([], Some (Cf_naming e))
          | Inr _ \<Rightarrow>
             (let (ws, e) = validate_servers c in
              case e of Some _ \<Rightarrow> (ws, e)
              | None \<Rightarrow> (ws @ (case cf_agent c of None \<Rightarrow> [] | Some a \<Rightarrow> validate_agent_warnings a), None)))
     | Role_agent \<Rightarrow>
         (case validate_agent c of
            Some e \<Rightarrow> ([], Some (Cf_agent e))
          | None \<Rightarrow>
             ((case config_naming (cf_names c) of Inl e \<Rightarrow> [Wn_inactive_names e] | Inr _ \<Rightarrow> [])
              @ validate_servers_warnings (cf_servers c), None)))"

subsection \<open>What the environment can change\<close>

text \<open>The part of an agent's section that says whom it trusts and what it serves.\<close>

definition agent_trust :: "config \<Rightarrow> string list \<times> (string \<times> string) list \<times> (string \<times> string) list \<times> bool" where
  "agent_trust c = (let a = (case cf_agent c of None \<Rightarrow> empty_agent | Some a \<Rightarrow> a)
     in (ag_clients a, ag_routes a, ag_vhosts a, ag_allow_mutation a))"

lemma set_agent_trust: "(\<And>a. (ag_clients (f a), ag_routes (f a), ag_vhosts (f a), ag_allow_mutation (f a))
    = (ag_clients a, ag_routes a, ag_vhosts a, ag_allow_mutation a)) \<Longrightarrow> agent_trust (set_agent f c) = agent_trust c"
  by (simp add: agent_trust_def set_agent_def split: option.splits)

lemma env_int_InrD: "env_int k v f = Inr (b, c) \<Longrightarrow> \<exists>n. c = f n"
  by (auto simp: env_int_def split: option.splits)

lemma env_bool_InrD: "env_bool k v f = Inr (b, c) \<Longrightarrow> \<exists>n. c = f n"
  by (auto simp: env_bool_def split: option.splits)

lemma apply_env_var_trust:
  "apply_env_var cfg key val = Inr (b, cfg') \<Longrightarrow> cf_servers cfg' = cf_servers cfg \<and> agent_trust cfg' = agent_trust cfg"
  unfolding apply_env_var_def
  by (auto split: if_splits dest!: env_int_InrD env_bool_InrD simp: set_agent_trust)
     (auto simp: agent_trust_def set_names_def set_agent_def)

lemma merge_env_trust:
  "merge_env es cfg u = Inr (cfg', u') \<Longrightarrow> cf_servers cfg' = cf_servers cfg \<and> agent_trust cfg' = agent_trust cfg"
proof (induction es arbitrary: cfg u)
  case (Cons e es)
  then show ?case
    by (auto split: option.splits if_splits sum.splits dest!: apply_env_var_trust)
qed simp

lemma expand_home_abs:
  assumes "is_abs h"
  shows "expand_home (Some h) p \<noteq> ''~'' \<and> \<not> has_prefix (expand_home (Some h) p) ''~/''"
proof -
  have a: "q \<noteq> ''~'' \<and> \<not> has_prefix q ''~/''" if "is_abs q" for q
    using that by (auto simp: is_abs_iff slash_def has_prefix_iff)
  show ?thesis
    using a [OF assms] a [OF path_join_abs [OF assms, of "[drop 2 p]"]] by (simp add: expand_home_def)
qed

text \<open>
  C14: The environment cannot widen whom an agent trusts. Whatever variables a process is given, the
  loaded configuration has the servers, the authorized clients, the routes, the published names and
  the permission to change them of the file alone; the schema is 1, and the key file is spelled out
  when the home directory is known.
\<close>

theorem environment_cannot_widen_trust:
  assumes "load_config toml read home environ path = Inr c"
  shows "cf_schema c = 1 \<and>
    (\<exists>c0. load_file toml read (file_in_use home path) (path \<noteq> []) (defaults home) = Inr c0 \<and>
       cf_servers c = cf_servers c0 \<and> agent_trust c = agent_trust c0) \<and>
    (\<forall>h. home = Some h \<and> is_abs h \<longrightarrow>
       is_key_file (cf_identity c) \<noteq> ''~'' \<and> \<not> has_prefix (is_key_file (cf_identity c)) ''~/'')"
proof -
  have p: "(if path \<noteq> [] then path else default_config_file home) = file_in_use home path"
    by (simp add: file_in_use_def)
  obtain c0 c1 u where 0: "load_file toml read (file_in_use home path) (path \<noteq> []) (defaults home) = Inr c0"
    and 1: "merge_env environ c0 [] = Inr (c1, u)"
    and c: "c = c1\<lparr>cf_schema := 1,
              cf_identity := (cf_identity c1)\<lparr>is_key_file := expand_home home (is_key_file (cf_identity c1))\<rparr>\<rparr>"
    using assms unfolding load_config_def Let_def bind_result_def p
    by (auto split: sum.splits if_splits)
  have "cf_servers c = cf_servers c0 \<and> agent_trust c = agent_trust c0"
    using merge_env_trust [OF 1] by (simp add: c agent_trust_def)
  then show ?thesis using 0 expand_home_abs by (simp add: c)
qed

theorem environment_cannot_widen_trust_witness:
  "\<exists>c. load_config \<lparr>tl_survey = (\<lambda>_. None), tl_decode = (\<lambda>_ c. Inr c)\<rparr> (\<lambda>_. File_absent) (Some ''/h'')
         [''QUIC_LINK_AGENT_DIAL=h:1''] [] = Inr c \<and> agent_trust c = ([], [], [], False)"
proof -
  let ?t = "\<lparr>tl_survey = (\<lambda>_. None), tl_decode = (\<lambda>_ c. Inr c)\<rparr>"
  have lf: "load_file ?t (\<lambda>_. File_absent) p False (defaults (Some ''/h'')) = Inr (defaults (Some ''/h''))" for p
    by (simp add: load_file_def)
  have cut: "cut_env ''QUIC_LINK_AGENT_DIAL=h:1'' = Some (''QUIC_LINK_AGENT_DIAL'', ''h:1'')"
    by (simp add: cut_env_def)
  have "merge_env [''QUIC_LINK_AGENT_DIAL=h:1''] (defaults (Some ''/h'')) [] =
      Inr (set_agent (\<lambda>a. a\<lparr>ag_dial := ''h:1''\<rparr>) (defaults (Some ''/h'')), [])"
    using cut by (simp add: apply_env_var_def has_prefix_def)
  then obtain c where c: "load_config ?t (\<lambda>_. File_absent) (Some ''/h'') [''QUIC_LINK_AGENT_DIAL=h:1''] [] = Inr c"
    unfolding load_config_def Let_def bind_result_def
    by (simp add: lf del: merge_env.simps) (simp add: set_agent_def defaults_def)
  have "agent_trust (defaults (Some ''/h'')) = ([], [], [], False)"
    by (simp add: agent_trust_def defaults_def empty_agent_def)
  then show ?thesis using environment_cannot_widen_trust [OF c] lf c by auto
qed

subsection \<open>What validation guarantees\<close>

lemma strict_same: "parse_pin_strict p = Inr q \<Longrightarrow> q = p"
  by (simp add: parse_pin_strict_iff)

lemma check_clients_iff: "check_clients i ps = None \<longleftrightarrow> (\<forall>p\<in>set ps. parse_pin_strict p = Inr p)"
  by (induction ps arbitrary: i) (auto split: sum.splits dest: strict_same)

lemma check_routes_iff:
  "check_routes rs = None \<longleftrightarrow> (\<forall>x\<in>set rs. validate_route_name (fst x) = None \<and> is_ok (parse_addr (snd x)))"
  by (induction rs) (auto split: option.splits sum.splits)

lemma check_vhosts_iff:
  "check_vhosts vs = None \<longleftrightarrow> (\<forall>x\<in>set vs. validate_vhost_key (fst x) = None \<and> is_ok (parse_addr (snd x)))"
  by (induction vs) (auto split: option.splits sum.splits)

lemma build_routes_all_ok:
  "is_ok (build_routes rs m) \<longleftrightarrow> (\<forall>x\<in>set rs. validate_route_name (fst x) = None \<and> is_ok (parse_addr (fst (snd x))))"
  by (induction rs m rule: build_routes.induct) (simp_all split: option.splits sum.splits prod.splits add: fun_upd_def)

lemma insert_entries_ok:
  "is_ok (insert_entries es v) \<longleftrightarrow> (\<forall>x\<in>set es. validate_vhost_key (fst x) = None \<and> is_ok (parse_addr (snd x)))"
  by (induction es v rule: insert_entries.induct) (simp_all split: option.splits sum.splits prod.splits add: Let_def)

lemma merge_routes_set:
  "(n, a, p) \<in> set (merge_routes overrides) \<Longrightarrow> (n, a) \<in> set overrides \<or> (n, a, p) \<in> set (merge_routes [])"
  by (auto simp: merge_routes_def Let_def split: if_splits)

lemma valid_tables_build:
  assumes "check_routes rs = None" "check_vhosts vs = None" "length vs \<le> max_vhosts"
  shows "\<exists>r. new_with_vhosts rs vs pol = Inr r"
proof -
  have "\<forall>x\<in>set (merge_routes []). validate_route_name (fst x) = None \<and> is_ok (parse_addr (fst (snd x)))"
    using built_in_routes build_routes_all_ok by (metis is_ok_simps(2))
  then have "is_ok (build_routes (merge_routes rs) Map.empty)"
    unfolding build_routes_all_ok using assms(1) merge_routes_set [of _ _ _ rs] by (fastforce simp: check_routes_iff)
  moreover have "is_ok (new_vhosts vs)"
    using assms(2,3) by (simp add: new_vhosts_def insert_entries_ok check_vhosts_iff)
  ultimately show ?thesis by (auto simp: new_with_vhosts_def is_ok_iff)
qed

text \<open>
  An agent whose configuration passes validation can start: exactly one direction is set, its route
  table and its published names build, and its TLS configuration, in either direction, builds and admits
  exactly the holders of the listed keys. Nothing the table would refuse gets past validation.
\<close>

theorem valid_agent_can_start:
  assumes "validate_config Role_agent c = (ws, None)"
  shows "\<exists>a. cf_agent c = Some a \<and> (ag_listen a = [] \<longleftrightarrow> ag_dial a \<noteq> []) \<and>
    (\<exists>r. new_with_vhosts (ag_routes a) (ag_vhosts a) pol = Inr r \<and> router_ok r) \<and>
    (\<forall>mode. \<exists>conf. pinning_tls parse_cert None mode (ag_clients a) = Inr conf \<and>
       (\<forall>certs. tls_accepts chain_ok mode conf resumed certs \<longleftrightarrow>
          (\<exists>leaf rest spki. certs = leaf # rest \<and> parse_cert leaf = Inr spki \<and> pin spki \<in> set (ag_clients a))))"
proof -
  have "validate_agent c = None"
    using assms by (simp add: validate_config_def split: option.splits)
  then obtain a where a: "cf_agent c = Some a" "ag_listen a = [] \<longleftrightarrow> ag_dial a \<noteq> []" "ag_clients a \<noteq> []"
      "check_clients 0 (ag_clients a) = None" "check_routes (ag_routes a) = None"
      "length (ag_vhosts a) \<le> max_vhosts" "check_vhosts (ag_vhosts a) = None"
    by (auto simp: validate_agent_def split: option.splits if_splits)
  obtain r where r: "new_with_vhosts (ag_routes a) (ag_vhosts a) pol = Inr r"
    using valid_tables_build [OF a(5,7,6)] by blast
  have "[] \<notin> set (ag_clients a)"
    using a(4) strict_pin_nonempty by (auto simp: check_clients_iff)
  note tls = listed_pins_configure [OF a(3) this, of parse_cert chain_ok resumed]
  show ?thesis
    by (intro exI [of _ a] conjI a(1,2) exI [of _ r] r new_with_vhosts_ok [OF r] tls)
qed

text \<open>A configuration for the witnesses: one dialling server and a listening agent.\<close>

definition sample_pin :: string where "sample_pin = b64_encode (replicate 32 CHR 0x00)"

lemma sample_pin_strict: "parse_pin_strict sample_pin = Inr sample_pin"
  unfolding sample_pin_def parse_pin_strict_iff
  by (auto simp: digest_size_def intro: exI [of _ "replicate 32 CHR 0x00"])

definition sample_config :: config where
  "sample_config = (defaults None)
     \<lparr>cf_servers := [(''db'', \<lparr>sv_addr = ''h:1'', sv_listen = [], sv_pin = sample_pin, sv_enabled = None,
                            sv_local_ports = Map.empty\<rparr>)],
      cf_agent := Some (empty_agent\<lparr>ag_listen := ''h:1'', ag_clients := [sample_pin]\<rparr>)\<rparr>"

theorem valid_agent_can_start_witness:
  "\<exists>ws a. validate_config Role_agent sample_config = (ws, None) \<and> cf_agent sample_config = Some a \<and>
     (\<exists>r. new_with_vhosts (ag_routes a) (ag_vhosts a) None = Inr r)"
proof -
  have "validate_agent sample_config = None"
    by (simp add: validate_agent_def sample_config_def sample_pin_strict empty_agent_def max_vhosts_def)
  then obtain ws where ws: "validate_config Role_agent sample_config = (ws, None)"
    by (simp add: validate_config_def)
  then show ?thesis using valid_agent_can_start [OF ws] by blast
qed

lemma check_servers_iff:
  "snd (check_servers ss ws) = None \<longleftrightarrow> (\<forall>x\<in>set ss. sv_disabled (snd x) \<or> validate_server (fst x) (snd x) = None)"
  by (induction ss ws rule: check_servers.induct) (simp_all split: option.splits)

definition waits :: "server \<Rightarrow> bool" where
  "waits s \<longleftrightarrow> \<not> sv_disabled s \<and> sv_listen s \<noteq> [] \<and> sv_addr s = []"

lemma listen_pins_Cons:
  "listen_pins (x # ss) seen =
    (if \<not> waits (snd x) then listen_pins ss seen
     else (case seen (sv_pin (snd x)) of
        Some other \<Rightarrow> Some (Cf_shared_pin other (fst x))
      | None \<Rightarrow> listen_pins ss (seen(sv_pin (snd x) \<mapsto> fst x))))"
  by (cases x) (auto simp: waits_def split: option.split)

lemma distinct_map_filter_Cons:
  assumes "P x"
  shows "distinct (map f (filter P (x # xs))) \<longleftrightarrow>
    (\<forall>y\<in>set xs. P y \<longrightarrow> f y \<noteq> f x) \<and> distinct (map f (filter P xs))"
  using assms by (auto simp: image_iff dest: sym)

lemma listen_pins_iff:
  "listen_pins ss seen = None \<longleftrightarrow>
     distinct (map (\<lambda>x. sv_pin (snd x)) (filter (\<lambda>x. waits (snd x)) ss)) \<and>
     (\<forall>x\<in>set ss. waits (snd x) \<longrightarrow> seen (sv_pin (snd x)) = None)"
proof (induction ss arbitrary: seen)
  case (Cons x ss)
  show ?case
  proof (cases "waits (snd x) \<and> seen (sv_pin (snd x)) = None")
    case True
    then have "listen_pins (x # ss) seen = listen_pins ss (seen(sv_pin (snd x) \<mapsto> fst x))"
      by (simp add: listen_pins_Cons)
    then have 1: "listen_pins (x # ss) seen = None \<longleftrightarrow>
        distinct (map (\<lambda>x. sv_pin (snd x)) (filter (\<lambda>x. waits (snd x)) ss)) \<and>
        (\<forall>y\<in>set ss. waits (snd y) \<longrightarrow> sv_pin (snd y) \<noteq> sv_pin (snd x) \<and> seen (sv_pin (snd y)) = None)"
      by (simp only: Cons.IH) (simp only: fun_upd_apply, simp, blast)
    have 2: "distinct (map (\<lambda>x. sv_pin (snd x)) (filter (\<lambda>x. waits (snd x)) (x # ss))) \<longleftrightarrow>
        (\<forall>y\<in>set ss. waits (snd y) \<longrightarrow> sv_pin (snd y) \<noteq> sv_pin (snd x)) \<and>
        distinct (map (\<lambda>x. sv_pin (snd x)) (filter (\<lambda>x. waits (snd x)) ss))"
      using True by (intro distinct_map_filter_Cons) simp
    show ?thesis unfolding 1 2 using True by (simp only: list.set ball_simps) blast
  next
    case False
    then show ?thesis by (auto simp: listen_pins_Cons Cons.IH)
  qed
qed simp

lemma distinct_map_filter_sorted:
  "distinct (map f (filter P (sort_key k xs))) \<longleftrightarrow> distinct (map f (filter P xs))"
  by (simp add: filter_sort distinct_map)

lemma distinct_map_pairs:
  "distinct (map f (filter P xs)) \<Longrightarrow> x \<in> set xs \<Longrightarrow> y \<in> set xs \<Longrightarrow> P x \<Longrightarrow> P y \<Longrightarrow> f x = f y \<Longrightarrow> x = y"
  by (simp add: distinct_map inj_on_def)

lemma valid_client_server:
  assumes "validate_config Role_client c = (ws, None)" "(name, s) \<in> set (cf_servers c)" "\<not> sv_disabled s"
  shows "valid_label name" "sv_addr s = [] \<longleftrightarrow> sv_listen s \<noteq> []" "parse_pin_strict (sv_pin s) = Inr (sv_pin s)"
    "validate_distinct_listen_pins (cf_servers c) = None" "is_ok (config_naming (cf_names c))"
proof -
  obtain n where n: "config_naming (cf_names c) = Inr n"
    using assms(1) by (auto simp: validate_config_def split: sum.splits)
  have vs: "snd (validate_servers c) = None"
    using assms(1) n by (auto simp: validate_config_def Let_def split: prod.splits option.splits)
  then have "snd (check_servers (cf_servers c) []) = None" and lp: "validate_distinct_listen_pins (cf_servers c) = None"
    by (auto simp: validate_servers_def Let_def split: prod.splits option.splits)
  then have "validate_server name s = None"
    using assms(2,3) by (force simp: check_servers_iff)
  then show "valid_label name" "sv_addr s = [] \<longleftrightarrow> sv_listen s \<noteq> []" "parse_pin_strict (sv_pin s) = Inr (sv_pin s)"
    by (auto simp: validate_server_def validate_server_settings_def validate_server_name_iff parse_pin_strict_iff
        split: option.splits if_splits sum.splits)
  show "validate_distinct_listen_pins (cf_servers c) = None" by (rule lp)
  show "is_ok (config_naming (cf_names c))" by (simp add: n)
qed

text \<open>
  For a client whose configuration passes validation, each enabled server has a name that can be a
  hostname label and exactly one of an address and a listening place, its TLS configuration admits
  exactly the holder of the one key its pin names, and an inbound peer's pin identifies at most one of
  the servers that wait to be connected to.
\<close>

theorem valid_client_servers:
  assumes "validate_config Role_client c = (ws, None)" and "(name, s) \<in> set (cf_servers c)" and "\<not> sv_disabled s"
  shows "valid_label name \<and> (sv_addr s = [] \<longleftrightarrow> sv_listen s \<noteq> []) \<and> (\<exists>n. config_naming (cf_names c) = Inr n) \<and>
    (\<forall>mode. \<exists>conf. pinning_tls parse_cert None mode [sv_pin s] = Inr conf \<and>
       (\<forall>certs. tls_accepts chain_ok mode conf resumed certs \<longleftrightarrow>
          (\<exists>leaf rest spki. certs = leaf # rest \<and> parse_cert leaf = Inr spki \<and> pin spki = sv_pin s))) \<and>
    (\<forall>name' s'. (name', s') \<in> set (cf_servers c) \<and> waits s \<and> waits s' \<and> sv_pin s' = sv_pin s \<longrightarrow>
       name' = name \<and> s' = s)"
proof -
  note v = valid_client_server [OF assms] and lp = valid_client_server(4) [OF assms]
  obtain n where n: "config_naming (cf_names c) = Inr n" using v(5) by (auto simp: is_ok_iff)
  have "sv_pin s \<noteq> []" using v(3) by (rule strict_pin_nonempty)
  then have tls: "\<forall>mode. \<exists>conf. pinning_tls parse_cert None mode [sv_pin s] = Inr conf \<and>
       (\<forall>certs. tls_accepts chain_ok mode conf resumed certs \<longleftrightarrow>
          (\<exists>leaf rest spki. certs = leaf # rest \<and> parse_cert leaf = Inr spki \<and> pin spki = sv_pin s))"
    using listed_pins_configure [of "[sv_pin s]" parse_cert chain_ok resumed] by simp
  have "distinct (map (\<lambda>x. sv_pin (snd x)) (filter (\<lambda>x. waits (snd x)) (cf_servers c)))"
    using lp by (simp add: validate_distinct_listen_pins_def listen_pins_iff distinct_map_filter_sorted)
  then have "name' = name \<and> s' = s"
    if "(name', s') \<in> set (cf_servers c)" "waits s" "waits s'" "sv_pin s' = sv_pin s" for name' s'
    using distinct_map_pairs [where x = "(name', s')" and y = "(name, s)" and xs = "cf_servers c"
        and P = "\<lambda>x. waits (snd x)" and f = "\<lambda>x. sv_pin (snd x)"] that assms(2) by auto
  then have same: "\<forall>name' s'. (name', s') \<in> set (cf_servers c) \<and> waits s \<and> waits s' \<and> sv_pin s' = sv_pin s \<longrightarrow>
       name' = name \<and> s' = s" by blast
  show ?thesis by (intro conjI v(1,2) exI [of _ n] n tls same)
qed

lemma sample_config_is_valid: "\<exists>ws. validate_config Role_client sample_config = (ws, None)"
proof -
  let ?s = "\<lparr>sv_addr = ''h:1'', sv_listen = [], sv_pin = sample_pin, sv_enabled = None, sv_local_ports = Map.empty\<rparr>"
  have name: "validate_server_name ''db'' = None"
    by (simp add: validate_server_name_iff valid_label_def dns_label_bytes_iff lower_or_digit_or_dash_def)
  obtain n where n: "config_naming None = Inr n"
    by (simp add: config_naming_def empty_names_def resolve_suffix_def resolve_naming_port_def
        default_dns_port_def default_http_port_def default_https_port_def)
  have "validate_server ''db'' ?s = None"
    by (simp add: validate_server_def name validate_server_settings_def sample_pin_strict)
  then have "validate_servers sample_config = ([], None)"
    by (simp add: validate_servers_def sample_config_def validate_distinct_listen_pins_def sv_disabled_def)
  moreover have "cf_names sample_config = None" by (simp add: sample_config_def defaults_def)
  ultimately show ?thesis using n by (simp add: validate_config_def)
qed

lemma sample_pin_parses: "parse_pin sample_pin = Inr sample_pin"
  using sample_pin_strict by (auto simp: parse_pin_strict_def split: sum.splits if_splits)

theorem valid_client_servers_witness:
  "\<exists>ws. validate_config Role_client sample_config = (ws, None) \<and> valid_label ''db'' \<and>
     (\<exists>n. config_naming (cf_names sample_config) = Inr n)"
proof -
  let ?s = "\<lparr>sv_addr = ''h:1'', sv_listen = [], sv_pin = sample_pin, sv_enabled = None, sv_local_ports = Map.empty\<rparr>"
  obtain ws where ws: "validate_config Role_client sample_config = (ws, None)" using sample_config_is_valid by blast
  have "(''db'', ?s) \<in> set (cf_servers sample_config)" "\<not> sv_disabled ?s"
    by (simp_all add: sample_config_def sv_disabled_def)
  then have "valid_label ''db'' \<and> (\<exists>n. config_naming (cf_names sample_config) = Inr n)"
    using valid_client_servers [OF ws] by blast
  then show ?thesis using ws by blast
qed

end
