(* ===== verification/Edge.thy ===== *)
theory Edge
  imports Names_HTTP Names_SNI Tunnel_Attach Config_Naming
begin

text \<open>
  Package \<^verbatim>\<open>internal/edge\<close>: the daemon's listeners on the loopback interface.

  \<^verbatim>\<open>HostEdge\<close> (\<^verbatim>\<open>http.go\<close>) reads a connection until a peeker finds where it is going, checks that
  name against the zone, and hands the connection on with everything already read. The locale \<open>peeker\<close>
  is what it relies on; the HTTP and the SNI peekers are its interpretations. \<^verbatim>\<open>AcquirePair\<close>
  (\<^verbatim>\<open>edge.go\<close>) binds two ports as one block. A connection is the list of chunks its reads return and
  the error that ends them.
\<close>

subsection \<open>Peekers\<close>

text \<open>A peeker returns the host and how much it consumed; consuming nothing asks for more bytes.\<close>

definition http_name :: "bytes \<Rightarrow> host_error + (string \<times> nat)" where
  "http_name buf =
    (case header_end buf of
       None \<Rightarrow> Inr ([], 0)
     | Some n \<Rightarrow> (case host_from_request (take n buf) of Inl e \<Rightarrow> Inl e | Inr host \<Rightarrow> Inr (host, n)))"

definition sni_name :: "bytes \<Rightarrow> host_error + (string \<times> nat)" where
  "sni_name buf =
    (case sni_from_client_hello buf of
       Inl e \<Rightarrow> Inl e
     | Inr None \<Rightarrow> Inr ([], 0)
     | Inr (Some host) \<Rightarrow> Inr (host, length buf))"

datatype 'e peek_error = Peek_refused 'e | Never_said | Read_failed io_error

text \<open>\<^verbatim>\<open>peek\<close>: one iteration per read. The size limit is looked at after the name.\<close>

fun peek ::
  "(bytes \<Rightarrow> 'e + (string \<times> nat)) \<Rightarrow> bytes \<Rightarrow> bytes list \<Rightarrow> io_error \<Rightarrow> 'e peek_error + (string \<times> bytes)"
where
  "peek name buf [] e = Inl (Read_failed e)"
| "peek name buf (c # cs) e =
    (if c = [] then peek name buf cs e
     else (let buf' = buf @ c in
       case name buf' of
         Inl err \<Rightarrow> Inl (Peek_refused err)
       | Inr (host, consumed) \<Rightarrow>
           if 0 < consumed then Inr (host, buf')
           else if max_header_bytes \<le> length buf' then Inl Never_said
           else peek name buf' cs e))"

subsection \<open>Handling a connection\<close>

datatype edge_outcome =
    Cut_unreadable
  | Cut_refused
  | Cut_unserved host_error
  | Cut_no_session string
  | Attaches string string bytes

text \<open>\<open>open_conn\<close> says whether the pool has a session for a server.\<close>

definition handle ::
  "(bytes \<Rightarrow> 'e + (string \<times> nat)) \<Rightarrow> zone \<Rightarrow> (string \<Rightarrow> bool) \<Rightarrow> bytes list \<Rightarrow> io_error \<Rightarrow> edge_outcome"
where
  "handle name z open_conn cs e =
    (case peek name [] cs e of
       Inl (Read_failed _) \<Rightarrow> Cut_unreadable
     | Inl _ \<Rightarrow> Cut_refused
     | Inr (raw, pfx) \<Rightarrow>
        (case route z raw of
           Inl err \<Rightarrow> Cut_unserved err
         | Inr (srv, service, host) \<Rightarrow>
             if open_conn srv then Attaches srv host pfx else Cut_no_session srv))"

text \<open>A slot is taken when a connection is accepted and given back when its handler returns.\<close>

definition max_in_flight_peeks :: nat where "max_in_flight_peeks = 256"

datatype accept_event = Accepted | Handled

fun accept_loop :: "accept_event list \<Rightarrow> nat \<Rightarrow> nat \<times> nat" where
  "accept_loop [] n = (n, 0)"
| "accept_loop (Accepted # es) n =
    (if n < max_in_flight_peeks then accept_loop es (Suc n)
     else (let (m, refused) = accept_loop es n in (m, Suc refused)))"
| "accept_loop (Handled # es) n = accept_loop es (n - 1)"

lemma accept_loop_bound: "n \<le> max_in_flight_peeks \<Longrightarrow> fst (accept_loop es n) \<le> max_in_flight_peeks"
  by (induction es n rule: accept_loop.induct) (auto simp: split_def Let_def)

subsection \<open>The contract of a peeker\<close>

locale peeker =
  fixes name :: "bytes \<Rightarrow> 'e + (string \<times> nat)"
  assumes found_stable: "name b = Inr (h, c) \<Longrightarrow> 0 < c \<Longrightarrow> \<exists>c' > 0. name (b @ x) = Inr (h, c')"
    and refused_stable: "name b = Inl e \<Longrightarrow> name (b @ x) = Inr (h, c) \<Longrightarrow> c = 0"
begin

text \<open>A name found is found in the first bytes that show it, and a refusal is never turned into one.\<close>

lemma peek_InrD:
  "peek name buf cs e = Inr (h, p) \<Longrightarrow>
     (\<exists>c > 0. name p = Inr (h, c)) \<and> (\<exists>k. p = buf @ concat (take k cs))"
proof (induction cs arbitrary: buf)
  case (Cons c cs)
  show ?case
  proof (cases "c \<noteq> [] \<and> (\<exists>host n. name (buf @ c) = Inr (host, n) \<and> 0 < n)")
    case True
    then show ?thesis using Cons.prems by (auto intro: exI [of _ 1])
  next
    case False
    then have "peek name (buf @ c) cs e = Inr (h, p)"
      using Cons.prems by (auto simp: Let_def split: if_splits sum.splits prod.splits)
    from Cons.IH [OF this] obtain k n where "0 < n" "name p = Inr (h, n)" "p = (buf @ c) @ concat (take k cs)"
      by blast
    then show ?thesis by (auto intro!: exI [of _ "Suc k"])
  qed
qed simp

lemma found_unique:
  assumes "name p = Inr (h, c)" "0 < c" "name q = Inr (g, d)" "0 < d" "p @ x = q @ y"
  shows "h = g"
proof -
  obtain c' where "name (p @ x) = Inr (h, c')" using found_stable [OF assms(1,2)] by blast
  moreover obtain d' where "name (q @ y) = Inr (g, d')" using found_stable [OF assms(3,4)] by blast
  ultimately show ?thesis using assms(5) by simp
qed

lemma peek_refused:
  "peek name buf cs e = Inl (Peek_refused err) \<Longrightarrow> \<exists>k. name (buf @ concat (take k cs)) = Inl err"
proof (induction cs arbitrary: buf)
  case (Cons c cs)
  show ?case
  proof (cases "c \<noteq> [] \<and> name (buf @ c) = Inl err")
    case True
    then show ?thesis by (intro exI [of _ 1]) simp
  next
    case False
    then have "peek name (buf @ c) cs e = Inl (Peek_refused err)"
      using Cons.prems by (auto simp: Let_def split: if_splits sum.splits prod.splits)
    from Cons.IH [OF this] obtain k where "name ((buf @ c) @ concat (take k cs)) = Inl err" by blast
    then show ?thesis by (intro exI [of _ "Suc k"]) simp
  qed
qed simp

lemma cut_anywhere:
  assumes "peek name [] cs e = Inr (h, p)" "concat cs = concat cs'"
  shows "peek name [] cs' e' = Inr (g, q) \<Longrightarrow> g = h"
    and "\<nexists>err. peek name [] cs' e' = Inl (Peek_refused err) \<and> length p \<le> length (concat cs') \<and>
      (\<exists>k. name (concat (take k cs')) = Inl err \<and> length (concat (take k cs')) \<le> length p)"
proof -
  obtain c k where p: "0 < c" "name p = Inr (h, c)" "p = concat (take k cs)"
    using peek_InrD [OF assms(1)] by auto
  have whole: "p @ concat (drop k cs) = concat cs'"
    unfolding p(3) assms(2) [symmetric] by (metis append_take_drop_id concat_append)
  show "g = h" if g: "peek name [] cs' e' = Inr (g, q)"
  proof -
    obtain d j where q: "0 < d" "name q = Inr (g, d)" "q = concat (take j cs')"
      using peek_InrD [OF g] by auto
    have "q @ concat (drop j cs') = concat cs'"
      unfolding q(3) by (metis append_take_drop_id concat_append)
    then show ?thesis using found_unique [OF q(2,1) p(2,1)] whole by metis
  qed
  show "\<nexists>err. peek name [] cs' e' = Inl (Peek_refused err) \<and> length p \<le> length (concat cs') \<and>
      (\<exists>k. name (concat (take k cs')) = Inl err \<and> length (concat (take k cs')) \<le> length p)"
  proof
    assume "\<exists>err. peek name [] cs' e' = Inl (Peek_refused err) \<and> length p \<le> length (concat cs') \<and>
      (\<exists>k. name (concat (take k cs')) = Inl err \<and> length (concat (take k cs')) \<le> length p)"
    then obtain err j where r: "name (concat (take j cs')) = Inl err" "length (concat (take j cs')) \<le> length p" by blast
    have "concat (take j cs') @ concat (drop j cs') = concat cs'"
      by (metis append_take_drop_id concat_append)
    then obtain t where "p = concat (take j cs') @ t"
      using whole r(2) by (metis append_eq_append_conv_if append_eq_conv_conj)
    then show False using refused_stable [OF r(1)] p by auto
  qed
qed

lemma handle_attaches:
  assumes "handle name z open_conn cs e = Attaches srv host pfx"
  shows "\<exists>raw service. peek name [] cs e = Inr (raw, pfx) \<and> route z raw = Inr (srv, service, host) \<and> open_conn srv"
  using assms by (auto simp: handle_def split: sum.splits peek_error.splits prod.splits if_splits)

lemma handle_sound:
  assumes "handle name z open_conn cs e = Attaches srv host pfx"
  shows "srv \<in> z_servers z \<and> open_conn srv \<and>
    (\<exists>raw service n. name pfx = Inr (raw, n) \<and> 0 < n \<and> route z raw = Inr (srv, service, host)) \<and>
    (\<exists>k. pfx = concat (take k cs) \<and> pfx @ concat (drop k cs) = concat cs) \<and>
    (\<forall>cs' e' srv' host' pfx'. concat cs' = concat cs \<and> handle name z open_conn cs' e' = Attaches srv' host' pfx' \<longrightarrow>
       srv' = srv \<and> host' = host)"
proof -
  obtain raw service where a: "peek name [] cs e = Inr (raw, pfx)" "route z raw = Inr (srv, service, host)" "open_conn srv"
    using handle_attaches [OF assms] by blast
  have "srv \<in> z_servers z"
    using a(2) by (auto simp: route_def manages_def split: sum.splits if_splits option.splits)
  moreover obtain k c where k: "0 < c" "name pfx = Inr (raw, c)" "pfx = concat (take k cs)"
    using peek_InrD [OF a(1)] by auto
  moreover have "pfx @ concat (drop k cs) = concat cs"
    unfolding k(3) by (metis append_take_drop_id concat_append)
  moreover have "srv' = srv \<and> host' = host"
    if same: "concat cs' = concat cs" and att: "handle name z open_conn cs' e' = Attaches srv' host' pfx'"
    for cs' e' srv' host' pfx'
  proof -
    obtain raw' service' where b: "peek name [] cs' e' = Inr (raw', pfx')" "route z raw' = Inr (srv', service', host')"
      using handle_attaches [OF att] by blast
    have "raw' = raw" using cut_anywhere(1) [OF a(1) same [symmetric] b(1)] .
    then show ?thesis using a(2) b(2) by simp
  qed
  ultimately show ?thesis using a(2,3) by blast
qed

end

interpretation http_peek: peeker http_name
proof unfold_locales
  fix b h c x
  assume "http_name b = Inr (h, c)" "0 < c"
  then obtain n where n: "header_end b = Some n" "host_from_request (take n b) = Inr h"
    by (auto simp: http_name_def split: option.splits sum.splits)
  have "take n (b @ x) = take n b" "0 < n" using header_end_le [OF n(1)] by simp_all
  then show "\<exists>c'>0. http_name (b @ x) = Inr (h, c')"
    using n header_end_append [OF n(1), of x] by (simp add: http_name_def del: take_append)
next
  fix b e x h c
  assume "http_name b = Inl e" "http_name (b @ x) = Inr (h, c)"
  then obtain n where n: "header_end b = Some n" "host_from_request (take n b) = Inl e"
    by (auto simp: http_name_def split: option.splits sum.splits)
  have "take n (b @ x) = take n b" using header_end_le [OF n(1)] by simp
  then show "c = 0"
    using n header_end_append [OF n(1), of x] \<open>http_name (b @ x) = Inr (h, c)\<close> by (simp add: http_name_def del: take_append)
qed

interpretation sni_peek: peeker sni_name
proof unfold_locales
  fix b h c x
  assume "sni_name b = Inr (h, c)" "0 < c"
  then have "sni_from_client_hello b = Inr (Some h)" "0 < length b"
    by (auto simp: sni_name_def split: sum.splits option.splits)
  then show "\<exists>c'>0. sni_name (b @ x) = Inr (h, c')"
    using sni_found_append by (simp add: sni_name_def)
next
  fix b e x h c
  assume "sni_name b = Inl e" "sni_name (b @ x) = Inr (h, c)"
  then show "c = 0"
    using sni_refused_append [of b e x] by (auto simp: sni_name_def split: sum.splits option.splits)
qed

text \<open>
  C32: A connection reaches a session only for a name this machine serves, and intact. The server it is
  attached to is one the zone manages and owns the host the stream is opened for; the bytes replayed
  are exactly what was read and what follows them is exactly what the client still sends; and how the
  network cut the request into reads never changes where it goes. This holds for plain HTTP and for TLS.
\<close>

theorem edge_routes_by_name_only:
  assumes "handle name z open_conn cs e = Attaches srv host pfx" and "name = http_name \<or> name = sni_name"
  shows "srv \<in> z_servers z \<and> open_conn srv \<and>
    (\<exists>raw service n. name pfx = Inr (raw, n) \<and> 0 < n \<and> route z raw = Inr (srv, service, host)) \<and>
    (\<exists>k. pfx = concat (take k cs) \<and> pfx @ concat (drop k cs) = concat cs) \<and>
    (\<forall>cs' e' srv' host' pfx'. concat cs' = concat cs \<and> handle name z open_conn cs' e' = Attaches srv' host' pfx' \<longrightarrow>
       srv' = srv \<and> host' = host)"
  using assms(2)
proof
  assume n: "name = http_name"
  show ?thesis using http_peek.handle_sound [OF assms(1) [unfolded n]] unfolding n .
next
  assume n: "name = sni_name"
  show ?thesis using sni_peek.handle_sound [OF assms(1) [unfolded n]] unfolding n .
qed

lemma http_sample: "http_name sample_request = Inr (''a.b'', length sample_request)"
proof -
  have "header_end sample_request = Some (length sample_request)"
    by (simp add: sample_request_def header_end_def crlf_def index_str.simps has_prefix_def)
  then show ?thesis by (simp add: http_name_def host_sample)
qed

lemma route_sample:
  "route \<lparr>z_suffix = ''b'', z_servers = {''a''}, z_probes = {}\<rparr> ''a.b'' = Inr (''a'', [], ''a.b'')"
proof -
  have h: "host_form ''a.b''"
    by (simp add: host_form_def dns_label_bytes_iff lower_or_digit_or_dash_def)
  have "\<not> parse_ip ''a.b''" by (simp add: parse_ip_def ipv4_ok_def)
  then have "normalize_host ''a.b'' = Inr ''a.b''"
    using normalize_decorated(2) [OF h, of "[]" "[]"] by simp
  then show ?thesis
    by (simp add: route_def in_suffix_def split_host_def manages_def has_suffix_def trim_suffix_def Let_def)
qed

theorem edge_routes_by_name_only_witness:
  "handle http_name \<lparr>z_suffix = ''b'', z_servers = {''a''}, z_probes = {}\<rparr> (\<lambda>_. True)
     [sample_request, ''body''] EOF = Attaches ''a'' ''a.b'' sample_request \<and>
   ''a'' \<in> z_servers \<lparr>z_suffix = ''b'', z_servers = {''a''}, z_probes = {}\<rparr>"
proof -
  let ?z = "\<lparr>z_suffix = ''b'', z_servers = {''a''}, z_probes = {}\<rparr>"
  have "sample_request \<noteq> []" by (simp add: sample_request_def)
  then have h: "handle http_name ?z (\<lambda>_. True) [sample_request, ''body''] EOF = Attaches ''a'' ''a.b'' sample_request"
    by (simp add: handle_def http_sample route_sample)
  then show ?thesis using edge_routes_by_name_only [OF h] by blast
qed

subsection \<open>A name in a log line\<close>

definition max_logged_host_len :: nat where "max_logged_host_len = 120"

definition safe_host_for_log :: "string \<Rightarrow> string" where
  "safe_host_for_log raw =
    (if raw = [] then ''(none)''
     else (let truncated = (max_logged_host_len < length raw);
               kept = (if truncated then take max_logged_host_len raw else raw)
       in map (\<lambda>c. if ord c < 0x20 \<or> 0x7f \<le> ord c then CHR ''?'' else c) kept
          @ (if truncated then ''...'' else [])))"

lemma safe_host_for_log_safe:
  "length (safe_host_for_log raw) \<le> 123 \<and> (\<forall>c\<in>set (safe_host_for_log raw). 0x20 \<le> ord c \<and> ord c < 0x7f)"
  by (auto simp: safe_host_for_log_def max_logged_host_len_def Let_def)

subsection \<open>A pair of ports\<close>

text \<open>\<open>bind\<close> says whether the listener of a port can be bound in a given block; the events are what
  happens to listeners.\<close>

definition port_probe_blocks :: nat where "port_probe_blocks = 10"

datatype listener_event = Bound int | Closed int

fun probe_blocks :: "(nat \<Rightarrow> int \<Rightarrow> bool) \<Rightarrow> int \<Rightarrow> int \<Rightarrow> nat list \<Rightarrow> (int \<times> int) option \<times> listener_event list" where
  "probe_blocks bind ssh docker [] = (None, [])"
| "probe_blocks bind ssh docker (i # is) =
    (let sp = ssh + int i * 10; dp = docker + int i * 10 in
     if \<not> bind i sp then probe_blocks bind ssh docker is
     else if \<not> bind i dp then
       (let (r, es) = probe_blocks bind ssh docker is in (r, Bound sp # Closed sp # es))
     else (Some (sp, dp), [Bound sp, Bound dp]))"

definition acquire_pair ::
  "(nat \<Rightarrow> int \<Rightarrow> bool) \<Rightarrow> string \<Rightarrow> (string \<rightharpoonup> int) \<Rightarrow> (int \<times> int) option \<times> listener_event list"
where
  "acquire_pair bind srv overrides =
    (let (ssh, docker) = local_ports srv overrides in probe_blocks bind ssh docker [0..<port_probe_blocks])"

text \<open>The listeners held after a run of events.\<close>

definition open_after :: "listener_event list \<Rightarrow> int list" where
  "open_after es = foldl (\<lambda>ps e. case e of Bound p \<Rightarrow> ps @ [p] | Closed p \<Rightarrow> remove1 p ps) [] es"

lemma open_after_dropped: "open_after (Bound p # Closed p # es) = open_after es"
  by (simp add: open_after_def)

definition both_free :: "(nat \<Rightarrow> int \<Rightarrow> bool) \<Rightarrow> int \<Rightarrow> int \<Rightarrow> nat \<Rightarrow> bool" where
  "both_free bind ssh docker i \<longleftrightarrow> bind i (ssh + int i * 10) \<and> bind i (docker + int i * 10)"

definition first_block :: "(nat \<Rightarrow> int \<Rightarrow> bool) \<Rightarrow> int \<Rightarrow> int \<Rightarrow> nat list \<Rightarrow> nat option" where
  "first_block bind ssh docker is = find (both_free bind ssh docker) is"

lemma probe_blocks_spec:
  "fst (probe_blocks bind ssh docker is) =
     map_option (\<lambda>i. (ssh + int i * 10, docker + int i * 10)) (first_block bind ssh docker is) \<and>
   open_after (snd (probe_blocks bind ssh docker is)) =
     (case first_block bind ssh docker is of None \<Rightarrow> [] | Some i \<Rightarrow> [ssh + int i * 10, docker + int i * 10])"
proof (induction "is")
  case Nil
  then show ?case by (simp add: first_block_def open_after_def)
next
  case (Cons i "is")
  show ?case
  proof (cases "both_free bind ssh docker i")
    case True
    then show ?thesis by (simp add: first_block_def both_free_def open_after_def Let_def)
  next
    case False
    then show ?thesis
      using Cons by (auto simp: first_block_def both_free_def Let_def split_def open_after_dropped)
  qed
qed

lemma first_block_iff:
  "first_block bind ssh docker [0..<n] = Some i \<longleftrightarrow>
     i < n \<and> both_free bind ssh docker i \<and> (\<forall>j < i. \<not> both_free bind ssh docker j)"
  unfolding first_block_def find_Some_iff by (auto intro!: exI [of _ i])

text \<open>
  Port pairs are taken whole and never leaked: a pair is found exactly when some block has both
  ports free, it is the first such block, its ports keep the distance of the configured ones, and exactly
  those two listeners stay open; when no block has both, every listener bound on the way was closed.
\<close>

theorem acquire_pair_no_leak:
  fixes overrides :: "string \<rightharpoonup> int"
  assumes "local_ports srv overrides = (ssh, docker)"
  shows "(fst (acquire_pair bind srv overrides) = Some (sp, dp) \<longleftrightarrow>
      (\<exists>i < 10. both_free bind ssh docker i \<and> (\<forall>j < i. \<not> both_free bind ssh docker j) \<and>
         sp = ssh + int i * 10 \<and> dp = docker + int i * 10)) \<and>
    (fst (acquire_pair bind srv overrides) = None \<longleftrightarrow> (\<forall>i < 10. \<not> both_free bind ssh docker i)) \<and>
    open_after (snd (acquire_pair bind srv overrides)) =
      (case fst (acquire_pair bind srv overrides) of None \<Rightarrow> [] | Some (sp, dp) \<Rightarrow> [sp, dp])"
proof -
  let ?f = "first_block bind ssh docker [0..<10]"
  have run: "acquire_pair bind srv overrides = probe_blocks bind ssh docker [0..<10]"
    by (simp add: acquire_pair_def assms port_probe_blocks_def del: upt_Suc upt_rec_numeral)
  have none: "?f = None \<longleftrightarrow> (\<forall>i < 10. \<not> both_free bind ssh docker i)"
    by (auto simp: first_block_def find_None_iff simp del: upt_Suc upt_rec_numeral)
  note spec = probe_blocks_spec [of bind ssh docker "[0..<10]"]
  show ?thesis
  proof (cases ?f)
    case None
    then have "fst (acquire_pair bind srv overrides) = None" "open_after (snd (acquire_pair bind srv overrides)) = []"
      unfolding run by (simp_all only: spec option.map option.case)
    then show ?thesis using none None by auto
  next
    case (Some y)
    have y: "(i < 10 \<and> both_free bind ssh docker i \<and> (\<forall>j < i. \<not> both_free bind ssh docker j)) \<longleftrightarrow> i = y" for i
      using first_block_iff [of bind ssh docker 10 i] Some by auto
    have "(\<exists>i < 10. both_free bind ssh docker i \<and> (\<forall>j < i. \<not> both_free bind ssh docker j) \<and>
         sp = ssh + int i * 10 \<and> dp = docker + int i * 10) \<longleftrightarrow> sp = ssh + int y * 10 \<and> dp = docker + int y * 10"
    proof -
      have "(\<exists>i < 10. both_free bind ssh docker i \<and> (\<forall>j < i. \<not> both_free bind ssh docker j) \<and> P i) \<longleftrightarrow>
        (\<exists>i. (i < 10 \<and> both_free bind ssh docker i \<and> (\<forall>j < i. \<not> both_free bind ssh docker j)) \<and> P i)" for P
        by (rule iffI; elim exE conjE; intro exI conjI)
      then show ?thesis unfolding y by simp
    qed
    moreover have "fst (acquire_pair bind srv overrides) = Some (ssh + int y * 10, docker + int y * 10)"
      "open_after (snd (acquire_pair bind srv overrides)) = [ssh + int y * 10, docker + int y * 10]"
      unfolding run by (simp_all only: spec Some option.map option.case)
    moreover have "\<not> (\<forall>i < 10. \<not> both_free bind ssh docker i)" using none Some by (metis option.distinct(1))
    ultimately show ?thesis by auto
  qed
qed

theorem acquire_pair_no_leak_witness:
  "fst (acquire_pair (\<lambda>i p. p \<noteq> 3000) ''db'' [''ssh'' \<mapsto> 3000, ''docker'' \<mapsto> 4000]) = Some (3010, 4010)"
proof -
  have lp: "local_ports ''db'' [''ssh'' \<mapsto> 3000, ''docker'' \<mapsto> 4000] = (3000, 4000)"
    by (simp add: local_ports_def Let_def)
  have "both_free (\<lambda>i p. p \<noteq> 3000) 3000 4000 1" "\<not> both_free (\<lambda>i p. p \<noteq> 3000) 3000 4000 0"
    by (simp_all add: both_free_def)
  then show ?thesis
    using acquire_pair_no_leak [OF lp, of "\<lambda>i p. p \<noteq> 3000" 3010 4010] by (auto intro: exI [of _ 1])
qed

end
