(* ===== verification/Fwd.thy ===== *)
theory Fwd
  imports Tunnel_Attach
begin

text \<open>
  Package \<^verbatim>\<open>internal/fwd\<close>: the ad-hoc forward, its registry of in-flight connections and its preflight.

  The accept loop, the goroutine that watches the context and the goroutine of each connection
  interleave as the step relation \<open>fwd_step\<close>. The connection accepted \<open>i\<close>-th has the legs \<open>Local i\<close> and,
  once attached, \<open>Remote i\<close>; \<open>fw_reset\<close> collects the legs that the program reset and \<open>fw_over\<close> those on which the
  peer has nothing more to say. The peers' own doings are the relation \<open>peer_step\<close>: the program cannot count
  on them. A critical section of the registry is one step. Identifiers count up in an unsigned 64-bit word, here a natural number.
\<close>

subsection \<open>The registry\<close>

datatype leg = Local nat | Remote nat

record entry =
  en_local :: leg
  en_remote :: "leg option"

record registry =
  rg_closed :: bool
  rg_entries :: "nat \<rightharpoonup> entry"
  rg_next :: nat

definition new_registry :: registry where
  "new_registry = \<lparr>rg_closed = False, rg_entries = Map.empty, rg_next = 0\<rparr>"

definition register :: "leg \<Rightarrow> registry \<Rightarrow> nat option \<times> registry" where
  "register l r =
    (if rg_closed r then (None, r)
     else (let i = Suc (rg_next r) in
       (Some i, r\<lparr>rg_next := i, rg_entries := (rg_entries r)(i \<mapsto> \<lparr>en_local = l, en_remote = None\<rparr>)\<rparr>)))"

definition set_remote :: "nat \<Rightarrow> leg \<Rightarrow> registry \<Rightarrow> bool \<times> registry" where
  "set_remote i l r =
    (if rg_closed r then (False, r)
     else (case rg_entries r i of
        None \<Rightarrow> (False, r)
      | Some e \<Rightarrow> (True, r\<lparr>rg_entries := (rg_entries r)(i \<mapsto> e\<lparr>en_remote := Some l\<rparr>)\<rparr>)))"

definition deregister :: "nat \<Rightarrow> registry \<Rightarrow> registry" where
  "deregister i r = r\<lparr>rg_entries := (rg_entries r)(i := None)\<rparr>"

definition registry_size :: "registry \<Rightarrow> nat" where
  "registry_size r = card (dom (rg_entries r))"

text \<open>\<^verbatim>\<open>closeAll\<close> and the legs it resets.\<close>

definition entry_legs :: "entry \<Rightarrow> leg set" where
  "entry_legs e = insert (en_local e) (set_option (en_remote e))"

definition close_all :: "registry \<Rightarrow> leg set \<times> registry" where
  "close_all r = (\<Union>e\<in>ran (rg_entries r). entry_legs e, r\<lparr>rg_closed := True\<rparr>)"

subsection \<open>The forwarder\<close>

definition default_max_concurrent :: int where "default_max_concurrent = 64"

definition max_concurrent :: "int \<Rightarrow> nat" where
  "max_concurrent opt = nat (if opt \<le> 0 then default_max_concurrent else opt)"

datatype phase = Starting | Attaching nat | Attached nat | Piping nat | Finished

record forwarder =
  fw_reg :: registry
  fw_max :: nat
  fw_sem :: nat
  fw_handlers :: "phase list"
  fw_reset :: "leg set"
  fw_over :: "leg set"
  fw_refused :: nat
  fw_cancelled :: bool
  fw_watching :: bool
  fw_listening :: bool
  fw_accepting :: bool

definition new_forwarder :: "int \<Rightarrow> forwarder" where
  "new_forwarder opt = \<lparr>fw_reg = new_registry, fw_max = max_concurrent opt, fw_sem = 0, fw_handlers = [],
     fw_reset = {}, fw_over = {}, fw_refused = 0, fw_cancelled = False, fw_watching = True, fw_listening = True,
     fw_accepting = True\<rparr>"

text \<open>A handler's deferred exit: the entry goes if it has one, then its slot.\<close>

definition leave :: "nat \<Rightarrow> nat option \<Rightarrow> leg set \<Rightarrow> forwarder \<Rightarrow> forwarder" where
  "leave i ko legs s = s\<lparr>fw_reg := (case ko of None \<Rightarrow> fw_reg s | Some k \<Rightarrow> deregister k (fw_reg s)),
     fw_sem := fw_sem s - 1, fw_handlers := (fw_handlers s)[i := Finished], fw_reset := fw_reset s \<union> legs\<rparr>"

text \<open>What a handler does next, given what its attach returns.\<close>

definition handler_registers :: "nat \<Rightarrow> forwarder \<Rightarrow> forwarder" where
  "handler_registers i s =
    (case register (Local i) (fw_reg s) of
       (None, _) \<Rightarrow> leave i None {Local i} s
     | (Some k, r) \<Rightarrow> s\<lparr>fw_reg := r, fw_handlers := (fw_handlers s)[i := Attaching k]\<rparr>)"

definition handler_attached :: "nat \<Rightarrow> nat \<Rightarrow> forwarder \<Rightarrow> forwarder" where
  "handler_attached i k s =
    (case set_remote k (Remote i) (fw_reg s) of
       (False, _) \<Rightarrow> leave i (Some k) {Remote i, Local i} s
     | (True, r) \<Rightarrow> s\<lparr>fw_reg := r, fw_handlers := (fw_handlers s)[i := Piping k]\<rparr>)"

text \<open>
  Whether the splice of handler \<open>i\<close> is over. Each of its two copies ends when its source has nothing more
  to say or when one of its legs was reset, which fails the blocked read; a copy that fails resets the
  other leg, so one reset leg ends both. With both legs open and a silent peer it goes on.
\<close>

definition pipe_over :: "nat \<Rightarrow> forwarder \<Rightarrow> bool" where
  "pipe_over i s \<longleftrightarrow> Local i \<in> fw_reset s \<or> Remote i \<in> fw_reset s \<or> {Local i, Remote i} \<subseteq> fw_over s"

text \<open>One step of one of the program's goroutines; an attach returns in the end, by the client's own timeouts.\<close>

inductive fwd_step :: "forwarder \<Rightarrow> forwarder \<Rightarrow> bool" where
  accepts: "fw_accepting s \<Longrightarrow> fw_listening s \<Longrightarrow> fw_sem s < fw_max s \<Longrightarrow>
    fwd_step s (s\<lparr>fw_sem := Suc (fw_sem s), fw_handlers := fw_handlers s @ [Starting]\<rparr>)"
| refuses: "fw_accepting s \<Longrightarrow> fw_listening s \<Longrightarrow> fw_max s \<le> fw_sem s \<Longrightarrow>
    fwd_step s (s\<lparr>fw_refused := Suc (fw_refused s)\<rparr>)"
| loop_stops: "fw_accepting s \<Longrightarrow> \<not> fw_listening s \<Longrightarrow> fwd_step s (s\<lparr>fw_accepting := False\<rparr>)"
| accept_fault: "fw_accepting s \<Longrightarrow> fw_listening s \<Longrightarrow>
    fwd_step s (s\<lparr>fw_accepting := False, fw_listening := fw_cancelled s\<rparr>)"
| cancelled: "fwd_step s (s\<lparr>fw_cancelled := True\<rparr>)"
| watcher_sweeps: "fw_watching s \<Longrightarrow> fw_cancelled s \<Longrightarrow> \<not> rg_closed (fw_reg s) \<Longrightarrow>
    fwd_step s (s\<lparr>fw_reg := snd (close_all (fw_reg s)), fw_reset := fw_reset s \<union> fst (close_all (fw_reg s))\<rparr>)"
| watcher_closes: "fw_watching s \<Longrightarrow> rg_closed (fw_reg s) \<Longrightarrow>
    fwd_step s (s\<lparr>fw_watching := False, fw_listening := False\<rparr>)"
| watcher_released: "fw_watching s \<Longrightarrow> \<not> fw_accepting s \<Longrightarrow> \<not> rg_closed (fw_reg s) \<Longrightarrow>
    fwd_step s (s\<lparr>fw_watching := False\<rparr>)"
| registers: "i < length (fw_handlers s) \<Longrightarrow> fw_handlers s ! i = Starting \<Longrightarrow>
    fwd_step s (handler_registers i s)"
| attach_fails: "i < length (fw_handlers s) \<Longrightarrow> fw_handlers s ! i = Attaching k \<Longrightarrow>
    fwd_step s (leave i (Some k) {Local i} s)"
| attach_returns: "i < length (fw_handlers s) \<Longrightarrow> fw_handlers s ! i = Attaching k \<Longrightarrow>
    fwd_step s (s\<lparr>fw_handlers := (fw_handlers s)[i := Attached k]\<rparr>)"
| keeps_remote: "i < length (fw_handlers s) \<Longrightarrow> fw_handlers s ! i = Attached k \<Longrightarrow>
    fwd_step s (handler_attached i k s)"
| pipe_ends: "i < length (fw_handlers s) \<Longrightarrow> fw_handlers s ! i = Piping k \<Longrightarrow> pipe_over i s \<Longrightarrow>
    fwd_step s (leave i (Some k) {} s)"

inductive_cases fwd_stepE: "fwd_step s s'"

text \<open>What peers do: one has nothing more to say on its leg, or its connection fails, which ends both copies.\<close>

inductive peer_step :: "forwarder \<Rightarrow> forwarder \<Rightarrow> bool" where
  peer_ends: "i < length (fw_handlers s) \<Longrightarrow> l \<in> {Local i, Remote i} \<Longrightarrow>
    peer_step s (s\<lparr>fw_over := insert l (fw_over s)\<rparr>)"
| peer_fails: "i < length (fw_handlers s) \<Longrightarrow> peer_step s (s\<lparr>fw_over := {Local i, Remote i} \<union> fw_over s\<rparr>)"

definition world_step :: "forwarder \<Rightarrow> forwarder \<Rightarrow> bool" where
  "world_step s s' \<longleftrightarrow> fwd_step s s' \<or> peer_step s s'"

lemma fwd_runs_world: "fwd_step\<^sup>*\<^sup>* s s' \<Longrightarrow> world_step\<^sup>*\<^sup>* s s'"
  by (rule mono_rtranclp [rule_format]) (auto simp: world_step_def)

subsection \<open>The invariant\<close>

fun phase_id :: "phase \<Rightarrow> nat option" where
  "phase_id Starting = None"
| "phase_id (Attaching k) = Some k"
| "phase_id (Attached k) = Some k"
| "phase_id (Piping k) = Some k"
| "phase_id Finished = None"

fun phase_entry :: "nat \<Rightarrow> phase \<Rightarrow> entry option" where
  "phase_entry i (Attaching k) = Some \<lparr>en_local = Local i, en_remote = None\<rparr>"
| "phase_entry i (Attached k) = Some \<lparr>en_local = Local i, en_remote = None\<rparr>"
| "phase_entry i (Piping k) = Some \<lparr>en_local = Local i, en_remote = Some (Remote i)\<rparr>"
| "phase_entry i _ = None"

definition live :: "phase list \<Rightarrow> nat" where
  "live hs = length (filter (\<lambda>h. h \<noteq> Finished) hs)"

text \<open>Every entry belongs to a handler and mirrors its phase; two handlers never share one.\<close>

definition holds :: "phase list \<Rightarrow> nat \<Rightarrow> nat \<Rightarrow> bool" where
  "holds hs i k \<longleftrightarrow> i < length hs \<and> phase_id (hs ! i) = Some k"

definition entries_match :: "registry \<Rightarrow> phase list \<Rightarrow> bool" where
  "entries_match r hs \<longleftrightarrow>
     (\<forall>i k. holds hs i k \<longrightarrow> k \<le> rg_next r \<and> rg_entries r k = phase_entry i (hs ! i)) \<and>
     (\<forall>k. rg_entries r k \<noteq> None \<longrightarrow> (\<exists>i. holds hs i k))"

definition phase_legs :: "nat \<Rightarrow> phase \<Rightarrow> leg set" where
  "phase_legs i h = (case phase_entry i h of None \<Rightarrow> {} | Some e \<Rightarrow> entry_legs e)"

definition swept :: "forwarder \<Rightarrow> bool" where
  "swept s \<longleftrightarrow> (rg_closed (fw_reg s) \<longrightarrow> fw_cancelled s \<and>
     (\<forall>i < length (fw_handlers s). phase_legs i (fw_handlers s ! i) \<subseteq> fw_reset s))"

definition fwd_inv :: "forwarder \<Rightarrow> bool" where
  "fwd_inv s \<longleftrightarrow> entries_match (fw_reg s) (fw_handlers s) \<and> swept s \<and>
     fw_sem s = live (fw_handlers s) \<and> fw_sem s \<le> fw_max s \<and>
     (\<not> fw_listening s \<and> fw_accepting s \<longrightarrow> rg_closed (fw_reg s))"

lemma live_update:
  "i < length hs \<Longrightarrow> hs ! i \<noteq> Finished \<Longrightarrow>
     live (hs[i := h]) = (if h = Finished then live hs - 1 else live hs) \<and> 0 < live hs"
proof (induction hs arbitrary: i)
  case (Cons a hs)
  show ?case
  proof (cases i)
    case (Suc j)
    then show ?thesis using Cons.IH [of j] Cons.prems by (auto simp: live_def)
  qed (use Cons.prems in \<open>auto simp: live_def\<close>)
qed simp

lemma live_append [simp]: "live (hs @ [h]) = live hs + (if h = Finished then 0 else 1)"
  by (simp add: live_def)

lemma holds_append [simp]: "phase_id h = None \<Longrightarrow> holds (hs @ [h]) i k = holds hs i k"
  by (auto simp: holds_def nth_append less_Suc_eq)

lemma holds_update [simp]:
  "i < length hs \<Longrightarrow> holds (hs[i := h]) j k = (if j = i then phase_id h = Some k else holds hs j k)"
  by (auto simp: holds_def)

lemma phase_entry_local: "phase_id h = Some k \<Longrightarrow> \<exists>e. phase_entry i h = Some e \<and> en_local e = Local i"
  by (cases h) auto

lemma match_own: "entries_match r hs \<Longrightarrow> holds hs i k \<Longrightarrow> k \<le> rg_next r \<and> rg_entries r k = phase_entry i (hs ! i)"
  by (simp add: entries_match_def)

lemma match_onto: "entries_match r hs \<Longrightarrow> rg_entries r k = Some e \<Longrightarrow> \<exists>i. holds hs i k"
  by (simp add: entries_match_def)

lemma match_onto_other:
  assumes "entries_match r hs" "rg_entries r k \<noteq> None" "phase_id (hs ! i) \<noteq> Some k"
  shows "\<exists>j. j \<noteq> i \<and> holds hs j k"
proof -
  obtain j where "holds hs j k" using assms unfolding entries_match_def by blast
  then show ?thesis using assms(3) by (auto simp: holds_def)
qed

lemma match_inj:
  assumes m: "entries_match r hs" and "holds hs i k" "holds hs j k"
  shows "i = j"
proof -
  obtain e f where "phase_entry i (hs ! i) = Some e" "en_local e = Local i"
    "phase_entry j (hs ! j) = Some f" "en_local f = Local j"
    using assms phase_entry_local unfolding holds_def by metis
  then show ?thesis using match_own [OF m assms(2)] match_own [OF m assms(3)] by simp
qed

lemma match_append:
  assumes m: "entries_match r hs" and h: "phase_id h = None"
  shows "entries_match r (hs @ [h])"
proof -
  have "i < length hs" if "holds hs i k" for i k using that by (simp add: holds_def)
  then show ?thesis using m h by (auto simp: entries_match_def nth_append)
qed

lemma match_update:
  assumes m: "entries_match r hs" and i: "i < length hs"
    and own: "\<And>k. phase_id h = Some k \<Longrightarrow> k \<le> rg_next r' \<and> rg_entries r' k = phase_entry i h"
    and others: "\<And>j k. j \<noteq> i \<Longrightarrow> holds hs j k \<Longrightarrow> k \<le> rg_next r' \<and> rg_entries r' k = rg_entries r k"
    and onto: "\<And>k. rg_entries r' k \<noteq> None \<Longrightarrow> phase_id h = Some k \<or> (\<exists>j. j \<noteq> i \<and> holds hs j k)"
  shows "entries_match r' (hs[i := h])"
  unfolding entries_match_def
proof (intro conjI allI impI)
  fix j k assume "holds (hs[i := h]) j k"
  then show "k \<le> rg_next r'" "rg_entries r' k = phase_entry j (hs[i := h] ! j)"
    using i own others match_own [OF m] by (auto split: if_splits)
next
  fix k assume "rg_entries r' k \<noteq> None"
  then show "\<exists>j. holds (hs[i := h]) j k" using onto [of k] i by auto
qed

lemma match_register:
  assumes m: "entries_match r hs" and i: "i < length hs" and h: "phase_id (hs ! i) = None"
  shows "entries_match (r\<lparr>rg_next := Suc (rg_next r), rg_entries := (rg_entries r)(Suc (rg_next r) \<mapsto> \<lparr>en_local = Local i, en_remote = None\<rparr>)\<rparr>)
      (hs[i := Attaching (Suc (rg_next r))])"
proof (rule match_update [OF m i])
  fix j k assume "holds hs j k"
  then have "k \<le> rg_next r" using match_own [OF m] by simp
  then show "k \<le> rg_next (r\<lparr>rg_next := Suc (rg_next r), rg_entries := (rg_entries r)(Suc (rg_next r) \<mapsto> \<lparr>en_local = Local i, en_remote = None\<rparr>)\<rparr>) \<and>
      rg_entries (r\<lparr>rg_next := Suc (rg_next r), rg_entries := (rg_entries r)(Suc (rg_next r) \<mapsto> \<lparr>en_local = Local i, en_remote = None\<rparr>)\<rparr>) k = rg_entries r k"
    by simp
next
  fix k assume "rg_entries (r\<lparr>rg_next := Suc (rg_next r), rg_entries := (rg_entries r)(Suc (rg_next r) \<mapsto> \<lparr>en_local = Local i, en_remote = None\<rparr>)\<rparr>) k \<noteq> None"
  then show "phase_id (Attaching (Suc (rg_next r))) = Some k \<or> (\<exists>j. j \<noteq> i \<and> holds hs j k)"
    using match_onto_other [OF m, of k i] h by (auto split: if_splits)
qed auto

lemma match_same_id:
  assumes m: "entries_match r hs" and hi: "holds hs i k" and h: "phase_id h = Some k"
    and r': "rg_entries r' = (rg_entries r)(k := phase_entry i h)" "rg_next r' = rg_next r"
  shows "entries_match r' (hs[i := h])"
proof (rule match_update [OF m])
  show "i < length hs" using hi by (simp add: holds_def)
  show "k' \<le> rg_next r' \<and> rg_entries r' k' = phase_entry i h" if "phase_id h = Some k'" for k'
    using that h r' match_own [OF m hi] by simp
  show "k' \<le> rg_next r' \<and> rg_entries r' k' = rg_entries r k'" if "j \<noteq> i" "holds hs j k'" for j k'
  proof -
    have "k' \<noteq> k" using match_inj [OF m hi] that by auto
    then show ?thesis using that(2) r' match_own [OF m] by simp
  qed
  show "phase_id h = Some k' \<or> (\<exists>j. j \<noteq> i \<and> holds hs j k')" if "rg_entries r' k' \<noteq> None" for k'
  proof (cases "k' = k")
    case False
    then show ?thesis using that r' match_onto_other [OF m, of k' i] hi by (simp add: holds_def)
  qed (use h in simp)
qed

lemma match_leave:
  assumes m: "entries_match r hs" and hi: "holds hs i k"
  shows "entries_match (deregister k r) (hs[i := Finished])"
proof (rule match_update [OF m])
  show "i < length hs" using hi by (simp add: holds_def)
  show "k' \<le> rg_next (deregister k r) \<and> rg_entries (deregister k r) k' = rg_entries r k'"
    if "j \<noteq> i" "holds hs j k'" for j k'
    using that match_inj [OF m hi] match_own [OF m that(2)] by (auto simp: deregister_def)
  show "phase_id Finished = Some k' \<or> (\<exists>j. j \<noteq> i \<and> holds hs j k')"
    if "rg_entries (deregister k r) k' \<noteq> None" for k'
    using that hi match_onto_other [OF m, of k' i] by (auto simp: deregister_def holds_def split: if_splits)
qed simp

lemma match_leave_none:
  assumes m: "entries_match r hs" and i: "i < length hs" "phase_id (hs ! i) = None"
  shows "entries_match r (hs[i := Finished])"
proof (rule match_update [OF m i(1)])
  show "phase_id Finished = Some k \<or> (\<exists>j. j \<noteq> i \<and> holds hs j k)" if "rg_entries r k \<noteq> None" for k
    using match_onto_other [OF m that, of i] i by simp
qed (use match_own [OF m] in auto)

lemma leave_inv:
  assumes inv: "fwd_inv s" and i: "i < length (fw_handlers s)" "fw_handlers s ! i \<noteq> Finished"
    and ko: "phase_id (fw_handlers s ! i) = ko"
  shows "fwd_inv (leave i ko L s)"
proof -
  have "entries_match (fw_reg (leave i ko L s)) (fw_handlers (leave i ko L s))"
    using assms by (cases ko) (auto simp: fwd_inv_def leave_def holds_def intro: match_leave match_leave_none)
  moreover have "swept (leave i ko L s)"
    using inv i(1) by (auto simp: fwd_inv_def swept_def leave_def nth_list_update phase_legs_def deregister_def split: option.splits if_splits)
  moreover have "fw_sem (leave i ko L s) = live (fw_handlers (leave i ko L s))" "fw_sem (leave i ko L s) \<le> fw_max s"
    using inv live_update [OF i, of Finished] by (auto simp: fwd_inv_def leave_def)
  ultimately show ?thesis using inv by (auto simp: fwd_inv_def leave_def deregister_def split: option.splits)
qed

lemma moves_inv:
  assumes inv: "fwd_inv s" and i: "i < length (fw_handlers s)" "fw_handlers s ! i \<noteq> Finished" and h: "h \<noteq> Finished"
    and m: "entries_match r ((fw_handlers s)[i := h])" and c: "rg_closed r = rg_closed (fw_reg s)"
    and legs: "rg_closed r \<Longrightarrow> phase_legs i h \<subseteq> phase_legs i (fw_handlers s ! i)"
  shows "fwd_inv (s\<lparr>fw_reg := r, fw_handlers := (fw_handlers s)[i := h]\<rparr>)"
proof -
  have "swept (s\<lparr>fw_reg := r, fw_handlers := (fw_handlers s)[i := h]\<rparr>)"
    using inv c legs i by (auto simp: fwd_inv_def swept_def nth_list_update)
  then show ?thesis using inv m c live_update [OF i, of h] h by (simp add: fwd_inv_def)
qed

lemma registers_inv:
  assumes inv: "fwd_inv s" and i: "i < length (fw_handlers s)" "fw_handlers s ! i = Starting"
  shows "fwd_inv (handler_registers i s)"
proof (cases "rg_closed (fw_reg s)")
  case True
  then show ?thesis using leave_inv [OF inv i(1)] i by (simp add: handler_registers_def register_def)
next
  case False
  have "entries_match (fw_reg s) (fw_handlers s)" using inv by (simp add: fwd_inv_def)
  from match_register [OF this i(1)] show ?thesis
    using False i by (auto simp: handler_registers_def register_def Let_def intro!: moves_inv [OF inv])
qed

lemma attached_inv:
  assumes inv: "fwd_inv s" and i: "i < length (fw_handlers s)" "fw_handlers s ! i = Attached k"
  shows "fwd_inv (handler_attached i k s)"
proof -
  have m: "entries_match (fw_reg s) (fw_handlers s)" and hk: "holds (fw_handlers s) i k"
    using inv i by (simp_all add: fwd_inv_def holds_def)
  have e: "rg_entries (fw_reg s) k = Some \<lparr>en_local = Local i, en_remote = None\<rparr>"
    using match_own [OF m hk] i by simp
  show ?thesis
  proof (cases "rg_closed (fw_reg s)")
    case True
    then show ?thesis using leave_inv [OF inv i(1)] i by (simp add: handler_attached_def set_remote_def)
  next
    case False
    then show ?thesis using e i match_same_id [OF m hk, of "Piping k"]
      by (auto simp: handler_attached_def set_remote_def intro!: moves_inv [OF inv])
  qed
qed

lemma sweep_legs:
  assumes m: "entries_match r hs" and i: "i < length hs"
  shows "phase_legs i (hs ! i) \<subseteq> fst (close_all r)"
proof (cases "phase_id (hs ! i)")
  case (Some k)
  then have "rg_entries r k = phase_entry i (hs ! i)" using match_own [OF m, of i k] i by (simp add: holds_def)
  moreover obtain e where "phase_entry i (hs ! i) = Some e" using phase_entry_local [OF Some] by blast
  ultimately show ?thesis by (auto simp: phase_legs_def close_all_def ran_def)
next
  case None
  then show ?thesis by (cases "hs ! i") (auto simp: phase_legs_def)
qed

lemma sweeps_inv:
  assumes inv: "fwd_inv s" and c: "fw_cancelled s"
  shows "fwd_inv (s\<lparr>fw_reg := snd (close_all (fw_reg s)), fw_reset := fw_reset s \<union> fst (close_all (fw_reg s))\<rparr>)"
proof -
  have m: "entries_match (fw_reg s) (fw_handlers s)" using inv by (simp add: fwd_inv_def)
  have "entries_match (snd (close_all (fw_reg s))) (fw_handlers s)" using m by (simp add: entries_match_def close_all_def)
  then show ?thesis using inv c sweep_legs [OF m] by (auto simp: fwd_inv_def swept_def close_all_def)
qed

lemma accepts_inv:
  assumes inv: "fwd_inv s" and "fw_listening s" "fw_sem s < fw_max s"
  shows "fwd_inv (s\<lparr>fw_sem := Suc (fw_sem s), fw_handlers := fw_handlers s @ [Starting]\<rparr>)"
proof -
  have "swept (s\<lparr>fw_sem := Suc (fw_sem s), fw_handlers := fw_handlers s @ [Starting]\<rparr>)"
    using inv by (auto simp: fwd_inv_def swept_def nth_append less_Suc_eq phase_legs_def)
  then show ?thesis using assms by (auto simp: fwd_inv_def intro: match_append)
qed

lemma fwd_step_inv: "fwd_step s s' \<Longrightarrow> fwd_inv s \<Longrightarrow> fwd_inv s'"
proof (induction rule: fwd_step.induct)
  case (attach_returns i s k)
  have "entries_match (fw_reg s) ((fw_handlers s)[i := Attached k])"
    using attach_returns match_own [of "fw_reg s" "fw_handlers s" i k]
    by (intro match_same_id) (auto simp: fwd_inv_def holds_def fun_upd_idem_iff)
  from moves_inv [OF attach_returns(3,1) _ _ this] attach_returns show ?case
    by (simp add: phase_legs_def)
qed (simp_all add: accepts_inv sweeps_inv registers_inv attached_inv leave_inv, auto simp: fwd_inv_def swept_def)

lemma new_forwarder_inv: "fwd_inv (new_forwarder opt)"
  by (auto simp: fwd_inv_def new_forwarder_def new_registry_def entries_match_def holds_def swept_def live_def)

lemma peer_step_inv: "peer_step s s' \<Longrightarrow> fwd_inv s \<Longrightarrow> fwd_inv s'"
  by (induction rule: peer_step.induct) (simp_all add: fwd_inv_def swept_def)

lemma world_step_inv: "world_step s s' \<Longrightarrow> fwd_inv s \<Longrightarrow> fwd_inv s'"
  by (auto simp: world_step_def intro: fwd_step_inv peer_step_inv)

lemma fwd_reachable: "world_step\<^sup>*\<^sup>* (new_forwarder opt) s \<Longrightarrow> fwd_inv s"
  by (induction rule: rtranclp_induct) (auto intro: new_forwarder_inv world_step_inv)

subsection \<open>Shutdown\<close>

definition in_flight :: "forwarder \<Rightarrow> nat set" where
  "in_flight s = {i. i < length (fw_handlers s) \<and> phase_id (fw_handlers s ! i) \<noteq> None}"

lemma registry_size_in_flight:
  assumes m: "entries_match r hs"
  shows "registry_size r = card {i. i < length hs \<and> phase_id (hs ! i) \<noteq> None}"
proof -
  let ?I = "{i. i < length hs \<and> phase_id (hs ! i) \<noteq> None}"
  let ?f = "\<lambda>i. the (phase_id (hs ! i))"
  have "inj_on ?f ?I" using match_inj [OF m] by (auto simp: inj_on_def holds_def)
  moreover have "?f ` ?I = dom (rg_entries r)"
  proof
    show "?f ` ?I \<subseteq> dom (rg_entries r)"
    proof
      fix k assume "k \<in> ?f ` ?I"
      then obtain i where "holds hs i k" by (auto simp: holds_def)
      then show "k \<in> dom (rg_entries r)"
        using match_own [OF m] phase_entry_local unfolding holds_def by fastforce
    qed
    show "dom (rg_entries r) \<subseteq> ?f ` ?I"
    proof
      fix k assume "k \<in> dom (rg_entries r)"
      then obtain i where "holds hs i k" using match_onto [OF m] by blast
      then have "i \<in> ?I" "?f i = k" by (auto simp: holds_def)
      then show "k \<in> ?f ` ?I" by blast
    qed
  qed
  ultimately show ?thesis unfolding registry_size_def by (metis card_image)
qed

text \<open>How much a handler, the loop and the watcher still have to do.\<close>

fun phase_work :: "phase \<Rightarrow> nat" where
  "phase_work Starting = 4"
| "phase_work (Attaching _) = 3"
| "phase_work (Attached _) = 2"
| "phase_work (Piping _) = 1"
| "phase_work Finished = 0"

definition drain_work :: "forwarder \<Rightarrow> nat" where
  "drain_work s = sum_list (map phase_work (fw_handlers s)) +
     (if fw_accepting s then 1 else 0) + (if fw_watching s then 1 else 0)"

lemma work_update:
  "i < length hs \<Longrightarrow> phase_work h < phase_work (hs ! i) \<Longrightarrow>
     sum_list (map phase_work (hs[i := h])) < sum_list (map phase_work hs)"
proof (induction hs arbitrary: i)
  case (Cons a hs)
  then show ?case by (cases i) auto
qed simp

lemma work_leave:
  "i < length (fw_handlers s) \<Longrightarrow> fw_handlers s ! i \<noteq> Finished \<Longrightarrow> drain_work (leave i ko L s) < drain_work s"
  using work_update [of i "fw_handlers s" Finished]
  by (cases "fw_handlers s ! i") (simp_all add: drain_work_def leave_def)

lemma drain_step:
  assumes "fwd_step s s'" "rg_closed (fw_reg s)" "\<not> fw_listening s" "fwd_inv s"
  shows "s' = s \<or> drain_work s' < drain_work s"
  using assms
proof (induction rule: fwd_step.induct)
  case (cancelled s)
  then show ?case by (simp add: fwd_inv_def swept_def)
next
  case (registers i s)
  then show ?case using work_leave by (simp add: handler_registers_def register_def)
next
  case (attach_returns i s k)
  then show ?case using work_update [of i "fw_handlers s" "Attached k"] by (simp add: drain_work_def)
next
  case (keeps_remote i s k)
  then show ?case using work_leave by (simp add: handler_attached_def set_remote_def)
qed (simp_all add: work_leave, simp_all add: drain_work_def)

lemma drain_closed:
  assumes "fwd_step s s'" "rg_closed (fw_reg s)" "\<not> fw_listening s"
  shows "rg_closed (fw_reg s') \<and> \<not> fw_listening s'"
  using assms
  by (induction rule: fwd_step.induct)
    (auto simp: handler_registers_def handler_attached_def register_def set_remote_def leave_def deregister_def
       close_all_def split: option.splits)

text \<open>After the sweep a splice has nothing to wait for.\<close>

lemma swept_pipe_over:
  assumes "fwd_inv s" "rg_closed (fw_reg s)" "i < length (fw_handlers s)" "fw_handlers s ! i = Piping k"
  shows "pipe_over i s"
proof -
  have "phase_legs i (fw_handlers s ! i) \<subseteq> fw_reset s" using assms unfolding fwd_inv_def swept_def by blast
  then show ?thesis using assms(4) by (simp add: phase_legs_def entry_legs_def pipe_over_def)
qed

lemma stuck_is_done:
  assumes stuck: "\<And>s'. fwd_step s s' \<Longrightarrow> s' = s" and inv: "fwd_inv s"
    and c: "rg_closed (fw_reg s)" "\<not> fw_listening s"
  shows "\<not> fw_accepting s \<and> \<not> fw_watching s \<and> fw_sem s = 0 \<and> registry_size (fw_reg s) = 0"
proof -
  have acc: "\<not> fw_accepting s"
    using stuck [OF loop_stops, THEN arg_cong [of _ _ fw_accepting]] c by auto
  have watch: "\<not> fw_watching s"
    using stuck [OF watcher_closes, THEN arg_cong [of _ _ fw_watching]] c by auto
  have fin: "fw_handlers s ! i = Finished" if i: "i < length (fw_handlers s)" for i
  proof (rule ccontr)
    assume n: "fw_handlers s ! i \<noteq> Finished"
    have "\<exists>s'. fwd_step s s' \<and> drain_work s' < drain_work s"
    proof (cases "fw_handlers s ! i")
      case Starting
      then show ?thesis using registers [OF i Starting] c work_leave [OF i n]
        by (intro exI [of _ "handler_registers i s"]) (auto simp: handler_registers_def register_def)
    next
      case (Attached k)
      then show ?thesis using keeps_remote [OF i Attached] c work_leave [OF i n]
        by (intro exI [of _ "handler_attached i k s"]) (auto simp: handler_attached_def set_remote_def)
    qed (use i n attach_fails pipe_ends work_leave swept_pipe_over [OF inv c(1)] in blast)+
    then show False using stuck by fastforce
  qed
  then have "live (fw_handlers s) = 0" "{i. i < length (fw_handlers s) \<and> phase_id (fw_handlers s ! i) \<noteq> None} = {}"
    by (auto simp: live_def filter_empty_conv in_set_conv_nth)
  then show ?thesis using acc watch inv registry_size_in_flight unfolding fwd_inv_def by (metis card.empty)
qed

definition quiet :: "forwarder \<Rightarrow> bool" where
  "quiet s \<longleftrightarrow> rg_closed (fw_reg s) \<and> \<not> fw_listening s"

lemma quiet_world: "world_step s s' \<Longrightarrow> quiet s \<Longrightarrow> quiet s'"
  by (auto simp: world_step_def quiet_def dest: drain_closed elim!: peer_step.cases)

lemma quiet_reachable:
  "world_step\<^sup>*\<^sup>* s s' \<Longrightarrow> quiet s \<Longrightarrow> fwd_inv s \<Longrightarrow> quiet s' \<and> fwd_inv s'"
  by (induction rule: rtranclp_induct) (auto dest: quiet_world world_step_inv)

text \<open>The legs on which a peer may still speak: no step of the program adds one once nothing is accepted.\<close>

definition open_legs :: "forwarder \<Rightarrow> leg set" where
  "open_legs s = (\<Union>i<length (fw_handlers s). {Local i, Remote i}) - fw_over s"

lemma finite_open_legs [simp]: "finite (open_legs s)"
  by (simp add: open_legs_def)

lemma open_legs_step: "fwd_step s s' \<Longrightarrow> \<not> fw_listening s \<Longrightarrow> open_legs s' = open_legs s"
  by (induction rule: fwd_step.induct)
    (simp_all add: open_legs_def handler_registers_def handler_attached_def register_def set_remote_def leave_def Let_def
       split: option.split)

lemma open_legs_peer:
  assumes "peer_step s s'" "s' \<noteq> s"
  shows "drain_work s' = drain_work s \<and> open_legs s' \<subset> open_legs s"
  using assms
proof (induction rule: peer_step.induct)
  case (peer_ends i s l)
  then have "l \<notin> fw_over s" by (metis forwarder.surjective forwarder.update_convs(6) insert_absorb)
  then show ?case using peer_ends(1,2) by (auto simp: drain_work_def open_legs_def)
next
  case (peer_fails i s)
  then have "\<not> {Local i, Remote i} \<subseteq> fw_over s" by (metis forwarder.surjective forwarder.update_convs(6) sup.absorb2)
  then show ?case using peer_fails(1) by (auto simp: drain_work_def open_legs_def)
qed

definition world_work :: "forwarder \<Rightarrow> nat" where
  "world_work s = drain_work s + card (open_legs s)"

lemma world_work_step:
  assumes "world_step s s'" "s' \<noteq> s" "quiet s" "fwd_inv s"
  shows "world_work s' < world_work s"
proof (cases "fwd_step s s'")
  case True
  then show ?thesis
    using assms drain_step [OF True] open_legs_step [OF True] by (simp add: world_work_def quiet_def)
next
  case False
  then have "peer_step s s'" using assms(1) by (simp add: world_step_def)
  from open_legs_peer [OF this assms(2)] show ?thesis by (simp add: world_work_def psubset_card_mono)
qed

lemma drain_bound:
  assumes "\<And>n. world_step (f n) (f (Suc n)) \<and> f (Suc n) \<noteq> f n" "quiet (f 0)" "fwd_inv (f 0)"
  shows "world_work (f n) + n \<le> world_work (f 0) \<and> quiet (f n) \<and> fwd_inv (f n)"
proof (induction n)
  case (Suc n)
  then show ?case
    using assms(1) [of n] world_work_step [of "f n" "f (Suc n)"] quiet_world [of "f n"] world_step_inv [of "f n"] by fastforce
qed (use assms in simp)

text \<open>
  C31: Shutdown drains, whatever the peers do and even if they do nothing. Once the watcher has swept the
  registry and closed the listener, every schedule of the remaining goroutines and of the peers is finite,
  and wherever no goroutine of the program can move any more, however silent the peers, the loop and the
  watcher have exited, every slot is free and the registry is empty: \<^verbatim>\<open>Run\<close> returns with
  \<^verbatim>\<open>RegistrySize\<close> zero. It is the sweep that makes it so: a splice ends by itself only when both its
  peers do.
\<close>

theorem shutdown_drains:
  assumes "world_step\<^sup>*\<^sup>* (new_forwarder opt) s" "rg_closed (fw_reg s)" "\<not> fw_listening s"
  shows "(\<nexists>f. f 0 = s \<and> (\<forall>n. world_step (f n) (f (Suc n)) \<and> f (Suc n) \<noteq> f n)) \<and>
    (\<forall>t. world_step\<^sup>*\<^sup>* s t \<and> (\<forall>t'. fwd_step t t' \<longrightarrow> t' = t) \<longrightarrow>
      \<not> fw_accepting t \<and> \<not> fw_watching t \<and> fw_sem t = 0 \<and> registry_size (fw_reg t) = 0)"
proof -
  have s: "quiet s" "fwd_inv s" using assms fwd_reachable by (auto simp: quiet_def)
  have "\<nexists>f. f 0 = s \<and> (\<forall>n. world_step (f n) (f (Suc n)) \<and> f (Suc n) \<noteq> f n)"
  proof
    assume "\<exists>f. f 0 = s \<and> (\<forall>n. world_step (f n) (f (Suc n)) \<and> f (Suc n) \<noteq> f n)"
    then obtain f where f: "f 0 = s" "\<And>n. world_step (f n) (f (Suc n)) \<and> f (Suc n) \<noteq> f n" by blast
    show False using drain_bound [of f "Suc (world_work s)"] f s by simp
  qed
  moreover have "\<not> fw_accepting t \<and> \<not> fw_watching t \<and> fw_sem t = 0 \<and> registry_size (fw_reg t) = 0"
    if "world_step\<^sup>*\<^sup>* s t" "\<And>t'. fwd_step t t' \<Longrightarrow> t' = t" for t
    using quiet_reachable [OF that(1) s] stuck_is_done that(2) unfolding quiet_def by blast
  ultimately show ?thesis by blast
qed

text \<open>A forward in full splice when the shutdown comes.\<close>

definition spliced :: forwarder where
  "spliced = \<lparr>fw_reg = \<lparr>rg_closed = False, rg_entries = [1 \<mapsto> \<lparr>en_local = Local 0, en_remote = Some (Remote 0)\<rparr>], rg_next = 1\<rparr>,
     fw_max = 3, fw_sem = 1, fw_handlers = [Piping 1], fw_reset = {}, fw_over = {}, fw_refused = 0, fw_cancelled = False,
     fw_watching = True, fw_listening = True, fw_accepting = True\<rparr>"

definition shut_down :: "forwarder \<Rightarrow> forwarder" where
  "shut_down s = s\<lparr>fw_cancelled := True, fw_reg := snd (close_all (fw_reg s)),
     fw_reset := fw_reset s \<union> fst (close_all (fw_reg s)), fw_watching := False, fw_listening := False\<rparr>"

lemma spliced_reachable: "fwd_step\<^sup>*\<^sup>* (new_forwarder 3) spliced"
proof -
  let ?a = "new_forwarder 3" let ?b = "?a\<lparr>fw_sem := Suc (fw_sem ?a), fw_handlers := fw_handlers ?a @ [Starting]\<rparr>"
  let ?c = "handler_registers 0 ?b" let ?d = "?c\<lparr>fw_handlers := (fw_handlers ?c)[0 := Attached 1]\<rparr>"
  note run = new_forwarder_def new_registry_def max_concurrent_def handler_registers_def register_def Let_def
  have "fwd_step ?a ?b" by (rule accepts) (simp_all add: run)
  moreover have "fwd_step ?b ?c" by (rule registers) (simp_all add: run)
  moreover have "fwd_step ?c ?d" by (rule attach_returns) (simp_all add: run)
  moreover have "fwd_step ?d (handler_attached 0 1 ?d)" by (rule keeps_remote) (simp_all add: run)
  moreover have "handler_attached 0 1 ?d = spliced"
    by (simp add: run handler_attached_def set_remote_def spliced_def)
  ultimately show ?thesis by (metis (no_types) converse_rtranclp_into_rtranclp rtranclp.rtrancl_refl)
qed

lemma shut_down_steps:
  assumes "fw_watching s" "\<not> rg_closed (fw_reg s)"
  shows "fwd_step\<^sup>*\<^sup>* s (shut_down s)"
proof -
  let ?b = "s\<lparr>fw_cancelled := True\<rparr>"
  let ?c = "?b\<lparr>fw_reg := snd (close_all (fw_reg ?b)), fw_reset := fw_reset ?b \<union> fst (close_all (fw_reg ?b))\<rparr>"
  have "fwd_step s ?b" by (rule cancelled)
  moreover have "fwd_step ?b ?c" by (rule watcher_sweeps) (use assms in simp_all)
  moreover have "fwd_step ?c (?c\<lparr>fw_watching := False, fw_listening := False\<rparr>)"
    by (rule watcher_closes) (use assms in \<open>simp_all add: close_all_def\<close>)
  moreover have "?c\<lparr>fw_watching := False, fw_listening := False\<rparr> = shut_down s"
    by (simp add: shut_down_def)
  ultimately show ?thesis by (metis (no_types) converse_rtranclp_into_rtranclp rtranclp.rtrancl_refl)
qed

lemma spliced_shut_down:
  "world_step\<^sup>*\<^sup>* (new_forwarder 3) (shut_down spliced) \<and> rg_closed (fw_reg (shut_down spliced)) \<and>
   \<not> fw_listening (shut_down spliced) \<and> fw_handlers (shut_down spliced) = [Piping 1]"
  using fwd_runs_world [OF rtranclp_trans [OF spliced_reachable shut_down_steps [of spliced]]]
  by (simp add: spliced_def shut_down_def close_all_def)

text \<open>A splice between silent peers, swept: some goroutine of the program can move.\<close>

theorem shutdown_drains_witness:
  "fw_over (shut_down spliced) = {} \<and> (\<exists>t. fwd_step (shut_down spliced) t \<and> t \<noteq> shut_down spliced)"
proof -
  have "fw_sem (shut_down spliced) \<noteq> 0" by (simp add: shut_down_def spliced_def)
  then have "\<exists>t. fwd_step (shut_down spliced) t \<and> t \<noteq> shut_down spliced"
    using shutdown_drains [of 3 "shut_down spliced", THEN conjunct2, THEN spec, of "shut_down spliced"] spliced_shut_down
    by auto
  then show ?thesis by (simp add: shut_down_def spliced_def)
qed

text \<open>
  The accept-versus-shutdown race is closed. Whenever the registry is closed, every leg it still holds
  has been reset, and whatever step comes next, a connection that had not registered, or whose attach had
  returned but was not yet recorded, either has not moved or is finished with its legs reset: it never
  starts an attach or a splice.
\<close>

theorem late_connection_never_spliced:
  assumes "world_step\<^sup>*\<^sup>* (new_forwarder opt) s" "rg_closed (fw_reg s)"
  shows "(\<Union>e\<in>ran (rg_entries (fw_reg s)). entry_legs e) \<subseteq> fw_reset s \<and>
    (\<forall>t i. fwd_step s t \<and> i < length (fw_handlers s) \<longrightarrow>
      (case fw_handlers s ! i of
         Starting \<Rightarrow> fw_handlers t ! i = Starting \<or> fw_handlers t ! i = Finished \<and> Local i \<in> fw_reset t
       | Attached k \<Rightarrow> fw_handlers t ! i = Attached k \<or> fw_handlers t ! i = Finished \<and> {Local i, Remote i} \<subseteq> fw_reset t
       | _ \<Rightarrow> True))"
proof (intro conjI allI impI)
  have inv: "fwd_inv s" using assms(1) by (rule fwd_reachable)
  show "(\<Union>e\<in>ran (rg_entries (fw_reg s)). entry_legs e) \<subseteq> fw_reset s"
  proof
    fix l assume "l \<in> (\<Union>e\<in>ran (rg_entries (fw_reg s)). entry_legs e)"
    then obtain k e where e: "rg_entries (fw_reg s) k = Some e" "l \<in> entry_legs e" by (auto simp: ran_def)
    then obtain i where hi: "holds (fw_handlers s) i k" using inv match_onto unfolding fwd_inv_def by blast
    then have "phase_entry i (fw_handlers s ! i) = Some e"
      using inv match_own [OF _ hi] e unfolding fwd_inv_def by fastforce
    then have "l \<in> phase_legs i (fw_handlers s ! i)" using e by (simp add: phase_legs_def)
    then show "l \<in> fw_reset s" using inv assms(2) hi unfolding fwd_inv_def swept_def holds_def by blast
  qed
next
  fix t i assume "fwd_step s t \<and> i < length (fw_handlers s)"
  then have "fwd_step s t" "i < length (fw_handlers s)" by auto
  then show "case fw_handlers s ! i of
         Starting \<Rightarrow> fw_handlers t ! i = Starting \<or> fw_handlers t ! i = Finished \<and> Local i \<in> fw_reset t
       | Attached k \<Rightarrow> fw_handlers t ! i = Attached k \<or> fw_handlers t ! i = Finished \<and> {Local i, Remote i} \<subseteq> fw_reset t
       | _ \<Rightarrow> True"
    using assms(2)
    by (induction rule: fwd_step.induct)
      (auto simp: nth_append nth_list_update handler_registers_def handler_attached_def register_def set_remote_def
         leave_def split: phase.splits)
qed

theorem late_connection_never_spliced_witness:
  "{Local 0, Remote 0} \<subseteq> fw_reset (shut_down spliced)"
  using late_connection_never_spliced [of 3 "shut_down spliced"] spliced_shut_down
  by (simp add: spliced_def shut_down_def close_all_def entry_legs_def)

text \<open>
  A fault of \<^verbatim>\<open>Accept\<close> itself releases the watcher without a sweep: cancelling afterwards resets nothing,
  so a forward whose peers stay silent keeps \<^verbatim>\<open>Run\<close> waiting.
\<close>

definition faulted :: "forwarder \<Rightarrow> forwarder" where
  "faulted s = s\<lparr>fw_accepting := False, fw_listening := False, fw_watching := False, fw_cancelled := True\<rparr>"

lemma fault_orphans_forwards:
  "world_step\<^sup>*\<^sup>* (new_forwarder 3) (faulted spliced) \<and> fw_cancelled (faulted spliced) \<and>
   fw_handlers (faulted spliced) = [Piping 1] \<and> fw_reset (faulted spliced) = {} \<and>
   (\<forall>t. fwd_step (faulted spliced) t \<longrightarrow> t = faulted spliced)"
proof -
  let ?b = "spliced\<lparr>fw_accepting := False, fw_listening := fw_cancelled spliced\<rparr>" let ?c = "?b\<lparr>fw_watching := False\<rparr>"
  have "fwd_step spliced ?b" by (rule accept_fault) (simp_all add: spliced_def)
  moreover have "fwd_step ?b ?c" by (rule watcher_released) (simp_all add: spliced_def)
  moreover have "fwd_step ?c (?c\<lparr>fw_cancelled := True\<rparr>)" by (rule cancelled)
  moreover have "?c\<lparr>fw_cancelled := True\<rparr> = faulted spliced" by (simp add: faulted_def spliced_def)
  ultimately have "fwd_step\<^sup>*\<^sup>* spliced (faulted spliced)"
    by (metis (no_types) converse_rtranclp_into_rtranclp rtranclp.rtrancl_refl)
  then have "world_step\<^sup>*\<^sup>* (new_forwarder 3) (faulted spliced)"
    using fwd_runs_world [OF rtranclp_trans [OF spliced_reachable]] by blast
  moreover have "t = faulted spliced" if "fwd_step (faulted spliced) t" for t
    using that by (cases rule: fwd_step.cases) (auto simp: faulted_def spliced_def leave_def pipe_over_def)
  ultimately show ?thesis by (simp add: faulted_def spliced_def)
qed

end
