(* ===== verification/Ipc.thy ===== *)
theory Ipc
  imports Tunnel_Attach
begin

text \<open>
  Package \<^verbatim>\<open>internal/ipc\<close>: the frames of the daemon's socket, its requests and responses, and the
  sanitizing of text an agent sent.

  A frame is the version byte, a 32-bit big-endian length and the payload. The CBOR encoders and decoders
  are third party: arguments. A response's \<^verbatim>\<open>uint\<close> status is a 64-bit word.
\<close>

subsection \<open>Frames\<close>

definition socket_schema :: int where "socket_schema = 1"
definition max_ipc_frame :: nat where "max_ipc_frame = 64 * 1024"
definition ipc_frame_version :: byte where "ipc_frame_version = CHR 0x01"

datatype ipc_error =
    Ipc_too_large nat
  | Ipc_version byte
  | Ipc_io io_error
  | Ipc_marshal string
  | Ipc_decode string

definition ipc_frame_bytes :: "bytes \<Rightarrow> ipc_error + bytes" where
  "ipc_frame_bytes payload =
    (if max_ipc_frame < length payload then Inl (Ipc_too_large (length payload))
     else Inr (ipc_frame_version # be32 (length payload) @ payload))"

definition ipc_write_frame :: "writer \<Rightarrow> bytes \<Rightarrow> ipc_error option \<times> writer" where
  "ipc_write_frame w payload =
    (case ipc_frame_bytes payload of
       Inl e \<Rightarrow> (Some e, w)
     | Inr buf \<Rightarrow> (let (err, w') = write_bytes buf w in (map_option Ipc_io err, w')))"

definition ipc_read_frame :: "reader \<Rightarrow> ipc_error + (bytes \<times> reader)" where
  "ipc_read_frame r =
    (case read_full 5 r of
       Inl e \<Rightarrow> Inl (Ipc_io e)
     | Inr (hdr, r1) \<Rightarrow>
         if hdr ! 0 \<noteq> ipc_frame_version then Inl (Ipc_version (hdr ! 0))
         else (let n = unbe (drop 1 hdr) in
           if max_ipc_frame < n then Inl (Ipc_too_large n)
           else (case read_full n r1 of
               Inl e \<Rightarrow> Inl (Ipc_io e)
             | Inr (payload, r2) \<Rightarrow> Inr (payload, r2))))"

subsection \<open>Requests and responses\<close>

record ipc_request =
  rq_schema :: int
  rq_kind :: string
  rq_method :: string
  rq_server :: string
  rq_target :: string
  rq_meta :: "string \<rightharpoonup> string"
  rq_args :: bytes

record ipc_response =
  rs_schema :: int
  rs_status :: "64 word"
  rs_msg :: string
  rs_body :: bytes

definition write_request :: "(ipc_request \<Rightarrow> string + bytes) \<Rightarrow> writer \<Rightarrow> ipc_request \<Rightarrow> ipc_error option \<times> writer" where
  "write_request cbor_enc w req =
    (case cbor_enc req of Inl e \<Rightarrow> (Some (Ipc_marshal e), w) | Inr p \<Rightarrow> ipc_write_frame w p)"

text \<open>\<open>strict_dec\<close> decodes with unknown fields refused.\<close>

definition read_request :: "(bytes \<Rightarrow> string + ipc_request) \<Rightarrow> reader \<Rightarrow> ipc_error + (ipc_request \<times> reader)" where
  "read_request strict_dec r =
    (case ipc_read_frame r of
       Inl e \<Rightarrow> Inl e
     | Inr (p, r') \<Rightarrow> (case strict_dec p of Inl e \<Rightarrow> Inl (Ipc_decode e) | Inr req \<Rightarrow> Inr (req, r')))"

definition write_ipc_response ::
  "(ipc_response \<Rightarrow> string + bytes) \<Rightarrow> writer \<Rightarrow> ipc_response \<Rightarrow> ipc_error option \<times> writer" where
  "write_ipc_response cbor_enc w resp =
    (case cbor_enc resp of Inl e \<Rightarrow> (Some (Ipc_marshal e), w) | Inr p \<Rightarrow> ipc_write_frame w p)"

definition read_ipc_response :: "(bytes \<Rightarrow> string + ipc_response) \<Rightarrow> reader \<Rightarrow> ipc_error + (ipc_response \<times> reader)" where
  "read_ipc_response cbor_dec r =
    (case ipc_read_frame r of
       Inl e \<Rightarrow> Inl e
     | Inr (p, r') \<Rightarrow> (case cbor_dec p of Inl e \<Rightarrow> Inl (Ipc_decode e) | Inr resp \<Rightarrow> Inr (resp, r')))"

definition int_text :: "int \<Rightarrow> string" where
  "int_text n = (if n < 0 then CHR ''-'' # itoa (nat (- n)) else itoa (nat n))"

definition schema_mismatch_response :: "int \<Rightarrow> ipc_response" where
  "schema_mismatch_response client = \<lparr>rs_schema = socket_schema, rs_status = 1,
     rs_msg = ''socket schema mismatch: client sent '' @ int_text client @ '', daemon speaks '' @
       int_text socket_schema @ ''; restart the daemon'', rs_body = []\<rparr>"

definition error_response :: "64 word \<Rightarrow> string \<Rightarrow> ipc_response" where
  "error_response status msg = \<lparr>rs_schema = socket_schema, rs_status = status, rs_msg = msg, rs_body = []\<rparr>"

definition ok_response :: "bytes \<Rightarrow> ipc_response" where
  "ok_response body = \<lparr>rs_schema = socket_schema, rs_status = 0, rs_msg = [], rs_body = body\<rparr>"

datatype round_trip_error = Round_trip_write ipc_error | Round_trip_read ipc_error

definition round_trip_conn ::
  "(ipc_request \<Rightarrow> string + bytes) \<Rightarrow> (bytes \<Rightarrow> string + ipc_response) \<Rightarrow> writer \<Rightarrow> reader \<Rightarrow> ipc_request
     \<Rightarrow> (round_trip_error + ipc_response) \<times> writer"
where
  "round_trip_conn cbor_enc cbor_dec w r req =
    (case write_request cbor_enc w req of
       (Some e, w') \<Rightarrow> (Inl (Round_trip_write e), w')
     | (None, w') \<Rightarrow>
         (case read_ipc_response cbor_dec r of
            Inl e \<Rightarrow> (Inl (Round_trip_read e), w')
          | Inr (resp, _) \<Rightarrow> (Inr resp, w')))"

subsection \<open>Sanitizing\<close>

definition max_sanitized_field_len :: nat where "max_sanitized_field_len = 256"

definition is_unsafe_agent_rune :: "rune \<Rightarrow> bool" where
  "is_unsafe_agent_rune r \<longleftrightarrow> r < 0x20 \<or> (0x7f \<le> r \<and> r \<le> 0x9f) \<or> is_cf r \<or> is_zl r \<or> is_zp r"

definition sanitize_agent_string :: "string \<Rightarrow> string" where
  "sanitize_agent_string s =
    (let truncated = max_sanitized_field_len < length s;
         s' = (if truncated then take max_sanitized_field_len s else s);
         out = concat (map (encode_rune \<circ> fst)
           (filter (\<lambda>(r, size). \<not> (r = rune_error \<and> size = 1) \<and> \<not> is_unsafe_agent_rune r) (runes s')))
     in if truncated then out @ ''...[truncated]'' else out)"

subsection \<open>The framing satisfies its interface\<close>

lemma ipc_read_framed:
  assumes "ipc_frame_bytes p = Inr f"
  shows "ipc_read_frame \<lparr>avail = f @ rest, fin = e\<rparr> = Inr (p, \<lparr>avail = rest, fin = e\<rparr>)"
proof -
  have len: "length p \<le> max_ipc_frame" and f: "f = (ipc_frame_version # be32 (length p)) @ p"
    using assms by (auto simp: ipc_frame_bytes_def split: if_splits)
  have "read_full 5 \<lparr>avail = f @ rest, fin = e\<rparr> = Inr (ipc_frame_version # be32 (length p), \<lparr>avail = p @ rest, fin = e\<rparr>)"
    using read_full_exact [of "ipc_frame_version # be32 (length p)" 5] by (simp add: f)
  then show ?thesis
    using len by (simp add: ipc_read_frame_def read_full_exact max_ipc_frame_def)
qed

lemma ipc_read_frame_InrD:
  assumes "ipc_read_frame r = Inr (p, r')"
  shows "\<exists>f. ipc_frame_bytes p = Inr f \<and> avail r = f @ avail r' \<and> fin r' = fin r"
proof -
  obtain hdr r1 where
    1: "read_full 5 r = Inr (hdr, r1)" "hdr ! 0 = ipc_frame_version" and
    2: "unbe (drop 1 hdr) \<le> max_ipc_frame" "read_full (unbe (drop 1 hdr)) r1 = Inr (p, r')"
    using assms by (auto simp: ipc_read_frame_def Let_def split: sum.splits prod.splits if_splits)
  have "length hdr = 5" using 1 by (simp add: read_full_Inr_iff)
  then obtain t where t: "hdr = ipc_frame_version # t" "length t = 4" using 1 by (cases hdr) auto
  then have "be32 (length p) = t" using 2 by (simp add: read_full_Inr_iff be32_inverse)
  then show ?thesis using 1 2 t by (simp add: read_full_Inr_iff ipc_frame_bytes_def)
qed

interpretation ipc_frame: frame_codec ipc_frame_bytes ipc_read_frame
  by unfold_locales (simp_all add: ipc_read_framed ipc_read_frame_InrD)

lemma ipc_frame_ok_iff: "(\<exists>f. ipc_frame_bytes p = Inr f) \<longleftrightarrow> length p \<le> max_ipc_frame"
  by (auto simp: ipc_frame_bytes_def)

text \<open>A message survives its codec and fits a frame.\<close>

definition ipc_codec_ok :: "('a \<Rightarrow> string + bytes) \<Rightarrow> (bytes \<Rightarrow> string + 'a) \<Rightarrow> 'a \<Rightarrow> bool" where
  "ipc_codec_ok enc dec x \<longleftrightarrow> (case enc x of Inl _ \<Rightarrow> False | Inr p \<Rightarrow> dec p = Inr x \<and> length p \<le> max_ipc_frame)"

lemma ipc_codec_okE:
  assumes "ipc_codec_ok enc dec x"
  obtains p f where "enc x = Inr p" "dec p = Inr x" "ipc_frame_bytes p = Inr f"
  using assms ipc_frame_ok_iff by (auto simp: ipc_codec_ok_def split: sum.splits)

lemma ipc_write_unbounded:
  "ipc_frame_bytes p = Inr f \<Longrightarrow> ipc_write_frame \<lparr>sent = s, room = None\<rparr> p = (None, \<lparr>sent = s @ f, room = None\<rparr>)"
  by (simp add: ipc_write_frame_def write_bytes_def)

lemma request_delivered:
  assumes "ipc_codec_ok enc dec req"
  shows "\<exists>f. write_request enc \<lparr>sent = s, room = None\<rparr> req = (None, \<lparr>sent = s @ f, room = None\<rparr>) \<and>
    (\<forall>rest e. read_request dec \<lparr>avail = f @ rest, fin = e\<rparr> = Inr (req, \<lparr>avail = rest, fin = e\<rparr>))"
  using assms by (elim ipc_codec_okE)
    (auto simp: write_request_def read_request_def ipc_write_unbounded ipc_read_framed)

lemma response_delivered:
  assumes "ipc_codec_ok enc dec resp"
  shows "\<exists>f. write_ipc_response enc \<lparr>sent = s, room = None\<rparr> resp = (None, \<lparr>sent = s @ f, room = None\<rparr>) \<and>
    (\<forall>rest e. read_ipc_response dec \<lparr>avail = f @ rest, fin = e\<rparr> = Inr (resp, \<lparr>avail = rest, fin = e\<rparr>))"
  using assms by (elim ipc_codec_okE)
    (auto simp: write_ipc_response_def read_ipc_response_def ipc_write_unbounded ipc_read_framed)

subsection \<open>What sanitizing keeps\<close>

definition agent_keeps :: "rune \<times> nat \<Rightarrow> bool" where
  "agent_keeps = (\<lambda>(r, size). \<not> (r = rune_error \<and> size = 1) \<and> \<not> is_unsafe_agent_rune r)"

definition kept_runes :: "string \<Rightarrow> rune list" where
  "kept_runes s = map fst (filter agent_keeps (runes s))"

lemma sanitize_kept:
  "sanitize_agent_string s = concat (map encode_rune (kept_runes (take max_sanitized_field_len s))) @
     (if max_sanitized_field_len < length s then ''...[truncated]'' else [])"
  by (simp add: sanitize_agent_string_def kept_runes_def agent_keeps_def Let_def comp_def)

lemma runes_width_pos: "x \<in> set (runes s) \<Longrightarrow> 0 < snd x"
proof (induction s rule: runes.induct)
  case (1 s)
  then show ?case
    using decode_rune_width_pos [of s] by (cases "s = []") (auto simp: runes.simps [of s] Let_def)
qed

lemma kept_encodable:
  assumes "r \<in> set (kept_runes s)"
  shows "encodable r \<and> \<not> is_unsafe_agent_rune r"
proof -
  obtain w where w: "(r, w) \<in> set (runes s)" "agent_keeps (r, w)" using assms by (auto simp: kept_runes_def)
  then have "r \<noteq> rune_error \<or> 1 < w" using runes_width_pos [OF w(1)] w(2) by (auto simp: agent_keeps_def)
  then show ?thesis using runes_encodable [OF w(1)] w(2) by (auto simp: agent_keeps_def)
qed

definition plain_text :: "string \<Rightarrow> bool" where
  "plain_text s \<longleftrightarrow> list_all (\<lambda>c. 0x20 \<le> ord c \<and> ord c < 0x7f) s"

lemma plain_text_runes:
  "plain_text s \<Longrightarrow> s = concat (map encode_rune (map ord s)) \<and>
     (\<forall>r\<in>set (map ord s). encodable r \<and> \<not> is_unsafe_agent_rune r)"
  by (induction s)
    (auto simp: plain_text_def encode_rune_ascii encodable_def is_unsafe_agent_rune_def is_cf_def cf_ranges_def
       is_zl_def is_zp_def)

lemma sanitize_as_runes:
  "\<exists>rs. sanitize_agent_string s = concat (map encode_rune rs) \<and> (\<forall>r\<in>set rs. encodable r \<and> \<not> is_unsafe_agent_rune r)"
proof -
  define m where "m = (if max_sanitized_field_len < length s then ''...[truncated]'' else [])"
  have "plain_text m" by (simp add: m_def plain_text_def)
  from plain_text_runes [OF this]
  have "sanitize_agent_string s = concat (map encode_rune (kept_runes (take max_sanitized_field_len s) @ map ord m))"
    unfolding sanitize_kept m_def [symmetric] by simp
  then show ?thesis using plain_text_runes [OF \<open>plain_text m\<close>] kept_encodable by (metis Un_iff set_append)
qed

lemma sanitize_safe: "\<forall>x\<in>set (runes (sanitize_agent_string s)). \<not> is_unsafe_agent_rune (fst x)"
  using sanitize_as_runes [of s] runes_encoded by fastforce

lemma sanitize_bounded: "length (sanitize_agent_string s) \<le> 270"
proof -
  let ?t = "take max_sanitized_field_len s"
  have "length (concat (map encode_rune (kept_runes ?t))) \<le> length ?t"
    unfolding kept_runes_def
    by (rule length_encoded_filter) (use runes_width_pos in \<open>fastforce simp: agent_keeps_def\<close>)
  moreover have "length ?t \<le> 256" by (simp add: max_sanitized_field_len_def)
  moreover have "length (sanitize_agent_string s) \<le> length (concat (map encode_rune (kept_runes ?t))) + 14"
    unfolding sanitize_kept length_append by (rule add_left_mono) simp
  ultimately show ?thesis by linarith
qed

end
