(* ===== verification/Go_Quote.thy ===== *)
theory Go_Quote
  imports Go_Unicode
begin

text \<open>
  Go's \<^verbatim>\<open>strconv.Quote\<close>, which the \<^verbatim>\<open>%q\<close> verb uses. The table of printable runes outside ASCII is
  the argument \<open>wide\<close>.
\<close>

definition lower_hex :: "nat \<Rightarrow> char" where
  "lower_hex n = ''0123456789abcdef'' ! n"

definition hex_text :: "nat \<Rightarrow> nat \<Rightarrow> string" where
  "hex_text digits n = map (\<lambda>i. lower_hex (n div 16 ^ i mod 16)) (rev [0..<digits])"

definition is_print :: "(rune \<Rightarrow> bool) \<Rightarrow> rune \<Rightarrow> bool" where
  "is_print wide r = (if r < 0x80 then 0x20 \<le> r \<and> r < 0x7f else wide r)"

definition escaped_rune :: "(rune \<Rightarrow> bool) \<Rightarrow> rune \<Rightarrow> string" where
  "escaped_rune wide r =
    (if r = 0x22 \<or> r = 0x5c then [CHR 0x5c, char_of r]
     else if is_print wide r then encode_rune r
     else if r = 7 then CHR 0x5c # ''a''
     else if r = 8 then CHR 0x5c # ''b''
     else if r = 12 then CHR 0x5c # ''f''
     else if r = 10 then CHR 0x5c # ''n''
     else if r = 13 then CHR 0x5c # ''r''
     else if r = 9 then CHR 0x5c # ''t''
     else if r = 11 then CHR 0x5c # ''v''
     else if r < 0x20 \<or> r = 0x7f then CHR 0x5c # CHR ''x'' # hex_text 2 r
     else if r < 0x10000 then CHR 0x5c # CHR ''u'' # hex_text 4 r
     else CHR 0x5c # CHR ''U'' # hex_text 8 r)"

fun quoted_from :: "(rune \<Rightarrow> bool) \<Rightarrow> bytes \<Rightarrow> (rune \<times> nat) list \<Rightarrow> string" where
  "quoted_from wide s [] = []"
| "quoted_from wide s ((r, w) # rs) =
    (if w = 1 \<and> r = rune_error then CHR 0x5c # CHR ''x'' # hex_text 2 (ord (hd s)) else escaped_rune wide r) @
      quoted_from wide (drop w s) rs"

definition go_quote :: "(rune \<Rightarrow> bool) \<Rightarrow> string \<Rightarrow> string" where
  "go_quote wide s = CHR 0x22 # quoted_from wide s (runes s) @ [CHR 0x22]"

lemma quote_plain:
  assumes "list_all (\<lambda>c. 0x20 \<le> ord c \<and> ord c < 0x7f \<and> ord c \<noteq> 0x22 \<and> ord c \<noteq> 0x5c) s"
  shows "go_quote wide s = CHR 0x22 # s @ [CHR 0x22]"
proof -
  have "quoted_from wide s (runes s) = s" using assms
  proof (induction s)
    case (Cons c s)
    then show ?case
      by (simp add: runes_ascii_Cons escaped_rune_def is_print_def encode_rune_ascii rune_error_def)
  qed simp
  then show ?thesis by (simp add: go_quote_def)
qed

end
