(* ===== verification/Ipc_Server.thy ===== *)
theory Ipc_Server
  imports Ipc Go_Quote
begin

text \<open>
  \<^verbatim>\<open>internal/ipc/server.go\<close>: what the daemon does with one connection to its socket.

  The providers a server was given are the fields of \<open>ipc_server\<close>, \<open>None\<close> where none was set. A handler
  is the list of its events: what it asked a provider, the responses it wrote, the events of a relayed
  attach, the release of the connection's slot and the close. \<open>wr\<close> says which writes to the peer fail;
  \<open>wide\<close> is the table \<^verbatim>\<open>%q\<close> uses outside ASCII.
\<close>

datatype relay_failure = Routes_error "64 word" string | Relay_error string

record ipc_server =
  sv_uid :: int
  sv_attach_cap :: "32 word"
  sv_status :: "string + bytes"
  sv_doctor :: "(string \<Rightarrow> string + bytes) option"
  sv_routes :: "(string \<Rightarrow> relay_failure + bytes) option"
  sv_vhosts :: "(string \<Rightarrow> relay_failure + bytes) option"
  sv_withdraw :: "(string \<Rightarrow> string \<Rightarrow> relay_failure + bytes) option"
  sv_expose :: "(string \<Rightarrow> string \<Rightarrow> int \<Rightarrow> relay_failure + bytes) option"
  sv_entry_state :: "string \<Rightarrow> string + string"
  sv_open_conn :: "string \<Rightarrow> string + attach_env"

datatype rpc_ask =
    Ask_doctor string
  | Ask_status
  | Ask_routes string
  | Ask_vhosts string
  | Ask_withdraw string string
  | Ask_expose string string int
  | Ask_attach string string

datatype ipc_event =
    Asked rpc_ask
  | Wrote ipc_response
  | Relayed attach_event
  | Slot_released
  | Conn_closed

definition default_conn_cap :: int where "default_conn_cap = 64"
definition default_attach_cap :: "32 word" where "default_attach_cap = 256"
definition routes_body_headroom :: nat where "routes_body_headroom = 512"

definition conn_cap :: "int \<Rightarrow> nat" where
  "conn_cap opt = nat (if opt \<le> 0 then default_conn_cap else opt)"

definition attach_cap :: "32 word \<Rightarrow> 32 word" where
  "attach_cap opt = (if opt \<le>s 0 then default_attach_cap else opt)"

definition meta_get :: "(string \<rightharpoonup> string) \<Rightarrow> string \<Rightarrow> string" where
  "meta_get m k = (case m k of None \<Rightarrow> [] | Some v \<Rightarrow> v)"

subsection \<open>Procedure calls\<close>

definition routes_error_response :: "64 word \<Rightarrow> string \<Rightarrow> ipc_response" where
  "routes_error_response status msg = error_response status (sanitize_agent_string msg)"

definition relay_reply :: "relay_failure + bytes \<Rightarrow> string \<Rightarrow> (nat \<Rightarrow> string) \<Rightarrow> ipc_response" where
  "relay_reply result generic too_large =
    (case result of
       Inl (Routes_error status msg) \<Rightarrow> routes_error_response status msg
     | Inl (Relay_error _) \<Rightarrow> error_response 1 generic
     | Inr body \<Rightarrow>
         if max_ipc_frame - routes_body_headroom < length body
         then error_response 1 (too_large (length body))
         else ok_response body)"

definition relay_too_large :: "string \<Rightarrow> string \<Rightarrow> nat \<Rightarrow> string" where
  "relay_too_large what fault n =
     what @ '' over the local socket ('' @ itoa n @ '' bytes as JSON); this is a local IPC limit, not a problem with '' @ fault"

definition refuse :: "string \<Rightarrow> ipc_event list" where
  "refuse msg = [Wrote (error_response 1 msg)]"

definition handle_doctor :: "ipc_server \<Rightarrow> ipc_request \<Rightarrow> ipc_event list" where
  "handle_doctor sv req =
    (case sv_doctor sv of
       None \<Rightarrow> refuse ''this daemon does not answer diagnosis requests''
     | Some f \<Rightarrow> let probe = meta_get (rq_meta req) ''probe'' in
         Asked (Ask_doctor probe) #
         (case f probe of
            Inl _ \<Rightarrow> refuse ''internal error building the report''
          | Inr snap \<Rightarrow> [Wrote (ok_response snap)]))"

definition handle_status :: "ipc_server \<Rightarrow> ipc_event list" where
  "handle_status sv = Asked Ask_status #
    (case sv_status sv of
       Inl _ \<Rightarrow> refuse ''internal error building status''
     | Inr snap \<Rightarrow> [Wrote (ok_response snap)])"

definition handle_routes :: "(rune \<Rightarrow> bool) \<Rightarrow> ipc_server \<Rightarrow> ipc_request \<Rightarrow> ipc_event list" where
  "handle_routes wide sv req =
    (case sv_routes sv of
       None \<Rightarrow> refuse ''this daemon does not answer route relay requests''
     | Some f \<Rightarrow>
         if rq_server req = [] then refuse ''routes: server name is required''
         else [Asked (Ask_routes (rq_server req)),
           Wrote (relay_reply (f (rq_server req)) ''internal error relaying routes''
             (relay_too_large (''server '' @ go_quote wide (rq_server req) @ CHR 0x27 # ''s route table is too large to relay'') ''the agent''))])"

definition handle_vhosts :: "(rune \<Rightarrow> bool) \<Rightarrow> ipc_server \<Rightarrow> ipc_request \<Rightarrow> ipc_event list" where
  "handle_vhosts wide sv req =
    (case sv_vhosts sv of
       None \<Rightarrow> refuse ''this daemon does not answer published-name requests''
     | Some f \<Rightarrow>
         if rq_server req = [] then refuse ''vhosts: server name is required''
         else [Asked (Ask_vhosts (rq_server req)),
           Wrote (relay_reply (f (rq_server req)) ''internal error relaying published names''
             (relay_too_large (''server '' @ go_quote wide (rq_server req) @ '' publishes too many names to relay'') ''the agent''))])"

definition handle_withdraw :: "(rune \<Rightarrow> bool) \<Rightarrow> ipc_server \<Rightarrow> ipc_request \<Rightarrow> ipc_event list" where
  "handle_withdraw wide sv req =
    (case sv_withdraw sv of
       None \<Rightarrow> refuse ''this daemon does not answer withdraw requests''
     | Some f \<Rightarrow> let host = meta_get (rq_meta req) ''host'' in
         if rq_server req = [] then refuse ''withdraw: server name is required''
         else if host = [] then refuse ''withdraw: name is required''
         else [Asked (Ask_withdraw (rq_server req) host),
           Wrote (relay_reply (f (rq_server req) host) ''internal error withdrawing a name''
             (relay_too_large (''server '' @ go_quote wide (rq_server req) @ '' sent a withdrawal reply too large to relay'') ''the name''))])"

definition expose_port :: "ipc_request \<Rightarrow> int option" where
  "expose_port req =
    (case atoi (meta_get (rq_meta req) ''port'') of
       None \<Rightarrow> None | Some p \<Rightarrow> if p < 1 \<or> 65535 < p then None else Some p)"

definition handle_expose :: "(rune \<Rightarrow> bool) \<Rightarrow> ipc_server \<Rightarrow> ipc_request \<Rightarrow> ipc_event list" where
  "handle_expose wide sv req =
    (case sv_expose sv of
       None \<Rightarrow> refuse ''this daemon does not answer publish requests''
     | Some f \<Rightarrow> let host = meta_get (rq_meta req) ''host'' in
         if rq_server req = [] then refuse ''expose: server name is required''
         else if host = [] then refuse ''expose: a name to publish is required''
         else (case expose_port req of
             None \<Rightarrow> refuse (''expose: '' @ go_quote wide (meta_get (rq_meta req) ''port'') @ '' is not a port between 1 and 65535'')
           | Some port \<Rightarrow> [Asked (Ask_expose (rq_server req) host port),
               Wrote (relay_reply (f (rq_server req) host port) ''internal error relaying a publish request''
                 (relay_too_large (''server '' @ go_quote wide (rq_server req) @ '' sent a reply too large to relay'') ''the name''))]))"

definition handle_rpc :: "(rune \<Rightarrow> bool) \<Rightarrow> ipc_server \<Rightarrow> ipc_request \<Rightarrow> ipc_event list" where
  "handle_rpc wide sv req =
    (if rq_method req = ''doctor'' then handle_doctor sv req
     else if rq_method req = ''status'' then handle_status sv
     else if rq_method req = ''routes'' then handle_routes wide sv req
     else if rq_method req = ''vhosts'' then handle_vhosts wide sv req
     else if rq_method req = ''withdraw'' then handle_withdraw wide sv req
     else if rq_method req = ''expose'' then handle_expose wide sv req
     else refuse (''unknown method '' @ go_quote wide (rq_method req)))"

subsection \<open>Attaching\<close>

text \<open>What an attach and its surroundings contribute besides the server: the two CBOR codecs of the wire
  protocol, which writes to the peer fail, and the random bytes of a request id.\<close>

record attach_ctx =
  ax_enc :: "header \<Rightarrow> string + bytes"
  ax_dec :: "bytes \<Rightarrow> string + response"
  ax_wr :: "ipc_response \<Rightarrow> string option"
  ax_rand :: "string + bytes"

definition ack_response :: "response \<Rightarrow> ipc_response" where
  "ack_response resp =
    (if r_status resp = status_ok then ok_response []
     else error_response (of_nat (exit_code_for_status (r_status resp))) (sanitize_agent_string (r_msg resp)))"

fun ack_events :: "(ipc_response \<Rightarrow> string option) \<Rightarrow> attach_event \<Rightarrow> ipc_event list" where
  "ack_events wr (Ack_relayed resp) = Wrote (ack_response resp) #
     (if wr (ack_response resp) = None \<and> r_status resp = status_ok then [Slot_released] else [])"
| "ack_events wr e = [Relayed e]"

text \<open>\<open>n\<close> is the number of attaches in flight before this one; the count wraps as an \<^verbatim>\<open>int32\<close>.\<close>

definition handle_attach ::
  "(rune \<Rightarrow> bool) \<Rightarrow> attach_ctx \<Rightarrow> ipc_server \<Rightarrow> 32 word \<Rightarrow> ipc_request \<Rightarrow> ipc_event list" where
  "handle_attach wide ax sv n req =
    (if rq_server req = [] then refuse ''attach: server name is required''
     else if rq_target req = [] then refuse ''attach: target name is required''
     else if sv_attach_cap sv <s n + 1 then refuse ''too many open tunnels; try again later''
     else (case sv_entry_state sv (rq_server req) of
         Inl e \<Rightarrow> [Wrote (error_response 3 (''server '' @ go_quote wide (rq_server req) @ '': '' @ e))]
       | Inr _ \<Rightarrow>
         (case sv_open_conn sv (rq_server req) of
            Inl e \<Rightarrow> [Wrote (error_response 3 (''server '' @ go_quote wide (rq_server req) @ '': not ready: '' @ e))]
          | Inr env \<Rightarrow>
            (let given = meta_get (rq_meta req) ''reqid'';
                 reqid = (if given = [] then new_req_id (ax_rand ax) else given);
                 (_, _, es) = do_attach (ax_enc ax) (ax_dec ax)
                   (env\<lparr>ae_relay := Some (\<lambda>resp. ax_wr ax (ack_response resp))\<rparr>) (rq_target req) reqid
             in Asked (Ask_attach (rq_server req) (rq_target req)) # concat (map (ack_events (ax_wr ax)) es)))))"

subsection \<open>A connection\<close>

definition too_large_text :: "nat \<Rightarrow> string" where
  "too_large_text n = ''ipc: frame too large: '' @ itoa n @ '' bytes''"

text \<open>\<open>peer\<close> is what the kernel says of the peer, \<open>armed\<close> whether the read deadline could be set.\<close>

definition ipc_handle_conn ::
  "(rune \<Rightarrow> bool) \<Rightarrow> attach_ctx \<Rightarrow> (bytes \<Rightarrow> string + ipc_request) \<Rightarrow> ipc_server \<Rightarrow> string + 32 word \<Rightarrow> bool \<Rightarrow> 32 word
     \<Rightarrow> reader \<Rightarrow> ipc_event list"
where
  "ipc_handle_conn wide ax strict_dec sv peer armed n rd =
    (case peer of
       Inl _ \<Rightarrow> refuse ''peer-cred check failed''
     | Inr uid \<Rightarrow>
       if uint uid \<noteq> sv_uid sv
       then refuse (''peer uid '' @ itoa (unat uid) @ '' not authorized (expected '' @ int_text (sv_uid sv) @ '')'')
       else if \<not> armed then []
       else (case read_request strict_dec rd of
           Inl (Ipc_too_large k) \<Rightarrow> refuse (too_large_text k)
         | Inl _ \<Rightarrow> []
         | Inr (req, _) \<Rightarrow>
           if rq_schema req \<noteq> socket_schema then [Wrote (schema_mismatch_response (rq_schema req))]
           else if rq_kind req = ''rpc'' then handle_rpc wide sv req
           else if rq_kind req = ''attach'' then handle_attach wide ax sv n req
           else refuse (''unknown kind '' @ go_quote wide (rq_kind req)))) @ [Conn_closed]"

text \<open>The goroutine \<^verbatim>\<open>Serve\<close> starts: the slot goes back once, at the latest when the handler returns.\<close>

definition serve_conn ::
  "(rune \<Rightarrow> bool) \<Rightarrow> attach_ctx \<Rightarrow> (bytes \<Rightarrow> string + ipc_request) \<Rightarrow> ipc_server \<Rightarrow> string + 32 word \<Rightarrow> bool \<Rightarrow> 32 word
     \<Rightarrow> reader \<Rightarrow> ipc_event list"
where
  "serve_conn wide ax strict_dec sv peer armed n rd =
    (let es = ipc_handle_conn wide ax strict_dec sv peer armed n rd
     in es @ (if Slot_released \<in> set es then [] else [Slot_released]))"

subsection \<open>Every connection is contained\<close>

fun is_wrote :: "ipc_event \<Rightarrow> bool" where
  "is_wrote (Wrote _) = True"
| "is_wrote _ = False"

text \<open>What a request may make the daemon ask.\<close>

definition asks_for :: "ipc_request \<Rightarrow> rpc_ask option" where
  "asks_for req =
    (if rq_schema req \<noteq> socket_schema then None
     else if rq_kind req = ''attach'' then
       (if rq_server req = [] \<or> rq_target req = [] then None else Some (Ask_attach (rq_server req) (rq_target req)))
     else if rq_kind req \<noteq> ''rpc'' then None
     else if rq_method req = ''doctor'' then Some (Ask_doctor (meta_get (rq_meta req) ''probe''))
     else if rq_method req = ''status'' then Some Ask_status
     else if rq_server req = [] then None
     else if rq_method req = ''routes'' then Some (Ask_routes (rq_server req))
     else if rq_method req = ''vhosts'' then Some (Ask_vhosts (rq_server req))
     else if meta_get (rq_meta req) ''host'' = [] then None
     else if rq_method req = ''withdraw'' then Some (Ask_withdraw (rq_server req) (meta_get (rq_meta req) ''host''))
     else if rq_method req = ''expose'' then
       map_option (Ask_expose (rq_server req) (meta_get (rq_meta req) ''host'')) (expose_port req)
     else None)"

definition contained :: "ipc_request \<Rightarrow> ipc_event list \<Rightarrow> bool" where
  "contained req es \<longleftrightarrow> length (filter is_wrote es) \<le> 1 \<and> count_list es Slot_released \<le> 1 \<and> Conn_closed \<notin> set es \<and>
     (\<forall>a. Asked a \<in> set es \<longrightarrow> asks_for req = Some a) \<and>
     (\<forall>r. Wrote r \<in> set es \<and> rs_status r = 0 \<longrightarrow> (\<exists>a. Asked a \<in> set es))"

lemma contained_refuse [simp]: "contained req (refuse msg)"
  by (simp add: contained_def refuse_def error_response_def)

lemma contained_error: "st \<noteq> 0 \<Longrightarrow> contained req [Wrote (error_response st msg)]"
  by (simp add: contained_def error_response_def)

lemma contained_asked: "asks_for req = Some a \<Longrightarrow> contained req [Asked a, Wrote r]"
  by (simp add: contained_def)

lemma contained_asked_refuse: "asks_for req = Some a \<Longrightarrow> contained req (Asked a # refuse msg)"
  by (simp add: refuse_def contained_asked)

lemma contained_mismatch: "contained req [Wrote (schema_mismatch_response k)]"
  by (simp add: contained_def schema_mismatch_response_def)

lemma contained_rpc:
  assumes "rq_kind req = ''rpc''" "rq_schema req = socket_schema"
  shows "contained req (handle_rpc wide sv req)"
proof -
  note asked = contained_asked [of req] contained_asked_refuse [of req] asks_for_def
  have "contained req (handle_doctor sv req)" if "rq_method req = ''doctor''"
    using that assms by (auto simp: handle_doctor_def Let_def asked split: option.splits sum.splits)
  moreover have "contained req (handle_status sv)" if "rq_method req = ''status''"
    using that assms by (auto simp: handle_status_def asked split: sum.splits)
  moreover have "contained req (handle_routes wide sv req)" if "rq_method req = ''routes''"
    using that assms by (auto simp: handle_routes_def asked split: option.splits)
  moreover have "contained req (handle_vhosts wide sv req)" if "rq_method req = ''vhosts''"
    using that assms by (auto simp: handle_vhosts_def asked split: option.splits)
  moreover have "contained req (handle_withdraw wide sv req)" if "rq_method req = ''withdraw''"
    using that assms by (auto simp: handle_withdraw_def Let_def asked split: option.splits)
  moreover have "contained req (handle_expose wide sv req)" if "rq_method req = ''expose''"
    using that assms by (auto simp: handle_expose_def Let_def asked split: option.splits)
  ultimately show ?thesis by (simp add: handle_rpc_def)
qed

lemma ack_response_success: "rs_status (ack_response resp) = 0 \<longleftrightarrow> r_status resp = status_ok"
  by (simp add: ack_response_def ok_response_def error_response_def exit_code_for_status_def)

lemma attach_events_shape:
  assumes "attach_with_header enc dec (env\<lparr>ae_relay := Some f\<rparr>) hdr pfx = (err, w, es)"
  shows "\<exists>acks rest. es = acks @ rest \<and> (acks = [] \<or> (\<exists>resp. acks = [Ack_relayed resp])) \<and> (\<forall>r. Ack_relayed r \<notin> set rest)"
  using assms
proof (cases rule: attach_cases)
  case (not_opened e)
  then show ?thesis by simp
next
  case (not_written e)
  then show ?thesis by - (rule exI [of _ "[]"], rule exI [of _ es], simp)
next
  case (no_answer e)
  then show ?thesis by - (rule exI [of _ "[]"], rule exI [of _ es], simp)
next
  case (given_up resp ack e)
  then show ?thesis using relay_ack_events [OF given_up(4)]
    by - (rule exI [of _ ack], rule exI [of _ "[Stream_resets stream_reset_code, Local_resets]"], simp)
next
  case (not_replayed resp ack e w1)
  then show ?thesis using relay_ack_events [OF not_replayed(5)]
    by - (rule exI [of _ ack], rule exI [of _ "[Stream_resets stream_reset_code, Local_resets]"], simp)
next
  case (attached resp ack w1)
  then show ?thesis using relay_ack_events [OF attached(5)]
    by - (rule exI [of _ ack], rule exI [of _ "[Joined]"], simp)
qed

lemma no_ack_relayed:
  "\<forall>r. Ack_relayed r \<notin> set es \<Longrightarrow> concat (map (ack_events wr) es) = map Relayed es"
proof (induction es)
  case (Cons e es)
  then show ?case by (cases e) auto
qed simp

lemma relayed_quiet: "filter is_wrote (map Relayed es) = [] \<and> count_list (map Relayed es) Slot_released = 0"
  by (induction es) auto

lemma contained_relayed:
  assumes es: "es = acks @ rest" "acks = [] \<or> (\<exists>resp. acks = [Ack_relayed resp])" "\<forall>r. Ack_relayed r \<notin> set rest"
    and ask: "asks_for req = Some a"
  shows "contained req (Asked a # concat (map (ack_events wr) es))"
proof -
  obtain pre where pre: "concat (map (ack_events wr) es) = pre @ map Relayed rest"
    "pre = [] \<or> (\<exists>r. pre = [Wrote r] \<or> pre = [Wrote r, Slot_released])"
    using es(2) no_ack_relayed [OF es(3), of wr] unfolding es(1) by auto
  show ?thesis using pre(2) ask relayed_quiet [of rest] unfolding pre(1) contained_def by auto
qed

lemma contained_attach:
  assumes "rq_kind req = ''attach''" "rq_schema req = socket_schema"
  shows "contained req (handle_attach wide ax sv n req)"
proof -
  have relayed: "contained req (Asked (Ask_attach (rq_server req) (rq_target req)) # concat (map (ack_events wr) es))"
    if "rq_server req \<noteq> []" "rq_target req \<noteq> []" "do_attach enc dec (env\<lparr>ae_relay := Some f\<rparr>) tgt rid = (err, w, es)"
    for wr enc dec env f tgt rid err w es
  proof -
    have "asks_for req = Some (Ask_attach (rq_server req) (rq_target req))" using that assms by (simp add: asks_for_def)
    then show ?thesis
      using attach_events_shape [OF that(3) [unfolded do_attach_def]] contained_relayed by blast
  qed
  show ?thesis
    by (auto simp: handle_attach_def Let_def contained_error relayed split: sum.splits prod.splits)
qed

lemma conn_body:
  "\<exists>body. ipc_handle_conn wide ax dec sv peer armed n rd = body @ [Conn_closed] \<and>
     (body = [] \<or> (\<exists>msg. body = refuse msg) \<or>
      (\<exists>uid req rest. peer = Inr uid \<and> uint uid = sv_uid sv \<and> read_request dec rd = Inr (req, rest) \<and> contained req body))"
proof (cases peer)
  case (Inr uid)
  show ?thesis
  proof (cases "uint uid = sv_uid sv \<and> armed")
    case ok: True
    show ?thesis
    proof (cases "read_request dec rd")
      case (Inl e)
      then show ?thesis using Inr ok by (cases e) (simp_all add: ipc_handle_conn_def refuse_def error_response_def)
    next
      case (Inr x)
      obtain req rest where x: "x = (req, rest)" by (cases x)
      define body where "body = (if rq_schema req \<noteq> socket_schema then [Wrote (schema_mismatch_response (rq_schema req))]
           else if rq_kind req = ''rpc'' then handle_rpc wide sv req
           else if rq_kind req = ''attach'' then handle_attach wide ax sv n req
           else refuse (''unknown kind '' @ go_quote wide (rq_kind req)))"
      have "contained req body" by (simp add: body_def contained_rpc contained_attach contained_mismatch)
      moreover have "ipc_handle_conn wide ax dec sv peer armed n rd = body @ [Conn_closed]"
        using \<open>peer = Inr uid\<close> ok Inr x by (simp add: ipc_handle_conn_def body_def)
      ultimately show ?thesis using \<open>peer = Inr uid\<close> ok Inr x by blast
    qed
  qed (use Inr in \<open>auto simp: ipc_handle_conn_def\<close>)
qed (auto simp: ipc_handle_conn_def)

text \<open>
  C20: every connection is contained. Whoever connects and whatever they send, the connection is closed once,
  its slot is returned exactly once, and at most one response is written. The daemon asks a provider or the
  pool only what the request names, and only for a peer of its own uid whose request decoded under the
  socket's schema; it reports success only after asking.
\<close>

theorem ipc_conn_contained:
  assumes es: "es = serve_conn wide ax strict_dec sv peer armed n rd"
  shows "length (filter is_wrote es) \<le> 1 \<and> count_list es Slot_released = 1 \<and> count_list es Conn_closed = 1 \<and>
    (\<forall>a. Asked a \<in> set es \<longrightarrow> (\<exists>uid req rest. peer = Inr uid \<and> uint uid = sv_uid sv \<and>
        read_request strict_dec rd = Inr (req, rest) \<and> asks_for req = Some a)) \<and>
    (\<forall>r. Wrote r \<in> set es \<and> rs_status r = 0 \<longrightarrow> (\<exists>a. Asked a \<in> set es))"
proof -
  obtain body where body: "ipc_handle_conn wide ax strict_dec sv peer armed n rd = body @ [Conn_closed]"
    "body = [] \<or> (\<exists>msg. body = refuse msg) \<or> (\<exists>uid req rest. peer = Inr uid \<and> uint uid = sv_uid sv \<and>
        read_request strict_dec rd = Inr (req, rest) \<and> contained req body)"
    using conn_body by blast
  have "count_list body Conn_closed = 0" "count_list body Slot_released \<le> 1" "length (filter is_wrote body) \<le> 1"
    "\<forall>a. Asked a \<in> set body \<longrightarrow> (\<exists>uid req rest. peer = Inr uid \<and> uint uid = sv_uid sv \<and>
        read_request strict_dec rd = Inr (req, rest) \<and> asks_for req = Some a)"
    "\<forall>r. Wrote r \<in> set body \<and> rs_status r = 0 \<longrightarrow> (\<exists>a. Asked a \<in> set body)"
    using body(2) by (auto simp: contained_def count_list_0_iff refuse_def error_response_def)
  moreover have "count_list body Slot_released = (if Slot_released \<in> set body then 1 else 0)"
    using \<open>count_list body Slot_released \<le> 1\<close> by (simp add: count_list_0_iff le_Suc_eq)
  ultimately show ?thesis unfolding es serve_conn_def body(1) Let_def by auto
qed

definition sample_server :: ipc_server where
  "sample_server = \<lparr>sv_uid = 1000, sv_attach_cap = attach_cap 0, sv_status = Inr ''{}'', sv_doctor = None,
     sv_routes = Some (\<lambda>_. Inr ''[]''), sv_vhosts = None, sv_withdraw = None, sv_expose = None,
     sv_entry_state = (\<lambda>_. Inr ''ready''), sv_open_conn = (\<lambda>_. Inr sample_env)\<rparr>"

definition sample_request :: ipc_request where
  "sample_request = \<lparr>rq_schema = 1, rq_kind = ''rpc'', rq_method = ''routes'', rq_server = ''db'', rq_target = [],
     rq_meta = Map.empty, rq_args = []\<rparr>"

definition sample_ctx :: attach_ctx where
  "sample_ctx = \<lparr>ax_enc = (\<lambda>_. Inr []), ax_dec = (\<lambda>_. Inr \<lparr>r_status = status_ok, r_msg = []\<rparr>), ax_wr = (\<lambda>_. None), ax_rand = Inr []\<rparr>"

definition sample_socket :: reader where
  "sample_socket = \<lparr>avail = [CHR 0x01, CHR 0x00, CHR 0x00, CHR 0x00, CHR 0x00], fin = EOF\<rparr>"

lemma sample_read: "read_request (\<lambda>_. Inr sample_request) sample_socket = Inr (sample_request, \<lparr>avail = [], fin = EOF\<rparr>)"
proof -
  have "ipc_frame_bytes [] = Inr [CHR 0x01, CHR 0x00, CHR 0x00, CHR 0x00, CHR 0x00]"
    by (simp add: ipc_frame_bytes_def max_ipc_frame_def ipc_frame_version_def be32_def char_of_eq_iff)
  from ipc_read_framed [OF this, of "[]" EOF] show ?thesis by (simp add: read_request_def sample_socket_def)
qed

lemma sample_conn:
  "serve_conn (\<lambda>_. False) sample_ctx (\<lambda>_. Inr sample_request) sample_server (Inr 1000) True 0 sample_socket =
     [Asked (Ask_routes ''db''), Wrote (ok_response ''[]''), Conn_closed, Slot_released]"
  by (simp add: serve_conn_def ipc_handle_conn_def sample_read)
    (simp add: sample_request_def socket_schema_def sample_server_def handle_rpc_def handle_routes_def relay_reply_def
       max_ipc_frame_def routes_body_headroom_def)

theorem ipc_conn_contained_witness:
  "\<exists>uid req rest. Inr 1000 = (Inr uid :: string + 32 word) \<and> uint uid = sv_uid sample_server \<and>
     read_request (\<lambda>_. Inr sample_request) sample_socket = Inr (req, rest) \<and> asks_for req = Some (Ask_routes ''db'')"
  using ipc_conn_contained [OF sample_conn [symmetric]] by auto

end
