(* ===== verification/Ipc_Client.thy ===== *)
theory Ipc_Client
  imports Ipc_Server
begin

text \<open>
  \<^verbatim>\<open>internal/ipc/client.go\<close>: the thin client of the daemon's socket, and both ends of the socket together.

  A dialled connection is the writer and the reader of the socket. Every procedure call closes it when it
  returns; \<open>client_attach\<close> hands it over on success and its second component says whether it closed it.
\<close>

datatype dial_failure = Dial_refused string | Dial_no_file string | Dial_other string

datatype client_error =
    Cl_daemon_absent string
  | Cl_dial string
  | Cl_write ipc_error
  | Cl_read ipc_error
  | Cl_schema int
  | Cl_deadline string
  | Cl_doctor string
  | Cl_status "64 word" string
  | Cl_routes "64 word" string
  | Cl_attach int string

record client_conn =
  cc_writer :: writer
  cc_reader :: reader

definition is_net_refused :: "dial_failure \<Rightarrow> bool" where
  "is_net_refused e = (case e of Dial_refused _ \<Rightarrow> True | _ \<Rightarrow> False)"

definition is_no_such_file :: "dial_failure \<Rightarrow> bool" where
  "is_no_such_file e = (case e of Dial_no_file _ \<Rightarrow> True | _ \<Rightarrow> False)"

fun dial_failure_text :: "dial_failure \<Rightarrow> string" where
  "dial_failure_text (Dial_refused m) = m"
| "dial_failure_text (Dial_no_file m) = m"
| "dial_failure_text (Dial_other m) = m"

definition client_dial :: "dial_failure + client_conn \<Rightarrow> client_error + client_conn" where
  "client_dial d =
    (case d of
       Inr c \<Rightarrow> Inr c
     | Inl e \<Rightarrow>
         if is_net_refused e \<or> is_no_such_file e then Inl (Cl_daemon_absent (dial_failure_text e))
         else Inl (Cl_dial (dial_failure_text e)))"

definition rpc_request :: "string \<Rightarrow> string \<Rightarrow> (string \<rightharpoonup> string) \<Rightarrow> ipc_request" where
  "rpc_request method server meta = \<lparr>rq_schema = socket_schema, rq_kind = ''rpc'', rq_method = method,
     rq_server = server, rq_target = [], rq_meta = meta, rq_args = []\<rparr>"

text \<open>The codecs a client uses for its request and the daemon's response.\<close>

record client_codec =
  ck_enc :: "ipc_request \<Rightarrow> string + bytes"
  ck_dec :: "bytes \<Rightarrow> string + ipc_response"

text \<open>Dial, write the request, read the response: the common beginning of every call.\<close>

definition exchange :: "client_codec \<Rightarrow> dial_failure + client_conn \<Rightarrow> ipc_request \<Rightarrow> client_error + ipc_response" where
  "exchange ck d req =
    (case client_dial d of
       Inl e \<Rightarrow> Inl e
     | Inr c \<Rightarrow>
       (case fst (write_request (ck_enc ck) (cc_writer c) req) of
          Some e \<Rightarrow> Inl (Cl_write e)
        | None \<Rightarrow>
          (case read_ipc_response (ck_dec ck) (cc_reader c) of
             Inl e \<Rightarrow> Inl (Cl_read e)
           | Inr (resp, _) \<Rightarrow> Inr resp)))"

definition body_or :: "(64 word \<Rightarrow> string \<Rightarrow> client_error) \<Rightarrow> ipc_response \<Rightarrow> client_error + bytes" where
  "body_or err resp =
    (if rs_schema resp \<noteq> socket_schema then Inl (Cl_schema (rs_schema resp))
     else if rs_status resp \<noteq> 0 then Inl (err (rs_status resp) (rs_msg resp))
     else Inr (rs_body resp))"

definition doctor_json :: "client_codec \<Rightarrow> dial_failure + client_conn \<Rightarrow> string \<Rightarrow> client_error + bytes" where
  "doctor_json ck d probe =
    bind_result (exchange ck d (rpc_request ''doctor'' [] (if probe \<noteq> [] then [''probe'' \<mapsto> probe] else Map.empty)))
      (\<lambda>resp. if rs_status resp \<noteq> 0 then Inl (Cl_doctor (rs_msg resp)) else Inr (rs_body resp))"

definition status_json :: "client_codec \<Rightarrow> dial_failure + client_conn \<Rightarrow> client_error + bytes" where
  "status_json ck d = bind_result (exchange ck d (rpc_request ''status'' [] Map.empty)) (body_or Cl_status)"

definition routes_json :: "client_codec \<Rightarrow> dial_failure + client_conn \<Rightarrow> string \<Rightarrow> client_error + bytes" where
  "routes_json ck d server = bind_result (exchange ck d (rpc_request ''routes'' server Map.empty)) (body_or Cl_routes)"

definition vhosts_json :: "client_codec \<Rightarrow> dial_failure + client_conn \<Rightarrow> string \<Rightarrow> client_error + bytes" where
  "vhosts_json ck d server = bind_result (exchange ck d (rpc_request ''vhosts'' server Map.empty)) (body_or Cl_routes)"

definition withdraw_json :: "client_codec \<Rightarrow> dial_failure + client_conn \<Rightarrow> string \<Rightarrow> string \<Rightarrow> client_error + bytes" where
  "withdraw_json ck d server host =
    bind_result (exchange ck d (rpc_request ''withdraw'' server [''host'' \<mapsto> host])) (body_or Cl_routes)"

definition expose_json ::
  "client_codec \<Rightarrow> dial_failure + client_conn \<Rightarrow> string \<Rightarrow> string \<Rightarrow> int \<Rightarrow> client_error + bytes" where
  "expose_json ck d server host port =
    bind_result (exchange ck d (rpc_request ''expose'' server [''host'' \<mapsto> host, ''port'' \<mapsto> int_text port])) (body_or Cl_routes)"

text \<open>\<^verbatim>\<open>Probe\<close>: any status will do.\<close>

definition client_probe :: "client_codec \<Rightarrow> dial_failure + client_conn \<Rightarrow> client_error option" where
  "client_probe ck d =
    (case exchange ck d (rpc_request ''status'' [] Map.empty) of
       Inl e \<Rightarrow> Some e
     | Inr resp \<Rightarrow> if rs_schema resp \<noteq> socket_schema then Some (Cl_schema (rs_schema resp)) else None)"

definition attach_request :: "string \<Rightarrow> string \<Rightarrow> (string \<rightharpoonup> string) \<Rightarrow> ipc_request" where
  "attach_request server target meta = \<lparr>rq_schema = socket_schema, rq_kind = ''attach'', rq_method = [],
     rq_server = server, rq_target = target, rq_meta = meta, rq_args = []\<rparr>"

text \<open>\<open>armed\<close> is the error of setting the acknowledgement deadline, if any.\<close>

definition client_attach ::
  "client_codec \<Rightarrow> dial_failure + client_conn \<Rightarrow> string option \<Rightarrow> string \<Rightarrow> string \<Rightarrow> (string \<rightharpoonup> string)
     \<Rightarrow> (client_error + client_conn) \<times> bool"
where
  "client_attach ck d armed server target meta =
    (case client_dial d of
       Inl e \<Rightarrow> (Inl e, False)
     | Inr c \<Rightarrow>
       (case write_request (ck_enc ck) (cc_writer c) (attach_request server target meta) of
          (Some e, _) \<Rightarrow> (Inl (Cl_write e), True)
        | (None, w) \<Rightarrow>
          (case armed of
             Some e \<Rightarrow> (Inl (Cl_deadline e), True)
           | None \<Rightarrow>
             (case read_ipc_response (ck_dec ck) (cc_reader c) of
                Inl e \<Rightarrow> (Inl (Cl_read e), True)
              | Inr (resp, rd) \<Rightarrow>
                if rs_schema resp \<noteq> socket_schema then (Inl (Cl_schema (rs_schema resp)), True)
                else if rs_status resp \<noteq> 0 then (Inl (Cl_attach (sint (rs_status resp)) (rs_msg resp)), True)
                else (Inr \<lparr>cc_writer = w, cc_reader = rd\<rparr>, False)))))"

lemma attach_never_leaks:
  "fst (client_attach ck d armed server target meta) = Inl e \<Longrightarrow> snd (client_attach ck d armed server target meta) \<longleftrightarrow> is_ok d"
  by (auto simp: client_attach_def client_dial_def split: sum.splits prod.splits option.splits if_splits)

subsection \<open>Both ends of the socket\<close>

text \<open>The bytes a handler's responses put on the socket, and the socket a client gets: what it writes is
  read by the daemon, and what the daemon writes is there for it to read, up to the close.\<close>

fun replies :: "ipc_event list \<Rightarrow> ipc_response list" where
  "replies [] = []"
| "replies (Wrote r # es) = r # replies es"
| "replies (_ # es) = replies es"

record daemon_end =
  de_wide :: "rune \<Rightarrow> bool"
  de_ctx :: attach_ctx
  de_dec :: "bytes \<Rightarrow> string + ipc_request"
  de_enc :: "ipc_response \<Rightarrow> string + bytes"
  de_server :: ipc_server
  de_uid :: "32 word"
  de_in_flight :: "32 word"

fun put_replies :: "(ipc_response \<Rightarrow> string + bytes) \<Rightarrow> ipc_response list \<Rightarrow> writer \<Rightarrow> writer" where
  "put_replies enc [] w = w"
| "put_replies enc (r # rs) w = put_replies enc rs (snd (write_ipc_response enc w r))"

definition daemon_events :: "daemon_end \<Rightarrow> bytes \<Rightarrow> ipc_event list" where
  "daemon_events de bs = serve_conn (de_wide de) (de_ctx de) (de_dec de) (de_server de) (Inr (de_uid de)) True
     (de_in_flight de) \<lparr>avail = bs, fin = EOF\<rparr>"

definition request_bytes :: "client_codec \<Rightarrow> ipc_request \<Rightarrow> bytes" where
  "request_bytes ck req = sent (snd (write_request (ck_enc ck) \<lparr>sent = [], room = None\<rparr> req))"

definition socket_to :: "client_codec \<Rightarrow> daemon_end \<Rightarrow> ipc_request \<Rightarrow> dial_failure + client_conn" where
  "socket_to ck de req = Inr \<lparr>cc_writer = \<lparr>sent = [], room = None\<rparr>,
     cc_reader = \<lparr>avail = sent (put_replies (de_enc de) (replies (daemon_events de (request_bytes ck req))) \<lparr>sent = [], room = None\<rparr>),
       fin = EOF\<rparr>\<rparr>"

lemma replies_append [simp]: "replies (xs @ ys) = replies xs @ replies ys"
  by (induction xs rule: replies.induct) simp_all

lemma request_reaches:
  assumes "ipc_codec_ok (ck_enc ck) dec req"
  shows "read_request dec \<lparr>avail = request_bytes ck req, fin = EOF\<rparr> = Inr (req, \<lparr>avail = [], fin = EOF\<rparr>)"
    and "write_request (ck_enc ck) \<lparr>sent = [], room = None\<rparr> req = (None, \<lparr>sent = request_bytes ck req, room = None\<rparr>)"
  using request_delivered [OF assms, of "[]"] by (fastforce simp: request_bytes_def dest: spec [of _ "[]"])+

text \<open>What the daemon answers to a request that reaches it, by kind.\<close>

lemma daemon_replies:
  assumes "ipc_codec_ok (ck_enc ck) (de_dec de) req" "uint (de_uid de) = sv_uid (de_server de)"
    and "rq_schema req = socket_schema"
  shows "rq_kind req = ''rpc'' \<Longrightarrow> replies (daemon_events de (request_bytes ck req)) =
       replies (handle_rpc (de_wide de) (de_server de) req)"
    and "rq_kind req = ''attach'' \<Longrightarrow> replies (daemon_events de (request_bytes ck req)) =
       replies (handle_attach (de_wide de) (de_ctx de) (de_server de) (de_in_flight de) req)"
  using assms request_reaches(1) [OF assms(1)]
  by (simp_all add: daemon_events_def serve_conn_def Let_def ipc_handle_conn_def)

lemma exchange_answered:
  assumes q: "ipc_codec_ok (ck_enc ck) dec req" and "replies (daemon_events de (request_bytes ck req)) = [r]"
    and r: "ipc_codec_ok (de_enc de) (ck_dec ck) r"
  shows "exchange ck (socket_to ck de req) req = Inr r"
proof -
  obtain f where f: "write_ipc_response (de_enc de) \<lparr>sent = [], room = None\<rparr> r = (None, \<lparr>sent = [] @ f, room = None\<rparr>)"
    "read_ipc_response (ck_dec ck) \<lparr>avail = f @ [], fin = EOF\<rparr> = Inr (r, \<lparr>avail = [], fin = EOF\<rparr>)"
    using response_delivered [OF r, of "[]"] by blast
  then show ?thesis
    using assms(2) request_reaches(2) [OF q] by (simp add: exchange_def socket_to_def client_dial_def)
qed

subsection \<open>Relayed calls are faithful\<close>

datatype relay_call =
    Routes_call string
  | Vhosts_call string
  | Withdraw_call string string
  | Expose_call string string int

fun call_request :: "relay_call \<Rightarrow> ipc_request" where
  "call_request (Routes_call s) = rpc_request ''routes'' s Map.empty"
| "call_request (Vhosts_call s) = rpc_request ''vhosts'' s Map.empty"
| "call_request (Withdraw_call s h) = rpc_request ''withdraw'' s [''host'' \<mapsto> h]"
| "call_request (Expose_call s h p) = rpc_request ''expose'' s [''host'' \<mapsto> h, ''port'' \<mapsto> int_text p]"

fun client_call :: "client_codec \<Rightarrow> dial_failure + client_conn \<Rightarrow> relay_call \<Rightarrow> client_error + bytes" where
  "client_call ck d (Routes_call s) = routes_json ck d s"
| "client_call ck d (Vhosts_call s) = vhosts_json ck d s"
| "client_call ck d (Withdraw_call s h) = withdraw_json ck d s h"
| "client_call ck d (Expose_call s h p) = expose_json ck d s h p"

text \<open>What the daemon's provider says to the call, when it has one and the call is well formed.\<close>

fun provider_result :: "ipc_server \<Rightarrow> relay_call \<Rightarrow> (relay_failure + bytes) option" where
  "provider_result sv (Routes_call s) = (if s = [] then None else map_option (\<lambda>f. f s) (sv_routes sv))"
| "provider_result sv (Vhosts_call s) = (if s = [] then None else map_option (\<lambda>f. f s) (sv_vhosts sv))"
| "provider_result sv (Withdraw_call s h) =
    (if s = [] \<or> h = [] then None else map_option (\<lambda>f. f s h) (sv_withdraw sv))"
| "provider_result sv (Expose_call s h p) =
    (if s = [] \<or> h = [] \<or> p < 1 \<or> 65535 < p then None else map_option (\<lambda>f. f s h p) (sv_expose sv))"

lemma atoi_int_text: "1 \<le> p \<Longrightarrow> p \<le> 65535 \<Longrightarrow> atoi (int_text p) = Some p"
  using atoi_itoa [of "nat p"] by (simp add: int_text_def)

lemma expose_port_sent:
  "1 \<le> p \<Longrightarrow> p \<le> 65535 \<Longrightarrow> expose_port (rpc_request m s [''host'' \<mapsto> h, ''port'' \<mapsto> int_text p]) = Some p"
  by (simp add: expose_port_def rpc_request_def meta_get_def atoi_int_text)

lemma relayed_reply:
  assumes "provider_result sv c = Some x"
  shows "\<exists>g tl. replies (handle_rpc wide sv (call_request c)) = [relay_reply x g tl]"
proof (cases c)
  case (Routes_call s)
  then show ?thesis using assms
    by (auto simp: handle_rpc_def rpc_request_def handle_routes_def split: if_splits) ((rule exI)+, rule refl)
next
  case (Vhosts_call s)
  then show ?thesis using assms
    by (auto simp: handle_rpc_def rpc_request_def handle_vhosts_def split: if_splits) ((rule exI)+, rule refl)
next
  case (Withdraw_call s h)
  then show ?thesis using assms
    by (auto simp: handle_rpc_def rpc_request_def handle_withdraw_def meta_get_def split: if_splits) ((rule exI)+, rule refl)
next
  case (Expose_call s h p)
  then have p: "1 \<le> p" "p \<le> 65535" "s \<noteq> []" "h \<noteq> []" using assms by (auto split: if_splits)
  have "handle_rpc wide sv (call_request c) = handle_expose wide sv (call_request c)"
    using Expose_call by (simp add: handle_rpc_def rpc_request_def)
  moreover have "expose_port (call_request c) = Some p"
    using expose_port_sent [OF p(1,2)] Expose_call by simp
  ultimately show ?thesis using assms p Expose_call
    by (auto simp: handle_expose_def rpc_request_def meta_get_def) ((rule exI)+, rule refl)
qed

lemma client_call_exchange:
  "client_call ck d c = bind_result (exchange ck d (call_request c)) (body_or Cl_routes)"
  by (cases c) (simp_all add: routes_json_def vhosts_json_def withdraw_json_def expose_json_def)

lemma call_request_fields [simp]:
  "rq_kind (call_request c) = ''rpc''" "rq_schema (call_request c) = socket_schema"
  by (cases c; simp add: rpc_request_def)+

lemma replies_wrote: "r \<in> set (replies es) \<longleftrightarrow> Wrote r \<in> set es"
  by (induction es rule: replies.induct) auto

lemma relayed_exchange:
  assumes "ipc_codec_ok (ck_enc ck) (de_dec de) (call_request c)"
    and "\<And>r. Wrote r \<in> set (handle_rpc (de_wide de) (de_server de) (call_request c)) \<Longrightarrow> ipc_codec_ok (de_enc de) (ck_dec ck) r"
    and "uint (de_uid de) = sv_uid (de_server de)" "provider_result (de_server de) c = Some x"
  shows "\<exists>g tl. exchange ck (socket_to ck de (call_request c)) (call_request c) = Inr (relay_reply x g tl)"
proof -
  obtain g tl where r: "replies (handle_rpc (de_wide de) (de_server de) (call_request c)) = [relay_reply x g tl]"
    using relayed_reply [OF assms(4)] by blast
  then have "ipc_codec_ok (de_enc de) (ck_dec ck) (relay_reply x g tl)"
    using assms(2) replies_wrote by (metis list.set_intros(1))
  moreover have "replies (daemon_events de (request_bytes ck (call_request c))) = [relay_reply x g tl]"
    using daemon_replies(1) [OF assms(1,3)] r by simp
  ultimately show ?thesis using exchange_answered assms(1) by blast
qed

text \<open>A body that leaves room for its frame arrives as it is.\<close>

lemma relayed_body:
  assumes "exchange ck d (call_request c) = Inr (relay_reply (Inr body) g too_long)" "length body \<le> 65024"
  shows "client_call ck d c = Inr body"
  using assms by (simp add: client_call_exchange relay_reply_def body_or_def ok_response_def max_ipc_frame_def routes_body_headroom_def)

text \<open>
  C21: relayed calls are faithful. When the client and the daemon of one user talk over the socket, a call
  for routes, published names, a withdrawal or a publication returns exactly what the daemon's provider
  returned: the same body when it leaves room for the frame, else an error of status 1; the provider's own
  status with its message sanitized; any other failure as status 1.
\<close>

theorem relays_are_faithful:
  assumes "ipc_codec_ok (ck_enc ck) (de_dec de) (call_request c)"
    and "\<And>r. Wrote r \<in> set (handle_rpc (de_wide de) (de_server de) (call_request c)) \<Longrightarrow> ipc_codec_ok (de_enc de) (ck_dec ck) r"
    and "uint (de_uid de) = sv_uid (de_server de)" "provider_result (de_server de) c = Some x"
  shows "case x of
      Inr body \<Rightarrow>
        if length body \<le> 65024 then client_call ck (socket_to ck de (call_request c)) c = Inr body
        else \<exists>m. client_call ck (socket_to ck de (call_request c)) c = Inl (Cl_routes 1 m)
    | Inl (Routes_error st m) \<Rightarrow> client_call ck (socket_to ck de (call_request c)) c =
        (if st = 0 then Inr [] else Inl (Cl_routes st (sanitize_agent_string m)))
    | Inl (Relay_error _) \<Rightarrow> \<exists>m. client_call ck (socket_to ck de (call_request c)) c = Inl (Cl_routes 1 m)"
proof -
  obtain g tl where "exchange ck (socket_to ck de (call_request c)) (call_request c) = Inr (relay_reply x g tl)"
    using relayed_exchange [OF assms] by blast
  then show ?thesis
    by (auto simp: client_call_exchange relay_reply_def body_or_def routes_error_response_def error_response_def
      ok_response_def max_ipc_frame_def routes_body_headroom_def split: sum.splits relay_failure.splits)
qed

definition sample_codec :: client_codec where
  "sample_codec = \<lparr>ck_enc = (\<lambda>_. Inr []), ck_dec = (\<lambda>_. Inr (ok_response ''[]''))\<rparr>"

definition sample_daemon :: daemon_end where
  "sample_daemon = \<lparr>de_wide = (\<lambda>_. False), de_ctx = sample_ctx, de_dec = (\<lambda>_. Inr sample_request),
     de_enc = (\<lambda>_. Inr []), de_server = sample_server, de_uid = 1000, de_in_flight = 0\<rparr>"

theorem relays_are_faithful_witness:
  "client_call sample_codec (socket_to sample_codec sample_daemon sample_request) (Routes_call ''db'') = Inr ''[]''"
proof -
  have req: "call_request (Routes_call ''db'') = sample_request"
    by (simp add: sample_request_def rpc_request_def socket_schema_def)
  have ans: "handle_rpc (de_wide sample_daemon) (de_server sample_daemon) sample_request =
      [Asked (Ask_routes ''db''), Wrote (ok_response ''[]'')]"
    by (simp add: sample_daemon_def sample_request_def sample_server_def handle_rpc_def handle_routes_def relay_reply_def
       max_ipc_frame_def routes_body_headroom_def)
  have "case (Inr ''[]'' :: relay_failure + bytes) of
      Inr body \<Rightarrow>
        if length body \<le> 65024 then client_call sample_codec (socket_to sample_codec sample_daemon (call_request (Routes_call ''db''))) (Routes_call ''db'') = Inr body
        else \<exists>m. client_call sample_codec (socket_to sample_codec sample_daemon (call_request (Routes_call ''db''))) (Routes_call ''db'') = Inl (Cl_routes 1 m)
    | Inl (Routes_error st m) \<Rightarrow> client_call sample_codec (socket_to sample_codec sample_daemon (call_request (Routes_call ''db''))) (Routes_call ''db'') =
        (if st = 0 then Inr [] else Inl (Cl_routes st (sanitize_agent_string m)))
    | Inl (Relay_error _) \<Rightarrow> \<exists>m. client_call sample_codec (socket_to sample_codec sample_daemon (call_request (Routes_call ''db''))) (Routes_call ''db'') = Inl (Cl_routes 1 m)"
    by (rule relays_are_faithful)
      (simp_all only: req ans, simp_all add: ipc_codec_ok_def sample_codec_def sample_daemon_def sample_server_def ok_response_def)
  then show ?thesis unfolding req by simp
qed

subsection \<open>An attach over the socket\<close>

text \<open>The agent's answer to an attach, when the stream opens, takes the header, and delivers one in time.\<close>

definition agent_answer :: "attach_ctx \<Rightarrow> attach_env \<Rightarrow> string \<Rightarrow> string \<Rightarrow> response option" where
  "agent_answer ax env target reqid =
    (if ae_open env = None \<and> fst (write_header (ax_enc ax) (ae_writer env) (tcp_header target reqid)) = None
     then (case fst (await_response (ax_dec ax) (ae_reader env) (ae_race env)) of Inl _ \<Rightarrow> None | Inr resp \<Rightarrow> Some resp)
     else None)"

lemma replies_relayed [simp]: "replies (map Relayed es) = []"
  by (induction es) simp_all

lemma attach_replies:
  assumes "do_attach (ax_enc ax) (ax_dec ax) (env\<lparr>ae_relay := Some f\<rparr>) target reqid = (err, w, es)"
  shows "replies (concat (map (ack_events wr) es)) =
    (case agent_answer ax env target reqid of None \<Rightarrow> [] | Some resp \<Rightarrow> [ack_response resp])"
  using assms unfolding do_attach_def
proof (cases rule: attach_cases)
  case (given_up resp ack e)
  then show ?thesis using relay_ack_events [OF given_up(4)] by (simp add: agent_answer_def)
next
  case (not_replayed resp ack e w1)
  then show ?thesis using relay_ack_events [OF not_replayed(5)] by (simp add: agent_answer_def)
next
  case (attached resp ack w1)
  then show ?thesis using relay_ack_events [OF attached(5)] by (simp add: agent_answer_def)
qed (simp_all add: agent_answer_def)

text \<open>The response an attach request gets from the daemon, if any.\<close>

definition attach_reqid :: "attach_ctx \<Rightarrow> (string \<rightharpoonup> string) \<Rightarrow> string" where
  "attach_reqid ax meta = (if meta_get meta ''reqid'' = [] then new_req_id (ax_rand ax) else meta_get meta ''reqid'')"

datatype attach_fate = Daemon_refuses "64 word" | Agent_answers response | Nobody_answers

definition attach_fate_of :: "daemon_end \<Rightarrow> string \<Rightarrow> string \<Rightarrow> (string \<rightharpoonup> string) \<Rightarrow> attach_fate" where
  "attach_fate_of de server target meta =
    (if server = [] \<or> target = [] then Daemon_refuses 1
     else if sv_attach_cap (de_server de) <s de_in_flight de + 1 then Daemon_refuses 1
     else (case sv_entry_state (de_server de) server of
         Inl _ \<Rightarrow> Daemon_refuses 3
       | Inr _ \<Rightarrow> (case sv_open_conn (de_server de) server of
           Inl _ \<Rightarrow> Daemon_refuses 3
         | Inr env \<Rightarrow> (case agent_answer (de_ctx de) env target (attach_reqid (de_ctx de) meta) of
             None \<Rightarrow> Nobody_answers
           | Some resp \<Rightarrow> Agent_answers resp))))"

lemma handle_attach_fate:
  "case attach_fate_of de server target meta of
     Daemon_refuses st \<Rightarrow> \<exists>m. replies (handle_attach (de_wide de) (de_ctx de) (de_server de) (de_in_flight de)
        (attach_request server target meta)) = [error_response st m]
   | Agent_answers resp \<Rightarrow> replies (handle_attach (de_wide de) (de_ctx de) (de_server de) (de_in_flight de)
        (attach_request server target meta)) = [ack_response resp]
   | Nobody_answers \<Rightarrow> replies (handle_attach (de_wide de) (de_ctx de) (de_server de) (de_in_flight de)
        (attach_request server target meta)) = []"
  by (auto simp: attach_fate_of_def handle_attach_def attach_request_def refuse_def Let_def attach_reqid_def attach_replies
    split: sum.splits option.splits prod.splits)

text \<open>What the client makes of each fate.\<close>

lemma client_attach_fate:
  fixes de :: daemon_end and server target :: string
  defines "req m \<equiv> attach_request server target m"
  assumes q: "ipc_codec_ok (ck_enc ck) (de_dec de) (req meta)"
    and r: "\<And>r. r \<in> set (replies (handle_attach (de_wide de) (de_ctx de) (de_server de) (de_in_flight de) (req meta))) \<Longrightarrow>
      ipc_codec_ok (de_enc de) (ck_dec ck) r"
    and uid: "uint (de_uid de) = sv_uid (de_server de)"
  shows "case attach_fate_of de server target meta of
      Daemon_refuses st \<Rightarrow> st \<in> {1, 3} \<and>
        (\<exists>m. fst (client_attach ck (socket_to ck de (req meta)) None server target meta) = Inl (Cl_attach (sint st) m))
    | Agent_answers resp \<Rightarrow>
        if r_status resp = status_ok then is_ok (fst (client_attach ck (socket_to ck de (req meta)) None server target meta))
        else fst (client_attach ck (socket_to ck de (req meta)) None server target meta) =
          Inl (Cl_attach (int (exit_code_for_status (r_status resp))) (sanitize_agent_string (r_msg resp)))
    | Nobody_answers \<Rightarrow> \<exists>e. fst (client_attach ck (socket_to ck de (req meta)) None server target meta) = Inl (Cl_read e)"
proof -
  have rep: "replies (daemon_events de (request_bytes ck (req meta))) =
      replies (handle_attach (de_wide de) (de_ctx de) (de_server de) (de_in_flight de) (req meta))"
    using daemon_replies(2) [OF q uid] by (simp add: req_def attach_request_def)
  note sent = request_reaches(2) [OF q]
  have answered: "fst (client_attach ck (socket_to ck de (req meta)) None server target meta) =
      (if rs_schema x \<noteq> socket_schema then Inl (Cl_schema (rs_schema x))
       else if rs_status x \<noteq> 0 then Inl (Cl_attach (sint (rs_status x)) (rs_msg x))
       else Inr \<lparr>cc_writer = \<lparr>sent = request_bytes ck (req meta), room = None\<rparr>, cc_reader = \<lparr>avail = [], fin = EOF\<rparr>\<rparr>)"
    if x: "replies (handle_attach (de_wide de) (de_ctx de) (de_server de) (de_in_flight de) (req meta)) = [x]" for x
  proof -
    have "ipc_codec_ok (de_enc de) (ck_dec ck) x" using r x by simp
    then obtain f where "write_ipc_response (de_enc de) \<lparr>sent = [], room = None\<rparr> x = (None, \<lparr>sent = [] @ f, room = None\<rparr>)"
      "read_ipc_response (ck_dec ck) \<lparr>avail = f @ [], fin = EOF\<rparr> = Inr (x, \<lparr>avail = [], fin = EOF\<rparr>)"
      using response_delivered [of "de_enc de" "ck_dec ck" x "[]"] by blast
    then show ?thesis
      using rep x sent by (simp add: client_attach_def socket_to_def client_dial_def req_def [symmetric])
  qed
  have unanswered: "\<exists>e. fst (client_attach ck (socket_to ck de (req meta)) None server target meta) = Inl (Cl_read e)"
    if "replies (handle_attach (de_wide de) (de_ctx de) (de_server de) (de_in_flight de) (req meta)) = []"
    using that rep sent
    by (simp add: client_attach_def socket_to_def client_dial_def req_def [symmetric] read_ipc_response_def
        ipc_read_frame_def read_full_def)
  have code: "sint (of_nat (exit_code_for_status s) :: 64 word) = int (exit_code_for_status s)"
    "(of_nat (exit_code_for_status s) :: 64 word) = 0 \<longleftrightarrow> s = status_ok" for s
    by (simp_all add: exit_code_for_status_def)
  note fate = handle_attach_fate [of de server target meta, folded req_def]
  show ?thesis
  proof (cases "attach_fate_of de server target meta")
    case (Daemon_refuses st)
    then have st: "st \<in> {1, 3}" by (auto simp: attach_fate_of_def split: if_splits sum.splits option.splits)
    obtain m where "replies (handle_attach (de_wide de) (de_ctx de) (de_server de) (de_in_flight de) (req meta)) = [error_response st m]"
      using fate Daemon_refuses by auto
    from answered [OF this] st Daemon_refuses show ?thesis by (auto simp: error_response_def)
  next
    case (Agent_answers resp)
    then have "replies (handle_attach (de_wide de) (de_ctx de) (de_server de) (de_in_flight de) (req meta)) = [ack_response resp]"
      using fate by simp
    from answered [OF this] Agent_answers show ?thesis
      by (simp add: ack_response_def error_response_def ok_response_def code)
  next
    case Nobody_answers
    then show ?thesis using fate unanswered by simp
  qed
qed

end
