(* ===== verification/Fwd_Preflight.thy ===== *)
theory Fwd_Preflight
  imports Fwd Ipc_Client
begin

text \<open>
  \<^verbatim>\<open>internal/fwd/preflight.go\<close>: the first attach a forward makes before it listens, and what it concludes.

  The attacher's result is that of \<open>client_attach\<close>. A message that is the text of an error is kept as the
  error.
\<close>

definition is_agent_scoped :: "int \<Rightarrow> bool" where
  "is_agent_scoped status \<longleftrightarrow> status = 4 \<or> status = 5"

datatype preflight_outcome = Preflight_OK | Preflight_Warn | Preflight_Fatal | Preflight_Daemon_Absent

datatype preflight_msg = No_msg | Agent_msg string | Error_msg client_error

record preflight_result =
  pf_outcome :: preflight_outcome
  pf_status :: int
  pf_msg :: preflight_msg
  pf_guidance :: string

definition unknown_target_message :: "(rune \<Rightarrow> bool) \<Rightarrow> string \<Rightarrow> string" where
  "unknown_target_message wide target = ''no target '' @ go_quote wide target"

definition route_guidance :: "(rune \<Rightarrow> bool) \<Rightarrow> string \<Rightarrow> string" where
  "route_guidance wide target = ''add a route named '' @ go_quote wide target @ '' on the agent (agent --route '' @ target @
     ''=ADDR, or a matching [agent.routes] config entry) or check for a typo''"

text \<open>The result, and the operations on the connection the attach returned.\<close>

definition preflight :: "(rune \<Rightarrow> bool) \<Rightarrow> string \<Rightarrow> client_error + client_conn \<Rightarrow> preflight_result \<times> leg_op list" where
  "preflight wide target att =
    (case att of
       Inr _ \<Rightarrow> (\<lparr>pf_outcome = Preflight_OK, pf_status = 0, pf_msg = No_msg, pf_guidance = []\<rparr>, reset_conn (Other_leg True))
     | Inl (Cl_daemon_absent e) \<Rightarrow> (\<lparr>pf_outcome = Preflight_Daemon_Absent, pf_status = 0, pf_msg = Error_msg (Cl_daemon_absent e), pf_guidance = []\<rparr>, [])
     | Inl (Cl_schema k) \<Rightarrow> (\<lparr>pf_outcome = Preflight_Daemon_Absent, pf_status = 0, pf_msg = Error_msg (Cl_schema k), pf_guidance = []\<rparr>, [])
     | Inl (Cl_attach status msg) \<Rightarrow>
         (if is_agent_scoped status then
            \<lparr>pf_outcome = Preflight_Fatal, pf_status = status, pf_msg = Agent_msg msg,
              pf_guidance = (if status = 5 \<and> msg = unknown_target_message wide target then route_guidance wide target else [])\<rparr>
          else \<lparr>pf_outcome = Preflight_Warn, pf_status = 0, pf_msg = Agent_msg msg, pf_guidance = []\<rparr>, [])
     | Inl e \<Rightarrow> (\<lparr>pf_outcome = Preflight_Warn, pf_status = 0, pf_msg = Error_msg e, pf_guidance = []\<rparr>, []))"

definition agent_says_no :: "response \<Rightarrow> bool" where
  "agent_says_no resp \<longleftrightarrow> r_status resp \<in> {status_unauthorized, status_unknown_target, status_dial_failed, status_draining}"

lemma agent_scoped_codes: "is_agent_scoped (int (exit_code_for_status (r_status resp))) \<longleftrightarrow> agent_says_no resp"
  by (auto simp: is_agent_scoped_def exit_code_for_status_def agent_says_no_def status_defs)

lemma preflight_outcomes:
  "pf_outcome (fst (preflight wide target (Inl (Cl_attach s m)))) = (if is_agent_scoped s then Preflight_Fatal else Preflight_Warn)"
  "pf_outcome (fst (preflight wide target (Inl (Cl_read e)))) = Preflight_Warn"
  "is_ok att \<Longrightarrow> pf_outcome (fst (preflight wide target att)) = Preflight_OK"
  by (auto simp: preflight_def is_ok_iff)

text \<open>
  The preflight blames the right host. Over the socket of a daemon of the same user, a forward refuses
  to start exactly when the agent itself answered with an authoritative refusal (unauthorized, unknown
  target, dial failure, draining); it starts cleanly exactly when the agent answered ok; every refusal the
  daemon makes on its own account, and silence, only warn.
\<close>

theorem preflight_blames_the_right_host:
  assumes "ipc_codec_ok (ck_enc ck) (de_dec de) (attach_request server target Map.empty)"
    and "\<And>r. r \<in> set (replies (handle_attach (de_wide de) (de_ctx de) (de_server de) (de_in_flight de)
        (attach_request server target Map.empty))) \<Longrightarrow> ipc_codec_ok (de_enc de) (ck_dec ck) r"
    and "uint (de_uid de) = sv_uid (de_server de)"
  shows "pf_outcome (fst (preflight wide target
      (fst (client_attach ck (socket_to ck de (attach_request server target Map.empty)) None server target Map.empty)))) =
    (case attach_fate_of de server target Map.empty of
       Agent_answers resp \<Rightarrow>
         if r_status resp = status_ok then Preflight_OK
         else if agent_says_no resp then Preflight_Fatal else Preflight_Warn
     | _ \<Rightarrow> Preflight_Warn)"
proof (cases "attach_fate_of de server target Map.empty")
  case (Daemon_refuses st)
  then show ?thesis using client_attach_fate [OF assms] by (auto simp: preflight_outcomes is_agent_scoped_def)
next
  case (Agent_answers resp)
  then show ?thesis using client_attach_fate [OF assms]
    by (cases "r_status resp = status_ok") (simp_all add: preflight_outcomes agent_scoped_codes)
next
  case Nobody_answers
  then show ?thesis using client_attach_fate [OF assms] by (auto simp: preflight_outcomes)
qed

definition refusing_daemon :: daemon_end where
  "refusing_daemon = sample_daemon\<lparr>de_dec := (\<lambda>_. Inr (attach_request ''db'' ''pg'' Map.empty)),
     de_ctx := sample_ctx\<lparr>ax_dec := (\<lambda>_. Inr \<lparr>r_status = status_unauthorized, r_msg = []\<rparr>)\<rparr>\<rparr>"

definition refused_codec :: client_codec where
  "refused_codec = \<lparr>ck_enc = (\<lambda>_. Inr []), ck_dec = (\<lambda>_. Inr (error_response 4 []))\<rparr>"

lemma refusing_fate:
  "attach_fate_of refusing_daemon ''db'' ''pg'' Map.empty = Agent_answers \<lparr>r_status = status_unauthorized, r_msg = []\<rparr>"
proof -
  have "read_response (\<lambda>_. Inr \<lparr>r_status = status_unauthorized, r_msg = []\<rparr>) (ae_reader sample_env)
      = Inr (\<lparr>r_status = status_unauthorized, r_msg = []\<rparr>, \<lparr>avail = [], fin = EOF\<rparr>)"
    using read_response_framed [OF _ sample_frame, of _ _ "[]" EOF] by (simp add: sample_env_def)
  then show ?thesis
    by (simp add: attach_fate_of_def refusing_daemon_def sample_daemon_def sample_server_def sample_ctx_def attach_cap_def
      default_attach_cap_def agent_answer_def await_response_def sample_env_def write_header_unbounded [OF _ sample_frame] word_sless_alt)
qed

theorem preflight_blames_the_right_host_witness:
  "pf_outcome (fst (preflight (\<lambda>_. False) ''pg'' (fst (client_attach refused_codec
      (socket_to refused_codec refusing_daemon (attach_request ''db'' ''pg'' Map.empty)) None ''db'' ''pg'' Map.empty)))) = Preflight_Fatal"
proof -
  have "replies (handle_attach (de_wide refusing_daemon) (de_ctx refusing_daemon) (de_server refusing_daemon)
      (de_in_flight refusing_daemon) (attach_request ''db'' ''pg'' Map.empty)) = [error_response 4 []]"
    using handle_attach_fate [of refusing_daemon "''db''" "''pg''" Map.empty]
    by (simp add: refusing_fate ack_response_def status_defs exit_code_for_status_def sanitize_agent_string_def)
  then have "pf_outcome (fst (preflight (\<lambda>_. False) ''pg'' (fst (client_attach refused_codec
      (socket_to refused_codec refusing_daemon (attach_request ''db'' ''pg'' Map.empty)) None ''db'' ''pg'' Map.empty)))) =
    (case attach_fate_of refusing_daemon ''db'' ''pg'' Map.empty of
       Agent_answers resp \<Rightarrow>
         if r_status resp = status_ok then Preflight_OK
         else if agent_says_no resp then Preflight_Fatal else Preflight_Warn
     | _ \<Rightarrow> Preflight_Warn)"
    by (intro preflight_blames_the_right_host)
      (simp_all add: ipc_codec_ok_def refused_codec_def refusing_daemon_def sample_daemon_def sample_server_def)
  then show ?thesis by (simp add: refusing_fate agent_says_no_def status_defs)
qed

end
