(* ===== verification/Go_JSON.thy ===== *)
theory Go_JSON
  imports Go_Quote Go_Net
begin

text \<open>
  Go's \<^verbatim>\<open>encoding/json\<close> as the sources use it: objects of strings, integers, booleans and lists, with the
  encoder's own escaping of strings.
\<close>

definition json_rune :: "rune \<times> nat \<Rightarrow> string" where
  "json_rune x = (case x of (r, w) \<Rightarrow>
    (if r = 0x22 \<or> r = 0x5c then [CHR 0x5c, char_of r]
     else if r = 8 then CHR 0x5c # ''b''
     else if r = 12 then CHR 0x5c # ''f''
     else if r = 10 then CHR 0x5c # ''n''
     else if r = 13 then CHR 0x5c # ''r''
     else if r = 9 then CHR 0x5c # ''t''
     else if r < 0x20 \<or> r \<in> {0x3c, 0x3e, 0x26} \<or> r = 0x2028 \<or> r = 0x2029 then CHR 0x5c # CHR ''u'' # hex_text 4 r
     else if r = rune_error \<and> w = 1 then CHR 0x5c # ''ufffd''
     else encode_rune r))"

definition json_string :: "string \<Rightarrow> string" where
  "json_string s = CHR 0x22 # concat (map json_rune (runes s)) @ [CHR 0x22]"

datatype json = J_str string | J_int int | J_bool bool | J_list "json list" | J_obj "(string \<times> json) list"

fun json_text :: "json \<Rightarrow> string"
  and json_items :: "json list \<Rightarrow> string"
  and json_fields :: "(string \<times> json) list \<Rightarrow> string" where
  "json_text (J_str s) = json_string s"
| "json_text (J_int n) = (if n < 0 then CHR ''-'' # itoa (nat (- n)) else itoa (nat n))"
| "json_text (J_bool b) = (if b then ''true'' else ''false'')"
| "json_text (J_list xs) = CHR ''['' # json_items xs @ '']''"
| "json_text (J_obj fs) = CHR ''{'' # json_fields fs @ ''}''"
| "json_items [] = []"
| "json_items [x] = json_text x"
| "json_items (x # y # xs) = json_text x @ '','' @ json_items (y # xs)"
| "json_fields [] = []"
| "json_fields [(k, x)] = json_string k @ '':'' @ json_text x"
| "json_fields ((k, x) # f # fs) = json_string k @ '':'' @ json_text x @ '','' @ json_fields (f # fs)"

text \<open>A field marked \<^verbatim>\<open>omitempty\<close>.\<close>

definition omit_empty :: "string \<Rightarrow> string \<Rightarrow> (string \<times> json) list" where
  "omit_empty k s = (if s = [] then [] else [(k, J_str s)])"

definition omit_zero :: "string \<Rightarrow> int \<Rightarrow> (string \<times> json) list" where
  "omit_zero k n = (if n = 0 then [] else [(k, J_int n)])"

end
