(* ===== verification/Ipc_Gate.thy ===== *)
theory Ipc_Gate
  imports Ipc_Server
begin

text \<open>
  The daemon's cap on attaches in flight, under concurrency (\<^verbatim>\<open>handleAttach\<close> in \<^verbatim>\<open>internal/ipc/server.go\<close>).

  Handlers share an atomic \<^verbatim>\<open>int32\<close>: each adds one, then compares the sum it was given with the cap, then
  goes on or takes its one back. \<open>slots\<close> bounds the handlers between the addition and the comparison: each
  of them still holds a slot of the connection semaphore.
\<close>

datatype gate_phase = Counted "32 word" | Admitted | Left

record attach_gate =
  ag_count :: "32 word"
  ag_phases :: "gate_phase list"

definition new_gate :: attach_gate where
  "new_gate = \<lparr>ag_count = 0, ag_phases = []\<rparr>"

fun is_counted :: "gate_phase \<Rightarrow> bool" where
  "is_counted (Counted _) = True"
| "is_counted _ = False"

definition counted :: "gate_phase list \<Rightarrow> nat" where
  "counted hs = length (filter is_counted hs)"

definition admitted :: "gate_phase list \<Rightarrow> nat" where
  "admitted hs = length (filter (\<lambda>h. h = Admitted) hs)"

definition active :: "gate_phase list \<Rightarrow> nat" where
  "active hs = length (filter (\<lambda>h. h \<noteq> Left) hs)"

inductive gate_step :: "32 word \<Rightarrow> nat \<Rightarrow> attach_gate \<Rightarrow> attach_gate \<Rightarrow> bool"
  for cap :: "32 word" and slots :: nat where
  arrives: "counted hs < slots \<Longrightarrow>
    gate_step cap slots \<lparr>ag_count = n, ag_phases = hs\<rparr> \<lparr>ag_count = n + 1, ag_phases = hs @ [Counted (n + 1)]\<rparr>"
| turned_away: "i < length hs \<Longrightarrow> hs ! i = Counted c \<Longrightarrow> cap <s c \<Longrightarrow>
    gate_step cap slots \<lparr>ag_count = n, ag_phases = hs\<rparr> \<lparr>ag_count = n - 1, ag_phases = hs[i := Left]\<rparr>"
| let_in: "i < length hs \<Longrightarrow> hs ! i = Counted c \<Longrightarrow> \<not> cap <s c \<Longrightarrow>
    gate_step cap slots \<lparr>ag_count = n, ag_phases = hs\<rparr> \<lparr>ag_count = n, ag_phases = hs[i := Admitted]\<rparr>"
| leaves: "i < length hs \<Longrightarrow> hs ! i = Admitted \<Longrightarrow>
    gate_step cap slots \<lparr>ag_count = n, ag_phases = hs\<rparr> \<lparr>ag_count = n - 1, ag_phases = hs[i := Left]\<rparr>"

lemma active_append [simp]: "active (hs @ [h]) = active hs + (if h = Left then 0 else 1)"
  by (simp add: active_def)

lemma active_split: "active hs = counted hs + admitted hs"
proof (induction hs)
  case (Cons h hs)
  then show ?case by (cases h) (auto simp: active_def counted_def admitted_def)
qed (simp add: active_def counted_def admitted_def)

lemma active_update:
  "i < length hs \<Longrightarrow> hs ! i \<noteq> Left \<Longrightarrow> active (hs[i := h]) + (if h = Left then 1 else 0) = active hs"
proof (induction hs arbitrary: i)
  case (Cons a hs)
  then show ?case by (cases i) (auto simp: active_def)
qed simp

lemma active_take_update:
  assumes "i < length hs" "hs ! i \<noteq> Left"
  shows "active (take k (hs[i := h])) \<le> active (take k hs)"
proof (cases "i < k")
  case True
  then have "active ((take k hs)[i := h]) \<le> active (take k hs)"
    using active_update [of i "take k hs" h] assms by simp
  then show ?thesis by (simp add: take_update_swap)
next
  case False
  then show ?thesis by simp
qed

lemma counted_update:
  "i < length hs \<Longrightarrow> \<not> is_counted h \<Longrightarrow> counted (hs[i := h]) \<le> counted hs"
proof (induction hs arbitrary: i)
  case (Cons a hs)
  then show ?case
  proof (cases i)
    case (Suc j)
    then show ?thesis using Cons.IH [of j] Cons.prems by (auto simp: counted_def)
  qed (auto simp: counted_def)
qed simp

lemma admitted_last:
  assumes "admitted hs \<noteq> 0"
  shows "\<exists>i < length hs. hs ! i = Admitted \<and> admitted hs \<le> active (take (Suc i) hs)"
  using assms
proof (induction hs rule: rev_induct)
  case (snoc h hs)
  show ?case
  proof (cases "h = Admitted")
    case True
    have "admitted (hs @ [h]) \<le> active (hs @ [h])" by (simp only: active_split)
    then show ?thesis using True by (intro exI [of _ "length hs"]) simp
  next
    case False
    then have "admitted (hs @ [h]) = admitted hs" by (simp add: admitted_def)
    then obtain i where "i < length hs" "hs ! i = Admitted" "admitted hs \<le> active (take (Suc i) hs)"
      using snoc by auto
    then show ?thesis using \<open>admitted (hs @ [h]) = admitted hs\<close> by (intro exI [of _ i]) (simp add: nth_append)
  qed
qed (simp add: admitted_def)

definition phase_ok :: "32 word \<Rightarrow> gate_phase \<Rightarrow> nat \<Rightarrow> bool" where
  "phase_ok cap h k = (case h of
      Counted c \<Rightarrow> k \<le> unat c \<and> unat c < 2 ^ 31
    | Admitted \<Rightarrow> k \<le> unat cap
    | Left \<Rightarrow> True)"

lemma phase_ok_mono: "phase_ok cap h k \<Longrightarrow> k' \<le> k \<Longrightarrow> phase_ok cap h k'"
  by (auto simp: phase_ok_def split: gate_phase.splits)

definition gate_inv :: "32 word \<Rightarrow> nat \<Rightarrow> attach_gate \<Rightarrow> bool" where
  "gate_inv cap slots s \<longleftrightarrow> unat (ag_count s) = active (ag_phases s) \<and> counted (ag_phases s) \<le> slots \<and>
     (\<forall>i < length (ag_phases s). phase_ok cap (ag_phases s ! i) (active (take (Suc i) (ag_phases s))))"

lemma gate_admitted:
  assumes "gate_inv cap slots s"
  shows "admitted (ag_phases s) \<le> unat cap"
proof (cases "admitted (ag_phases s) = 0")
  case False
  from admitted_last [OF this] obtain i where
    i: "i < length (ag_phases s)" "ag_phases s ! i = Admitted" "admitted (ag_phases s) \<le> active (take (Suc i) (ag_phases s))"
    by blast
  then have "phase_ok cap Admitted (active (take (Suc i) (ag_phases s)))" using assms by (auto simp: gate_inv_def)
  then show ?thesis using i(3) by (simp add: phase_ok_def)
qed simp

lemma phases_update:
  assumes "\<forall>j < length hs. phase_ok cap (hs ! j) (active (take (Suc j) hs))" "i < length hs" "hs ! i \<noteq> Left"
    and h: "phase_ok cap h (active (take (Suc i) hs))"
  shows "\<forall>j < length (hs[i := h]). phase_ok cap (hs[i := h] ! j) (active (take (Suc j) (hs[i := h])))"
proof (intro allI impI)
  fix j assume "j < length (hs[i := h])"
  then have "phase_ok cap (hs[i := h] ! j) (active (take (Suc j) hs))" using assms by (cases "j = i") simp_all
  then show "phase_ok cap (hs[i := h] ! j) (active (take (Suc j) (hs[i := h])))"
    by (rule phase_ok_mono) (rule active_take_update [OF assms(2,3)])
qed

lemma gate_drop:
  assumes inv: "gate_inv cap slots \<lparr>ag_count = n, ag_phases = hs\<rparr>" and i: "i < length hs" "hs ! i \<noteq> Left"
  shows "gate_inv cap slots \<lparr>ag_count = n - 1, ag_phases = hs[i := Left]\<rparr>"
proof -
  have a: "Suc (active (hs[i := Left])) = active hs" using active_update [OF i, of Left] by simp
  then have "n \<noteq> 0" using inv by (auto simp: gate_inv_def)
  then have "unat (n - 1) = unat n - 1" by (simp add: unat_minus_one)
  then have "unat (n - 1) = active (hs[i := Left])" using inv a by (simp add: gate_inv_def)
  moreover have "counted (hs[i := Left]) \<le> slots" using inv counted_update [OF i(1), of Left] by (simp add: gate_inv_def)
  moreover have "\<forall>j < length (hs[i := Left]). phase_ok cap (hs[i := Left] ! j) (active (take (Suc j) (hs[i := Left])))"
    by (rule phases_update [OF _ i]) (use inv in \<open>simp_all add: gate_inv_def phase_ok_def\<close>)
  ultimately show ?thesis by (simp add: gate_inv_def)
qed

lemma sless_small:
  fixes a b :: "32 word"
  assumes "unat a < 2 ^ 31" "unat b < 2 ^ 31"
  shows "a <s b \<longleftrightarrow> unat a < unat b"
proof -
  have "sint w = int (unat w)" if "unat w < 2 ^ 31" for w :: "32 word"
  proof -
    have u: "int (unat w) < 2 ^ 31" using that by (metis of_nat_less_iff of_nat_numeral of_nat_power)
    have "sint w = signed_take_bit 31 (uint w)" by (simp add: sint_uint)
    also have "\<dots> = uint w"
      by (rule signed_take_bit_int_eq_self) (use u uint_nat [of w] in linarith)+
    finally show ?thesis by (simp only: uint_nat)
  qed
  from this [OF assms(1)] this [OF assms(2)] show ?thesis by (simp only: word_sless_alt of_nat_less_iff)
qed

lemma gate_step_inv:
  assumes "gate_step cap slots s s'" "gate_inv cap slots s" and room: "unat cap + slots < 2 ^ 31"
  shows "gate_inv cap slots s'"
  using assms
proof (induction rule: gate_step.induct)
  case (arrives hs n)
  have a: "Suc (active hs) \<le> unat cap + slots"
    using active_split [of hs] gate_admitted [OF arrives(2)] arrives(1) by simp
  then have n: "unat (n + 1) = Suc (active hs)"
    using arrives by (simp add: gate_inv_def unat_plus_if_size word_size)
  have "phase_ok cap ((hs @ [Counted (n + 1)]) ! i) (active (take (Suc i) (hs @ [Counted (n + 1)])))"
    if "i < length (hs @ [Counted (n + 1)])" for i
  proof (cases "i = length hs")
    case True
    then show ?thesis using n a room by (simp add: phase_ok_def)
  next
    case False
    then show ?thesis using that arrives(2) by (simp add: gate_inv_def nth_append)
  qed
  moreover have "counted (hs @ [Counted (n + 1)]) \<le> slots" using arrives by (simp add: counted_def)
  ultimately show ?case using n by (simp add: gate_inv_def)
next
  case (turned_away i hs c n)
  then show ?case by (intro gate_drop) simp_all
next
  case (let_in i hs c n)
  have c: "active (take (Suc i) hs) \<le> unat c" "unat c < 2 ^ 31"
    using let_in(1,2,4) by (force simp: gate_inv_def phase_ok_def)+
  then have "active (take (Suc i) hs) \<le> unat cap"
    using let_in(3) room sless_small [of cap c] by simp
  then have "\<forall>j < length (hs[i := Admitted]). phase_ok cap (hs[i := Admitted] ! j) (active (take (Suc j) (hs[i := Admitted])))"
    by (intro phases_update) (use let_in in \<open>simp_all add: gate_inv_def phase_ok_def\<close>)
  moreover have "active (hs[i := Admitted]) = active hs" using active_update [of i hs Admitted] let_in by simp
  moreover have "counted (hs[i := Admitted]) \<le> slots"
    using let_in counted_update [of i hs Admitted] by (simp add: gate_inv_def)
  ultimately show ?case using let_in(4) by (simp add: gate_inv_def)
next
  case (leaves i hs n)
  then show ?case by (intro gate_drop) simp_all
qed

lemma gate_reachable:
  assumes "(gate_step cap slots)\<^sup>*\<^sup>* new_gate s" "unat cap + slots < 2 ^ 31"
  shows "gate_inv cap slots s"
  using assms(1)
proof (induction rule: rtranclp_induct)
  case base
  then show ?case by (simp add: gate_inv_def new_gate_def active_def counted_def)
qed (use gate_step_inv assms(2) in blast)

text \<open>
  C22: the attach cap holds under concurrency. Whatever the interleaving of additions, comparisons and exits,
  the atomic counter is exactly the number of handlers past their addition and not yet out, it never
  wraps, and no more than the cap are ever let in; when nobody is at the comparison the counter itself
  is within the cap.
\<close>

theorem attach_cap_holds:
  assumes "(gate_step cap slots)\<^sup>*\<^sup>* new_gate s" "unat cap + slots < 2 ^ 31"
  shows "admitted (ag_phases s) \<le> unat cap \<and>
    unat (ag_count s) = counted (ag_phases s) + admitted (ag_phases s) \<and>
    0 \<le> sint (ag_count s) \<and> (counted (ag_phases s) = 0 \<longrightarrow> ag_count s \<le> cap)"
proof -
  have inv: "gate_inv cap slots s" using assms by (rule gate_reachable)
  have n: "unat (ag_count s) = counted (ag_phases s) + admitted (ag_phases s)"
    using inv active_split by (simp add: gate_inv_def)
  have "unat (ag_count s) < 2 ^ 31" using n inv gate_admitted [OF inv] assms(2) by (simp add: gate_inv_def)
  then have "\<not> ag_count s <s 0" using sless_small [of "ag_count s" 0] by simp
  then show ?thesis using n gate_admitted [OF inv] by (auto simp: word_sless_alt word_le_nat_alt)
qed

theorem attach_cap_holds_witness:
  "\<exists>s. (gate_step (attach_cap 1) (conn_cap 1))\<^sup>*\<^sup>* new_gate s \<and> ag_phases s = [Admitted, Counted 2] \<and>
     unat (ag_count s) = 2"
proof -
  let ?a = "\<lparr>ag_count = 0 + 1, ag_phases = [] @ [Counted (0 + 1)]\<rparr>"
  let ?b = "\<lparr>ag_count = 1, ag_phases = [Counted 1][0 := Admitted]\<rparr>"
  let ?c = "\<lparr>ag_count = 1 + 1, ag_phases = [Admitted] @ [Counted (1 + 1)]\<rparr>"
  have caps: "attach_cap 1 = 1" "conn_cap 1 = 1" by (simp_all add: attach_cap_def conn_cap_def word_sle_eq)
  have "gate_step 1 1 new_gate ?a" unfolding new_gate_def by (rule arrives) (simp add: counted_def)
  moreover have "gate_step 1 1 ?a ?b" using let_in [of 0 "[Counted 1]" 1 1 1 1] by (simp add: word_sless_alt)
  moreover have "gate_step 1 1 ?b ?c" using arrives [of "[Admitted]" 1 1 1] by (simp add: counted_def)
  ultimately have r: "(gate_step (attach_cap 1) (conn_cap 1))\<^sup>*\<^sup>* new_gate ?c"
    unfolding caps by (metis (no_types) converse_rtranclp_into_rtranclp rtranclp.rtrancl_refl)
  have "unat (ag_count ?c) = counted (ag_phases ?c) + admitted (ag_phases ?c)"
    using attach_cap_holds [OF r] caps by simp
  then show ?thesis using r by (intro exI [of _ ?c]) (simp add: counted_def admitted_def)
qed

end
