(* ===== verification/Control_Open.thy ===== *)
theory Control_Open
  imports Tunnel_Attach Transport
begin

text \<open>
  The client's side of the control stream: \<^verbatim>\<open>internal/control/open.go\<close>, and \<^verbatim>\<open>OpenControl\<close> of
  \<^verbatim>\<open>internal/tunnel/attach.go\<close>, which keeps an authentication failure recognizable.

  What the surroundings contribute is an \<open>open_env\<close>; the transport's error behind a failed read or write is
  \<open>oe_cause\<close>, and what the first call on the new client returned is \<open>oe_established\<close>.
\<close>

record open_env =
  oe_open :: "conn_error option"
  oe_writer :: writer
  oe_reader :: reader
  oe_race :: race
  oe_cause :: "proto_error \<Rightarrow> conn_error"
  oe_client :: "conn_error option"
  oe_established :: "conn_error option"
  oe_session :: "conn_error option"

datatype open_event = Stream_opened | Stream_torn nat | Client_closed | Client_ready

definition wrap :: "string \<Rightarrow> conn_error \<Rightarrow> conn_error" where
  "wrap what e = Go_error (Plain what) [e]"

definition control_header :: "string \<Rightarrow> string \<Rightarrow> header" where
  "control_header version key_created = \<lparr>h_kind = kind_control, h_target = [], h_host = [], h_port = 0,
     h_meta = (let m = [''proto'' \<mapsto> ''1'', ''version'' \<mapsto> version]
       in if key_created \<noteq> [] then m(''key_created'' \<mapsto> key_created) else m)\<rparr>"

text \<open>\<^verbatim>\<open>readResponse\<close> resets the stream on each of its failures.\<close>

definition control_response ::
  "(bytes \<Rightarrow> string + response) \<Rightarrow> open_env \<Rightarrow> (conn_error + response) \<times> open_event list" where
  "control_response cbor_dec env =
    (case oe_race env of
       Read_first \<Rightarrow>
         (case read_response cbor_dec (oe_reader env) of
            Inl e \<Rightarrow> (Inl (oe_cause env e), [Stream_torn stream_reset_code])
          | Inr (resp, _) \<Rightarrow> (Inr resp, []))
     | Timer_first \<Rightarrow> (Inl (Go_error (Plain ''timed out waiting for control response'') []), [Stream_torn stream_reset_code])
     | Context_first \<Rightarrow> (Inl (Go_error (Plain ''context ended'') []), [Stream_torn stream_reset_code]))"

definition control_open ::
  "(header \<Rightarrow> string + bytes) \<Rightarrow> (bytes \<Rightarrow> string + response) \<Rightarrow> open_env \<Rightarrow> string \<Rightarrow> string
     \<Rightarrow> conn_error option \<times> open_event list"
where
  "control_open cbor_enc cbor_dec env version key_created =
    (case oe_open env of
       Some e \<Rightarrow> (Some (wrap ''control: open stream'' e), [])
     | None \<Rightarrow>
       (case write_header cbor_enc (oe_writer env) (control_header version key_created) of
          (Some e, _) \<Rightarrow> (Some (wrap ''control: write header'' (oe_cause env e)), [Stream_opened, Stream_torn stream_reset_code])
        | (None, _) \<Rightarrow>
          (case control_response cbor_dec env of
             (Inl e, evs) \<Rightarrow> (Some (wrap ''control: await response'' e), Stream_opened # evs)
           | (Inr resp, evs) \<Rightarrow>
             if r_status resp \<noteq> status_ok
             then (Some (Go_error (Plain (''control: agent refused stream: '' @ r_msg resp)) []),
                   Stream_opened # evs @ [Stream_torn stream_reset_code])
             else (case oe_client env of
                 Some e \<Rightarrow> (Some e, Stream_opened # evs @ [Stream_torn stream_reset_code])
               | None \<Rightarrow>
                 (case oe_established env of
                    Some e \<Rightarrow> (Some (wrap ''control: establish'' e), Stream_opened # evs @ [Client_closed, Stream_torn stream_reset_code])
                  | None \<Rightarrow> (None, Stream_opened # evs @ [Client_ready]))))))"

definition open_control ::
  "(header \<Rightarrow> string + bytes) \<Rightarrow> (bytes \<Rightarrow> string + response) \<Rightarrow> open_env \<Rightarrow> string \<Rightarrow> string
     \<Rightarrow> conn_error option \<times> open_event list"
where
  "open_control cbor_enc cbor_dec env version key_created =
    (case control_open cbor_enc cbor_dec env version key_created of
       (None, evs) \<Rightarrow> (None, evs)
     | (Some err, evs) \<Rightarrow>
       (case auth_error err of
          Some a \<Rightarrow> (Some a, evs)
        | None \<Rightarrow> (case Option.bind (oe_session env) auth_error of Some a \<Rightarrow> (Some a, evs) | None \<Rightarrow> (Some err, evs))))"

lemma control_response_tears:
  "control_response cbor_dec env = (x, evs) \<Longrightarrow> evs = (if is_ok x then [] else [Stream_torn stream_reset_code])"
  by (auto simp: control_response_def split: race.splits sum.splits prod.splits)

text \<open>Either the control client is ready, or an opened stream has been reset exactly once.\<close>

lemma control_open_cases:
  assumes "control_open enc dec env version key = (err, evs)"
  shows "if err = None then evs = [Stream_opened, Client_ready]
    else evs = [] \<and> oe_open env \<noteq> None \<or>
      (\<exists>mid. evs = Stream_opened # mid @ [Stream_torn stream_reset_code] \<and> mid \<in> {[], [Client_closed]})"
  using assms control_response_tears [of dec env]
  by (cases "control_response dec env")
    (auto simp: control_open_def split: option.splits prod.splits sum.splits if_splits)

lemma open_control_events: "snd (open_control enc dec env version key) = snd (control_open enc dec env version key)"
  "fst (open_control enc dec env version key) = None \<longleftrightarrow> fst (control_open enc dec env version key) = None"
  by (auto simp: open_control_def split: prod.splits option.splits)

text \<open>A session the peer ended with an authentication alert is reported as one, even when the first to
  notice was a stream.\<close>

lemma open_control_reports_auth:
  assumes "fst (control_open enc dec env version key) \<noteq> None" "oe_session env = Some cause" "auth_error cause = Some a"
  shows "\<exists>err. fst (open_control enc dec env version key) = Some err \<and> is_auth_failed err"
  using assms by (auto simp: open_control_def auth_error_is_auth split: prod.splits option.splits)

end
