(* ===== verification/Daemon_Entry.thy ===== *)
theory Daemon_Entry
  imports Transport
begin

text \<open>
  Package \<^verbatim>\<open>internal/daemon\<close>: what every entry of the session pool promises, the entry of a disabled
  server, and the liveness probe both other kinds of entry run.

  The locale \<open>session_entry\<close> is the interface \<^verbatim>\<open>SessionEntry\<close>: \<open>step\<close> is one move of an entry's goroutines,
  \<open>get\<close> what a caller of \<^verbatim>\<open>Get\<close> meets, \<open>label\<close> the state the entry reports, \<open>client\<close> the control client a
  \<^verbatim>\<open>ControlCall\<close> would use, and \<open>woken\<close> the wake-up channels closed so far.
\<close>

datatype conn_state = State_connecting | State_connected | State_reconnecting | State_auth_failed

datatype entry_error = Ctx_cancelled | Dial_failed_with conn_error | Entry_disabled

datatype close_phase = Not_closing | Closing | Awaiting_loop | Closed_entry

datatype get_result = Got nat | Get_error "entry_error option" | Get_waits nat

text \<open>The states in which \<^verbatim>\<open>stateUnavailableMessage\<close> answers for the agent.\<close>

definition unavailable_states :: "string list" where
  "unavailable_states = [''disabled'', ''connecting'', ''listening'', ''auth_failed'']"

locale session_entry =
  fixes init :: 's
    and step :: "'s \<Rightarrow> 's \<Rightarrow> bool"
    and get :: "'s \<Rightarrow> get_result"
    and label :: "'s \<Rightarrow> string"
    and client :: "'s \<Rightarrow> nat option"
    and woken :: "'s \<Rightarrow> nat set"
  assumes client_connected: "step\<^sup>*\<^sup>* init s \<Longrightarrow> client s = Some c \<Longrightarrow> label s = ''connected''"
    and got_client: "step\<^sup>*\<^sup>* init s \<Longrightarrow> get s = Got c \<Longrightarrow> client s = Some c"
    and waits_open: "step\<^sup>*\<^sup>* init s \<Longrightarrow> get s = Get_waits k \<Longrightarrow> k \<notin> woken s"
begin

lemma got_connected: "step\<^sup>*\<^sup>* init s \<Longrightarrow> get s = Got c \<Longrightarrow> label s = ''connected''"
  using client_connected got_client by blast

lemma unavailable_has_no_client:
  assumes "step\<^sup>*\<^sup>* init s" "label s \<in> set unavailable_states"
  shows "client s = None \<and> get s \<noteq> Got c"
proof -
  have "label s \<noteq> ''connected''" using assms(2) by (auto simp: unavailable_states_def)
  then show ?thesis using client_connected [OF assms(1)] got_connected [OF assms(1)] by (cases "client s") auto
qed

lemma woken_caller_moves:
  assumes "step\<^sup>*\<^sup>* init s" "k \<in> woken s"
  shows "get s \<noteq> Get_waits k"
  using waits_open assms by blast

end

subsection \<open>A disabled server\<close>

definition disabled_get :: "unit \<Rightarrow> get_result" where
  "disabled_get _ = Get_error (Some Entry_disabled)"

definition disabled_label :: "unit \<Rightarrow> string" where
  "disabled_label _ = ''disabled''"

definition disabled_call :: "unit \<Rightarrow> nat option" where
  "disabled_call _ = None"

interpretation disabled: session_entry "()" "\<lambda>_ _. False" disabled_get disabled_label disabled_call "\<lambda>_. {}"
  by unfold_locales (simp_all add: disabled_get_def disabled_call_def)

subsection \<open>The liveness probe\<close>

datatype probe_event = Ping_ok | Ping_failed | Probe_cancelled

definition default_probe_fail_threshold :: nat where "default_probe_fail_threshold = 2"

text \<open>\<^verbatim>\<open>runLivenessProbeOn\<close> over what its rounds meet: the failures in a row it reports when it closes the
  connection, or nothing while it has not.\<close>

fun run_liveness_probe :: "nat \<Rightarrow> probe_event list \<Rightarrow> nat \<Rightarrow> nat option" where
  "run_liveness_probe threshold [] n = None"
| "run_liveness_probe threshold (Probe_cancelled # es) n = None"
| "run_liveness_probe threshold (Ping_ok # es) n = run_liveness_probe threshold es 0"
| "run_liveness_probe threshold (Ping_failed # es) n =
    (if threshold \<le> Suc n then Some (Suc n) else run_liveness_probe threshold es (Suc n))"

lemma block_cut:
  assumes "replicate n a @ x # es = pre @ replicate k a @ post" "x \<noteq> a" "n < k"
  shows "\<exists>pre'. pre = replicate n a @ x # pre' \<and> es = pre' @ replicate k a @ post"
proof -
  have "n < length pre"
  proof (rule ccontr)
    assume short: "\<not> n < length pre"
    then have "n - length pre < k" using assms(3) by simp
    then have "(pre @ replicate k a @ post) ! n = a" using short by (simp add: nth_append)
    moreover have "(replicate n a @ x # es) ! n = x" by (simp add: nth_append)
    ultimately show False using assms(1,2) by simp
  qed
  then have "take n pre = replicate n a" "drop n pre = x # drop (Suc n) pre"
    using arg_cong [OF assms(1), of "take n"] arg_cong [OF assms(1), of "\<lambda>l. l ! n"]
    by (simp_all add: nth_append Cons_nth_drop_Suc)
  then have "pre = replicate n a @ x # drop (Suc n) pre" by (metis append_take_drop_id)
  then show ?thesis using assms(1) by (metis append.assoc append_Cons same_append_eq list.inject)
qed

lemma probe_run:
  assumes "n < threshold"
  shows "run_liveness_probe threshold es n = Some threshold \<longleftrightarrow>
    (\<exists>pre post. replicate n Ping_failed @ es = pre @ replicate threshold Ping_failed @ post \<and> Probe_cancelled \<notin> set pre)"
  using assms
proof (induction threshold es n rule: run_liveness_probe.induct)
  case (1 threshold n)
  then show ?case by (auto dest: arg_cong [of _ _ length])
next
  case (2 threshold es n)
  then show ?case using block_cut [of n Ping_failed Probe_cancelled es _ threshold] by fastforce
next
  case (3 threshold es n)
  have "(\<exists>pre post. replicate n Ping_failed @ Ping_ok # es = pre @ replicate threshold Ping_failed @ post \<and> Probe_cancelled \<notin> set pre)
      \<longleftrightarrow> (\<exists>pre post. es = pre @ replicate threshold Ping_failed @ post \<and> Probe_cancelled \<notin> set pre)" (is "?l = ?r")
  proof
    assume ?l
    then show ?r using block_cut [of n Ping_failed Ping_ok es _ threshold] 3(2) by fastforce
  next
    assume ?r
    then obtain pre post where "es = pre @ replicate threshold Ping_failed @ post" "Probe_cancelled \<notin> set pre" by blast
    then show ?l by (intro exI [of _ "replicate n Ping_failed @ Ping_ok # pre"] exI [of _ post]) simp
  qed
  then show ?case using 3 by simp
next
  case (4 threshold es n)
  show ?case
  proof (cases "threshold \<le> Suc n")
    case True
    then have "threshold = Suc n" using 4(2) by simp
    then show ?thesis
      by (auto simp: replicate_app_Cons_same) (rule exI [of _ "[]"], simp)
  next
    case False
    then show ?thesis using 4 by (simp add: replicate_app_Cons_same)
  qed
qed

lemma probe_reports_threshold:
  "n < threshold \<Longrightarrow> run_liveness_probe threshold es n = None \<or> run_liveness_probe threshold es n = Some threshold"
  by (induction threshold es n rule: run_liveness_probe.induct) auto

text \<open>
  The liveness probe closes a session exactly when the agent failed to answer as many times in a row as
  the threshold says, at a moment the session had not yet ended: isolated failures never add up, and a
  dead session is always given up. What it reports is the threshold.
\<close>

theorem probe_closes_exactly:
  assumes "0 < threshold"
  shows "(run_liveness_probe threshold es 0 \<noteq> None \<longleftrightarrow>
      (\<exists>pre post. es = pre @ replicate threshold Ping_failed @ post \<and> Probe_cancelled \<notin> set pre)) \<and>
    run_liveness_probe threshold es 0 \<in> {None, Some threshold}"
  using probe_run [of 0 threshold es] probe_reports_threshold [of 0 threshold es] assms by auto

theorem probe_closes_exactly_witness:
  "run_liveness_probe default_probe_fail_threshold [Ping_failed, Ping_ok, Ping_failed] 0 \<in> {None, Some 2} \<and>
   run_liveness_probe default_probe_fail_threshold [Ping_failed, Ping_ok, Ping_failed, Ping_failed] 0 \<noteq> None"
proof -
  have "[Ping_failed, Ping_ok, Ping_failed, Ping_failed] = [Ping_failed, Ping_ok] @ replicate 2 Ping_failed @ []"
    by (simp add: numeral_2_eq_2)
  then have "\<exists>pre post. [Ping_failed, Ping_ok, Ping_failed, Ping_failed] = pre @ replicate 2 Ping_failed @ post \<and> Probe_cancelled \<notin> set pre"
    by (metis empty_iff list.set(1) probe_event.distinct(3) probe_event.distinct(5) set_ConsD)
  then show ?thesis
    using probe_closes_exactly [of 2 "[Ping_failed, Ping_ok, Ping_failed]"]
      probe_closes_exactly [of 2 "[Ping_failed, Ping_ok, Ping_failed, Ping_failed]"]
    unfolding default_probe_fail_threshold_def by fastforce
qed

end
