(* ===== verification/Daemon_Dial.thy ===== *)
theory Daemon_Dial
  imports Daemon_Entry
begin

text \<open>
  Package \<^verbatim>\<open>internal/daemon\<close>, \<^verbatim>\<open>pool.go\<close>: the entry of a server this daemon dials.

  The run loop, \<^verbatim>\<open>Close\<close>, the network and the callers of \<^verbatim>\<open>Get\<close> interleave. Each function below is what
  one of them does between two points where it waits; \<open>dial_step\<close> is any of them happening next. Channels
  and connections are numbered in the order they are made: \<open>di_done\<close> is the channel \<^verbatim>\<open>dialDone\<close> holds,
  \<open>di_closed\<close> the channels closed so far, and \<open>di_panicked\<close> records that a closed one was closed again.
  \<open>di_dead\<close> are the connections whose context is done.
\<close>

datatype loop_phase = Top | Dialling | Sleeping nat | Serving nat | Returned

record dial_entry =
  di_state :: conn_state
  di_current :: "nat option"
  di_client :: "nat option"
  di_done :: nat
  di_closed :: "nat set"
  di_dialing :: bool
  di_err :: "entry_error option"
  di_loop :: loop_phase
  di_attempt :: nat
  di_fails :: nat
  di_transport :: nat
  di_made :: nat
  di_dead :: "nat set"
  di_cancelled :: bool
  di_closing :: close_phase
  di_panicked :: bool

definition transport_rebind_after :: nat where "transport_rebind_after = 10"

definition new_dial_entry :: dial_entry where
  "new_dial_entry = \<lparr>di_state = State_connecting, di_current = None, di_client = None, di_done = 0, di_closed = {},
     di_dialing = True, di_err = None, di_loop = Top, di_attempt = 0, di_fails = 0, di_transport = 0, di_made = 0,
     di_dead = {}, di_cancelled = False, di_closing = Not_closing, di_panicked = False\<rparr>"

definition close_done :: "dial_entry \<Rightarrow> dial_entry" where
  "close_done e = e\<lparr>di_closed := insert (di_done e) (di_closed e),
     di_panicked := (di_panicked e \<or> di_done e \<in> di_closed e)\<rparr>"

subsection \<open>The run loop\<close>

definition loop_top :: "dial_entry \<Rightarrow> dial_entry" where
  "loop_top e =
    (if di_cancelled e
     then close_done (e\<lparr>di_err := Some Ctx_cancelled, di_dialing := False, di_loop := Returned\<rparr>)
     else e\<lparr>di_loop := Dialling\<rparr>)"

text \<open>\<open>rebound\<close>: whether the factory gave a replacement transport, when one is asked for.\<close>

definition rebind_transport :: "bool \<Rightarrow> dial_entry \<Rightarrow> dial_entry" where
  "rebind_transport rebound e = (if rebound then e\<lparr>di_transport := Suc (di_transport e)\<rparr> else e)"

definition dial_failed :: "conn_error \<Rightarrow> bool \<Rightarrow> dial_entry \<Rightarrow> dial_entry" where
  "dial_failed err rebound e =
    (if di_cancelled e then e\<lparr>di_loop := Returned\<rparr>
     else if is_auth_failed err
     then close_done (e\<lparr>di_state := State_auth_failed, di_err := Some (Dial_failed_with err), di_dialing := False, di_loop := Returned\<rparr>)
     else (let e' = close_done (e\<lparr>di_fails := Suc (di_fails e), di_attempt := Suc (di_attempt e),
             di_err := Some (Dial_failed_with err), di_dialing := False, di_loop := Sleeping (di_attempt e)\<rparr>)
       in if di_fails e' mod transport_rebind_after = 0 then rebind_transport rebound e' else e'))"

text \<open>The end of \<^verbatim>\<open>dialAndOpen\<close>, and what the loop resets before it serves.\<close>

definition dial_succeeded :: "dial_entry \<Rightarrow> dial_entry" where
  "dial_succeeded e = close_done (e\<lparr>di_state := State_connected, di_current := Some (di_made e), di_client := Some (di_made e),
     di_err := None, di_dialing := False, di_made := Suc (di_made e), di_fails := 0, di_attempt := 0,
     di_loop := Serving (di_made e)\<rparr>)"

definition wakes_up :: "dial_entry \<Rightarrow> dial_entry" where
  "wakes_up e = e\<lparr>di_dialing := True, di_done := Suc (di_done e), di_loop := Top\<rparr>"

definition session_ends :: "dial_entry \<Rightarrow> dial_entry" where
  "session_ends e =
    (if di_cancelled e then e\<lparr>di_loop := Returned\<rparr>
     else e\<lparr>di_state := State_reconnecting, di_current := None, di_client := None, di_dialing := True,
       di_done := Suc (di_done e), di_err := None, di_loop := Top\<rparr>)"

subsection \<open>Closing and getting\<close>

definition close_begins :: "dial_entry \<Rightarrow> dial_entry" where
  "close_begins e = e\<lparr>di_cancelled := True, di_closing := Closing\<rparr>"

definition close_takes :: "dial_entry \<Rightarrow> dial_entry" where
  "close_takes e = e\<lparr>di_dead := di_dead e \<union> set_option (di_current e), di_current := None, di_client := None,
     di_closing := Awaiting_loop\<rparr>"

definition get_conn :: "dial_entry \<Rightarrow> get_result" where
  "get_conn e =
    (case di_current e of
       Some c \<Rightarrow> Got c
     | None \<Rightarrow> if \<not> di_dialing e then Get_error (di_err e) else Get_waits (di_done e))"

definition dial_state_label :: "conn_state \<Rightarrow> string" where
  "dial_state_label st =
    (case st of State_connected \<Rightarrow> ''connected'' | State_auth_failed \<Rightarrow> ''auth_failed'' | _ \<Rightarrow> ''connecting'')"

definition control_call :: "dial_entry \<Rightarrow> nat option" where
  "control_call e = di_client e"

inductive dial_step :: "dial_entry \<Rightarrow> dial_entry \<Rightarrow> bool" where
  tops: "di_loop e = Top \<Longrightarrow> dial_step e (loop_top e)"
| fails: "di_loop e = Dialling \<Longrightarrow> dial_step e (dial_failed err rebound e)"
| succeeds: "di_loop e = Dialling \<Longrightarrow> dial_step e (dial_succeeded e)"
| wakes: "di_loop e = Sleeping k \<Longrightarrow> dial_step e (wakes_up e)"
| sleep_cancelled: "di_loop e = Sleeping k \<Longrightarrow> di_cancelled e \<Longrightarrow> dial_step e (e\<lparr>di_loop := Returned\<rparr>)"
| ends: "di_loop e = Serving c \<Longrightarrow> c \<in> di_dead e \<Longrightarrow> dial_step e (session_ends e)"
| drops: "c < di_made e \<Longrightarrow> dial_step e (e\<lparr>di_dead := insert c (di_dead e)\<rparr>)"
| parent_cancels: "dial_step e (e\<lparr>di_cancelled := True\<rparr>)"
| closes: "di_closing e = Not_closing \<Longrightarrow> dial_step e (close_begins e)"
| takes: "di_closing e = Closing \<Longrightarrow> dial_step e (close_takes e)"
| finishes: "di_closing e = Awaiting_loop \<Longrightarrow> di_loop e = Returned \<Longrightarrow> dial_step e (e\<lparr>di_closing := Closed_entry\<rparr>)"

inductive_cases dial_stepE: "dial_step e e'"

lemmas dial_defs = loop_top_def close_done_def rebind_transport_def dial_failed_def dial_succeeded_def wakes_up_def
  session_ends_def close_begins_def close_takes_def Let_def

subsection \<open>The invariant\<close>

definition channels_ok :: "dial_entry \<Rightarrow> bool" where
  "channels_ok e \<longleftrightarrow> \<not> di_panicked e \<and> di_closed e = {..<di_done e} \<union> (if di_dialing e then {} else {di_done e})"

definition loop_ok :: "dial_entry \<Rightarrow> bool" where
  "loop_ok e \<longleftrightarrow> (case di_loop e of
      Top \<Rightarrow> di_dialing e \<and> di_current e = None
    | Dialling \<Rightarrow> di_dialing e \<and> di_current e = None
    | Sleeping k \<Rightarrow> \<not> di_dialing e \<and> di_current e = None \<and> di_err e \<noteq> None \<and> di_fails e = Suc k
    | Serving c \<Rightarrow> \<not> di_dialing e \<and> di_fails e = 0 \<and> (di_current e = Some c \<or> di_current e = None \<and> di_cancelled e)
    | Returned \<Rightarrow> di_cancelled e \<or> di_state e = State_auth_failed)"

definition conn_ok :: "dial_entry \<Rightarrow> bool" where
  "conn_ok e \<longleftrightarrow> di_client e = di_current e \<and> di_attempt e = di_fails e \<and>
     (\<forall>c. di_current e = Some c \<longrightarrow> di_state e = State_connected \<and> c < di_made e \<and> di_loop e \<in> {Serving c, Returned}) \<and>
     (di_state e = State_auth_failed \<longrightarrow> di_loop e = Returned \<and> di_current e = None \<and> \<not> di_dialing e \<and>
        (\<exists>err. di_err e = Some (Dial_failed_with err) \<and> is_auth_failed err)) \<and>
     (di_closing e \<noteq> Not_closing \<longrightarrow> di_cancelled e)"

definition dial_inv :: "dial_entry \<Rightarrow> bool" where
  "dial_inv e \<longleftrightarrow> channels_ok e \<and> loop_ok e \<and> conn_ok e"

lemma new_dial_entry_inv: "dial_inv new_dial_entry"
  by (simp add: dial_inv_def channels_ok_def loop_ok_def conn_ok_def new_dial_entry_def)

lemma channels_close:
  assumes "channels_ok e" "di_dialing e" "\<not> di_dialing e'" "di_done e' = di_done e" "di_closed e' = di_closed e" "di_panicked e' = di_panicked e"
  shows "channels_ok (close_done e')"
  using assms by (simp add: channels_ok_def close_done_def)

lemma channels_open:
  assumes "channels_ok e" "\<not> di_dialing e" "di_dialing e'" "di_done e' = Suc (di_done e)" "di_closed e' = di_closed e" "di_panicked e' = di_panicked e"
  shows "channels_ok e'"
  using assms by (simp add: channels_ok_def lessThan_Suc)

lemma channels_same:
  assumes "channels_ok e" "di_dialing e' = di_dialing e" "di_done e' = di_done e" "di_closed e' = di_closed e" "di_panicked e' = di_panicked e"
  shows "channels_ok e'"
  using assms by (simp add: channels_ok_def)

lemma channels_step: "dial_step e e' \<Longrightarrow> channels_ok e \<Longrightarrow> loop_ok e \<Longrightarrow> channels_ok e'"
proof (induction rule: dial_step.induct)
  case (tops e)
  then have "di_dialing e" by (simp add: loop_ok_def)
  then show ?case using tops channels_close [of e] channels_same [of e "e\<lparr>di_loop := Dialling\<rparr>"] by (simp add: loop_top_def)
next
  case (fails e err rebound)
  then have d: "di_dialing e" by (simp add: loop_ok_def)
  have "channels_ok (rebind_transport r s) \<longleftrightarrow> channels_ok s" for r s
    by (simp add: rebind_transport_def channels_ok_def)
  moreover have "channels_ok (e\<lparr>di_loop := Returned\<rparr>)" using channels_same [OF fails(2)] by simp
  ultimately show ?case using channels_close [OF fails(2) d] by (simp add: dial_failed_def Let_def)
next
  case (succeeds e)
  then have "di_dialing e" by (simp add: loop_ok_def)
  then show ?case using succeeds channels_close [of e] by (simp add: dial_succeeded_def)
next
  case (wakes e k)
  then show ?case using channels_open [of e] by (simp add: wakes_up_def loop_ok_def)
next
  case (ends e c)
  have "channels_ok (e\<lparr>di_loop := Returned\<rparr>)" using channels_same [OF ends(3)] by simp
  then show ?case using ends channels_open [of e] by (simp add: session_ends_def loop_ok_def)
qed (auto simp: close_begins_def close_takes_def elim!: channels_same)

lemma loop_step: "dial_step e e' \<Longrightarrow> loop_ok e \<Longrightarrow> conn_ok e \<Longrightarrow> loop_ok e'"
  by (induction rule: dial_step.induct) (auto simp: loop_ok_def conn_ok_def dial_defs split: loop_phase.splits)

lemma conn_step: "dial_step e e' \<Longrightarrow> loop_ok e \<Longrightarrow> conn_ok e \<Longrightarrow> conn_ok e'"
  by (induction rule: dial_step.induct) (auto simp: loop_ok_def conn_ok_def dial_defs split: loop_phase.splits)

lemma dial_step_inv: "dial_step e e' \<Longrightarrow> dial_inv e \<Longrightarrow> dial_inv e'"
  by (auto simp: dial_inv_def intro: channels_step loop_step conn_step)

lemma dial_reachable: "dial_step\<^sup>*\<^sup>* new_dial_entry e \<Longrightarrow> dial_inv e"
  by (induction rule: rtranclp_induct) (auto intro: new_dial_entry_inv dial_step_inv)

interpretation dialled: session_entry new_dial_entry dial_step get_conn "\<lambda>e. dial_state_label (di_state e)" control_call di_closed
proof
  fix e :: dial_entry assume "dial_step\<^sup>*\<^sup>* new_dial_entry e"
  then have inv: "dial_inv e" by (rule dial_reachable)
  show "dial_state_label (di_state e) = ''connected''" if "control_call e = Some c" for c
  proof -
    have "di_current e = Some c" using that inv by (simp add: dial_inv_def conn_ok_def control_call_def)
    then have "di_state e = State_connected" using inv by (simp add: dial_inv_def conn_ok_def)
    then show ?thesis by (simp add: dial_state_label_def)
  qed
  show "get_conn e = Got c \<Longrightarrow> control_call e = Some c" for c
    using inv by (auto simp: dial_inv_def conn_ok_def control_call_def get_conn_def split: option.splits if_splits)
  show "get_conn e = Get_waits k \<Longrightarrow> k \<notin> di_closed e" for k
    using inv by (auto simp: dial_inv_def channels_ok_def get_conn_def split: option.splits if_splits)
qed

lemma auth_final:
  "dial_step\<^sup>*\<^sup>* e e' \<Longrightarrow> dial_inv e \<Longrightarrow> di_state e = State_auth_failed \<Longrightarrow>
     di_state e' = State_auth_failed \<and> di_made e' = di_made e \<and> di_err e' = di_err e"
proof (induction rule: rtranclp_induct)
  case (step y z)
  have "dial_inv y" using step(1,4) by (induction rule: rtranclp_induct) (auto intro: dial_step_inv)
  then have "di_loop y = Returned" using step by (simp add: dial_inv_def conn_ok_def)
  with step(2) have "di_state z = di_state y \<and> di_made z = di_made y \<and> di_err z = di_err y"
    by (cases rule: dial_step.cases) (simp_all add: close_begins_def close_takes_def)
  then show ?case using step by simp
qed simp

text \<open>
  C23: a dialled server's entry is sound under every interleaving of its loop, its callers, the network and
  \<^verbatim>\<open>Close\<close>. No wake-up channel is ever closed twice, and every one but the newest has been closed, so no caller
  waits on a stale one. A caller gets a connection only while the entry reports connected with that
  connection's control client, waits only while a dial is under way (or the entry is shutting down), and
  gets an error otherwise. The loop's backoff index counts the failures since the last connection. Once
  authentication is refused the refusal is what every later caller gets and nothing is dialled again.
\<close>

theorem dial_entry_sound:
  assumes "dial_step\<^sup>*\<^sup>* new_dial_entry e"
  shows "\<not> di_panicked e \<and> {..<di_done e} \<subseteq> di_closed e \<and>
    (case get_conn e of
       Got c \<Rightarrow> di_state e = State_connected \<and> control_call e = Some c \<and> c < di_made e
     | Get_waits k \<Rightarrow> k \<notin> di_closed e \<and> (di_loop e \<in> {Top, Dialling} \<or> di_cancelled e)
     | Get_error err \<Rightarrow> di_done e \<in> di_closed e) \<and>
    (\<forall>k. di_loop e = Sleeping k \<longrightarrow> di_fails e = Suc k) \<and>
    (di_state e = State_auth_failed \<longrightarrow> (\<forall>e'. dial_step\<^sup>*\<^sup>* e e' \<longrightarrow>
       di_made e' = di_made e \<and> (\<exists>err. is_auth_failed err \<and> get_conn e' = Get_error (Some (Dial_failed_with err)))))"
proof -
  have inv: "dial_inv e" using assms by (rule dial_reachable)
  have "case get_conn e of
       Got c \<Rightarrow> di_state e = State_connected \<and> control_call e = Some c \<and> c < di_made e
     | Get_waits k \<Rightarrow> k \<notin> di_closed e \<and> (di_loop e \<in> {Top, Dialling} \<or> di_cancelled e)
     | Get_error err \<Rightarrow> di_done e \<in> di_closed e"
    using inv by (auto simp: dial_inv_def get_conn_def channels_ok_def loop_ok_def conn_ok_def control_call_def
      split: option.splits loop_phase.splits)
  moreover have "di_made e' = di_made e \<and> (\<exists>err. is_auth_failed err \<and> get_conn e' = Get_error (Some (Dial_failed_with err)))"
    if auth: "di_state e = State_auth_failed" "dial_step\<^sup>*\<^sup>* e e'" for e'
  proof -
    have "dial_step\<^sup>*\<^sup>* new_dial_entry e'" using assms auth(2) by (rule rtranclp_trans)
    then have "conn_ok e'" using dial_reachable by (simp add: dial_inv_def)
    then show ?thesis using auth_final [OF auth(2) inv auth(1)] by (auto simp: conn_ok_def get_conn_def)
  qed
  moreover have "\<not> di_panicked e" "{..<di_done e} \<subseteq> di_closed e" "\<forall>k. di_loop e = Sleeping k \<longrightarrow> di_fails e = Suc k"
    using inv by (auto simp: dial_inv_def channels_ok_def loop_ok_def)
  ultimately show ?thesis by blast
qed

definition connected_entry :: dial_entry where
  "connected_entry = dial_succeeded (loop_top new_dial_entry)"

lemma connected_reachable: "dial_step\<^sup>*\<^sup>* new_dial_entry connected_entry"
proof -
  have "dial_step new_dial_entry (loop_top new_dial_entry)" by (rule tops) (simp add: new_dial_entry_def)
  moreover have "dial_step (loop_top new_dial_entry) connected_entry"
    unfolding connected_entry_def by (rule succeeds) (simp add: new_dial_entry_def loop_top_def)
  ultimately show ?thesis by (metis converse_rtranclp_into_rtranclp rtranclp.rtrancl_refl)
qed

theorem dial_entry_sound_witness:
  "get_conn connected_entry = Got 0 \<and> di_state connected_entry = State_connected \<and> control_call connected_entry = Some 0"
  using dial_entry_sound [OF connected_reachable]
  by (simp add: connected_entry_def get_conn_def control_call_def dial_defs new_dial_entry_def)

subsection \<open>Two races of shutdown\<close>

text \<open>A dial that fails once the context is cancelled returns without closing the channel: a caller waiting
  on it is never woken by the entry.\<close>

lemma stranded_stays:
  "dial_step e e' \<Longrightarrow> di_loop e = Returned \<Longrightarrow> di_done e' = di_done e \<and> di_closed e' = di_closed e \<and> di_loop e' = Returned"
  by (induction rule: dial_step.induct) (simp_all add: close_begins_def close_takes_def)

lemma waiter_stranded:
  assumes err: "dial_step\<^sup>*\<^sup>* (dial_failed err rebound (loop_top new_dial_entry\<lparr>di_cancelled := True\<rparr>)) e"
  shows "get_conn (loop_top new_dial_entry) = Get_waits 0 \<and> di_loop e = Returned \<and> 0 \<notin> di_closed e"
  using assms
proof (induction rule: rtranclp_induct)
  case base
  then show ?case by (simp add: get_conn_def dial_defs new_dial_entry_def)
next
  case (step y z)
  then show ?case using stranded_stays [of y z] by simp
qed

text \<open>A connection that is installed after \<^verbatim>\<open>Close\<close> looked for one: \<^verbatim>\<open>Close\<close> then waits for the loop, and the
  loop waits for a connection nobody closes.\<close>

definition raced_entry :: dial_entry where
  "raced_entry = dial_succeeded (close_takes (close_begins (loop_top new_dial_entry)))"

lemma raced_reachable: "dial_step\<^sup>*\<^sup>* new_dial_entry raced_entry"
proof -
  let ?a = "loop_top new_dial_entry" let ?b = "close_begins ?a" let ?c = "close_takes ?b"
  have "dial_step new_dial_entry ?a" by (rule tops) (simp add: new_dial_entry_def)
  moreover have "dial_step ?a ?b" by (rule closes) (simp add: new_dial_entry_def loop_top_def)
  moreover have "dial_step ?b ?c" by (rule takes) (simp add: close_begins_def)
  moreover have "dial_step ?c raced_entry"
    unfolding raced_entry_def by (rule succeeds) (simp add: new_dial_entry_def dial_defs)
  ultimately show ?thesis by (metis converse_rtranclp_into_rtranclp rtranclp.rtrancl_refl)
qed

lemma close_races_install:
  "di_closing raced_entry = Awaiting_loop \<and> di_loop raced_entry = Serving 0 \<and> 0 \<notin> di_dead raced_entry \<and>
   (\<forall>e. dial_step raced_entry e \<longrightarrow> e = raced_entry \<or> 0 \<in> di_dead e)"
proof -
  have "e = raced_entry \<or> 0 \<in> di_dead e" if "dial_step raced_entry e" for e
    using that by (cases rule: dial_step.cases) (auto simp: raced_entry_def dial_defs new_dial_entry_def)
  then show ?thesis by (simp add: raced_entry_def dial_defs new_dial_entry_def)
qed

end
