(* ===== verification/Daemon_Listen.thy ===== *)
theory Daemon_Listen
  imports Daemon_Entry
begin

text \<open>
  Package \<^verbatim>\<open>internal/daemon\<close>, \<^verbatim>\<open>listen_entry.go\<close>: the entry of a server that connects to this daemon.

  The accept loop promotes one incoming connection at a time; a watcher per promoted connection waits for
  its end; \<^verbatim>\<open>Close\<close>, the network and the callers of \<^verbatim>\<open>Get\<close> interleave with them. Connections and wake-up
  channels are numbered in the order they are made. \<open>li_codes\<close> are the codes connections were closed with.
\<close>

definition control_stream_missing_code :: nat where "control_stream_missing_code = 3"
definition replaced_session_code :: nat where "replaced_session_code = 5"
definition same_identity_code :: nat where "same_identity_code = 2"

datatype accept_phase = Accepting | Retrying | Promoting nat | Installing nat | Accept_returned

datatype watcher = Started nat | Watching nat | Watcher_done

record listen_entry =
  li_state :: conn_state
  li_current :: "nat option"
  li_client :: "nat option"
  li_ever :: bool
  li_waiting :: nat
  li_closed :: "nat set"
  li_wait_err :: bool
  li_loop :: accept_phase
  li_watchers :: "watcher list"
  li_made :: nat
  li_dead :: "nat set"
  li_codes :: "(nat \<times> nat) list"
  li_cancelled :: bool
  li_closing :: close_phase
  li_panicked :: bool

definition new_listen_entry :: listen_entry where
  "new_listen_entry = \<lparr>li_state = State_connecting, li_current = None, li_client = None, li_ever = False, li_waiting = 0,
     li_closed = {}, li_wait_err = False, li_loop = Accepting, li_watchers = [], li_made = 0, li_dead = {}, li_codes = [],
     li_cancelled = False, li_closing = Not_closing, li_panicked = False\<rparr>"

text \<open>\<^verbatim>\<open>close(e.waiting); e.waiting = make(...)\<close>\<close>

definition renew_waiting :: "listen_entry \<Rightarrow> listen_entry" where
  "renew_waiting e = e\<lparr>li_panicked := (li_panicked e \<or> li_waiting e \<in> li_closed e),
     li_closed := insert (li_waiting e) (li_closed e), li_waiting := Suc (li_waiting e)\<rparr>"

definition fail_waiters :: "listen_entry \<Rightarrow> listen_entry" where
  "fail_waiters e = renew_waiting (e\<lparr>li_wait_err := True\<rparr>)"

definition close_conn :: "nat \<Rightarrow> nat \<Rightarrow> listen_entry \<Rightarrow> listen_entry" where
  "close_conn c code e = e\<lparr>li_dead := insert c (li_dead e), li_codes := li_codes e @ [(c, code)]\<rparr>"

subsection \<open>The accept loop\<close>

definition accept_stops :: "listen_entry \<Rightarrow> listen_entry" where
  "accept_stops e = (fail_waiters e)\<lparr>li_loop := Accept_returned\<rparr>"

definition accept_fails :: "listen_entry \<Rightarrow> listen_entry" where
  "accept_fails e = (if li_cancelled e then accept_stops e else e\<lparr>li_loop := Retrying\<rparr>)"

definition accepts_conn :: "listen_entry \<Rightarrow> listen_entry" where
  "accepts_conn e = e\<lparr>li_made := Suc (li_made e), li_loop := Promoting (li_made e)\<rparr>"

text \<open>The first half of \<^verbatim>\<open>promote\<close>: \<open>own\<close> says the peer presented our own identity, \<open>opened\<close> that its
  control stream opened in time.\<close>

definition promote_checks :: "nat \<Rightarrow> bool \<Rightarrow> bool \<Rightarrow> listen_entry \<Rightarrow> listen_entry" where
  "promote_checks c own opened e =
    (if own then (close_conn c same_identity_code e)\<lparr>li_loop := Accepting\<rparr>
     else if li_cancelled e then (close_conn c 0 e)\<lparr>li_loop := Accepting\<rparr>
     else if \<not> opened then (close_conn c control_stream_missing_code e)\<lparr>li_loop := Accepting\<rparr>
     else e\<lparr>li_loop := Installing c\<rparr>)"

text \<open>The second half: install, wake the callers, and close the session it replaces.\<close>

definition promote_installs :: "nat \<Rightarrow> listen_entry \<Rightarrow> listen_entry" where
  "promote_installs c e =
    (let e' = renew_waiting (e\<lparr>li_current := Some c, li_client := Some c, li_state := State_connected, li_ever := True,
           li_wait_err := False, li_loop := Accepting, li_watchers := li_watchers e @ [Started c]\<rparr>)
     in case li_current e of None \<Rightarrow> e' | Some previous \<Rightarrow> close_conn previous replaced_session_code e')"

subsection \<open>The watcher of a connection\<close>

definition watcher_starts :: "nat \<Rightarrow> nat \<Rightarrow> listen_entry \<Rightarrow> listen_entry" where
  "watcher_starts i c e = e\<lparr>li_watchers := (li_watchers e)[i := (if li_current e = Some c then Watching c else Watcher_done)]\<rparr>"

definition watcher_ends :: "nat \<Rightarrow> nat \<Rightarrow> listen_entry \<Rightarrow> listen_entry" where
  "watcher_ends i c e =
    (let e' = e\<lparr>li_watchers := (li_watchers e)[i := Watcher_done]\<rparr> in
     if \<not> li_cancelled e \<and> li_current e = Some c
     then e'\<lparr>li_state := State_connecting, li_current := None, li_client := None\<rparr> else e')"

subsection \<open>Closing and getting\<close>

definition listen_close_begins :: "listen_entry \<Rightarrow> listen_entry" where
  "listen_close_begins e = e\<lparr>li_cancelled := True, li_closing := Closing\<rparr>"

definition listen_close_takes :: "listen_entry \<Rightarrow> listen_entry" where
  "listen_close_takes e =
    (let e' = e\<lparr>li_current := None, li_client := None, li_closing := Awaiting_loop\<rparr>
     in case li_current e of None \<Rightarrow> e' | Some c \<Rightarrow> close_conn c 0 e')"

definition listen_get :: "listen_entry \<Rightarrow> get_result" where
  "listen_get e =
    (case li_current e of
       Some c \<Rightarrow> Got c
     | None \<Rightarrow> if li_wait_err e then Get_error (Some Ctx_cancelled) else Get_waits (li_waiting e))"

definition listen_state_label :: "conn_state \<Rightarrow> string" where
  "listen_state_label st = (if st = State_connected then ''connected'' else ''listening'')"

definition listen_control_call :: "listen_entry \<Rightarrow> nat option" where
  "listen_control_call e = li_client e"

text \<open>\<^verbatim>\<open>warnIfNoPeerEverArrives\<close>, when its minute is up.\<close>

definition warns_no_peer :: "listen_entry \<Rightarrow> bool" where
  "warns_no_peer e \<longleftrightarrow> \<not> li_ever e"

inductive listen_step :: "listen_entry \<Rightarrow> listen_entry \<Rightarrow> bool" where
  accepted: "li_loop e = Accepting \<Longrightarrow> listen_step e (accepts_conn e)"
| accept_failed: "li_loop e = Accepting \<Longrightarrow> listen_step e (accept_fails e)"
| retries: "li_loop e = Retrying \<Longrightarrow> listen_step e (e\<lparr>li_loop := Accepting\<rparr>)"
| retry_cancelled: "li_loop e = Retrying \<Longrightarrow> li_cancelled e \<Longrightarrow> listen_step e (accept_stops e)"
| checks: "li_loop e = Promoting c \<Longrightarrow> listen_step e (promote_checks c own opened e)"
| installs: "li_loop e = Installing c \<Longrightarrow> listen_step e (promote_installs c e)"
| starts: "i < length (li_watchers e) \<Longrightarrow> li_watchers e ! i = Started c \<Longrightarrow> listen_step e (watcher_starts i c e)"
| watched_ends: "i < length (li_watchers e) \<Longrightarrow> li_watchers e ! i = Watching c \<Longrightarrow> c \<in> li_dead e \<Longrightarrow>
    listen_step e (watcher_ends i c e)"
| conn_drops: "c < li_made e \<Longrightarrow> listen_step e (e\<lparr>li_dead := insert c (li_dead e)\<rparr>)"
| listen_cancelled: "listen_step e (e\<lparr>li_cancelled := True\<rparr>)"
| close_begins: "li_closing e = Not_closing \<Longrightarrow> listen_step e (listen_close_begins e)"
| close_takes: "li_closing e = Closing \<Longrightarrow> listen_step e (listen_close_takes e)"
| close_finishes: "li_closing e = Awaiting_loop \<Longrightarrow> li_loop e = Accept_returned \<Longrightarrow>
    list_all (\<lambda>w. w = Watcher_done) (li_watchers e) \<Longrightarrow> listen_step e (e\<lparr>li_closing := Closed_entry\<rparr>)"

lemmas listen_defs = renew_waiting_def fail_waiters_def close_conn_def accept_stops_def accept_fails_def accepts_conn_def
  promote_checks_def promote_installs_def watcher_starts_def watcher_ends_def listen_close_begins_def listen_close_takes_def Let_def

subsection \<open>The invariant\<close>

definition waiting_ok :: "listen_entry \<Rightarrow> bool" where
  "waiting_ok e \<longleftrightarrow> \<not> li_panicked e \<and> li_closed e = {..<li_waiting e}"

definition session_ok :: "listen_entry \<Rightarrow> bool" where
  "session_ok e \<longleftrightarrow> li_client e = li_current e \<and> (\<forall>c. li_current e = Some c \<longrightarrow> li_state e = State_connected \<and> c < li_made e) \<and>
     (\<forall>c. li_loop e \<in> {Promoting c, Installing c} \<longrightarrow> c < li_made e \<and> li_current e \<noteq> Some c) \<and>
     (li_loop e = Accept_returned \<longrightarrow> li_wait_err e)"

text \<open>Every connection still open is the session or on its way to become it.\<close>

definition no_stray :: "listen_entry \<Rightarrow> bool" where
  "no_stray e \<longleftrightarrow> (\<forall>c < li_made e. c \<notin> li_dead e \<longrightarrow> li_current e = Some c \<or> li_loop e \<in> {Promoting c, Installing c})"

definition listen_inv :: "listen_entry \<Rightarrow> bool" where
  "listen_inv e \<longleftrightarrow> waiting_ok e \<and> session_ok e \<and> no_stray e"

lemma waiting_renew: "waiting_ok e \<Longrightarrow> li_waiting e' = li_waiting e \<Longrightarrow> li_closed e' = li_closed e \<Longrightarrow>
    li_panicked e' = li_panicked e \<Longrightarrow> waiting_ok (renew_waiting e')"
  by (simp add: waiting_ok_def renew_waiting_def lessThan_Suc)

lemma waiting_same: "waiting_ok e \<Longrightarrow> li_waiting e' = li_waiting e \<Longrightarrow> li_closed e' = li_closed e \<Longrightarrow>
    li_panicked e' = li_panicked e \<Longrightarrow> waiting_ok e'"
  by (simp add: waiting_ok_def)

lemma waiting_close [simp]: "waiting_ok (close_conn c k e) = waiting_ok e" "waiting_ok (e\<lparr>li_loop := l\<rparr>) = waiting_ok e"
  by (simp_all add: waiting_ok_def close_conn_def)

lemma waiting_step: "listen_step e e' \<Longrightarrow> waiting_ok e \<Longrightarrow> waiting_ok e'"
proof (induction rule: listen_step.induct)
  case (accept_failed e)
  then show ?case using waiting_renew [of e "e\<lparr>li_wait_err := True\<rparr>"] by (simp add: accept_fails_def accept_stops_def fail_waiters_def)
next
  case (retry_cancelled e)
  then show ?case using waiting_renew [of e "e\<lparr>li_wait_err := True\<rparr>"] by (simp add: accept_stops_def fail_waiters_def)
next
  case (installs e c)
  then show ?case using waiting_renew [of e] by (simp add: promote_installs_def Let_def split: option.splits)
next
  case (checks e c own opened)
  then show ?case by (simp add: promote_checks_def)
next
  case (watched_ends i e c)
  then show ?case by (auto simp: watcher_ends_def Let_def elim!: waiting_same)
next
  case (close_takes e)
  then have "waiting_ok (e\<lparr>li_current := None, li_client := None, li_closing := Awaiting_loop\<rparr>)" by (auto elim!: waiting_same)
  then show ?case by (simp add: listen_close_takes_def Let_def split: option.splits)
qed (auto simp: accepts_conn_def watcher_starts_def listen_close_begins_def elim!: waiting_same)

lemma session_step: "listen_step e e' \<Longrightarrow> session_ok e \<Longrightarrow> session_ok e'"
  by (induction rule: listen_step.induct) (auto simp: session_ok_def listen_defs split: option.splits if_splits)

lemma stray_keep:
  assumes "no_stray e" "li_made e' = li_made e" "li_dead e \<subseteq> li_dead e'"
    and "\<And>c. li_current e = Some c \<Longrightarrow> li_current e' = Some c \<or> c \<in> li_dead e'"
    and "\<And>c. li_loop e \<in> {Promoting c, Installing c} \<Longrightarrow> li_loop e' \<in> {Promoting c, Installing c} \<or> c \<in> li_dead e' \<or> li_current e' = Some c"
  shows "no_stray e'"
  unfolding no_stray_def
proof (intro allI impI)
  fix c assume c: "c < li_made e'" "c \<notin> li_dead e'"
  then have "li_current e = Some c \<or> li_loop e \<in> {Promoting c, Installing c}"
    using assms(1-3) unfolding no_stray_def by auto
  then show "li_current e' = Some c \<or> li_loop e' \<in> {Promoting c, Installing c}" using assms(4,5) c by blast
qed

lemma stray_step: "listen_step e e' \<Longrightarrow> no_stray e \<Longrightarrow> no_stray e'"
proof (induction rule: listen_step.induct)
  case (accepted e)
  then show ?case by (auto simp: no_stray_def accepts_conn_def less_Suc_eq)
next
  case (accept_failed e)
  then show ?case by - (rule stray_keep, assumption, auto simp: listen_defs)
next
  case (retry_cancelled e)
  then show ?case by - (rule stray_keep, assumption, auto simp: listen_defs)
next
  case (checks e c own opened)
  then show ?case by - (rule stray_keep, assumption, auto simp: promote_checks_def close_conn_def)
next
  case (installs e c)
  then show ?case by - (rule stray_keep, assumption, auto simp: listen_defs split: option.splits)
next
  case (watched_ends i e c)
  then show ?case by - (rule stray_keep, assumption, auto simp: watcher_ends_def Let_def)
next
  case (close_takes e)
  then show ?case by - (rule stray_keep, assumption, auto simp: listen_defs split: option.splits)
qed (rule stray_keep, assumption, auto simp: watcher_starts_def listen_close_begins_def)+

lemma listen_step_inv: "listen_step e e' \<Longrightarrow> listen_inv e \<Longrightarrow> listen_inv e'"
  by (simp add: listen_inv_def waiting_step session_step stray_step)

lemma listen_reachable: "listen_step\<^sup>*\<^sup>* new_listen_entry e \<Longrightarrow> listen_inv e"
proof (induction rule: rtranclp_induct)
  case base
  show ?case by (simp add: listen_inv_def waiting_ok_def session_ok_def no_stray_def new_listen_entry_def)
qed (rule listen_step_inv)

interpretation listening: session_entry new_listen_entry listen_step listen_get "\<lambda>e. listen_state_label (li_state e)"
  listen_control_call li_closed
proof
  fix e :: listen_entry assume "listen_step\<^sup>*\<^sup>* new_listen_entry e"
  then have inv: "listen_inv e" by (rule listen_reachable)
  show "listen_state_label (li_state e) = ''connected''" if "listen_control_call e = Some c" for c
  proof -
    have "li_current e = Some c" using that inv by (simp add: listen_inv_def session_ok_def listen_control_call_def)
    then show ?thesis using inv by (simp add: listen_inv_def session_ok_def listen_state_label_def)
  qed
  show "listen_get e = Got c \<Longrightarrow> listen_control_call e = Some c" for c
    using inv by (auto simp: listen_inv_def session_ok_def listen_control_call_def listen_get_def split: option.splits if_splits)
  show "listen_get e = Get_waits k \<Longrightarrow> k \<notin> li_closed e" for k
    using inv by (auto simp: listen_inv_def waiting_ok_def listen_get_def split: option.splits if_splits)
qed

lemma session_displaced:
  assumes "listen_step e e'" "listen_inv e" "li_current e = Some c" "li_current e' \<noteq> Some c"
  shows "c \<in> li_dead e' \<and> (li_current e' = None \<or> li_loop e = Installing (the (li_current e')))"
  using assms(1)
proof (cases rule: listen_step.cases)
  case (installs c')
  then show ?thesis using assms by (auto simp: listen_defs)
qed (use assms in \<open>auto simp: listen_defs split: if_splits\<close>)

text \<open>
  C24: a waiting server's entry is sound under every interleaving of its accept loop, its watchers, its
  callers, the network and \<^verbatim>\<open>Close\<close>. No wake-up channel is closed twice; every connection still open is the
  session or is being promoted, so none is leaked; a caller gets a connection only together with its
  control client, and never waits once the loop has returned. A session leaves its place only closed, and
  only for nothing or for a connection that passed every check: an incoming connection that presents our
  own identity or opens no control stream displaces nobody.
\<close>

theorem listen_entry_sound:
  assumes "listen_step\<^sup>*\<^sup>* new_listen_entry e"
  shows "\<not> li_panicked e \<and>
    (\<forall>c < li_made e. c \<in> li_dead e \<or> listen_get e = Got c \<or> li_loop e \<in> {Promoting c, Installing c}) \<and>
    (case listen_get e of
       Got c \<Rightarrow> li_state e = State_connected \<and> listen_control_call e = Some c
     | Get_waits k \<Rightarrow> k \<notin> li_closed e \<and> li_loop e \<noteq> Accept_returned
     | Get_error _ \<Rightarrow> True) \<and>
    (\<forall>e' c. listen_step e e' \<and> listen_get e = Got c \<and> listen_get e' \<noteq> Got c \<longrightarrow>
       c \<in> li_dead e' \<and> (\<forall>c'. listen_get e' = Got c' \<longrightarrow> li_loop e = Installing c'))"
proof (intro conjI)
  have inv: "listen_inv e" using assms by (rule listen_reachable)
  have got: "listen_get x = Got c \<longleftrightarrow> li_current x = Some c" for x c
    by (auto simp: listen_get_def split: option.splits)
  show "\<not> li_panicked e" using inv by (simp add: listen_inv_def waiting_ok_def)
  show "\<forall>c < li_made e. c \<in> li_dead e \<or> listen_get e = Got c \<or> li_loop e \<in> {Promoting c, Installing c}"
    using inv unfolding got listen_inv_def no_stray_def by blast
  show "case listen_get e of Got c \<Rightarrow> li_state e = State_connected \<and> listen_control_call e = Some c
     | Get_waits k \<Rightarrow> k \<notin> li_closed e \<and> li_loop e \<noteq> Accept_returned | Get_error _ \<Rightarrow> True"
    using inv by (auto simp: listen_inv_def waiting_ok_def session_ok_def listen_get_def listen_control_call_def split: option.splits)
  show "\<forall>e' c. listen_step e e' \<and> listen_get e = Got c \<and> listen_get e' \<noteq> Got c \<longrightarrow>
       c \<in> li_dead e' \<and> (\<forall>c'. listen_get e' = Got c' \<longrightarrow> li_loop e = Installing c')"
    using session_displaced [OF _ inv] unfolding got by fastforce
qed

text \<open>A session that is replaced: the second connection of a server takes over from the first.\<close>

definition promoted :: "listen_entry \<Rightarrow> listen_entry" where
  "promoted e = promote_installs (li_made e) (promote_checks (li_made e) False True (accepts_conn e))"

lemma promoted_steps: "li_loop e = Accepting \<Longrightarrow> \<not> li_cancelled e \<Longrightarrow> listen_step\<^sup>*\<^sup>* e (promoted e)"
proof -
  assume e: "li_loop e = Accepting" "\<not> li_cancelled e"
  let ?a = "accepts_conn e" let ?b = "promote_checks (li_made e) False True ?a"
  have "listen_step e ?a" using e(1) by (rule accepted)
  moreover have "listen_step ?a ?b" by (rule checks) (simp add: accepts_conn_def)
  moreover have "listen_step ?b (promoted e)"
    unfolding promoted_def by (rule installs) (use e in \<open>simp add: promote_checks_def accepts_conn_def\<close>)
  ultimately show ?thesis by (metis converse_rtranclp_into_rtranclp rtranclp.rtrancl_refl)
qed

lemma twice_promoted: "listen_step\<^sup>*\<^sup>* new_listen_entry (promoted (promoted new_listen_entry))"
proof -
  have "listen_step\<^sup>*\<^sup>* new_listen_entry (promoted new_listen_entry)"
    by (rule promoted_steps) (simp_all add: new_listen_entry_def)
  moreover have "listen_step\<^sup>*\<^sup>* (promoted new_listen_entry) (promoted (promoted new_listen_entry))"
    by (rule promoted_steps) (simp_all add: promoted_def listen_defs new_listen_entry_def)
  ultimately show ?thesis by (rule rtranclp_trans)
qed

theorem listen_entry_sound_witness:
  "0 \<in> li_dead (promoted (promoted new_listen_entry)) \<and> listen_get (promoted (promoted new_listen_entry)) = Got 1 \<and>
   li_codes (promoted (promoted new_listen_entry)) = [(0, replaced_session_code)]"
  using listen_entry_sound [OF twice_promoted]
  by (simp add: promoted_def listen_defs new_listen_entry_def listen_get_def)

text \<open>The race of \<^verbatim>\<open>Close\<close> with a promotion that has passed its last look at the context.\<close>

definition listen_raced :: listen_entry where
  "listen_raced = watcher_starts 0 0 (accept_fails (promote_installs 0 (listen_close_takes (listen_close_begins
     (promote_checks 0 False True (accepts_conn new_listen_entry))))))"

lemma listen_raced_reachable: "listen_step\<^sup>*\<^sup>* new_listen_entry listen_raced"
proof -
  let ?a = "accepts_conn new_listen_entry" let ?b = "promote_checks 0 False True ?a" let ?c = "listen_close_begins ?b"
  let ?d = "listen_close_takes ?c" let ?e = "promote_installs 0 ?d" let ?f = "accept_fails ?e"
  note run = listen_defs new_listen_entry_def
  have "listen_step new_listen_entry ?a" by (rule accepted) (simp_all add: run)
  moreover have "listen_step ?a ?b" by (rule checks) (simp add: run)
  moreover have "listen_step ?b ?c" by (rule close_begins) (simp add: run)
  moreover have "listen_step ?c ?d" by (rule close_takes) (simp add: run)
  moreover have "listen_step ?d ?e" by (rule installs) (simp add: run)
  moreover have "listen_step ?e ?f" by (rule accept_failed) (simp add: run)
  moreover have "listen_step ?f listen_raced" unfolding listen_raced_def by (rule starts) (simp_all add: run)
  ultimately show ?thesis by (metis (no_types) converse_rtranclp_into_rtranclp rtranclp.rtrancl_refl)
qed

lemma listen_close_races:
  "li_closing listen_raced = Awaiting_loop \<and> li_watchers listen_raced = [Watching 0] \<and> 0 \<notin> li_dead listen_raced \<and>
   (\<forall>e. listen_step listen_raced e \<longrightarrow> e = listen_raced \<or> 0 \<in> li_dead e)"
proof -
  have "e = listen_raced \<or> 0 \<in> li_dead e" if "listen_step listen_raced e" for e
    using that by (cases rule: listen_step.cases) (auto simp: listen_raced_def listen_defs new_listen_entry_def)
  then show ?thesis by (simp add: listen_raced_def listen_defs new_listen_entry_def)
qed

end
