(* ===== verification/Daemon_Providers.thy ===== *)
theory Daemon_Providers
  imports Ipc_Server Tunnel Daemon_Entry Go_JSON
begin

text \<open>
  Package \<^verbatim>\<open>internal/daemon\<close>: what the daemon answers for an agent (\<^verbatim>\<open>routes.go\<close>, \<^verbatim>\<open>vhosts.go\<close>,
  \<^verbatim>\<open>expose.go\<close>, \<^verbatim>\<open>withdraw.go\<close>).

  A provider meets the pool as the state of the server's entry and as a caller of the agent's control
  server; the agent's table is threaded through, so that what a call did to it can be stated. The answer is
  JSON text or the status and message the socket relays.
\<close>

text \<open>
  Why a call failed, as \<^verbatim>\<open>status.Code\<close> and the message give it: one of the codes an agent answers
  with, or anything else (a deadline, a connection that went away, a call that was cancelled, an entry
  with no client to call), which the providers treat alike.
\<close>

datatype call_failure = Status_code grpc_code string | Other_failure string

type_synonym 't caller = "rpc \<Rightarrow> 't \<Rightarrow> (call_failure + ctl_reply) \<times> 't"

definition failure_code :: "call_failure \<Rightarrow> grpc_code option" where
  "failure_code f = (case f of Status_code c _ \<Rightarrow> Some c | Other_failure _ \<Rightarrow> None)"

definition failure_message :: "call_failure \<Rightarrow> string" where
  "failure_message f = (case f of Status_code _ m \<Rightarrow> m | Other_failure m \<Rightarrow> m)"

definition server_named :: "(rune \<Rightarrow> bool) \<Rightarrow> string \<Rightarrow> string" where
  "server_named wide server = ''server '' @ go_quote wide server"

definition state_unavailable_message :: "(rune \<Rightarrow> bool) \<Rightarrow> string \<Rightarrow> string \<Rightarrow> string option" where
  "state_unavailable_message wide server state =
    (if state = ''disabled'' then Some (server_named wide server @ '' is disabled; set enabled = true in the config to use it'')
     else if state = ''connecting'' then Some (server_named wide server @ '' is not connected (session=connecting); routes are not available yet'')
     else if state = ''listening'' then Some (server_named wide server @ '' is waiting for the agent to connect; routes are not available yet'')
     else if state = ''auth_failed'' then Some (server_named wide server @
        '' permanently rejected authentication (auth_failed); routes are not available. Re-exchange pins and restart.'')
     else None)"

lemma unavailable_states_message: "state_unavailable_message wide server state \<noteq> None \<longleftrightarrow> state \<in> set unavailable_states"
  by (simp add: state_unavailable_message_def unavailable_states_def)

definition reconnecting :: "(rune \<Rightarrow> bool) \<Rightarrow> string \<Rightarrow> relay_failure" where
  "reconnecting wide server = Routes_error 3 (server_named wide server @ '' is reconnecting; try again'')"

definition agent_at :: "(rune \<Rightarrow> bool) \<Rightarrow> string \<Rightarrow> string" where
  "agent_at wide server = ''the agent at server '' @ go_quote wide server"

text \<open>The checks every provider makes before it calls the agent.\<close>

definition before_call :: "(rune \<Rightarrow> bool) \<Rightarrow> string \<Rightarrow> string + string \<Rightarrow> relay_failure option" where
  "before_call wide server state =
    (case state of
       Inl e \<Rightarrow> Some (Routes_error 2 e)
     | Inr st \<Rightarrow> map_option (Routes_error 3) (state_unavailable_message wide server st))"

subsection \<open>Reports\<close>

definition detail_json :: "string \<Rightarrow> bool \<Rightarrow> ctl_detail \<Rightarrow> json" where
  "detail_json key omit d = J_obj ([(key, J_str (cd_name d)), (''address'', J_str (cd_address d)), (''builtin'', J_bool (cd_builtin d))] @
     (if omit then omit_empty ''provenance'' (cd_provenance d) else [(''provenance'', J_str (cd_provenance d))]))"

definition routes_failure :: "(rune \<Rightarrow> bool) \<Rightarrow> string \<Rightarrow> call_failure \<Rightarrow> relay_failure" where
  "routes_failure wide server f =
    (case failure_code f of
       Some Unimplemented \<Rightarrow> Routes_error 3 (agent_at wide server @ '' is running a version that does not report its routes; rebuild both ends'')
     | Some Resource_exhausted \<Rightarrow> Routes_error 3 (server_named wide server @
         '' sent a larger route table than this daemon will accept in one reply; this is a limit on this machine, not a fault on the network'')
     | _ \<Rightarrow> reconnecting wide server)"

definition routes_provider :: "(rune \<Rightarrow> bool) \<Rightarrow> string + string \<Rightarrow> 't caller \<Rightarrow> string \<Rightarrow> 't \<Rightarrow> (relay_failure + bytes) \<times> 't" where
  "routes_provider wide state call server t =
    (case before_call wide server state of
       Some f \<Rightarrow> (Inl f, t)
     | None \<Rightarrow>
       (case call Get_status t of
          (Inl f, t') \<Rightarrow> (Inl (routes_failure wide server f), t')
        | (Inr reply, t') \<Rightarrow>
            (Inr (json_text (J_obj [(''schema'', J_int 1), (''server'', J_str server),
               (''routes'', J_list (case reply of Status_reply _ _ ds \<Rightarrow> map (detail_json ''target'' True) ds | _ \<Rightarrow> []))])), t')))"

definition vhosts_failure :: "(rune \<Rightarrow> bool) \<Rightarrow> string \<Rightarrow> call_failure \<Rightarrow> relay_failure" where
  "vhosts_failure wide server f =
    (case failure_code f of
       Some Unimplemented \<Rightarrow> Routes_error 3 (agent_at wide server @ '' is running a version that does not report its published names; rebuild both ends'')
     | Some Resource_exhausted \<Rightarrow> Routes_error 3 (server_named wide server @
         '' sent more about what it publishes than this daemon will accept in one reply; this is a limit on this machine, not a fault on the network'')
     | _ \<Rightarrow> reconnecting wide server)"

definition vhosts_provider :: "(rune \<Rightarrow> bool) \<Rightarrow> string + string \<Rightarrow> 't caller \<Rightarrow> string \<Rightarrow> 't \<Rightarrow> (relay_failure + bytes) \<times> 't" where
  "vhosts_provider wide state call server t =
    (case before_call wide server state of
       Some f \<Rightarrow> (Inl f, t)
     | None \<Rightarrow>
       (case call List_vhosts t of
          (Inl f, t') \<Rightarrow> (Inl (vhosts_failure wide server f), t')
        | (Inr reply, t') \<Rightarrow>
            (Inr (json_text (J_obj [(''schema'', J_int 1), (''server'', J_str server),
               (''vhosts'', J_list (case reply of Vhosts_reply ds \<Rightarrow> map (detail_json ''host'' False) ds | _ \<Rightarrow> []))])), t')))"

subsection \<open>Publishing and withdrawing\<close>

definition expose_failure :: "(rune \<Rightarrow> bool) \<Rightarrow> string \<Rightarrow> call_failure \<Rightarrow> relay_failure" where
  "expose_failure wide server f =
    (case failure_code f of
       Some Unimplemented \<Rightarrow> Routes_error 3 (agent_at wide server @
         '' cannot publish names; it may predate the feature, or its operator has not allowed remote changes'')
     | Some Permission_denied \<Rightarrow> Routes_error 3 (agent_at wide server @
         '' refuses remote changes to what it publishes; its operator can allow them'')
     | Some Already_exists \<Rightarrow> Routes_error 3 (server_named wide server @ '' already publishes that name: '' @ failure_message f)
     | Some Invalid_argument \<Rightarrow> Routes_error 2 (failure_message f)
     | Some Resource_exhausted \<Rightarrow> Routes_error 3 (agent_at wide server @
         '' is holding as many published names as it will; see them with: quic-link vhosts '' @ server)
     | _ \<Rightarrow> reconnecting wide server)"

definition expose_snapshot :: "string \<Rightarrow> string \<Rightarrow> int \<Rightarrow> bytes" where
  "expose_snapshot server host http_port = json_text (J_obj [(''schema'', J_int 1), (''server'', J_str server),
     (''host'', J_str host), (''http_port'', J_int http_port)])"

text \<open>\<open>http_port\<close> is the port of the listener that routes by name, 0 when the daemon has none.\<close>

definition expose_provider ::
  "(rune \<Rightarrow> bool) \<Rightarrow> int \<Rightarrow> string + string \<Rightarrow> 't caller \<Rightarrow> string \<Rightarrow> string \<Rightarrow> int \<Rightarrow> 't \<Rightarrow> (relay_failure + bytes) \<times> 't"
where
  "expose_provider wide http_port state call server host port t =
    (if http_port = 0 then (Inl (Routes_error 3 (''this daemon is not answering names, so a published name would not be reachable '' @
         ''from here; check the naming setup with doctor'')), t)
     else (case before_call wide server state of
         Some f \<Rightarrow> (Inl f, t)
       | None \<Rightarrow>
         if port < 1 \<or> 65535 < port
         then (Inl (Routes_error 2 (''port '' @ int_text port @ '' is outside the usable range 1-65535'')), t)
         else (case call (Add_vhost host (word_of_int port)) t of
             (Inl f, t') \<Rightarrow> (Inl (expose_failure wide server f), t')
           | (Inr (Added h _), t') \<Rightarrow> (Inr (expose_snapshot server h http_port), t')
           | (Inr _, t') \<Rightarrow> (Inl (Routes_error 3 (server_named wide server @ '' did not carry out the request; try again'')), t'))))"

definition withdraw_failure :: "(rune \<Rightarrow> bool) \<Rightarrow> string \<Rightarrow> string \<Rightarrow> call_failure \<Rightarrow> relay_failure" where
  "withdraw_failure wide server host f =
    (case failure_code f of
       Some Unimplemented \<Rightarrow> Routes_error 3 (agent_at wide server @
         '' cannot withdraw names; it may predate the feature, or its operator has not allowed remote changes'')
     | Some Permission_denied \<Rightarrow> Routes_error 3 (agent_at wide server @
         '' refuses remote changes to what it publishes; its operator can allow them'')
     | Some Not_found \<Rightarrow> Routes_error 3 (server_named wide server @ '' does not publish '' @ go_quote wide host @ '', so there is nothing to withdraw'')
     | Some Failed_precondition \<Rightarrow> Routes_error 3 (server_named wide server @ '' publishes '' @ go_quote wide host @
         '' from its own configuration, which cannot be withdrawn from here; the operator of that agent decides what it configures'')
     | Some Invalid_argument \<Rightarrow> Routes_error 2 (failure_message f)
     | _ \<Rightarrow> reconnecting wide server)"

definition withdraw_provider ::
  "(rune \<Rightarrow> bool) \<Rightarrow> string + string \<Rightarrow> 't caller \<Rightarrow> string \<Rightarrow> string \<Rightarrow> 't \<Rightarrow> (relay_failure + bytes) \<times> 't"
where
  "withdraw_provider wide state call server host t =
    (case before_call wide server state of
       Some f \<Rightarrow> (Inl f, t)
     | None \<Rightarrow>
       (case call (Remove_vhost host) t of
          (Inl f, t') \<Rightarrow> (Inl (withdraw_failure wide server host f), t')
        | (Inr reply, t') \<Rightarrow>
            (let (h, by, addr) = (case reply of Removed h by addr \<Rightarrow> (h, by, addr) | _ \<Rightarrow> ([], [], []))
             in (Inr (json_text (J_obj ([(''schema'', J_int 1), (''server'', J_str server), (''host'', J_str h)] @
                omit_empty ''shadowed_by'' by @ omit_empty ''shadowed_by_address'' addr))), t'))))"

subsection \<open>Every refusal is one the client sees\<close>

text \<open>A relayed failure with a status other than zero, which a client cannot take for success.\<close>

definition visible_failure :: "relay_failure + bytes \<Rightarrow> bool" where
  "visible_failure x = (case x of Inl (Routes_error st _) \<Rightarrow> st \<in> {2, 3} | Inl (Relay_error _) \<Rightarrow> False | Inr _ \<Rightarrow> True)"

lemma before_call_visible: "before_call wide server state = Some f \<Longrightarrow> visible_failure (Inl f)"
  by (auto simp: before_call_def visible_failure_def split: sum.splits)

lemma failures_visible:
  "visible_failure (Inl (routes_failure wide server f))" "visible_failure (Inl (vhosts_failure wide server f))"
  "visible_failure (Inl (expose_failure wide server f))" "visible_failure (Inl (withdraw_failure wide server host f))"
  by (auto simp: visible_failure_def routes_failure_def vhosts_failure_def expose_failure_def withdraw_failure_def
    reconnecting_def split: option.splits grpc_code.splits)

lemma routes_visible: "visible_failure (fst (routes_provider wide state call server t))"
proof (cases "before_call wide server state")
  case None
  then show ?thesis
    by (cases "call Get_status t"; cases "fst (call Get_status t)")
      (auto simp: routes_provider_def failures_visible, simp add: visible_failure_def)
qed (simp add: routes_provider_def before_call_visible)

lemma vhosts_visible: "visible_failure (fst (vhosts_provider wide state call server t))"
proof (cases "before_call wide server state")
  case None
  then show ?thesis
    by (cases "call List_vhosts t"; cases "fst (call List_vhosts t)")
      (auto simp: vhosts_provider_def failures_visible, simp add: visible_failure_def)
qed (simp add: vhosts_provider_def before_call_visible)

subsection \<open>Remote changes, from the daemon to the agent's table\<close>

text \<open>A control call on an agent: what its server dispatches, as gRPC returns it; \<open>render\<close> is the text of a
  status.\<close>

definition agent_call :: "('x status_text \<Rightarrow> string) \<Rightarrow> ('t, 'x) control_server \<Rightarrow> int \<Rightarrow> 't caller" where
  "agent_call render srv now q t =
    (case dispatch srv now q t of
       (Inl (code, text), t', _) \<Rightarrow> (Inl (Status_code code (render text)), t')
     | (Inr reply, t', _) \<Rightarrow> (Inr reply, t'))"

lemma agent_adds:
  assumes "so_names opt = None" "agent_call render (session_server opt peer) now (Add_vhost host p) r = (x, r')"
  shows "case x of Inl _ \<Rightarrow> r' = r
    | Inr reply \<Rightarrow> reply = Added host p \<and> so_allow opt \<and> add_vhost host (uint p) r = (None, r')"
proof (cases "add_vhost host (uint p) r")
  case (Pair e r1)
  have same: "e \<noteq> None \<Longrightarrow> r1 = r" using Pair add_vhost_refused [of host "uint p" r] by (cases e) auto
  show ?thesis
    using assms Pair same
    by (auto simp: agent_call_def dispatch_mutation is_mutation_def authorize_def contain_def Control.handle_rpc_def
      handle_add_vhost_def session_server_def publisher_def publish_error_def Let_def split: option.splits outcome.splits if_splits prod.splits)
qed

lemma agent_removes:
  assumes "agent_call render (session_server opt peer) now (Remove_vhost host) r = (x, r')"
  shows "case x of Inl _ \<Rightarrow> r' = r
    | Inr reply \<Rightarrow> (\<exists>by addr. reply = Removed host by addr) \<and> so_allow opt \<and> is_ok (fst (remove_vhost host r)) \<and> r' = snd (remove_vhost host r)"
proof (cases "remove_vhost host r")
  case (Pair e r1)
  have same: "\<not> is_ok e \<Longrightarrow> r1 = r" using Pair remove_vhost_refused [of host r] by (cases e) auto
  show ?thesis
    using assms Pair same
    by (auto simp: agent_call_def dispatch_mutation is_mutation_def authorize_def contain_def Control.handle_rpc_def
      handle_remove_vhost_def session_server_def withdrawer_def Let_def split: option.splits outcome.splits if_splits sum.splits prod.splits)
qed

text \<open>
  What becomes of one call between the two machines: it is carried out and answered; it fails before the
  agent has it; or the agent carries it out and the answer does not arrive, because the deadline passed
  or the connection went away. In the last case the table is the one the agent is left with once it has
  carried the call out, which may be later than the caller's answer.
\<close>

datatype call_fate = Answered | Never_sent string | Reply_lost string

definition wire_call ::
  "call_fate \<Rightarrow> ('x status_text \<Rightarrow> string) \<Rightarrow> ('t, 'x) control_server \<Rightarrow> int \<Rightarrow> 't caller"
where
  "wire_call fate render srv now q t =
    (case fate of
       Answered \<Rightarrow> agent_call render srv now q t
     | Never_sent why \<Rightarrow> (Inl (Other_failure why), t)
     | Reply_lost why \<Rightarrow> (Inl (Other_failure why), snd (agent_call render srv now q t)))"

lemma lost_failures [simp]:
  "expose_failure wide server (Other_failure why) = reconnecting wide server"
  "withdraw_failure wide server host (Other_failure why) = reconnecting wide server"
  by (simp_all add: expose_failure_def withdraw_failure_def failure_code_def)

lemma reconnecting_visible [simp]: "visible_failure (Inl (reconnecting wide server))"
  by (simp add: visible_failure_def reconnecting_def)

lemma wire_adds:
  assumes "so_names opt = None"
    "wire_call fate render (session_server opt peer) now (Add_vhost host p) r = (x, r')"
  shows "case x of
      Inl f \<Rightarrow> r' = r \<or> (\<exists>why. fate = Reply_lost why \<and> f = Other_failure why) \<and> so_allow opt \<and>
        add_vhost host (uint p) r = (None, r')
    | Inr reply \<Rightarrow> fate = Answered \<and> reply = Added host p \<and> so_allow opt \<and> add_vhost host (uint p) r = (None, r')"
proof -
  obtain y r1 where c: "agent_call render (session_server opt peer) now (Add_vhost host p) r = (y, r1)" by fastforce
  show ?thesis using agent_adds [OF assms(1) c] assms(2) c by (cases y) (auto simp: wire_call_def split: call_fate.splits)
qed

lemma wire_removes:
  assumes "wire_call fate render (session_server opt peer) now (Remove_vhost host) r = (x, r')"
  shows "case x of
      Inl f \<Rightarrow> r' = r \<or> (\<exists>why. fate = Reply_lost why \<and> f = Other_failure why) \<and> so_allow opt \<and>
        is_ok (fst (remove_vhost host r)) \<and> r' = snd (remove_vhost host r)
    | Inr reply \<Rightarrow> fate = Answered \<and> so_allow opt \<and> is_ok (fst (remove_vhost host r)) \<and> r' = snd (remove_vhost host r)"
proof -
  obtain y r1 where c: "agent_call render (session_server opt peer) now (Remove_vhost host) r = (y, r1)" by fastforce
  show ?thesis using agent_removes [OF c] assms c by (cases y) (auto simp: wire_call_def split: call_fate.splits)
qed

lemma removed_runtime:
  assumes "router_ok r" "is_ok (fst (remove_vhost host r))"
  shows "shown_entry (snd (remove_vhost host r)) host = None \<and> (\<exists>e. shown_entry r host = Some e \<and> rt_prov e = Runtime)"
  using remove_vhost_shown [OF assms(1), of host host] assms(2) by auto

lemma exposed:
  assumes "so_names opt = None"
    "expose_provider wide http_port state (wire_call fate render (session_server opt peer) now) server host port r = (x, r')"
  shows "case x of
      Inr body \<Rightarrow> fate = Answered \<and> body = expose_snapshot server host http_port \<and> so_allow opt \<and>
        add_vhost host port r = (None, r')
    | Inl f \<Rightarrow> visible_failure (Inl f) \<and> (r' = r \<or>
        (\<exists>why. fate = Reply_lost why) \<and> f = reconnecting wide server \<and> so_allow opt \<and> add_vhost host port r = (None, r'))"
proof (cases "http_port = 0 \<or> before_call wide server state \<noteq> None \<or> port < 1 \<or> 65535 < port")
  case True
  then show ?thesis
    using assms(2) before_call_visible
    by (auto simp: expose_provider_def visible_failure_def split: option.splits if_splits)
next
  case False
  obtain y r1 where c: "wire_call fate render (session_server opt peer) now (Add_vhost host (word_of_int port)) r = (y, r1)"
    by fastforce
  have u: "uint (word_of_int port :: 32 word) = port" using False by (simp add: uint_word_of_int)
  show ?thesis
    using wire_adds [OF assms(1) c] assms(2) c False failures_visible(3)
    by (cases y) (auto simp: expose_provider_def u)
qed

lemma withdrawn:
  assumes "withdraw_provider wide state (wire_call fate render (session_server opt peer) now) server host r = (x, r')"
  shows "case x of
      Inr _ \<Rightarrow> fate = Answered \<and> so_allow opt \<and> is_ok (fst (remove_vhost host r)) \<and> r' = snd (remove_vhost host r)
    | Inl f \<Rightarrow> visible_failure (Inl f) \<and> (r' = r \<or>
        (\<exists>why. fate = Reply_lost why) \<and> f = reconnecting wide server \<and> so_allow opt \<and>
        is_ok (fst (remove_vhost host r)) \<and> r' = snd (remove_vhost host r))"
proof (cases "before_call wide server state")
  case None
  obtain y r1 where c: "wire_call fate render (session_server opt peer) now (Remove_vhost host) r = (y, r1)" by fastforce
  show ?thesis
    using wire_removes [OF c] assms c None failures_visible(4)
    by (cases y) (auto simp: withdraw_provider_def Let_def split: prod.splits)
qed (use assms before_call_visible in \<open>auto simp: withdraw_provider_def\<close>)

text \<open>Publishing what is already published this way is told yes, and changes nothing.\<close>

lemma exposed_again:
  assumes "so_names opt = None" "so_allow opt" "so_policy opt = None" "http_port \<noteq> 0" "before_call wide server state = None"
    "1 \<le> port" "port \<le> 65535" "add_vhost host port r = (None, r)"
  shows "expose_provider wide http_port state (wire_call Answered render (session_server opt peer) now) server host port r
    = (Inr (expose_snapshot server host http_port), r)"
proof -
  have u: "uint (word_of_int port :: 32 word) = port" using assms by (simp add: uint_word_of_int)
  have "\<not> (word_of_int port :: 32 word) < 1" "\<not> (65535 :: 32 word) < word_of_int port"
    using assms u by (simp_all add: word_less_def)
  then have "agent_call render (session_server opt peer) now (Add_vhost host (word_of_int port)) r
      = (Inr (Added host (word_of_int port)), r)"
    using assms by (simp add: agent_call_def dispatch_mutation is_mutation_def authorize_def contain_def Control.handle_rpc_def
      handle_add_vhost_def session_server_def mutation_policy_def publisher_def publish_error_def u Let_def)
  then show ?thesis using assms by (simp add: expose_provider_def wire_call_def)
qed

text \<open>
  C25: Remote changes are reported as they happened, whatever becomes of the call on the way. From the
  daemon's provider through the agent's control server to its table: a publication reported as done has
  put exactly that name on the loopback port asked for, and a withdrawal reported as done has removed a
  name published at runtime, both only with the operator's consent. A change reported as failed carries a
  status the client cannot take for success, and has changed nothing, with one exception, which the report
  names: when the agent carried it out and its answer was lost, the report is that the server is
  reconnecting, and what was changed is exactly what was asked for. To publish again is then safe: it is
  told yes and changes nothing.
\<close>

theorem remote_changes_end_to_end:
  assumes "so_names opt = None" "router_ok r"
  shows "(case expose_provider wide http_port state (wire_call fate render (session_server opt peer) now) server host port r of
       (Inr body, r') \<Rightarrow> fate = Answered \<and> body = expose_snapshot server host http_port \<and> so_allow opt \<and>
         (\<exists>e. shown_entry r' host = Some e \<and> rt_prov e = Runtime \<and> rt_raw e = ''tcp://127.0.0.1:'' @ itoa (nat port))
     | (Inl f, r') \<Rightarrow> visible_failure (Inl f) \<and> (r' = r \<or>
         (\<exists>why. fate = Reply_lost why) \<and> f = reconnecting wide server \<and> so_allow opt \<and>
         (\<exists>e. shown_entry r' host = Some e \<and> rt_prov e = Runtime \<and> rt_raw e = ''tcp://127.0.0.1:'' @ itoa (nat port)) \<and>
         (so_policy opt = None \<longrightarrow>
           expose_provider wide http_port state (wire_call Answered render (session_server opt peer) later) server host port r'
             = (Inr (expose_snapshot server host http_port), r')))) \<and>
    (case withdraw_provider wide state (wire_call fate render (session_server opt peer) now) server host r of
       (Inr _, r') \<Rightarrow> fate = Answered \<and> so_allow opt \<and> shown_entry r' host = None \<and>
         (\<exists>e. shown_entry r host = Some e \<and> rt_prov e = Runtime)
     | (Inl f, r') \<Rightarrow> visible_failure (Inl f) \<and> (r' = r \<or>
         (\<exists>why. fate = Reply_lost why) \<and> f = reconnecting wide server \<and> so_allow opt \<and> shown_entry r' host = None \<and>
         (\<exists>e. shown_entry r host = Some e \<and> rt_prov e = Runtime)))"
    (is "?published \<and> ?withdrawn")
proof
  let ?call = "wire_call fate render (session_server opt peer) now"
  obtain x r' where e: "expose_provider wide http_port state ?call server host port r = (x, r')" by fastforce
  have put: "\<exists>e. shown_entry r' host = Some e \<and> rt_prov e = Runtime \<and> rt_raw e = ''tcp://127.0.0.1:'' @ itoa (nat port)"
    if "add_vhost host port r = (None, r')"
    using add_vhost_done(1) [OF that] by (auto simp: runtime_entry_def)
  have asked: "http_port \<noteq> 0 \<and> before_call wide server state = None \<and> 1 \<le> port \<and> port \<le> 65535" if "r' \<noteq> r"
    using e that by (auto simp: expose_provider_def split: if_splits option.splits)
  have again: "r' = r \<or> so_policy opt \<noteq> None \<or>
      expose_provider wide http_port state (wire_call Answered render (session_server opt peer) later) server host port r'
        = (Inr (expose_snapshot server host http_port), r')" if "add_vhost host port r = (None, r')" "so_allow opt"
    using exposed_again [OF assms(1) that(2)] add_vhost_done(2) [OF that(1)] asked by blast
  show ?published
    using exposed [OF assms(1) e] put again unfolding e by (cases x) auto
  obtain y r'' where w: "withdraw_provider wide state ?call server host r = (y, r'')" by fastforce
  show ?withdrawn
    using withdrawn [OF w] removed_runtime [OF assms(2)] unfolding w by (cases y) auto
qed

definition consenting :: serve_opts where
  "consenting = \<lparr>so_own_pin = [], so_policy = None, so_names = None, so_allow = True, so_version = [], so_started = None\<rparr>"

definition bare_router :: router where
  "bare_router = \<lparr>ro_routes = Map.empty, ro_vhosts = Some \<lparr>vh_exact = Map.empty, vh_wildcard = Map.empty\<rparr>, ro_policy = allow_all\<rparr>"

theorem remote_changes_end_to_end_witness:
  "\<exists>r'. expose_provider (\<lambda>_. False) 8080 (Inr ''connected'')
       (wire_call (Reply_lost ''deadline'') (\<lambda>_. []) (session_server consenting \<lparr>id_pin = []\<rparr>) 0)
       ''db'' ''a'' 80 bare_router = (Inl (reconnecting (\<lambda>_. False) ''db''), r') \<and> shown_entry r' ''a'' \<noteq> None \<and>
     expose_provider (\<lambda>_. False) 8080 (Inr ''connected'')
       (wire_call Answered (\<lambda>_. []) (session_server consenting \<lparr>id_pin = []\<rparr>) 1)
       ''db'' ''a'' 80 r' = (Inr (expose_snapshot ''db'' ''a'' 8080), r')"
proof -
  let ?srv = "session_server consenting \<lparr>id_pin = []\<rparr>"
  have ok: "router_ok bare_router" by (simp add: bare_router_def router_ok_def routes_ok_def vh_ok_def vh_count_def)
  have c: "so_names consenting = None" "so_policy consenting = None" by (simp_all add: consenting_def)
  obtain r' where r': "add_vhost ''a'' 80 bare_router = (None, r')"
    using publish_effect_witness unfolding bare_router_def by blast
  have "agent_call (\<lambda>_. []) ?srv 0 (Add_vhost ''a'' (word_of_int 80)) bare_router = (Inr (Added ''a'' 80), r')"
    using r' by (simp add: agent_call_def dispatch_mutation is_mutation_def authorize_def contain_def Control.handle_rpc_def
      handle_add_vhost_def session_server_def consenting_def mutation_policy_def publisher_def publish_error_def Let_def)
  then have run: "expose_provider (\<lambda>_. False) 8080 (Inr ''connected'') (wire_call (Reply_lost ''deadline'') (\<lambda>_. []) ?srv 0)
      ''db'' ''a'' 80 bare_router = (Inl (reconnecting (\<lambda>_. False) ''db''), r')"
    by (simp add: expose_provider_def before_call_def state_unavailable_message_def wire_call_def)
  have "shown_entry r' ''a'' \<noteq> None" using add_vhost_done(1) [OF r'] by auto
  moreover have "shown_entry bare_router ''a'' = None" by (simp add: bare_router_def shown_entry_def vh_shown_def cut_prefix_def)
  ultimately have "r' \<noteq> bare_router" by auto
  then show ?thesis
    using remote_changes_end_to_end [OF c(1) ok, where wide = "\<lambda>_. False" and http_port = 8080 and state = "Inr ''connected''"
        and fate = "Reply_lost ''deadline''" and render = "\<lambda>_. []" and peer = "\<lparr>id_pin = []\<rparr>" and now = 0
        and server = "''db''" and host = "''a''" and port = 80 and later = 1] c(2) unfolding run by auto
qed

end
