(* ===== verification/Daemon_Pool.thy ===== *)
theory Daemon_Pool
  imports Config Ipc Daemon_Dial Daemon_Listen Go_JSON "HOL-Library.Multiset"
begin

text \<open>
  Package \<^verbatim>\<open>internal/daemon\<close>: building the session pool from the configuration (\<^verbatim>\<open>pool.go\<close>), the text of a
  dial failure, the path of a connection (\<^verbatim>\<open>path.go\<close>), and the status and doctor snapshots (\<^verbatim>\<open>daemon.go\<close>).

  Durations are integers of nanoseconds. A floating-point division by a number of hours is the exact
  quotient, truncated.
\<close>

subsection \<open>Server names in order\<close>

text \<open>\<^verbatim>\<open>sortedServerNames\<close> and \<^verbatim>\<open>sortedConfigServerNames\<close>: an insertion sort that moves a name left while it is
  smaller than its neighbour.\<close>

fun sift_left :: "string list \<Rightarrow> string \<Rightarrow> string list" where
  "sift_left [] x = [x]"
| "sift_left (y # ys) x = (if x < y then y # sift_left ys x else x # y # ys)"

text \<open>The names already placed are kept last first.\<close>

fun insertion_sort :: "string list \<Rightarrow> string list \<Rightarrow> string list" where
  "insertion_sort placed [] = rev placed"
| "insertion_sort placed (x # xs) = insertion_sort (sift_left placed x) xs"

definition sorted_server_names :: "string list \<Rightarrow> string list" where
  "sorted_server_names names = insertion_sort [] names"

lemma sift_left_mset [simp]: "mset (sift_left ys x) = add_mset x (mset ys)"
  by (induction ys) simp_all

lemma sift_left_sorted: "sorted (rev ys) \<Longrightarrow> sorted (rev (sift_left ys x))"
proof (induction ys)
  case (Cons y ys)
  have "set (sift_left ys x) = insert x (set ys)" by (metis set_mset_add_mset_insert set_mset_mset sift_left_mset)
  then show ?case using Cons by (auto simp: sorted_append)
qed simp

lemma insertion_sort_sorts:
  "sorted (rev placed) \<Longrightarrow> sorted (insertion_sort placed xs) \<and> mset (insertion_sort placed xs) = mset placed + mset xs"
  by (induction placed xs rule: insertion_sort.induct) (auto simp: sift_left_sorted)

lemma sorted_server_names_sort: "sorted_server_names names = sort names"
  using insertion_sort_sorts [of "[]" names] unfolding sorted_server_names_def
  by (intro properties_for_sort [symmetric]) simp_all

subsection \<open>Building the pool\<close>

definition configured_transport :: "server \<Rightarrow> string" where
  "configured_transport srv = (if sv_listen srv \<noteq> [] \<and> sv_addr srv = [] then ''listen'' else ''dial'')"

datatype entry_kind = Disabled_kind string | Listen_kind | Dial_kind string

datatype pool_error =
    Build_transport string string
  | Listen_failed string string
  | Undialable string dialable_error

datatype transport_event = Transport_built string | Transport_closed string

text \<open>What building meets: whether a server's transport can be built, and whether it can listen.\<close>

record pool_world =
  pw_transport :: "string \<Rightarrow> server \<Rightarrow> string option"
  pw_listen :: "string \<Rightarrow> string option"

text \<open>One turn of the loop: the entry of one server.\<close>

definition build_one :: "pool_world \<Rightarrow> string \<Rightarrow> server \<Rightarrow> (pool_error + entry_kind) \<times> transport_event list" where
  "build_one w name srv =
    (if sv_disabled srv then (Inr (Disabled_kind (configured_transport srv)), [])
     else (case pw_transport w name srv of
         Some e \<Rightarrow> (Inl (Build_transport name e), [])
       | None \<Rightarrow>
         if configured_transport srv = ''listen'' then
           (case pw_listen w name of
              Some e \<Rightarrow> (Inl (Listen_failed name e), [Transport_built name, Transport_closed name])
            | None \<Rightarrow> (Inr Listen_kind, [Transport_built name]))
         else (case dialable_addr (sv_addr srv) of
              Some e \<Rightarrow> (Inl (Undialable name e), [Transport_built name, Transport_closed name])
            | None \<Rightarrow> (Inr (Dial_kind (sv_addr srv)), [Transport_built name]))))"

fun build_entries ::
  "pool_world \<Rightarrow> (string \<times> server) list \<Rightarrow> (pool_error + (string \<times> entry_kind) list) \<times> transport_event list" where
  "build_entries w [] = (Inr [], [])"
| "build_entries w ((name, srv) # ss) =
    (case build_one w name srv of
       (Inl e, evs) \<Rightarrow> (Inl e, evs)
     | (Inr k, evs) \<Rightarrow>
         (case build_entries w ss of
            (Inl e, es) \<Rightarrow> (Inl e, evs @ es)
          | (Inr ks, es) \<Rightarrow> (Inr ((name, k) # ks), evs @ es)))"

text \<open>The servers in the order of their sorted names.\<close>

definition servers_in_order :: "(string \<times> server) list \<Rightarrow> (string \<times> server) list" where
  "servers_in_order ss = map (\<lambda>n. (n, the (map_of ss n))) (sorted_server_names (map fst ss))"

definition new_real_pool :: "pool_world \<Rightarrow> config \<Rightarrow> (pool_error + (string \<times> entry_kind) list) \<times> transport_event list" where
  "new_real_pool w cfg = build_entries w (servers_in_order (cf_servers cfg))"

definition expected_kind :: "server \<Rightarrow> entry_kind" where
  "expected_kind srv =
    (if sv_disabled srv then Disabled_kind (configured_transport srv)
     else if configured_transport srv = ''listen'' then Listen_kind else Dial_kind (sv_addr srv))"

definition server_works :: "pool_world \<Rightarrow> string \<Rightarrow> server \<Rightarrow> bool" where
  "server_works w name srv \<longleftrightarrow> sv_disabled srv \<or> pw_transport w name srv = None \<and>
     (if configured_transport srv = ''listen'' then pw_listen w name = None else dialable_addr (sv_addr srv) = None)"

lemma build_one_works:
  "server_works w name srv \<Longrightarrow> build_one w name srv = (Inr (expected_kind srv), if sv_disabled srv then [] else [Transport_built name])"
  by (auto simp: build_one_def server_works_def expected_kind_def)

lemma build_one_fails:
  "\<not> server_works w name srv \<Longrightarrow> \<not> sv_disabled srv \<and>
     (\<exists>e evs. build_one w name srv = (Inl e, evs) \<and> evs \<in> {[], [Transport_built name, Transport_closed name]})"
  by (auto simp: build_one_def server_works_def split: option.splits if_splits)

lemma build_entries_Inr_iff:
  "fst (build_entries w ss) = Inr ks \<longleftrightarrow>
     list_all (\<lambda>x. server_works w (fst x) (snd x)) ss \<and> ks = map (\<lambda>x. (fst x, expected_kind (snd x))) ss"
proof (induction ss arbitrary: ks)
  case (Cons x ss)
  obtain name srv where x: "x = (name, srv)" by (cases x)
  obtain r evs where r: "build_entries w ss = (r, evs)" by (cases "build_entries w ss")
  show ?case
  proof (cases "server_works w name srv")
    case True
    then show ?thesis using Cons.IH by (cases r) (auto simp: x r build_one_works)
  next
    case False
    then obtain e es where "build_one w name srv = (Inl e, es)" using build_one_fails by blast
    then show ?thesis using False by (simp add: x)
  qed
qed auto

text \<open>The transports still open after building.\<close>

definition open_transports :: "transport_event list \<Rightarrow> string list" where
  "open_transports evs = foldl (\<lambda>ns e. case e of Transport_built n \<Rightarrow> ns @ [n] | Transport_closed n \<Rightarrow> remove1 n ns) [] evs"

lemma build_events:
  "\<exists>ns tail. snd (build_entries w ss) = map Transport_built ns @ tail \<and>
     (tail = [] \<or> (\<exists>n. tail = [Transport_built n, Transport_closed n] \<and> n \<in> fst ` {x \<in> set ss. \<not> sv_disabled (snd x)})) \<and>
     set ns \<subseteq> fst ` {x \<in> set ss. \<not> sv_disabled (snd x)} \<and> (is_ok (fst (build_entries w ss)) \<longrightarrow> tail = [] \<and>
       ns = map fst (filter (\<lambda>x. \<not> sv_disabled (snd x)) ss))"
proof (induction ss)
  case (Cons x ss)
  obtain name srv where x: "x = (name, srv)" by (cases x)
  obtain r evs where r: "build_entries w ss = (r, evs)" by (cases "build_entries w ss")
  from Cons.IH obtain ns tail where nt: "evs = map Transport_built ns @ tail"
    "tail = [] \<or> (\<exists>n. tail = [Transport_built n, Transport_closed n] \<and> n \<in> fst ` {x \<in> set ss. \<not> sv_disabled (snd x)})"
    "set ns \<subseteq> fst ` {x \<in> set ss. \<not> sv_disabled (snd x)}"
    "is_ok r \<longrightarrow> tail = [] \<and> ns = map fst (filter (\<lambda>x. \<not> sv_disabled (snd x)) ss)" unfolding r by auto
  have added: "snd (build_entries w (x # ss)) = (if sv_disabled srv then [] else [Transport_built name]) @ evs \<and>
      (is_ok (fst (build_entries w (x # ss))) \<longleftrightarrow> is_ok r)" if "server_works w name srv"
    using that by (cases r) (simp_all add: x r build_one_works)
  show ?case
  proof (cases "server_works w name srv")
    case True
    have "set (if sv_disabled srv then ns else name # ns) \<subseteq> fst ` {y \<in> set (x # ss). \<not> sv_disabled (snd y)}"
      using nt(3) x by (auto simp: image_iff)
    then show ?thesis using added [OF True] nt x
      by (intro exI [of _ "if sv_disabled srv then ns else name # ns"] exI [of _ tail]) auto
  next
    case False
    then have "snd (build_entries w (x # ss)) \<in> {[], [Transport_built name, Transport_closed name]}"
      "\<not> is_ok (fst (build_entries w (x # ss)))" "\<not> sv_disabled srv"
      using build_one_fails [OF False] by (auto simp: x)
    moreover have "name \<in> fst ` {y \<in> set (x # ss). \<not> sv_disabled (snd y)}" if "\<not> sv_disabled srv"
      using that x by (auto simp: image_iff)
    ultimately show ?thesis
      by - (rule exI [of _ "[]"], rule exI [of _ "snd (build_entries w (x # ss))"], auto simp del: build_entries.simps)
  qed
qed simp

lemma servers_in_order_sorted:
  assumes "distinct (map fst ss)"
  shows "sorted (map fst (servers_in_order ss)) \<and> set (servers_in_order ss) = set ss \<and> length (servers_in_order ss) = length ss"
proof -
  have "set (servers_in_order ss) = (\<lambda>n. (n, the (map_of ss n))) ` fst ` set ss"
    by (simp add: servers_in_order_def sorted_server_names_sort)
  also have "\<dots> = set ss" using assms by (force simp: image_iff)
  finally show ?thesis by (simp add: servers_in_order_def sorted_server_names_sort comp_def)
qed

text \<open>
  C26: the pool is what the configuration says. It is built exactly when every enabled server has a transport,
  can listen if it waits, and has an address that can be dialled if it does not; it then has one entry
  per configured server, in the order of their names, of the kind its settings ask for, and one open
  transport per enabled server. A disabled server never gets a transport.
\<close>

theorem pool_matches_configuration:
  assumes "distinct (map fst (cf_servers cfg))"
  shows "(is_ok (fst (new_real_pool w cfg)) \<longleftrightarrow> (\<forall>x\<in>set (cf_servers cfg). server_works w (fst x) (snd x))) \<and>
    (\<forall>ks. fst (new_real_pool w cfg) = Inr ks \<longrightarrow> sorted (map fst ks) \<and>
       set ks = (\<lambda>x. (fst x, expected_kind (snd x))) ` set (cf_servers cfg) \<and> length ks = length (cf_servers cfg) \<and>
       set (open_transports (snd (new_real_pool w cfg))) = fst ` {x \<in> set (cf_servers cfg). \<not> sv_disabled (snd x)}) \<and>
    (\<forall>n. Transport_built n \<in> set (snd (new_real_pool w cfg)) \<longrightarrow> (\<exists>s. (n, s) \<in> set (cf_servers cfg) \<and> \<not> sv_disabled s))"
proof -
  let ?ss = "servers_in_order (cf_servers cfg)"
  note ord = servers_in_order_sorted [OF assms]
  obtain ns tail where nt: "snd (new_real_pool w cfg) = map Transport_built ns @ tail"
    "tail = [] \<or> (\<exists>n. tail = [Transport_built n, Transport_closed n] \<and> n \<in> fst ` {x \<in> set ?ss. \<not> sv_disabled (snd x)})"
    "set ns \<subseteq> fst ` {x \<in> set ?ss. \<not> sv_disabled (snd x)}"
    "is_ok (fst (new_real_pool w cfg)) \<longrightarrow> tail = [] \<and> ns = map fst (filter (\<lambda>x. \<not> sv_disabled (snd x)) ?ss)"
    using build_events [of w ?ss] unfolding new_real_pool_def by blast
  have "is_ok (fst (new_real_pool w cfg)) \<longleftrightarrow> (\<forall>x\<in>set (cf_servers cfg). server_works w (fst x) (snd x))"
    using ord build_entries_Inr_iff [of w ?ss] by (auto simp: new_real_pool_def is_ok_iff list_all_iff)
  moreover have "open_transports (map Transport_built ns) = ns"
    by (induction ns rule: rev_induct) (simp_all add: open_transports_def)
  moreover have "Transport_built n \<in> set (snd (new_real_pool w cfg)) \<Longrightarrow> \<exists>s. (n, s) \<in> set (cf_servers cfg) \<and> \<not> sv_disabled s" for n
    using nt(1-3) ord by fastforce
  moreover have "sorted (map fst ks) \<and> set ks = (\<lambda>x. (fst x, expected_kind (snd x))) ` set (cf_servers cfg) \<and>
      length ks = length (cf_servers cfg) \<and>
      set (open_transports (snd (new_real_pool w cfg))) = fst ` {x \<in> set (cf_servers cfg). \<not> sv_disabled (snd x)}"
    if k: "fst (new_real_pool w cfg) = Inr ks" for ks
  proof -
    have "ks = map (\<lambda>x. (fst x, expected_kind (snd x))) ?ss"
      using k build_entries_Inr_iff [of w ?ss ks] by (simp add: new_real_pool_def)
    moreover have "snd (new_real_pool w cfg) = map Transport_built ns" "ns = map fst (filter (\<lambda>x. \<not> sv_disabled (snd x)) ?ss)"
      using nt k by simp_all
    ultimately show ?thesis using ord \<open>open_transports (map Transport_built ns) = ns\<close> by (simp add: comp_def)
  qed
  ultimately show ?thesis by blast
qed

theorem pool_matches_configuration_witness:
  "is_ok (fst (new_real_pool \<lparr>pw_transport = (\<lambda>_ _. None), pw_listen = (\<lambda>_. None)\<rparr> sample_config))"
proof -
  let ?w = "\<lparr>pw_transport = (\<lambda>_ _. None), pw_listen = (\<lambda>_. None)\<rparr>"
  have "split_host_port ''h:1'' = Inr (''h'', ''1'')" by (simp add: split_host_port_def Let_def has_prefix_def contains_byte_def)
  then have "\<forall>x\<in>set (cf_servers sample_config). server_works ?w (fst x) (snd x)"
    by (simp add: sample_config_def server_works_def configured_transport_def dialable_addr_def)
  moreover have "distinct (map fst (cf_servers sample_config))" by (simp add: sample_config_def)
  ultimately show ?thesis using pool_matches_configuration by blast
qed

subsection \<open>The text of a dial failure\<close>

definition max_failure_text_bytes :: nat where "max_failure_text_bytes = 200"

definition failure_rune :: "rune \<Rightarrow> bytes" where
  "failure_rune r =
    (if r = rune_error then []
     else if r = 10 \<or> r = 13 \<or> r = 9 then '' ''
     else if is_unsafe_agent_rune r then []
     else encode_rune r)"

definition valid_utf8 :: "bytes \<Rightarrow> bool" where
  "valid_utf8 s \<longleftrightarrow> (rune_error, 1) \<notin> set (runes s)"

function cut_to_valid :: "bytes \<Rightarrow> bytes" where
  "cut_to_valid s = (if s = [] \<or> valid_utf8 s then s else cut_to_valid (butlast s))"
  by auto
termination by (relation "measure length") auto

declare cut_to_valid.simps [simp del]

definition ellipsis :: bytes where "ellipsis = [CHR 0xE2, CHR 0x80, CHR 0xA6]"

definition bounded_failure_text :: "string \<Rightarrow> string" where
  "bounded_failure_text s =
    (let out = trim_space (concat (map (failure_rune \<circ> fst) (runes s)))
     in if length out \<le> max_failure_text_bytes then out
        else trim_space (cut_to_valid (take max_failure_text_bytes out)) @ ellipsis)"

text \<open>\<open>canceled\<close>: the failure is the context's own cancellation; \<open>text\<close>: its message.\<close>

definition dial_failure_message :: "conn_state \<Rightarrow> (bool \<times> string) option \<Rightarrow> string" where
  "dial_failure_message st err =
    (case err of
       None \<Rightarrow> []
     | Some (canceled, text) \<Rightarrow>
         if st = State_connected \<or> st = State_auth_failed \<or> canceled then [] else bounded_failure_text text)"

lemma length_trim_left_space: "length (trim_left_space s) \<le> length s"
proof (induction s rule: trim_left_space.induct)
  case (1 s)
  then show ?case by (subst trim_left_space.simps) (auto simp: le_diff_conv)
qed

lemma length_trim_right_space: "length (trim_right_space s) \<le> length s"
proof (induction s rule: trim_right_space.induct)
  case (1 s)
  then show ?case by (subst trim_right_space.simps) auto
qed

lemma length_trim_space: "length (trim_space s) \<le> length s"
  using length_trim_left_space length_trim_right_space le_trans unfolding trim_space_def by blast

lemma cut_to_valid_take: "\<exists>k. cut_to_valid s = take k s"
proof (induction s rule: cut_to_valid.induct)
  case (1 s)
  show ?case
  proof (cases "s = [] \<or> valid_utf8 s")
    case True
    then show ?thesis by (subst cut_to_valid.simps) (auto intro: exI [of _ "length s"])
  next
    case False
    then obtain k where "cut_to_valid (butlast s) = take k (butlast s)" using 1 by blast
    then show ?thesis using False by (subst cut_to_valid.simps) (auto simp: butlast_conv_take)
  qed
qed

lemma bounded_failure_text_bound: "length (bounded_failure_text s) \<le> 203"
proof -
  let ?out = "trim_space (concat (map (failure_rune \<circ> fst) (runes s)))"
  obtain k where "cut_to_valid (take max_failure_text_bytes ?out) = take k (take max_failure_text_bytes ?out)"
    using cut_to_valid_take by blast
  then have "length (trim_space (cut_to_valid (take max_failure_text_bytes ?out))) \<le> 200"
    using length_trim_space [of "cut_to_valid (take max_failure_text_bytes ?out)"] by (simp add: max_failure_text_bytes_def)
  then show ?thesis by (simp add: bounded_failure_text_def Let_def max_failure_text_bytes_def ellipsis_def)
qed

subsection \<open>The path of a connection\<close>

text \<open>A remote address: a UDP address with its IP, when it has one, or anything else.\<close>

datatype net_addr = Udp_addr "bytes option" | Other_addr

definition ip_to4 :: "bytes \<Rightarrow> bytes option" where
  "ip_to4 ip =
    (if length ip = 4 then Some ip
     else if length ip = 16 \<and> take 10 ip = replicate 10 (CHR 0x00) \<and> ip ! 10 = CHR 0xFF \<and> ip ! 11 = CHR 0xFF
     then Some (drop 12 ip) else None)"

definition path_for_addr :: "net_addr \<Rightarrow> string" where
  "path_for_addr a =
    (case a of
       Udp_addr (Some ip) \<Rightarrow> if ip_to4 ip \<noteq> None then ''ipv4-direct'' else ''ipv6-direct''
     | _ \<Rightarrow> [])"

text \<open>\<^verbatim>\<open>pathOf\<close>: no connection, a connection that does not tell its peer's address, or one that does.\<close>

definition path_of :: "net_addr option option \<Rightarrow> string" where
  "path_of conn = (case conn of Some (Some a) \<Rightarrow> path_for_addr a | _ \<Rightarrow> [])"

subsection \<open>The status snapshot\<close>

record session_state =
  ss_name :: string
  ss_state :: string
  ss_transport :: string
  ss_since :: int
  ss_ssh_port :: int
  ss_docker_port :: int
  ss_last_error :: string
  ss_path :: string

definition disabled_state :: "string \<Rightarrow> string \<Rightarrow> int \<Rightarrow> session_state" where
  "disabled_state name transport since = \<lparr>ss_name = name, ss_state = ''disabled'', ss_transport = transport,
     ss_since = since, ss_ssh_port = 0, ss_docker_port = 0, ss_last_error = [], ss_path = []\<rparr>"

definition dial_session_state ::
  "string \<Rightarrow> int \<Rightarrow> int \<Rightarrow> int \<Rightarrow> (bool \<times> string) option \<Rightarrow> net_addr option option \<Rightarrow> conn_state \<Rightarrow> session_state" where
  "dial_session_state name since ssh docker err conn st = \<lparr>ss_name = name, ss_state = dial_state_label st,
     ss_transport = ''dial'', ss_since = since, ss_ssh_port = ssh, ss_docker_port = docker,
     ss_last_error = dial_failure_message st err, ss_path = path_of conn\<rparr>"

definition listen_session_state ::
  "string \<Rightarrow> int \<Rightarrow> int \<Rightarrow> int \<Rightarrow> net_addr option option \<Rightarrow> conn_state \<Rightarrow> session_state" where
  "listen_session_state name since ssh docker conn st = \<lparr>ss_name = name, ss_state = listen_state_label st,
     ss_transport = ''listen'', ss_since = since, ss_ssh_port = ssh, ss_docker_port = docker,
     ss_last_error = [], ss_path = path_of conn\<rparr>"

definition nanos_per_day :: int where "nanos_per_day = 24 * 60 * 60 * 10 ^ 9"

text \<open>Integer division as Go does it, towards zero.\<close>

definition go_quot :: "int \<Rightarrow> int \<Rightarrow> int" where
  "go_quot a b = sgn a * sgn b * (\<bar>a\<bar> div \<bar>b\<bar>)"

record identity_info =
  ii_created :: string
  ii_age_days :: int
  ii_rotation_due :: bool

text \<open>\<open>meta\<close> is what reading the key's metadata gave: its creation as text and how long ago it was.\<close>

definition identity_info_of :: "int \<Rightarrow> (string \<times> int) option \<Rightarrow> identity_info option" where
  "identity_info_of warn_days meta =
    (case meta of
       None \<Rightarrow> None
     | Some (created, age) \<Rightarrow>
         let days = go_quot age nanos_per_day
         in Some \<lparr>ii_created = created, ii_age_days = days, ii_rotation_due = (0 < warn_days \<and> warn_days < days)\<rparr>)"

definition server_json :: "int \<Rightarrow> session_state \<Rightarrow> json" where
  "server_json now s = J_obj ([(''name'', J_str (ss_name s)), (''session'', J_str (ss_state s)), (''transport'', J_str (ss_transport s)),
     (''since_ms'', J_int (go_quot (now - ss_since s) (10 ^ 6))),
     (''local_ports'', J_obj [(''ssh'', J_int (ss_ssh_port s)), (''docker'', J_int (ss_docker_port s))])] @
     omit_empty ''last_error'' (ss_last_error s) @ omit_empty ''path'' (ss_path s))"

definition build_snapshot :: "int \<Rightarrow> int \<Rightarrow> (string \<times> int) option \<Rightarrow> session_state list \<Rightarrow> json" where
  "build_snapshot now warn_days meta states = J_obj ([(''schema'', J_int 2)] @
     (case identity_info_of warn_days meta of
        None \<Rightarrow> []
      | Some i \<Rightarrow> [(''identity'', J_obj [(''created'', J_str (ii_created i)), (''age_days'', J_int (ii_age_days i)),
           (''rotation_due'', J_bool (ii_rotation_due i))])]) @
     [(''servers'', J_list (map (server_json now) states))])"

definition status_snapshot :: "int \<Rightarrow> int \<Rightarrow> (string \<times> int) option \<Rightarrow> session_state list \<Rightarrow> bytes" where
  "status_snapshot now warn_days meta states = json_text (build_snapshot now warn_days meta states)"

text \<open>The doctor's report; asking about a probe consumes it.\<close>

definition doctor_snapshot :: "zone \<Rightarrow> int \<Rightarrow> int \<Rightarrow> int \<Rightarrow> string \<Rightarrow> bytes \<times> zone" where
  "doctor_snapshot z dns http https probe =
    (let (seen, z') = (if probe = [] then (False, z) else saw_probe probe z)
     in (json_text (J_obj ([(''schema'', J_int 1), (''suffix'', J_str (z_suffix z))] @ omit_zero ''dns_port'' dns @
           omit_zero ''http_port'' http @ omit_zero ''https_port'' https @
           [(''servers'', J_list (map J_str (servers z))), (''probe_seen'', J_bool seen)])), z'))"

lemma doctor_probe_once: "fst (saw_probe probe (snd (doctor_snapshot z dns http https probe))) \<longleftrightarrow> probe = [] \<and> [] \<in> z_probes z"
  by (simp add: doctor_snapshot_def saw_probe_def Let_def)

end
