(* ===== verification/Daemon_Run.thy ===== *)
theory Daemon_Run
  imports Daemon_Pool Daemon_Providers
begin

text \<open>
  The pool as the daemon uses it (\<^verbatim>\<open>internal/daemon/pool.go\<close>: \<^verbatim>\<open>Get\<close>, \<^verbatim>\<open>EntryState\<close>, \<^verbatim>\<open>ControlCall\<close>) and the
  daemon's life from binding its socket to removing it (\<^verbatim>\<open>Run\<close> of \<^verbatim>\<open>internal/daemon/daemon.go\<close>).
\<close>

subsection \<open>The entries behind one interface\<close>

datatype pool_entry = Entry_off | Entry_dial dial_entry | Entry_listen listen_entry

definition new_entry :: "entry_kind \<Rightarrow> pool_entry" where
  "new_entry k = (case k of Disabled_kind _ \<Rightarrow> Entry_off | Listen_kind \<Rightarrow> Entry_listen new_listen_entry | Dial_kind _ \<Rightarrow> Entry_dial new_dial_entry)"

definition entry_get :: "pool_entry \<Rightarrow> get_result" where
  "entry_get e = (case e of Entry_off \<Rightarrow> disabled_get () | Entry_dial d \<Rightarrow> get_conn d | Entry_listen l \<Rightarrow> listen_get l)"

definition entry_label :: "pool_entry \<Rightarrow> string" where
  "entry_label e = (case e of Entry_off \<Rightarrow> disabled_label () | Entry_dial d \<Rightarrow> dial_state_label (di_state d)
     | Entry_listen l \<Rightarrow> listen_state_label (li_state l))"

definition entry_client :: "pool_entry \<Rightarrow> nat option" where
  "entry_client e = (case e of Entry_off \<Rightarrow> disabled_call () | Entry_dial d \<Rightarrow> control_call d | Entry_listen l \<Rightarrow> listen_control_call l)"

definition entry_woken :: "pool_entry \<Rightarrow> nat set" where
  "entry_woken e = (case e of Entry_off \<Rightarrow> {} | Entry_dial d \<Rightarrow> di_closed d | Entry_listen l \<Rightarrow> li_closed l)"

inductive entry_step :: "pool_entry \<Rightarrow> pool_entry \<Rightarrow> bool" where
  dials: "dial_step d d' \<Longrightarrow> entry_step (Entry_dial d) (Entry_dial d')"
| listens: "listen_step l l' \<Longrightarrow> entry_step (Entry_listen l) (Entry_listen l')"

inductive_simps entry_step_simps [simp]: "entry_step Entry_off e" "entry_step (Entry_dial d) e" "entry_step (Entry_listen l) e"

lemma entry_reachable:
  assumes "entry_step\<^sup>*\<^sup>* (new_entry k) e"
  shows "case e of Entry_off \<Rightarrow> True | Entry_dial d \<Rightarrow> dial_step\<^sup>*\<^sup>* new_dial_entry d | Entry_listen l \<Rightarrow> listen_step\<^sup>*\<^sup>* new_listen_entry l"
  using assms
proof (induction rule: rtranclp_induct)
  case base
  show ?case by (simp add: new_entry_def split: entry_kind.split)
next
  case (step y z)
  then show ?case by (cases y) (auto intro: rtranclp.rtrancl_into_rtrancl)
qed

interpretation pooled: session_entry "new_entry k" entry_step entry_get entry_label entry_client entry_woken for k
proof
  fix e assume r: "entry_step\<^sup>*\<^sup>* (new_entry k) e"
  show "entry_client e = Some c \<Longrightarrow> entry_label e = ''connected''" for c
    using entry_reachable [OF r] dialled.client_connected listening.client_connected
    by (cases e) (auto simp: entry_client_def entry_label_def disabled_call_def)
  show "entry_get e = Got c \<Longrightarrow> entry_client e = Some c" for c
    using entry_reachable [OF r] dialled.got_client listening.got_client
    by (cases e) (auto simp: entry_client_def entry_get_def disabled_get_def)
  show "entry_get e = Get_waits w \<Longrightarrow> w \<notin> entry_woken e" for w
    using entry_reachable [OF r] dialled.waits_open listening.waits_open
    by (cases e) (auto simp: entry_woken_def entry_get_def disabled_get_def)
qed

subsection \<open>The pool\<close>

type_synonym pool = "(string \<times> pool_entry) list"

definition pool_get :: "(rune \<Rightarrow> bool) \<Rightarrow> pool \<Rightarrow> string \<Rightarrow> string + get_result" where
  "pool_get wide p server =
    (case map_of p server of None \<Rightarrow> Inl (''pool: unknown server '' @ go_quote wide server) | Some e \<Rightarrow> Inr (entry_get e))"

definition pool_entry_state :: "(rune \<Rightarrow> bool) \<Rightarrow> pool \<Rightarrow> string \<Rightarrow> string + string" where
  "pool_entry_state wide p server =
    (case map_of p server of None \<Rightarrow> Inl (''unknown server '' @ go_quote wide server) | Some e \<Rightarrow> Inr (entry_label e))"

text \<open>What \<^verbatim>\<open>ControlCall\<close> calls with: the control client the entry holds, or the reason it has none.\<close>

definition pool_control_call :: "(rune \<Rightarrow> bool) \<Rightarrow> pool \<Rightarrow> string \<Rightarrow> string + nat" where
  "pool_control_call wide p server =
    (case map_of p server of
       None \<Rightarrow> Inl (''pool: unknown server '' @ go_quote wide server)
     | Some e \<Rightarrow>
       (case entry_client e of
          None \<Rightarrow> Inl (''server '' @ go_quote wide server @ (if e = Entry_off then '' is disabled; no control client available''
            else '': no control client available (session='' @ entry_label e @ '')''))
        | Some c \<Rightarrow> Inr c))"

definition pool_reachable :: "pool \<Rightarrow> bool" where
  "pool_reachable p \<longleftrightarrow> (\<forall>x\<in>set p. \<exists>k. entry_step\<^sup>*\<^sup>* (new_entry k) (snd x))"

text \<open>
  What the relays tell an operator about a session is true: they refuse before calling only when there is no
  control client to call with, and never refuse while there is one.
\<close>

lemma relay_refusals_are_true:
  assumes "pool_reachable p"
  shows "(before_call wide server (pool_entry_state wide p server) \<noteq> None \<longrightarrow> \<not> is_ok (pool_control_call wide p server)) \<and>
    (is_ok (pool_control_call wide p server) \<longrightarrow> before_call wide server (pool_entry_state wide p server) = None)"
proof (cases "map_of p server")
  case None
  then show ?thesis by (simp add: pool_control_call_def is_ok_iff)
next
  case (Some e)
  then obtain k where "entry_step\<^sup>*\<^sup>* (new_entry k) e"
    using assms map_of_SomeD [of p server e] unfolding pool_reachable_def by force
  then have "entry_label e \<in> set unavailable_states \<Longrightarrow> entry_client e = None"
    using pooled.unavailable_has_no_client by blast
  moreover have "before_call wide server (pool_entry_state wide p server) \<noteq> None \<longleftrightarrow> entry_label e \<in> set unavailable_states"
    using unavailable_states_message [of wide server "entry_label e"] Some
    by (simp add: before_call_def pool_entry_state_def)
  ultimately show ?thesis using Some
    by (cases "entry_client e") (auto simp: pool_control_call_def is_ok_iff)
qed

subsection \<open>The daemon's life\<close>

text \<open>
  What \<^verbatim>\<open>Run\<close> meets: whether the socket can be bound and made private, whether the handlers drain before
  the deadline. \<open>edges\<close> are the servers whose local ports were taken; the naming listeners are either all there
  or absent.
\<close>

record run_env =
  ru_listen :: "string option"
  ru_chmod :: "string option"
  ru_drains :: bool

record naming_listeners =
  nl_zone :: "zone option"
  nl_dns :: bool
  nl_http :: bool
  nl_https :: bool

datatype part = Socket | Edge string | Resolver | Http_edge | Https_edge | Session_pool

datatype life = Up part | Private_socket | Serves | Stopping | Down part | Drained bool | Socket_removed

datatype run_error = Run_listen string | Run_chmod string | Run_cancelled

definition host_edges :: "naming_listeners \<Rightarrow> part list" where
  "host_edges nl = (if nl_http nl then [Http_edge] else []) @ (if nl_https nl then [Https_edge] else [])"

definition resolvers :: "naming_listeners \<Rightarrow> part list" where
  "resolvers nl = (if nl_dns nl then [Resolver] else [])"

definition edge_parts :: "string list \<Rightarrow> string set \<Rightarrow> part list" where
  "edge_parts names bound = map Edge (filter (\<lambda>n. n \<in> bound) (sorted_server_names names))"

definition shut_down :: "run_env \<Rightarrow> part list \<Rightarrow> naming_listeners \<Rightarrow> life list" where
  "shut_down env edges nl =
    [Down Socket] @ map Down (resolvers nl) @ [Down Session_pool] @ map Down (host_edges nl) @ map Down edges @
    [Drained (ru_drains env), Socket_removed]"

definition daemon_run :: "run_env \<Rightarrow> string list \<Rightarrow> string set \<Rightarrow> naming_listeners \<Rightarrow> run_error \<times> life list" where
  "daemon_run env names bound nl =
    (case ru_listen env of
       Some e \<Rightarrow> (Run_listen e, [])
     | None \<Rightarrow>
       (case ru_chmod env of
          Some e \<Rightarrow> (Run_chmod e, [Up Socket, Down Socket])
        | None \<Rightarrow>
          (let edges = edge_parts names bound in
           (Run_cancelled, [Up Socket, Private_socket] @ map Up edges @ map Up (resolvers nl) @ map Up (host_edges nl) @
             [Serves, Stopping] @ shut_down env edges nl))))"

definition precedes :: "'a \<Rightarrow> 'a \<Rightarrow> 'a list \<Rightarrow> bool" where
  "precedes x y zs \<longleftrightarrow> (\<exists>us vs. zs = us @ vs \<and> x \<in> set us \<and> y \<notin> set us)"

lemma precedesI: "x \<in> set us \<Longrightarrow> y \<notin> set us \<Longrightarrow> precedes x y (us @ vs)"
  by (auto simp: precedes_def)

lemma count_parts [simp]:
  "count_list (map Up ps) (Up p) = count_list ps p" "count_list (map Down ps) (Down p) = count_list ps p"
  "count_list (map Up ps) (Down p) = 0" "count_list (map Down ps) (Up p) = 0"
  by (induction ps) auto

lemma count_distinct: "distinct xs \<Longrightarrow> count_list xs x \<le> 1"
  by (induction xs) (auto simp: count_list_0_iff)

text \<open>
  Whatever is started is stopped exactly once; the socket is private before it serves anyone, and gone at the
  end even when the handlers do not drain; no edge outlives the sessions' end, and none is waited for before
  them, so that its open streams can unwind.
\<close>

lemma daemon_life:
  fixes names :: "string list"
  assumes "daemon_run env names bound nl = (err, evs)" "distinct names"
  shows "(\<forall>p. p \<noteq> Session_pool \<longrightarrow> count_list evs (Up p) = count_list evs (Down p) \<and> count_list evs (Down p) \<le> 1) \<and>
    (Serves \<in> set evs \<longrightarrow> precedes Private_socket Serves evs \<and> last evs = Socket_removed \<and> precedes Serves (Down Session_pool) evs \<and>
       (\<forall>p. Up p \<in> set evs \<and> p \<notin> {Socket, Resolver} \<longrightarrow> precedes (Down Session_pool) (Down p) evs)) \<and>
    (err \<noteq> Run_cancelled \<longrightarrow> Serves \<notin> set evs \<and> Private_socket \<notin> set evs)"
proof (cases "err = Run_cancelled")
  case False
  then have "evs = [] \<or> evs = [Up Socket, Down Socket]"
    using assms(1) by (auto simp: daemon_run_def Let_def split: option.splits)
  then show ?thesis by auto
next
  case True
  define E H R where "E = edge_parts names bound" and "H = host_edges nl" and "R = resolvers nl"
  define ups where "ups = [Up Socket, Private_socket] @ map Up (E @ R @ H)"
  define mid where "mid = [Serves, Stopping, Down Socket] @ map Down R"
  define tl where "tl = map Down (H @ E) @ [Drained (ru_drains env), Socket_removed]"
  have evs: "evs = ups @ mid @ Down Session_pool # tl"
    using True assms(1) by (auto simp: daemon_run_def shut_down_def ups_def mid_def tl_def E_def H_def R_def Let_def split: option.splits)
  have parts: "set E \<subseteq> range Edge" "set R \<subseteq> {Resolver}" "set H \<subseteq> {Http_edge, Https_edge}"
    by (auto simp: E_def R_def H_def edge_parts_def resolvers_def host_edges_def)
  have "distinct E" using assms(2) by (simp add: E_def edge_parts_def sorted_server_names_sort distinct_map inj_on_def)
  then have "distinct (E @ R @ H)" using parts by (auto simp: R_def H_def resolvers_def host_edges_def)
  then have c: "count_list (E @ R @ H) p \<le> 1" for p by (rule count_distinct)
  have "count_list evs (Up p) = count_list evs (Down p) \<and> count_list evs (Down p) \<le> 1" if "p \<noteq> Session_pool" for p
  proof -
    have "Socket \<notin> set (E @ R @ H)" using parts by auto
    then have "count_list (E @ R @ H) Socket = 0" using count_list_0_iff by metis
    then show ?thesis using that c [of p] by (auto simp: evs ups_def mid_def tl_def)
  qed
  moreover have "precedes Private_socket Serves evs"
    using precedesI [of Private_socket ups Serves] by (auto simp: evs ups_def)
  moreover have "precedes Serves (Down Session_pool) evs"
  proof -
    have "Serves \<in> set (ups @ mid)" "Down Session_pool \<notin> set (ups @ mid)" using parts by (auto simp: ups_def mid_def)
    then show ?thesis using precedesI [of Serves "ups @ mid" "Down Session_pool" "Down Session_pool # tl"] by (simp add: evs)
  qed
  moreover have "precedes (Down Session_pool) (Down p) evs" if "Up p \<in> set evs" "p \<notin> {Socket, Resolver}" for p
  proof -
    have "p \<in> set E \<union> set H" using that parts by (auto simp: evs ups_def mid_def tl_def)
    then have "Down p \<notin> set (ups @ mid @ [Down Session_pool])" using parts by (auto simp: ups_def mid_def)
    then show ?thesis using precedesI [of "Down Session_pool" "ups @ mid @ [Down Session_pool]" "Down p" tl] by (simp add: evs)
  qed
  moreover have "last evs = Socket_removed" by (simp add: evs tl_def)
  ultimately show ?thesis using True by simp
qed

end
