(* ===== verification/Cli_Socket.thy ===== *)
theory Cli_Socket
  imports Go_Path Go_Net "HOL-Library.Word"
begin

text \<open>
  \<^verbatim>\<open>cmd/quic-link/socketpath.go\<close>: where the daemon's socket is, and the checks on its directory.

  The file system is a \<open>dir_world\<close>: what creating, \<^verbatim>\<open>Lstat\<close> and \<^verbatim>\<open>Stat\<close> give for a directory. \<^verbatim>\<open>Stat\<close> gives owner and
  permission bits, \<open>None\<close> on a platform that has no owner.
\<close>

unbundle bit_operations_syntax

datatype dir_kind = Is_symlink | Is_not_dir | Is_dir

record dir_world =
  dw_mkdir :: "string \<Rightarrow> string option"
  dw_lstat :: "string \<Rightarrow> string + dir_kind"
  dw_stat :: "string \<Rightarrow> string + (nat \<times> nat) option"

datatype dir_error =
    Mkdir_failed string string
  | Stat_failed string string
  | Dir_symlink string
  | Not_a_dir string
  | No_owner string
  | Foreign_owner string nat
  | Loose_mode string nat

definition sun_path_limit :: nat where "sun_path_limit = 104"

definition verify_owned_dir :: "dir_world \<Rightarrow> string \<Rightarrow> nat \<Rightarrow> dir_error option" where
  "verify_owned_dir w dir uid =
    (case dw_lstat w dir of
       Inl e \<Rightarrow> Some (Stat_failed dir e)
     | Inr Is_symlink \<Rightarrow> Some (Dir_symlink dir)
     | Inr Is_not_dir \<Rightarrow> Some (Not_a_dir dir)
     | Inr Is_dir \<Rightarrow>
       (case dw_stat w dir of
          Inl e \<Rightarrow> Some (Stat_failed dir e)
        | Inr None \<Rightarrow> Some (No_owner dir)
        | Inr (Some (owner, perm)) \<Rightarrow>
          if owner \<noteq> uid then Some (Foreign_owner dir owner)
          else if perm AND 18 \<noteq> 0 then Some (Loose_mode dir perm)
          else None))"

definition ensure_owned_dir :: "dir_world \<Rightarrow> string \<Rightarrow> nat \<Rightarrow> dir_error option" where
  "ensure_owned_dir w dir uid =
    (case dw_mkdir w dir of Some e \<Rightarrow> Some (Mkdir_failed dir e) | None \<Rightarrow> verify_owned_dir w dir uid)"

definition socket_in :: "dir_world \<Rightarrow> string \<Rightarrow> nat \<Rightarrow> dir_error + string" where
  "socket_in w dir uid =
    (case ensure_owned_dir w dir uid of Some e \<Rightarrow> Inl e | None \<Rightarrow> Inr (path_join [dir, ''daemon.sock'']))"

definition socket_path :: "dir_world \<Rightarrow> string \<Rightarrow> string \<Rightarrow> nat \<Rightarrow> dir_error + string" where
  "socket_path w xdg tmpdir uid =
    (let name = ''quic-link-'' @ itoa uid; tmp = path_join [tmpdir, name] in
     if xdg \<noteq> [] then socket_in w (path_join [xdg, ''quic-link'']) uid
     else if tmpdir \<noteq> [] \<and> length (path_join [tmp, ''daemon.sock'']) \<le> sun_path_limit then socket_in w tmp uid
     else socket_in w (path_join [''/tmp'', name]) uid)"

text \<open>Wherever the socket is, its directory is a real one of this user that nobody else can write.\<close>

lemma verified_dir:
  "verify_owned_dir w dir uid = None \<longleftrightarrow> dw_lstat w dir = Inr Is_dir \<and>
     (\<exists>perm. dw_stat w dir = Inr (Some (uid, perm)) \<and> \<not> bit perm 4 \<and> \<not> bit perm 1)"
proof -
  have "perm AND 18 = 0 \<longleftrightarrow> \<not> bit perm 4 \<and> \<not> bit perm 1" for perm :: nat
  proof -
    have "(18 :: nat) = push_bit 4 1 OR push_bit 1 1" by simp
    then have b: "bit (18 :: nat) n \<longleftrightarrow> n = 4 \<or> n = 1" for n
      by (simp only: bit_or_iff bit_push_bit_iff bit_1_iff) auto
    have "perm AND 18 = 0 \<longleftrightarrow> (\<forall>n. \<not> bit (perm AND 18) n)" by (simp add: bit_eq_iff)
    then show ?thesis by (auto simp only: bit_and_iff b)
  qed
  then show ?thesis
    by (auto simp: verify_owned_dir_def split: sum.splits dir_kind.splits option.splits prod.splits if_splits)
qed

lemma socket_dir_verified:
  assumes "socket_path w xdg tmpdir uid = Inr sock"
  shows "\<exists>dir. sock = path_join [dir, ''daemon.sock''] \<and> verify_owned_dir w dir uid = None \<and>
    (xdg = [] \<longrightarrow> dir = path_join [tmpdir, ''quic-link-'' @ itoa uid] \<and> length sock \<le> sun_path_limit \<or>
       dir = path_join [''/tmp'', ''quic-link-'' @ itoa uid])"
  using assms
  by (auto simp: socket_path_def socket_in_def ensure_owned_dir_def Let_def split: if_splits option.splits)

end
