(* ===== verification/Daemon_Owner.thy ===== *)
theory Daemon_Owner
  imports Daemon_Run Cli_Socket Ipc_Client Edge
begin

text \<open>
  \<^verbatim>\<open>cmd/quic-link/daemoncmd.go\<close>: starting the one owner of the sessions. It checks that nobody else owns the
  socket, validates the configuration, loads the key, takes the local ports and the naming sockets, builds the
  pool, and runs the daemon until it is stopped.

  Everything outside the program is an \<open>owner_env\<close>. Core dumps, messages and the key's contents are left out.
\<close>

datatype owner_error =
    Ow_unknown_server string
  | Ow_disabled string
  | Ow_no_servers
  | Ow_socket dir_error
  | Ow_running
  | Ow_squatter client_error
  | Ow_symlink
  | Ow_remove string
  | Ow_invalid config_error
  | Ow_key string
  | Ow_old_key int
  | Ow_unservable name_error
  | Ow_pool pool_error
  | Ow_run run_error

datatype naming_failure = Nf_config naming_error | Nf_zone name_error | Nf_bind string int string

datatype naming_event = Took string int | Gave string int

datatype owner_event =
    Stale_removed
  | Port_event string listener_event
  | Naming_event naming_event
  | Pool_event transport_event
  | Life_event life

record owner_env =
  ow_sock :: "dir_error + string"
  ow_codec :: client_codec
  ow_conn :: "dial_failure + client_conn"
  ow_is_symlink :: bool
  ow_remove :: "string option"
  ow_key :: "string option"
  ow_age :: "int option"
  ow_bind :: "string \<Rightarrow> nat \<Rightarrow> int \<Rightarrow> bool"
  ow_naming :: "string \<Rightarrow> int \<Rightarrow> string option"
  ow_world :: pool_world
  ow_run :: run_env

subsection \<open>One owner at a time\<close>

text \<open>\<open>None\<close>: nobody is there, the socket may be taken.\<close>

definition probe_socket :: "client_codec \<Rightarrow> dial_failure + client_conn \<Rightarrow> owner_error option" where
  "probe_socket ck conn =
    (case client_probe ck conn of
       None \<Rightarrow> Some Ow_running
     | Some e \<Rightarrow>
       (case e of
          Cl_schema _ \<Rightarrow> Some Ow_running
        | Cl_daemon_absent _ \<Rightarrow> None
        | _ \<Rightarrow> Some (Ow_squatter e)))"

definition reclaim :: "owner_env \<Rightarrow> owner_error option \<times> owner_event list" where
  "reclaim env =
    (if ow_is_symlink env then (Some Ow_symlink, [])
     else (case ow_remove env of Some e \<Rightarrow> (Some (Ow_remove e), []) | None \<Rightarrow> (None, [Stale_removed])))"

definition narrow_scope :: "config \<Rightarrow> string \<Rightarrow> owner_error + config" where
  "narrow_scope cfg scope =
    (if scope = [] then Inr cfg
     else (case map_of (cf_servers cfg) scope of
         None \<Rightarrow> Inl (Ow_unknown_server scope)
       | Some srv \<Rightarrow> if sv_disabled srv then Inl (Ow_disabled scope) else Inr (cfg\<lparr>cf_servers := [(scope, srv)]\<rparr>)))"

definition key_too_old :: "identity_section \<Rightarrow> int option \<Rightarrow> int option" where
  "key_too_old ident age =
    (case age of
       None \<Rightarrow> None
     | Some a \<Rightarrow>
       let days = go_quot a nanos_per_day in
       if 0 < is_warn_days ident \<and> is_warn_days ident < days \<and> is_refuse_old ident then Some days else None)"

subsection \<open>Taking ports\<close>

fun acquire_edges ::
  "(string \<Rightarrow> nat \<Rightarrow> int \<Rightarrow> bool) \<Rightarrow> (string \<times> server) list \<Rightarrow> (string \<times> int \<times> int) list \<times> owner_event list" where
  "acquire_edges bind [] = ([], [])"
| "acquire_edges bind ((name, srv) # ss) =
    (if sv_disabled srv then acquire_edges bind ss
     else (let (r, evs) = acquire_pair (bind name) name (sv_local_ports srv); (ports, es) = acquire_edges bind ss in
       ((case r of None \<Rightarrow> ports | Some pair \<Rightarrow> (name, pair) # ports), map (Port_event name) evs @ es)))"

definition acquire_edge_listeners ::
  "(string \<Rightarrow> nat \<Rightarrow> int \<Rightarrow> bool) \<Rightarrow> config \<Rightarrow> (string \<times> int \<times> int) list \<times> owner_event list" where
  "acquire_edge_listeners bind cfg = acquire_edges bind (servers_in_order (cf_servers cfg))"

text \<open>The four naming sockets, one after the other; a failure gives back the ones before.\<close>

fun take_sockets :: "(string \<Rightarrow> int \<Rightarrow> string option) \<Rightarrow> (string \<times> int) list \<Rightarrow> (string \<times> int) list \<Rightarrow> naming_failure option \<times> naming_event list" where
  "take_sockets bind held [] = (None, [])"
| "take_sockets bind held ((proto, port) # ss) =
    (case bind proto port of
       Some e \<Rightarrow> (Some (Nf_bind proto port e), map (\<lambda>(p, n). Gave p n) held)
     | None \<Rightarrow> (let (r, evs) = take_sockets bind (held @ [(proto, port)]) ss in (r, Took proto port # evs)))"

definition naming_sockets :: "naming \<Rightarrow> (string \<times> int) list" where
  "naming_sockets n = [(''udp'', ng_dns_port n), (''tcp'', ng_dns_port n), (''tcp'', ng_http_port n), (''tcp'', ng_https_port n)]"

definition no_naming :: naming_listeners where
  "no_naming = \<lparr>nl_zone = None, nl_dns = False, nl_http = False, nl_https = False\<rparr>"

definition enabled_names :: "config \<Rightarrow> string list" where
  "enabled_names cfg = map fst (filter (\<lambda>x. \<not> sv_disabled (snd x)) (cf_servers cfg))"

definition acquire_naming_listeners ::
  "(string \<Rightarrow> int \<Rightarrow> string option) \<Rightarrow> config \<Rightarrow> naming_failure option \<times> naming_listeners \<times> naming_event list" where
  "acquire_naming_listeners bind cfg =
    (case config_naming (cf_names cfg) of
       Inl e \<Rightarrow> (Some (Nf_config e), no_naming, [])
     | Inr n \<Rightarrow>
       (case new_zone (ng_suffix n) (enabled_names cfg) of
          Inl e \<Rightarrow> (Some (Nf_zone e), no_naming, [])
        | Inr z \<Rightarrow>
          (case take_sockets bind [] (naming_sockets n) of
             (Some e, evs) \<Rightarrow> (Some e, no_naming, evs)
           | (None, evs) \<Rightarrow> (None, \<lparr>nl_zone = Some z, nl_dns = True, nl_http = True, nl_https = True\<rparr>, evs))))"

subsection \<open>The owner\<close>

definition close_edges :: "(string \<times> int \<times> int) list \<Rightarrow> owner_event list" where
  "close_edges ports = concat (map (\<lambda>(n, s, d). [Port_event n (Closed s), Port_event n (Closed d)]) ports)"

text \<open>From the ports on.\<close>

definition start_owner :: "owner_env \<Rightarrow> config \<Rightarrow> owner_error \<times> owner_event list" where
  "start_owner env cfg =
    (let (ports, port_evs) = acquire_edge_listeners (ow_bind env) cfg;
         (nf, nl, naming_evs) = acquire_naming_listeners (ow_naming env) cfg;
         so_far = port_evs @ map Naming_event naming_evs in
     (case nf of
        Some (Nf_zone e) \<Rightarrow> (Ow_unservable e, so_far)
      | _ \<Rightarrow>
        (case new_real_pool (ow_world env) cfg of
           (Inl e, pool_evs) \<Rightarrow> (Ow_pool e, so_far @ map Pool_event pool_evs @ close_edges ports)
         | (Inr _, pool_evs) \<Rightarrow>
           (let (err, life) = daemon_run (ow_run env) (map fst (cf_servers cfg)) (fst ` set ports) nl in
            (Ow_run err, so_far @ map Pool_event pool_evs @ map Life_event life)))))"

definition run_daemon_owner :: "owner_env \<Rightarrow> config \<Rightarrow> string \<Rightarrow> owner_error \<times> owner_event list" where
  "run_daemon_owner env cfg0 scope =
    (case narrow_scope cfg0 scope of
       Inl e \<Rightarrow> (e, [])
     | Inr cfg \<Rightarrow>
       if cf_servers cfg = [] then (Ow_no_servers, [])
       else (case ow_sock env of
           Inl e \<Rightarrow> (Ow_socket e, [])
         | Inr _ \<Rightarrow>
           (case probe_socket (ow_codec env) (ow_conn env) of
              Some e \<Rightarrow> (e, [])
            | None \<Rightarrow>
              (case reclaim env of
                 (Some e, evs) \<Rightarrow> (e, evs)
               | (None, evs) \<Rightarrow>
                 (case validate_config Role_client cfg of
                    (_, Some e) \<Rightarrow> (Ow_invalid e, evs)
                  | (_, None) \<Rightarrow>
                    (case ow_key env of
                       Some e \<Rightarrow> (Ow_key e, evs)
                     | None \<Rightarrow>
                       (case key_too_old (cf_identity cfg) (ow_age env) of
                          Some days \<Rightarrow> (Ow_old_key days, evs)
                        | None \<Rightarrow> (let (e, es) = start_owner env cfg in (e, evs @ es)))))))))"

subsection \<open>A running owner keeps its socket\<close>

abbreviation probe_request :: ipc_request where
  "probe_request \<equiv> rpc_request ''status'' [] Map.empty"

lemma served_probe:
  assumes "ipc_codec_ok (ck_enc ck) (de_dec de) probe_request" "uint (de_uid de) = sv_uid (de_server de)"
    and "\<And>r. Wrote r \<in> set (handle_status (de_server de)) \<Longrightarrow> ipc_codec_ok (de_enc de) (ck_dec ck) r"
  shows "client_probe ck (socket_to ck de probe_request) = None"
proof -
  have h: "handle_rpc (de_wide de) (de_server de) probe_request = handle_status (de_server de)"
    by (simp add: handle_rpc_def rpc_request_def)
  have "replies (daemon_events de (request_bytes ck probe_request)) = replies (handle_status (de_server de))"
    using daemon_replies(1) [OF assms(1,2)] h by (simp add: rpc_request_def)
  moreover obtain r where r: "replies (handle_status (de_server de)) = [r]" "rs_schema r = socket_schema"
    by (cases "sv_status (de_server de)") (auto simp: handle_status_def refuse_def error_response_def ok_response_def)
  moreover have "ipc_codec_ok (de_enc de) (ck_dec ck) r"
    using assms(3) r(1) replies_wrote by (metis list.set_intros(1))
  ultimately show ?thesis
    using exchange_answered [OF assms(1), of de r] by (simp add: client_probe_def)
qed

lemma acquire_edges_events: "Stale_removed \<notin> set (snd (acquire_edges bind ss))"
proof (induction ss)
  case (Cons x ss)
  obtain name srv where x: "x = (name, srv)" by (cases x)
  then show ?case using Cons.IH by (auto simp: split_beta Let_def)
qed simp

lemma start_owner_keeps: "Stale_removed \<notin> set (snd (start_owner env cfg))"
  using acquire_edges_events [of "ow_bind env" "servers_in_order (cf_servers cfg)"]
  by (auto simp: start_owner_def acquire_edge_listeners_def close_edges_def Let_def
      split: prod.splits option.splits naming_failure.splits sum.splits)

lemma run_owner_cases:
  assumes "run_daemon_owner env cfg scope = (err, evs)"
  obtains (idle) "evs = []"
    | (took) cfg' s m more where "evs = Stale_removed # more" "narrow_scope cfg scope = Inr cfg'" "cf_servers cfg' \<noteq> []"
      "ow_sock env = Inr s" "client_probe (ow_codec env) (ow_conn env) = Some (Cl_daemon_absent m)" "\<not> ow_is_symlink env"
      "more \<noteq> [] \<longrightarrow> snd (validate_config Role_client cfg') = None \<and> ow_key env = None" "Stale_removed \<notin> set more"
proof (cases "evs = []")
  case True
  then show thesis by (rule idle)
next
  case False
  then obtain cfg' s where c: "narrow_scope cfg scope = Inr cfg'" "cf_servers cfg' \<noteq> []" "ow_sock env = Inr s"
    "probe_socket (ow_codec env) (ow_conn env) = None"
    using assms by (auto simp: run_daemon_owner_def split: sum.splits option.splits if_splits)
  obtain m where m: "client_probe (ow_codec env) (ow_conn env) = Some (Cl_daemon_absent m)"
    using c(4) by (auto simp: probe_socket_def split: option.splits client_error.splits)
  obtain rerr revs where r: "reclaim env = (rerr, revs)" by fastforce
  then have rc: "rerr = None \<and> \<not> ow_is_symlink env \<and> revs = [Stale_removed] \<or> rerr \<noteq> None \<and> revs = []"
    by (auto simp: reclaim_def split: if_splits option.splits)
  have "rerr = None" using False assms c r rc by (auto simp: run_daemon_owner_def)
  moreover obtain ws verr where v: "validate_config Role_client cfg' = (ws, verr)" by fastforce
  ultimately have e: "evs = Stale_removed # (if verr = None \<and> ow_key env = None \<and> key_too_old (cf_identity cfg') (ow_age env) = None
      then snd (start_owner env cfg') else [])"
    using assms c r rc
    by (cases verr; cases "ow_key env"; cases "key_too_old (cf_identity cfg') (ow_age env)")
      (simp_all add: run_daemon_owner_def split_beta)
  show thesis
    using c m rc v e \<open>rerr = None\<close> start_owner_keeps [of env cfg']
    by (intro took [where cfg' = cfg' and s = s and m = m and more = "tl evs"]) (simp_all split: if_splits)
qed

text \<open>
  C27: a running owner keeps its socket. Starting a second owner changes nothing at all, not even a stale file,
  unless asking the socket showed that nobody is there, the path is not a link, and its directory passed the
  checks; the file is removed at most once, and nothing else is taken before the configuration is valid
  and the key loaded. Asked over the socket, a daemon of the same user always shows that it is there: the
  second owner then reports a running one and has done nothing.
\<close>

theorem running_owner_keeps_its_socket:
  assumes "run_daemon_owner env cfg scope = (err, evs)"
  shows "(evs \<noteq> [] \<longrightarrow> hd evs = Stale_removed \<and> Stale_removed \<notin> set (tl evs) \<and> is_ok (ow_sock env) \<and> \<not> ow_is_symlink env \<and>
      (\<exists>m. client_probe (ow_codec env) (ow_conn env) = Some (Cl_daemon_absent m)) \<and>
      (tl evs \<noteq> [] \<longrightarrow> ow_key env = None \<and>
        (\<exists>cfg'. narrow_scope cfg scope = Inr cfg' \<and> snd (validate_config Role_client cfg') = None))) \<and>
    (\<forall>de cfg'. ow_conn env = socket_to (ow_codec env) de probe_request \<and>
       ipc_codec_ok (ck_enc (ow_codec env)) (de_dec de) probe_request \<and> uint (de_uid de) = sv_uid (de_server de) \<and>
       (\<forall>r. Wrote r \<in> set (handle_status (de_server de)) \<longrightarrow> ipc_codec_ok (de_enc de) (ck_dec (ow_codec env)) r) \<longrightarrow>
       evs = [] \<and> (narrow_scope cfg scope = Inr cfg' \<and> cf_servers cfg' \<noteq> [] \<and> is_ok (ow_sock env) \<longrightarrow> err = Ow_running))"
proof (intro conjI allI impI; (elim conjE)?)
  show "hd evs = Stale_removed" "Stale_removed \<notin> set (tl evs)" "is_ok (ow_sock env)" "\<not> ow_is_symlink env"
    "\<exists>m. client_probe (ow_codec env) (ow_conn env) = Some (Cl_daemon_absent m)" if "evs \<noteq> []"
    using assms that by (cases rule: run_owner_cases; simp add: is_ok_iff)+
  show "ow_key env = None" "\<exists>cfg'. narrow_scope cfg scope = Inr cfg' \<and> snd (validate_config Role_client cfg') = None"
    if "evs \<noteq> []" "tl evs \<noteq> []"
    using assms that by (cases rule: run_owner_cases; auto)+
  fix de cfg'
  assume "ow_conn env = socket_to (ow_codec env) de probe_request"
    and q: "ipc_codec_ok (ck_enc (ow_codec env)) (de_dec de) probe_request" "uint (de_uid de) = sv_uid (de_server de)"
    and w: "\<forall>r. Wrote r \<in> set (handle_status (de_server de)) \<longrightarrow> ipc_codec_ok (de_enc de) (ck_dec (ow_codec env)) r"
  then have none: "client_probe (ow_codec env) (ow_conn env) = None" using served_probe [OF q] by simp
  show "evs = []" using assms none by (cases rule: run_owner_cases) auto
  show "err = Ow_running" if "narrow_scope cfg scope = Inr cfg'" "cf_servers cfg' \<noteq> []" "is_ok (ow_sock env)"
    using assms none that by (auto simp: run_daemon_owner_def probe_socket_def is_ok_iff)
qed

text \<open>A daemon answers: the second owner is turned away.\<close>

definition first_owner :: daemon_end where
  "first_owner = sample_daemon\<lparr>de_dec := (\<lambda>_. Inr probe_request)\<rparr>"

definition second_owner :: owner_env where
  "second_owner = (let ck = \<lparr>ck_enc = (\<lambda>_. Inr []), ck_dec = (\<lambda>_. Inr (ok_response ''{}''))\<rparr> in
     \<lparr>ow_sock = Inr ''/tmp/quic-link-1/daemon.sock'', ow_codec = ck,
     ow_conn = socket_to ck first_owner probe_request, ow_is_symlink = False, ow_remove = None, ow_key = None,
     ow_age = None, ow_bind = (\<lambda>_ _ _. True), ow_naming = (\<lambda>_ _. None),
     ow_world = \<lparr>pw_transport = (\<lambda>_ _. None), pw_listen = (\<lambda>_. None)\<rparr>,
     ow_run = \<lparr>ru_listen = None, ru_chmod = None, ru_drains = True\<rparr>\<rparr>)"

theorem running_owner_keeps_its_socket_witness:
  "run_daemon_owner second_owner sample_config [] = (Ow_running, [])"
proof -
  obtain err evs where run: "run_daemon_owner second_owner sample_config [] = (err, evs)" by fastforce
  have "Wrote r \<in> set (handle_status (de_server first_owner)) \<Longrightarrow>
      ipc_codec_ok (de_enc first_owner) (ck_dec (ow_codec second_owner)) r" for r
    by (simp add: first_owner_def second_owner_def Let_def sample_daemon_def sample_server_def handle_status_def ipc_codec_ok_def)
  moreover have "ow_conn second_owner = socket_to (ow_codec second_owner) first_owner probe_request"
    "ipc_codec_ok (ck_enc (ow_codec second_owner)) (de_dec first_owner) probe_request"
    "uint (de_uid first_owner) = sv_uid (de_server first_owner)" "is_ok (ow_sock second_owner)"
    by (simp_all add: second_owner_def first_owner_def Let_def sample_daemon_def sample_server_def ipc_codec_ok_def)
  moreover have "narrow_scope sample_config [] = Inr sample_config" "cf_servers sample_config \<noteq> []"
    by (simp_all add: narrow_scope_def sample_config_def)
  ultimately have "evs = [] \<and> err = Ow_running"
    using conjunct2 [OF running_owner_keeps_its_socket [OF run]] by blast
  then show ?thesis using run by simp
qed

text \<open>The naming sockets are held all together or not at all.\<close>

definition held_after :: "naming_event list \<Rightarrow> (string \<times> int) list" where
  "held_after evs = foldl (\<lambda>h e. case e of Took p n \<Rightarrow> h @ [(p, n)] | Gave p n \<Rightarrow> remove1 (p, n) h) [] evs"

lemma gave_all: "foldl (\<lambda>h e. case e of Took p n \<Rightarrow> h @ [(p, n)] | Gave p n \<Rightarrow> remove1 (p, n) h) held (map (\<lambda>(p, n). Gave p n) held) = []"
  by (induction held) auto

lemma take_sockets_held:
  "foldl (\<lambda>h e. case e of Took p n \<Rightarrow> h @ [(p, n)] | Gave p n \<Rightarrow> remove1 (p, n) h) held (snd (take_sockets bind held ss)) =
     (if fst (take_sockets bind held ss) = None then held @ ss else [])"
proof (induction ss arbitrary: held)
  case (Cons x ss)
  obtain proto port where x: "x = (proto, port)" by (cases x)
  show ?case
    using Cons.IH [of "held @ [(proto, port)]"] gave_all [of held] by (simp add: x split: option.split) (simp add: split_beta Let_def)
qed simp

lemma naming_all_or_nothing:
  assumes "acquire_naming_listeners bind cfg = (nf, nl, evs)"
  shows "if nf = None
    then (\<exists>n z. config_naming (cf_names cfg) = Inr n \<and> nl = \<lparr>nl_zone = Some z, nl_dns = True, nl_http = True, nl_https = True\<rparr> \<and>
       held_after evs = naming_sockets n \<and> new_zone (ng_suffix n) (enabled_names cfg) = Inr z)
    else nl = no_naming \<and> held_after evs = []"
proof (cases "config_naming (cf_names cfg)")
  case (Inl e)
  then show ?thesis using assms by (auto simp: acquire_naming_listeners_def held_after_def)
next
  case (Inr n)
  show ?thesis
  proof (cases "new_zone (ng_suffix n) (enabled_names cfg)")
    case (Inl e)
    then show ?thesis using assms Inr by (auto simp: acquire_naming_listeners_def held_after_def)
  next
    case z: (Inr z)
    obtain r es where t: "take_sockets bind [] (naming_sockets n) = (r, es)" by fastforce
    then have "held_after es = (if r = None then naming_sockets n else [])"
      using take_sockets_held [of "[]" bind "naming_sockets n"] by (simp add: held_after_def)
    then show ?thesis using assms Inr z t by (cases r) (auto simp: acquire_naming_listeners_def)
  qed
qed

end
