(* ===== verification/Setup.thy ===== *)
theory Setup
  imports Config_Naming Go_Path
begin

text \<open>
  Package \<^verbatim>\<open>internal/setup\<close>: the files the program installs on a machine (\<^verbatim>\<open>managed.go\<close>, \<^verbatim>\<open>artifacts.go\<close>), what
  the machine's resolver can do (\<^verbatim>\<open>resolver.go\<close>), and the verb that installs and removes them
  (\<^verbatim>\<open>cmd/quic-link/initcmd.go\<close>).

  A disk maps paths to what is there; directories are not part of it. A system call that can fail fails as a
  \<open>setup_env\<close> says, each look at a path on its own; \<open>se_sync\<close> is the failure of flushing or closing the new
  file and \<open>se_unlink\<close> that of removing the temporary one. Other programs write too: \<open>se_meanwhile\<close> is what
  they make of the disk between the first look of a write and the second, \<open>se_gap\<close> what they make of it
  between the last look and the rename or the removal. They leave the temporary file alone, whose name is
  fresh. A write gives the list of the disks it passes through.
\<close>

datatype fs_node = Regular bytes nat | Not_regular

type_synonym disk = "string \<rightharpoonup> fs_node"

datatype setup_error = Sys_failed string | Err_not_ours string | Err_not_regular string

datatype write_result = Unchanged | Created | Updated

record setup_env =
  se_lstat :: "string \<Rightarrow> string option"
  se_read :: "string \<Rightarrow> string option"
  se_mkdir :: "string option"
  se_temp :: "string + string"
  se_chmod :: "string option"
  se_write :: "(nat \<times> string) option"
  se_sync :: "string option"
  se_meanwhile :: "disk \<Rightarrow> disk"
  se_lstat_again :: "string \<Rightarrow> string option"
  se_read_again :: "string \<Rightarrow> string option"
  se_gap :: "disk \<Rightarrow> disk"
  se_rename :: "string option"
  se_unlink :: "string option"
  se_remove :: "string option"

definition marker :: bytes where
  "marker = ''# Managed by quic-link. Remove this line to take ownership of this file.''"

definition newline :: byte where "newline = CHR 0x0A"

definition managed :: "bytes \<Rightarrow> bool" where
  "managed content = has_prefix content marker"

definition body :: "bytes list \<Rightarrow> bytes" where
  "body lines = marker @ [newline] @ join_with newline lines @ [newline]"

subsection \<open>Inspecting, writing and removing one file\<close>

definition inspect_with ::
  "(string \<Rightarrow> string option) \<Rightarrow> (string \<Rightarrow> string option) \<Rightarrow> string \<Rightarrow> disk \<Rightarrow> (bool \<times> bool) \<times> setup_error option"
where
  "inspect_with lstat read path d =
    (case lstat path of
       Some e \<Rightarrow> ((False, False), Some (Sys_failed e))
     | None \<Rightarrow>
       (case d path of
          None \<Rightarrow> ((False, False), None)
        | Some Not_regular \<Rightarrow> ((True, False), Some (Err_not_regular path))
        | Some (Regular b _) \<Rightarrow>
          (case read path of
             Some e \<Rightarrow> ((True, False), Some (Sys_failed e))
           | None \<Rightarrow> ((True, managed b), None))))"

abbreviation inspect :: "setup_env \<Rightarrow> string \<Rightarrow> disk \<Rightarrow> (bool \<times> bool) \<times> setup_error option" where
  "inspect env \<equiv> inspect_with (se_lstat env) (se_read env)"

abbreviation inspect_again :: "setup_env \<Rightarrow> string \<Rightarrow> disk \<Rightarrow> (bool \<times> bool) \<times> setup_error option" where
  "inspect_again env \<equiv> inspect_with (se_lstat_again env) (se_read_again env)"

lemmas inspect_def = inspect_with_def

definition reads_as :: "setup_env \<Rightarrow> string \<Rightarrow> bytes \<Rightarrow> disk \<Rightarrow> bool" where
  "reads_as env path content d \<longleftrightarrow>
     se_read env path = None \<and> (case d path of Some (Regular b _) \<Rightarrow> b = content | _ \<Rightarrow> False)"

definition new_file_mode :: nat where "new_file_mode = 6 * 64"

text \<open>The deferred removal of the temporary file: it may fail, and then the file stays.\<close>

definition drop_temp :: "setup_env \<Rightarrow> string \<Rightarrow> disk \<Rightarrow> disk" where
  "drop_temp env tmp d = (case se_unlink env of None \<Rightarrow> d(tmp := None) | Some _ \<Rightarrow> d)"

text \<open>
  From the second look on: \<open>d\<close> is the disk at the first look, \<open>staged\<close> the complete temporary file, and
  \<open>before\<close> the disks so far.
\<close>

definition replace_checked ::
  "setup_env \<Rightarrow> string \<Rightarrow> string \<Rightarrow> disk \<Rightarrow> fs_node \<Rightarrow> write_result \<Rightarrow> disk list
     \<Rightarrow> (setup_error + write_result) \<times> disk list"
where
  "replace_checked env tmp path d staged r before =
    (let now = (se_meanwhile env d)(tmp \<mapsto> staged); later = (se_gap env now)(tmp \<mapsto> staged);
         dropped = before @ [now, drop_temp env tmp now] in
     (case inspect_again env path now of
        (_, Some e) \<Rightarrow> (Inl e, dropped)
      | ((there, ours), None) \<Rightarrow>
        if there \<and> \<not> ours then (Inl (Err_not_ours path), dropped)
        else (case se_rename env of
            Some e \<Rightarrow> (Inl (Sys_failed e), before @ [now, later, drop_temp env tmp later])
          | None \<Rightarrow> (Inr r, before @ [now, later, later(tmp := None, path \<mapsto> staged)]))))"

definition write_managed ::
  "setup_env \<Rightarrow> string \<Rightarrow> bytes \<Rightarrow> nat \<Rightarrow> disk \<Rightarrow> (setup_error + write_result) \<times> disk list" where
  "write_managed env path content mode d =
    (case inspect env path d of
       (_, Some e) \<Rightarrow> (Inl e, [d])
     | ((there, ours), None) \<Rightarrow>
       if there \<and> \<not> ours then (Inl (Err_not_ours path), [d])
       else if there \<and> reads_as env path content d then (Inr Unchanged, [d])
       else (case se_mkdir env of
           Some e \<Rightarrow> (Inl (Sys_failed e), [d])
         | None \<Rightarrow>
           (case se_temp env of
              Inl e \<Rightarrow> (Inl (Sys_failed e), [d])
            | Inr tmp \<Rightarrow>
              (let made = d(tmp \<mapsto> Regular [] new_file_mode); moded = d(tmp \<mapsto> Regular [] mode);
                   filled = d(tmp \<mapsto> Regular content mode) in
               (case se_chmod env of
                  Some e \<Rightarrow> (Inl (Sys_failed e), [d, made, drop_temp env tmp made])
                | None \<Rightarrow>
                  (case se_write env of
                     Some (n, e) \<Rightarrow>
                       (let part = d(tmp \<mapsto> Regular (take n content) mode)
                        in (Inl (Sys_failed e), [d, made, moded, part, drop_temp env tmp part]))
                   | None \<Rightarrow>
                     (case se_sync env of
                        Some e \<Rightarrow> (Inl (Sys_failed e), [d, made, moded, filled, drop_temp env tmp filled])
                      | None \<Rightarrow> replace_checked env tmp path d (Regular content mode) (if there then Updated else Created)
                          [d, made, moded, filled])))))))"

text \<open>The file may be gone, or be another one, by the time it is removed.\<close>

definition remove_managed :: "setup_env \<Rightarrow> string \<Rightarrow> disk \<Rightarrow> (setup_error + bool) \<times> disk" where
  "remove_managed env path d =
    (case inspect env path d of
       (_, Some e) \<Rightarrow> (Inl e, d)
     | ((there, ours), None) \<Rightarrow>
       if \<not> there then (Inr False, d)
       else if \<not> ours then (Inl (Err_not_ours path), d)
       else (let later = se_gap env d in
         (case se_remove env of
            Some e \<Rightarrow> (Inl (Sys_failed e), later)
          | None \<Rightarrow> if later path = None then (Inl (Sys_failed ''no such file or directory''), later)
              else (Inr True, later(path := None)))))"

definition ours_at :: "fs_node option \<Rightarrow> bool" where
  "ours_at x = (case x of None \<Rightarrow> True | Some (Regular b _) \<Rightarrow> managed b | Some Not_regular \<Rightarrow> False)"

lemma managed_body [simp]: "managed (body lines)"
  by (simp add: managed_def body_def has_prefix_iff)

lemma inspect_ok:
  assumes "inspect_with lstat read path d = ((there, ours), None)"
  shows "(there \<longleftrightarrow> d path \<noteq> None) \<and> (\<not> (there \<and> \<not> ours) \<longleftrightarrow> ours_at (d path))"
  using assms by (auto simp: inspect_def ours_at_def split: option.splits fs_node.splits)

lemma inspect_clean:
  "lstat path = None \<Longrightarrow> read path = None \<Longrightarrow> ours_at (d path) \<Longrightarrow>
     inspect_with lstat read path d = ((d path \<noteq> None, d path \<noteq> None), None)"
  by (auto simp: inspect_def ours_at_def split: option.splits fs_node.splits)

text \<open>What the step from the second look on does, and what a whole write does.\<close>

lemma drop_temp_cases: "drop_temp env tmp d = d(tmp := None) \<or> se_unlink env \<noteq> None \<and> drop_temp env tmp d = d"
  by (cases "se_unlink env") (simp_all add: drop_temp_def)

lemma replace_checked_cases:
  fixes env :: setup_env and d :: disk
  assumes "replace_checked env tmp path d staged r before = (res, states)" "tmp \<noteq> path"
  defines "m \<equiv> se_meanwhile env d" and "g \<equiv> se_gap env ((se_meanwhile env d)(tmp \<mapsto> staged))"
  obtains (dropped) e where "res = Inl e" "states = before @ [m(tmp \<mapsto> staged), drop_temp env tmp (m(tmp \<mapsto> staged))]"
  | (not_renamed) e where "res = Inl e"
      "states = before @ [m(tmp \<mapsto> staged), g(tmp \<mapsto> staged), drop_temp env tmp (g(tmp \<mapsto> staged))]"
  | (renamed) "res = Inr r" "ours_at (m path)"
      "states = before @ [m(tmp \<mapsto> staged), g(tmp \<mapsto> staged), g(tmp := None, path \<mapsto> staged)]"
proof -
  let ?now = "m(tmp \<mapsto> staged)"
  obtain there ours err where i: "inspect_again env path ?now = ((there, ours), err)" by (metis surj_pair)
  consider e where "err = Some e" | "err = None" "there \<and> \<not> ours"
    | e where "err = None" "\<not> (there \<and> \<not> ours)" "se_rename env = Some e"
    | "err = None" "\<not> (there \<and> \<not> ours)" "se_rename env = None" by fastforce
  then show thesis
  proof cases
    case (1 e)
    then show thesis using assms(1) i by (intro dropped [of e]) (auto simp: replace_checked_def Let_def m_def)
  next
    case 2
    then show thesis using assms(1) i
      by (intro dropped [of "Err_not_ours path"]) (auto simp: replace_checked_def Let_def m_def)
  next
    case (3 e)
    then show thesis using assms(1) i
      by (intro not_renamed [of "Sys_failed e"]) (auto simp: replace_checked_def Let_def m_def g_def)
  next
    case 4
    then have "ours_at (m path)" using inspect_ok [of _ _ path ?now there ours] i assms(2) by auto
    then show thesis using assms(1) 4 i by (intro renamed) (auto simp: replace_checked_def Let_def m_def g_def)
  qed
qed

lemma write_managed_cases:
  assumes "write_managed env path content mode d = (res, states)" "se_temp env = Inr tmp"
  obtains (early) "states = [d]" "res = Inr Unchanged \<longrightarrow> (\<exists>m. d path = Some (Regular content m))" "res = Inr Unchanged \<or> (\<exists>e. res = Inl e)"
  | (staging) mid x where "\<exists>e. res = Inl e" "states = d # mid @ [drop_temp env tmp (d(tmp \<mapsto> x))]" "\<forall>s\<in>set mid. \<exists>x. s = d(tmp \<mapsto> x)"
  | (looked) mid r where "replace_checked env tmp path d (Regular content mode) r (d # mid) = (res, states)"
      "\<forall>s\<in>set mid. \<exists>x. s = d(tmp \<mapsto> x)" "r = (if d path = None then Created else Updated)" "ours_at (d path)"
proof -
  obtain there ours err where i: "inspect env path d = ((there, ours), err)" by (metis surj_pair)
  consider "err \<noteq> None \<or> there \<and> \<not> ours \<or> there \<and> reads_as env path content d \<or> se_mkdir env \<noteq> None"
    | (made) "err = None" "\<not> (there \<and> \<not> ours)" "\<not> (there \<and> reads_as env path content d)" "se_mkdir env = None" by blast
  then show thesis
  proof cases
    case 1
    then show thesis using assms i
      by (intro early) (auto simp: write_managed_def reads_as_def split: option.splits fs_node.splits if_splits)
  next
    case made
    note ok = inspect_ok [of "se_lstat env" "se_read env" path d there ours]
    consider "se_chmod env \<noteq> None" | n e where "se_chmod env = None" "se_write env = Some (n, e)"
      | "se_chmod env = None" "se_write env = None" "se_sync env \<noteq> None"
      | "se_chmod env = None" "se_write env = None" "se_sync env = None" by fastforce
    then show thesis
    proof cases
      case 1
      then show thesis using assms i made
        by (intro staging [of "[d(tmp \<mapsto> Regular [] new_file_mode)]" "Regular [] new_file_mode"])
          (auto simp: write_managed_def Let_def)
    next
      case (2 n e)
      then show thesis using assms i made
        by (intro staging [of "[d(tmp \<mapsto> Regular [] new_file_mode), d(tmp \<mapsto> Regular [] mode), d(tmp \<mapsto> Regular (take n content) mode)]"
              "Regular (take n content) mode"])
          (auto simp: write_managed_def Let_def)
    next
      case 3
      then show thesis using assms i made
        by (intro staging [of "[d(tmp \<mapsto> Regular [] new_file_mode), d(tmp \<mapsto> Regular [] mode), d(tmp \<mapsto> Regular content mode)]"
              "Regular content mode"])
          (auto simp: write_managed_def Let_def)
    next
      case 4
      then show thesis using assms i made ok
        by (intro looked [of _ "[d(tmp \<mapsto> Regular [] new_file_mode), d(tmp \<mapsto> Regular [] mode), d(tmp \<mapsto> Regular content mode)]"])
          (auto simp: write_managed_def Let_def)
    qed
  qed
qed

lemma write_unchanged:
  assumes "write_managed env path content mode d = (Inr Unchanged, states)" "se_temp env = Inr tmp" "tmp \<noteq> path"
  shows "\<exists>k. d path = Some (Regular content k)"
  using assms(1,2)
proof (cases rule: write_managed_cases)
  case (looked mid r)
  show ?thesis using looked(1) assms(3) by (cases rule: replace_checked_cases) (use looked(3) in \<open>auto split: if_splits\<close>)
qed auto

text \<open>
  C29: Installing and removing files touches nothing that is not the program's own, as far as a look and a
  rename can tell. Whatever fails on the way and whatever other programs do to the disk: at every moment
  the path holds what was there, what others put there, or the complete new content; no other file changes
  but the temporary one, which is gone at the end unless removing it failed after an error. A write that
  reports a change found a file of its own, or none, at both looks, and leaves the new content; one that
  reports no change found exactly the content; one that fails leaves the path as it was or as others made
  it. Removing deletes the file only after it was found to be the program's own. So somebody else's file is
  lost only when it was put there in the gap between the last look and the rename or the removal.
\<close>

theorem setup_touches_only_its_own:
  fixes env :: setup_env and d :: disk
  assumes "se_temp env = Inr tmp" "d tmp = None" "tmp \<noteq> path"
    and "write_managed env path content mode d = (res, states)"
  defines "m \<equiv> se_meanwhile env d"
    and "g \<equiv> se_gap env ((se_meanwhile env d)(tmp \<mapsto> Regular content mode))"
  shows "(\<forall>s\<in>set states. s path \<in> {d path, m path, g path, Some (Regular content mode)} \<and>
      (\<forall>q. q \<noteq> path \<and> q \<noteq> tmp \<longrightarrow> s q \<in> {d q, m q, g q})) \<and>
    (last states tmp = None \<or> se_unlink env \<noteq> None \<and> \<not> is_ok res) \<and>
    (case res of
       Inl _ \<Rightarrow> last states path \<in> {d path, m path, g path}
     | Inr Unchanged \<Rightarrow> states = [d] \<and> (\<exists>k. d path = Some (Regular content k))
     | Inr r \<Rightarrow> last states path = Some (Regular content mode) \<and> ours_at (d path) \<and> ours_at (m path) \<and>
         (ours_at (g path) \<or> g path \<noteq> m path) \<and> (r = Created \<longleftrightarrow> d path = None)) \<and>
    (case remove_managed env path d of
       (Inr True, d') \<Rightarrow> d' = (se_gap env d)(path := None) \<and> ours_at (d path) \<and> d path \<noteq> None \<and>
         (ours_at (se_gap env d path) \<or> se_gap env d path \<noteq> d path)
     | (_, d') \<Rightarrow> d' = d \<or> ours_at (d path) \<and> d' = se_gap env d)"
proof -
  have "case remove_managed env path d of
       (Inr True, d') \<Rightarrow> d' = (se_gap env d)(path := None) \<and> ours_at (d path) \<and> d path \<noteq> None \<and>
         (ours_at (se_gap env d path) \<or> se_gap env d path \<noteq> d path)
     | (_, d') \<Rightarrow> d' = d \<or> ours_at (d path) \<and> d' = se_gap env d"
    by (auto simp: remove_managed_def inspect_def ours_at_def Let_def split: option.splits fs_node.splits)
  moreover from assms(4,1) have "(\<forall>s\<in>set states. s path \<in> {d path, m path, g path, Some (Regular content mode)} \<and>
      (\<forall>q. q \<noteq> path \<and> q \<noteq> tmp \<longrightarrow> s q \<in> {d q, m q, g q})) \<and>
    (last states tmp = None \<or> se_unlink env \<noteq> None \<and> \<not> is_ok res) \<and>
    (case res of
       Inl _ \<Rightarrow> last states path \<in> {d path, m path, g path}
     | Inr Unchanged \<Rightarrow> states = [d] \<and> (\<exists>k. d path = Some (Regular content k))
     | Inr r \<Rightarrow> last states path = Some (Regular content mode) \<and> ours_at (d path) \<and> ours_at (m path) \<and>
         (ours_at (g path) \<or> g path \<noteq> m path) \<and> (r = Created \<longleftrightarrow> d path = None))"
  proof (cases rule: write_managed_cases)
    case early
    then show ?thesis using assms(2) by auto
  next
    case (staging mid x)
    then show ?thesis using assms(3) drop_temp_cases [of env tmp "d(tmp \<mapsto> x)"] by auto
  next
    case (looked mid r)
    show ?thesis
      using looked(1) assms(3)
    proof (cases rule: replace_checked_cases)
      case (dropped e)
      then show ?thesis
        using looked(2) assms(3) drop_temp_cases [of env tmp "m(tmp \<mapsto> Regular content mode)"] by (auto simp: m_def)
    next
      case (not_renamed e)
      then show ?thesis
        using looked(2) assms(3) drop_temp_cases [of env tmp "g(tmp \<mapsto> Regular content mode)"] by (auto simp: m_def g_def)
    next
      case renamed
      then show ?thesis using looked(2-4) assms(3) by (auto simp: m_def g_def split: if_splits)
    qed
  qed
  ultimately show ?thesis by (elim conjE) (intro conjI; assumption)
qed

text \<open>No system call fails, and nobody else writes.\<close>

definition quiet_env :: "string \<Rightarrow> setup_env" where
  "quiet_env tmp = \<lparr>se_lstat = (\<lambda>_. None), se_read = (\<lambda>_. None), se_mkdir = None, se_temp = Inr tmp, se_chmod = None,
     se_write = None, se_sync = None, se_meanwhile = (\<lambda>d. d), se_lstat_again = (\<lambda>_. None), se_read_again = (\<lambda>_. None),
     se_gap = (\<lambda>d. d), se_rename = None, se_unlink = None, se_remove = None\<rparr>"

theorem setup_touches_only_its_own_witness:
  "\<exists>res states. write_managed (quiet_env ''t'') ''p'' ''c'' 0 Map.empty = (res, states) \<and> last states ''t'' = None"
  using setup_touches_only_its_own [of "quiet_env ''t''" "''t''" Map.empty "''p''" "''c''" 0]
  by (cases "write_managed (quiet_env ''t'') ''p'' ''c'' 0 Map.empty") (simp add: quiet_env_def)

lemma quiet_env_simps [simp]:
  "se_lstat (quiet_env tmp) = (\<lambda>_. None)" "se_read (quiet_env tmp) = (\<lambda>_. None)" "se_mkdir (quiet_env tmp) = None"
  "se_temp (quiet_env tmp) = Inr tmp" "se_chmod (quiet_env tmp) = None" "se_write (quiet_env tmp) = None"
  "se_sync (quiet_env tmp) = None" "se_meanwhile (quiet_env tmp) = (\<lambda>d. d)" "se_rename (quiet_env tmp) = None"
  "se_lstat_again (quiet_env tmp) = (\<lambda>_. None)" "se_read_again (quiet_env tmp) = (\<lambda>_. None)"
  "se_gap (quiet_env tmp) = (\<lambda>d. d)" "se_unlink (quiet_env tmp) = None" "se_remove (quiet_env tmp) = None"
  by (simp_all add: quiet_env_def)

text \<open>The gap is real: a file somebody else puts there between the second look and the rename is lost.\<close>

lemma strangers_file_lost_in_the_gap:
  assumes "tmp \<noteq> path" "\<not> managed b"
  defines "env \<equiv> (quiet_env tmp)\<lparr>se_gap := (\<lambda>d. d(path \<mapsto> Regular b 0))\<rparr>"
  shows "\<exists>states. write_managed env path content mode Map.empty = (Inr Created, states) \<and>
    Some (Regular b 0) \<in> (\<lambda>s. s path) ` set states \<and> last states path = Some (Regular content mode)"
  using assms by (auto simp: write_managed_def replace_checked_def inspect_def Let_def)

lemma quiet_write:
  assumes "d tmp = None" "tmp \<noteq> path" "write_managed (quiet_env tmp) path content mode d = (res, states)"
  shows "if ours_at (d path) then last states path = Some (Regular content (case d path of Some (Regular b k) \<Rightarrow> if b = content then k else mode | _ \<Rightarrow> mode)) \<and>
      (\<forall>q. q \<noteq> path \<longrightarrow> last states q = d q) \<and> is_ok res
    else \<not> is_ok res \<and> last states = d"
proof -
  have "ours_at (((d(tmp \<mapsto> x)) :: disk) path) \<longleftrightarrow> ours_at (d path)" for x using assms(2) by simp
  moreover have "inspect (quiet_env tmp) path ((d(tmp \<mapsto> x)) :: disk) = inspect (quiet_env tmp) path d" for x
    using assms(2) by (simp add: inspect_def)
  ultimately show ?thesis using assms
    by (cases "d path")
      (auto simp: write_managed_def replace_checked_def inspect_def reads_as_def ours_at_def Let_def
        split: fs_node.splits if_splits)
qed

end
