(* ===== verification/Setup_Init.thy ===== *)
theory Setup_Init
  imports Setup
begin

text \<open>
  The list of installed files and what the machine's resolver can do (\<^verbatim>\<open>internal/setup/artifacts.go\<close>,
  \<^verbatim>\<open>resolver.go\<close>), and the setup verb (\<^verbatim>\<open>cmd/quic-link/initcmd.go\<close>).

  \<open>darwin\<close> is the operating system; the link of \<^verbatim>\<open>/etc/resolv.conf\<close> and the output of \<^verbatim>\<open>systemctl --version\<close>
  are arguments. What the verb prints is in \<open>Cli_Init\<close>; what it changes is the disk and whether it reloads the
  resolver.
\<close>

subsection \<open>Files\<close>

datatype scope = User_scope | Root_scope

record artifact =
  ar_path :: string
  ar_scope :: scope
  ar_content :: bytes
  ar_present :: bool
  ar_ours :: bool
  ar_current :: bool
  ar_err :: "setup_error option"

definition artifact_for :: "string \<Rightarrow> scope \<Rightarrow> bytes \<Rightarrow> artifact" where
  "artifact_for path scope content = \<lparr>ar_path = path, ar_scope = scope, ar_content = content, ar_present = False,
     ar_ours = False, ar_current = False, ar_err = None\<rparr>"

definition drop_in_path :: string where "drop_in_path = ''/etc/systemd/resolved.conf.d/quic-link.conf''"

definition inventory :: "bool \<Rightarrow> string \<Rightarrow> nat \<Rightarrow> artifact list" where
  "inventory darwin sfx dns_port =
    (if darwin
     then [artifact_for (path_join [''/etc/resolver'', sfx]) Root_scope (body [''nameserver 127.0.0.1'', ''port '' @ itoa dns_port])]
     else [artifact_for drop_in_path Root_scope
       (body [''[Resolve]'', ''DNS=127.0.0.1:'' @ itoa dns_port, ''Domains=~'' @ sfx])])"

definition survey_one :: "setup_env \<Rightarrow> disk \<Rightarrow> artifact \<Rightarrow> artifact" where
  "survey_one env d a =
    (let ((present, ours), err) = inspect env (ar_path a) d;
         a' = a\<lparr>ar_present := present, ar_err := err\<rparr> in
     if ar_content a = [] then a'\<lparr>ar_ours := present, ar_current := present\<rparr>
     else if present \<and> ours \<and> se_read env (ar_path a) = None
     then a'\<lparr>ar_ours := ours, ar_current := reads_as env (ar_path a) (ar_content a) d\<rparr>
     else a'\<lparr>ar_ours := ours\<rparr>)"

definition survey :: "setup_env \<Rightarrow> disk \<Rightarrow> artifact list \<Rightarrow> artifact list" where
  "survey env d arts = map (survey_one env d) arts"

definition missing :: "artifact list \<Rightarrow> artifact list" where
  "missing arts = filter (\<lambda>a. \<not> ar_present a \<or> \<not> ar_current a) arts"

definition user_paths :: "string \<Rightarrow> string \<Rightarrow> artifact list" where
  "user_paths key_file config_file = [artifact_for config_file User_scope [], artifact_for key_file User_scope []]"

datatype mark = Mark_absent | Mark_problem | Mark_present | Mark_out_of_date | Mark_not_ours

definition mark_of :: "artifact \<Rightarrow> mark" where
  "mark_of a =
    (if ar_err a \<noteq> None then Mark_problem
     else if ar_present a \<and> ar_ours a \<and> ar_current a then Mark_present
     else if ar_present a \<and> ar_ours a then Mark_out_of_date
     else if ar_present a then Mark_not_ours
     else Mark_absent)"

definition real_user :: "nat \<Rightarrow> string \<Rightarrow> string \<times> bool" where
  "real_user euid sudo_user = (if euid \<noteq> 0 then ([], False) else (sudo_user, True))"

subsection \<open>The resolver\<close>

datatype support = Unsupported | Systemd_stub | Mac_resolver

datatype unsupported_reason = Plain_file | Not_stub string | Version_unknown | Version_unreadable | Version_old int

definition min_systemd_version :: int where "min_systemd_version = 247"

definition version_token :: "bytes \<Rightarrow> int option" where
  "version_token tok =
    (let digits = takeWhile is_digit (trim_prefix tok ''v'') in if digits = [] then None else atoi digits)"

fun parse_version_fields :: "bytes list \<Rightarrow> int" where
  "parse_version_fields (f # g # fs) =
    (if equal_fold f ''systemd''
     then (case version_token g of Some n \<Rightarrow> n | None \<Rightarrow> parse_version_fields (g # fs))
     else parse_version_fields (g # fs))"
| "parse_version_fields _ = 0"

definition parse_systemd_version :: "bytes \<Rightarrow> int" where
  "parse_systemd_version out = parse_version_fields (split_fields out)"

definition path_base :: "string \<Rightarrow> string" where
  "path_base p = (let cs = filter (\<lambda>c. c \<noteq> []) (split_on slash p) in if cs = [] then (if p = [] then ''.'' else ''/'') else last cs)"

definition detect_systemd :: "string option \<Rightarrow> bytes option \<Rightarrow> support \<times> unsupported_reason option" where
  "detect_systemd link version_out =
    (case link of
       None \<Rightarrow> (Unsupported, Some Plain_file)
     | Some l \<Rightarrow>
       if index_str l ''stub-resolv.conf'' = None then (Unsupported, Some (Not_stub (path_base l)))
       else (case version_out of
           None \<Rightarrow> (Unsupported, Some Version_unknown)
         | Some out \<Rightarrow>
           (let v = parse_systemd_version out in
            if v = 0 then (Unsupported, Some Version_unreadable)
            else if v < min_systemd_version then (Unsupported, Some (Version_old v))
            else (Systemd_stub, None))))"

definition detect_resolver :: "bool \<Rightarrow> string option \<Rightarrow> bytes option \<Rightarrow> support \<times> unsupported_reason option" where
  "detect_resolver darwin link version_out =
    (if darwin then (Mac_resolver, None) else detect_systemd link version_out)"

subsection \<open>The setup verb\<close>

definition installed_mode :: nat where "installed_mode = 6 * 64 + 4 * 8 + 4"

text \<open>\<open>terminal\<close> is the line a person typed, \<open>None\<close> when nobody is at a terminal.\<close>

definition confirm :: "bool \<Rightarrow> bytes option \<Rightarrow> bool" where
  "confirm assume_yes terminal =
    (assume_yes \<or> (case terminal of None \<Rightarrow> False | Some line \<Rightarrow> to_lower (trim_space line) \<in> {''y'', ''yes''}))"

fun write_all :: "setup_env \<Rightarrow> artifact list \<Rightarrow> bool \<Rightarrow> disk \<Rightarrow> setup_error option \<times> disk \<times> bool" where
  "write_all env [] changed d = (None, d, changed)"
| "write_all env (a # arts) changed d =
    (case write_managed env (ar_path a) (ar_content a) installed_mode d of
       (Inl e, ds) \<Rightarrow> (Some e, last ds, changed)
     | (Inr r, ds) \<Rightarrow> write_all env arts (changed \<or> r \<noteq> Unchanged) (last ds))"

text \<open>The result is the error, the disk, and whether the resolver is asked to reload.\<close>

definition run_root_half :: "setup_env \<Rightarrow> support \<Rightarrow> artifact list \<Rightarrow> bool \<Rightarrow> disk \<Rightarrow> setup_error option \<times> disk \<times> bool" where
  "run_root_half env how arts confirmed d =
    (if how = Unsupported then (None, d, False)
     else (let todo = missing (survey env d arts) in
       if todo = [] \<or> \<not> confirmed then (None, d, False)
       else (case write_all env todo False d of
           (Some e, d', _) \<Rightarrow> (Some e, d', False)
         | (None, d', changed) \<Rightarrow> (None, d', changed \<and> how = Systemd_stub))))"

fun remove_all :: "setup_env \<Rightarrow> artifact list \<Rightarrow> disk \<Rightarrow> bool \<times> disk" where
  "remove_all env [] d = (False, d)"
| "remove_all env (a # arts) d =
    (let (r, d') = remove_managed env (ar_path a) d; (any, d'') = remove_all env arts d' in (r = Inr True \<or> any, d''))"

definition run_undo :: "setup_env \<Rightarrow> bool \<Rightarrow> artifact list \<Rightarrow> disk \<Rightarrow> disk \<times> bool" where
  "run_undo env darwin arts d = (let (any, d') = remove_all env arts d in (d', any \<and> \<not> darwin))"

definition init_cmd ::
  "setup_env \<Rightarrow> bool \<Rightarrow> support \<Rightarrow> naming \<Rightarrow> bool \<Rightarrow> bool \<Rightarrow> bool \<Rightarrow> disk \<Rightarrow> setup_error option \<times> disk \<times> bool" where
  "init_cmd env darwin how n privileged undo confirmed d =
    (let arts = inventory darwin (ng_suffix n) (nat (ng_dns_port n)) in
     if \<not> privileged then (None, d, False)
     else if undo then (None, run_undo env darwin arts d)
     else run_root_half env how arts confirmed d)"

subsection \<open>What the installed file is\<close>

definition system_path :: "bool \<Rightarrow> string \<Rightarrow> string" where
  "system_path darwin sfx = (if darwin then ''/etc/resolver/'' @ sfx else drop_in_path)"

definition system_lines :: "bool \<Rightarrow> string \<Rightarrow> nat \<Rightarrow> bytes list" where
  "system_lines darwin sfx port =
    (if darwin then [''nameserver 127.0.0.1'', ''port '' @ itoa port]
     else [''[Resolve]'', ''DNS=127.0.0.1:'' @ itoa port, ''Domains=~'' @ sfx])"

lemma host_form_component:
  assumes "host_form s"
  shows "slash \<notin> set s" "newline \<notin> set s" "s \<notin> {[], ''.'', ''..''}"
proof -
  show "slash \<notin> set s" "newline \<notin> set s"
    using host_form_byte [OF assms, of slash] host_form_byte [OF assms, of newline]
    by (auto simp: slash_def newline_def lower_or_digit_or_dash_def)
  show "s \<notin> {[], ''.'', ''..''}"
    using host_form_nonempty [OF assms] host_form_no_final_dot [OF assms] by (auto simp: has_suffix_def)
qed

lemma inventory_eq:
  assumes "host_form sfx"
  shows "inventory darwin sfx port = [artifact_for (system_path darwin sfx) Root_scope (body (system_lines darwin sfx port))]"
proof -
  have s: "split_on slash sfx = [sfx]" using host_form_component [OF assms] by (intro split_on_id) auto
  have "split_on slash (''/etc/resolver/'' @ sfx) = [[], ''etc'', ''resolver'', sfx]"
    using s by (simp add: slash_def)
  then have "path_join [''/etc/resolver'', sfx] = ''/etc/resolver/'' @ sfx"
    using host_form_component [OF assms] by (auto simp: path_join_def path_clean_def slash_def Let_def)
  then show ?thesis by (simp add: inventory_def system_path_def system_lines_def)
qed

text \<open>The installed file has exactly the lines intended: no value can start another one.\<close>

lemma system_file_lines:
  assumes "host_form sfx"
  shows "split_on newline (body (system_lines darwin sfx port)) = marker # system_lines darwin sfx port @ [[]]"
proof -
  have n: "newline \<notin> set (itoa port)" using itoa_digits [of port] by (auto simp: newline_def list_all_iff is_digit_def)
  have "newline \<notin> set l" if "l \<in> set (marker # system_lines darwin sfx port @ [[]])" for l
    using that host_form_component(2) [OF assms] n by (auto simp: system_lines_def marker_def newline_def split: if_splits)
  moreover have "body (system_lines darwin sfx port) = join_with newline (marker # system_lines darwin sfx port @ [[]])"
    by (simp add: body_def system_lines_def)
  ultimately show ?thesis using split_join [of "marker # system_lines darwin sfx port @ [[]]" newline] by simp
qed

subsection \<open>Installing and removing\<close>

definition holds :: "bytes \<Rightarrow> fs_node option \<Rightarrow> bool" where
  "holds content x \<longleftrightarrow> (\<exists>k. x = Some (Regular content k))"

lemma body_nonempty: "body lines \<noteq> []"
  by (simp add: body_def)

lemma survey_one_keeps [simp]:
  "ar_path (survey_one env d a) = ar_path a" "ar_content (survey_one env d a) = ar_content a"
  by (simp_all add: survey_one_def Let_def split: prod.splits)

lemma artifact_for_simps [simp]: "ar_path (artifact_for p s c) = p" "ar_content (artifact_for p s c) = c"
  by (simp_all add: artifact_for_def)

lemma quiet_missing:
  fixes d :: disk
  assumes "managed content" "content \<noteq> []"
  shows "missing (survey (quiet_env tmp) d [artifact_for path Root_scope content]) =
    (if holds content (d path) then [] else [survey_one (quiet_env tmp) d (artifact_for path Root_scope content)])"
  using assms by (cases "d path")
    (auto simp: missing_def survey_def survey_one_def artifact_for_def inspect_def reads_as_def holds_def Let_def
      split: fs_node.splits)

lemma quiet_install:
  fixes d :: disk
  assumes "managed content" "content \<noteq> []" "d tmp = None" "tmp \<noteq> path" "how \<noteq> Unsupported"
    and "run_root_half (quiet_env tmp) how [artifact_for path Root_scope content] True d = (err, d', reloads)"
  shows "if ours_at (d path)
    then err = None \<and> holds content (d' path) \<and> (\<forall>q. q \<noteq> path \<longrightarrow> d' q = d q) \<and>
      (reloads \<longleftrightarrow> \<not> holds content (d path) \<and> how = Systemd_stub)
    else err \<noteq> None \<and> d' = d \<and> \<not> reloads"
proof (cases "holds content (d path)")
  case True
  then have "ours_at (d path)" using assms(1) by (auto simp: holds_def ours_at_def)
  then show ?thesis using True quiet_missing [OF assms(1,2), where path = path and tmp = tmp and d = d] assms(5,6)
    by (auto simp: run_root_half_def)
next
  case False
  obtain res ds where w: "write_managed (quiet_env tmp) path content installed_mode d = (res, ds)" by fastforce
  have un: "res \<noteq> Inr Unchanged"
    using write_unchanged [of "quiet_env tmp" path content installed_mode d ds tmp] w False assms(4) by (auto simp: holds_def)
  have "missing (survey (quiet_env tmp) d [artifact_for path Root_scope content]) =
      [survey_one (quiet_env tmp) d (artifact_for path Root_scope content)]"
    using quiet_missing [OF assms(1,2), where path = path and tmp = tmp and d = d] False by simp
  then have "run_root_half (quiet_env tmp) how [artifact_for path Root_scope content] True d =
      (case res of Inl e \<Rightarrow> (Some e, last ds, False) | Inr _ \<Rightarrow> (None, last ds, how = Systemd_stub))"
    using w un assms(5) by (cases res) (auto simp: run_root_half_def)
  then show ?thesis using quiet_write [OF assms(3,4) w] assms(6) False
    by (cases res) (auto simp: holds_def split: if_splits)
qed

lemma quiet_undo:
  fixes d :: disk
  assumes "managed content"
  shows "run_undo (quiet_env tmp) darwin [artifact_for path Root_scope content] d =
    (if ours_at (d path) then (d(path := None), d path \<noteq> None \<and> \<not> darwin) else (d, False))"
  by (cases "d path")
    (auto simp: run_undo_def remove_managed_def inspect_def ours_at_def artifact_for_def fun_upd_idem_iff split: fs_node.splits)

lemma naming_host_form:
  assumes "config_naming names = Inr n"
  shows "host_form (ng_suffix n)"
proof -
  obtain raw is_mine where "resolve_suffix raw is_mine = Inr (ng_suffix n)"
    using assms unfolding config_naming_def Let_def bind_result_def by (auto split: sum.splits option.splits if_splits)
  then show ?thesis using resolve_suffix_good unfolding good_suffix_def by blast
qed

text \<open>
  C30: setting up is safe to repeat and can be undone. With a validated naming table, on a machine whose
  resolver can be pointed at a port, a confirmed privileged run leaves at the one system path a file whose
  lines are exactly those intended, whatever the suffix is, and touches nothing else; a second run finds
  nothing to do and does not disturb the resolver; undoing removes exactly that file. Where somebody else's
  file is in the way, both refuse and leave it alone. Without privileges, without confirmation, or on a
  machine that cannot do it, nothing is written, whatever the system calls do.
\<close>

theorem init_undo_roundtrip:
  fixes d :: disk and darwin :: bool and n :: naming
  defines "path \<equiv> system_path darwin (ng_suffix n)"
    and "lines \<equiv> system_lines darwin (ng_suffix n) (nat (ng_dns_port n))"
  assumes "config_naming names = Inr n" "how \<noteq> Unsupported" "d tmp = None" "tmp \<noteq> path"
  shows "(case init_cmd (quiet_env tmp) darwin how n True False True d of (err, d', reloads) \<Rightarrow>
      if ours_at (d (path))
      then err = None \<and> holds (body (lines)) (d' (path)) \<and> (\<forall>q. q \<noteq> path \<longrightarrow> d' q = d q) \<and>
        init_cmd (quiet_env tmp) darwin how n True False True d' = (None, d', False) \<and>
        init_cmd (quiet_env tmp) darwin how n True True True d' = (None, d(path := None), \<not> darwin)
      else err \<noteq> None \<and> d' = d \<and> \<not> reloads \<and> init_cmd (quiet_env tmp) darwin how n True True True d = (None, d, False)) \<and>
    split_on newline (body (lines)) = marker # lines @ [[]] \<and>
    (\<forall>env how' privileged confirmed. \<not> (privileged \<and> confirmed \<and> how' \<noteq> Unsupported) \<longrightarrow>
       init_cmd env darwin how' n privileged False confirmed d = (None, d, False))"
proof -
  have h: "host_form (ng_suffix n)" using assms(3) by (rule naming_host_form)
  let ?arts = "[artifact_for (path) Root_scope (body (lines))]"
  have arts: "inventory darwin (ng_suffix n) (nat (ng_dns_port n)) = ?arts"
    using inventory_eq [OF h] by (simp add: path_def lines_def)
  have root: "init_cmd env darwin how' n True False c x = run_root_half env how' ?arts c x" for env how' c x
    by (simp add: init_cmd_def arts)
  have undo: "init_cmd env darwin how' n True True c x = (None, run_undo env darwin ?arts x)" for env how' c x
    by (simp add: init_cmd_def arts)
  obtain err d' reloads where run: "run_root_half (quiet_env tmp) how ?arts True d = (err, d', reloads)"
    by (metis surj_pair)
  note fresh = quiet_install [OF managed_body body_nonempty assms(5,6,4) run]
  have again: "run_root_half (quiet_env tmp) how ?arts True d' = (None, d', False)"
    and gone: "run_undo (quiet_env tmp) darwin ?arts d' = (d(path := None), \<not> darwin)" if "ours_at (d (path))"
  proof -
    have held: "holds (body (lines)) (d' (path))" "\<forall>q. q \<noteq> path \<longrightarrow> d' q = d q" using fresh that by auto
    then have "missing (survey (quiet_env tmp) d' ?arts) = []"
      by (simp add: quiet_missing [OF managed_body body_nonempty])
    then show "run_root_half (quiet_env tmp) how ?arts True d' = (None, d', False)"
      using assms(4) by (simp add: run_root_half_def)
    have "ours_at (d' (path))" "d'(path := None) = d(path := None)" "d' (path) \<noteq> None"
      using held by (auto simp: holds_def ours_at_def fun_eq_iff)
    then show "run_undo (quiet_env tmp) darwin ?arts d' = (d(path := None), \<not> darwin)"
      by (simp add: quiet_undo)
  qed
  have "split_on newline (body (lines)) = marker # lines @ [[]]"
    using system_file_lines [OF h] by (simp add: lines_def)
  moreover have "init_cmd env darwin how' n privileged False confirmed d = (None, d, False)"
    if "\<not> (privileged \<and> confirmed \<and> how' \<noteq> Unsupported)" for env how' privileged confirmed
    using that by (auto simp: init_cmd_def run_root_half_def Let_def)
  moreover have "run_undo (quiet_env tmp) darwin ?arts d = (d, False)" if "\<not> ours_at (d path)"
    using that by (simp add: quiet_undo)
  ultimately show ?thesis using fresh again gone by (auto simp: root undo run)
qed

theorem init_undo_roundtrip_witness:
  "\<exists>n d' reloads. config_naming None = Inr n \<and>
     init_cmd (quiet_env ''t'') False Systemd_stub n True False True Map.empty = (None, d', reloads) \<and>
     holds (body [''[Resolve]'', ''DNS=127.0.0.1:15353'', ''Domains=~internal'']) (d' drop_in_path)"
proof -
  let ?n = "\<lparr>ng_suffix = ''internal'', ng_dns_port = 15353, ng_http_port = 18080, ng_https_port = 18443\<rparr>"
  have n: "config_naming None = Inr ?n"
    by (simp add: config_naming_def empty_names_def resolve_suffix_def resolve_naming_port_def default_suffix_def
        default_dns_port_def default_http_port_def default_https_port_def bind_result_def lowest_unprivileged_port_def)
  have "itoa 15353 = ''15353''" by (simp add: itoa.simps char_of_def bit_0)
  then have l: "system_lines False ''internal'' 15353 = [''[Resolve]'', ''DNS=127.0.0.1:15353'', ''Domains=~internal'']"
    by (simp add: system_lines_def)
  obtain err d' reloads where r: "init_cmd (quiet_env ''t'') False Systemd_stub ?n True False True Map.empty = (err, d', reloads)"
    by (metis surj_pair)
  have "''t'' \<noteq> system_path False ''internal''" by (simp add: system_path_def drop_in_path_def)
  then have "err = None \<and> holds (body (system_lines False ''internal'' 15353)) (d' (system_path False ''internal''))"
    using init_undo_roundtrip [of None ?n Systemd_stub Map.empty "''t''" False] n r by (simp add: ours_at_def)
  then show ?thesis using n r l by (auto simp: system_path_def)
qed

text \<open>After the suffix is changed, undoing on macOS looks for the new file only: the old one stays.\<close>

lemma undo_forgets_old_suffix:
  fixes d :: disk
  assumes "host_form old" "host_form new" "old \<noteq> new" "se_gap env = (\<lambda>d. d)"
  shows "fst (run_undo env True (inventory True new port) d) (system_path True old) = d (system_path True old)"
  using assms by (auto simp: inventory_eq run_undo_def remove_managed_def system_path_def Let_def split: prod.splits sum.splits option.splits if_splits)

end
