(* ===== verification/Mem_Pipe.thy ===== *)
theory Mem_Pipe
  imports Prelude
begin

text \<open>
  \<^verbatim>\<open>internal/transport/mem/mem.go\<close>, the byte pipe behind one direction of an in-memory stream (\<^verbatim>\<open>bufPipe\<close>) and
  the stream made of two of them. A call that waits on the condition variable is a \<open>Waits\<close>: it looks at the
  pipe again later. What the two sides see over any interleaving is a run of \<open>pipe_run_step\<close>, which keeps beside
  the pipe the bytes it has taken and given so far.

  The locale states what a client of an ordered channel relies on.
\<close>

definition buf_pipe_size :: nat where "buf_pipe_size = 256 * 1024"

record buf_pipe =
  bp_buf :: bytes
  bp_read_err :: "nat option"
  bp_wr_err :: "nat option"
  bp_closed :: bool

definition new_buf_pipe :: buf_pipe where
  "new_buf_pipe = \<lparr>bp_buf = [], bp_read_err = None, bp_wr_err = None, bp_closed = False\<rparr>"

datatype write_turn = Waits | Returns nat "nat option" | Goes_on bytes nat

datatype read_turn = Read_waits | Read_bytes bytes | Read_eof | Read_failed nat

text \<open>The checks \<^verbatim>\<open>Write\<close> makes once; \<open>None\<close>: it enters its loop.\<close>

definition bp_write_enter :: "bytes \<Rightarrow> buf_pipe \<Rightarrow> (nat \<times> nat option) option" where
  "bp_write_enter data p =
    (if data = [] then Some (0, None)
     else (case bp_wr_err p of
         Some e \<Rightarrow> Some (0, Some e)
       | None \<Rightarrow> if bp_closed p \<and> bp_read_err p \<noteq> None then Some (0, bp_read_err p) else None))"

text \<open>One turn of its loop, up to the wait.\<close>

definition bp_write_turn :: "bytes \<Rightarrow> nat \<Rightarrow> buf_pipe \<Rightarrow> write_turn \<times> buf_pipe" where
  "bp_write_turn data sent p =
    (if data = [] then (Returns sent None, p)
     else (case bp_wr_err p of
         Some e \<Rightarrow> (Returns sent (Some e), p)
       | None \<Rightarrow>
         if buf_pipe_size \<le> length (bp_buf p) then (Waits, p)
         else (let chunk = take (buf_pipe_size - length (bp_buf p)) data in
           (Goes_on (drop (length chunk) data) (sent + length chunk), p\<lparr>bp_buf := bp_buf p @ chunk\<rparr>))))"

definition bp_read :: "nat \<Rightarrow> buf_pipe \<Rightarrow> read_turn \<times> buf_pipe" where
  "bp_read n p =
    (if bp_buf p \<noteq> [] then (Read_bytes (take n (bp_buf p)), p\<lparr>bp_buf := drop n (bp_buf p)\<rparr>)
     else (case bp_read_err p of
         Some e \<Rightarrow> (Read_failed e, p)
       | None \<Rightarrow> if bp_closed p then (Read_eof, p) else (Read_waits, p)))"

definition bp_close_write :: "buf_pipe \<Rightarrow> buf_pipe" where
  "bp_close_write p = p\<lparr>bp_closed := True\<rparr>"

definition bp_close_with_error :: "nat \<Rightarrow> buf_pipe \<Rightarrow> buf_pipe" where
  "bp_close_with_error e p =
    p\<lparr>bp_read_err := (if bp_read_err p = None then Some e else bp_read_err p),
      bp_wr_err := (if bp_wr_err p = None then Some e else bp_wr_err p), bp_closed := True\<rparr>"

subsection \<open>A pipe and its callers\<close>

record pipe_run =
  pr_pipe :: buf_pipe
  pr_writers :: "(bytes \<times> nat) list"
  pr_taken :: bytes
  pr_given :: bytes
  pr_ended :: bool

definition new_pipe_run :: pipe_run where
  "new_pipe_run = \<lparr>pr_pipe = new_buf_pipe, pr_writers = [], pr_taken = [], pr_given = [], pr_ended = False\<rparr>"

inductive pipe_run_step :: "pipe_run \<Rightarrow> pipe_run \<Rightarrow> bool" where
  write_starts: "bp_write_enter data (pr_pipe r) = None \<Longrightarrow> pipe_run_step r (r\<lparr>pr_writers := pr_writers r @ [(data, 0)]\<rparr>)"
| write_goes_on: "i < length (pr_writers r) \<Longrightarrow> pr_writers r ! i = (data, sent) \<Longrightarrow>
    bp_write_turn data sent (pr_pipe r) = (Goes_on rest sent', p) \<Longrightarrow>
    pipe_run_step r (r\<lparr>pr_pipe := p, pr_writers := (pr_writers r)[i := (rest, sent')],
      pr_taken := pr_taken r @ take (length data - length rest) data\<rparr>)"
| write_returns: "i < length (pr_writers r) \<Longrightarrow> pr_writers r ! i = (data, sent) \<Longrightarrow>
    bp_write_turn data sent (pr_pipe r) = (Returns k e, p) \<Longrightarrow>
    pipe_run_step r (r\<lparr>pr_writers := take i (pr_writers r) @ drop (Suc i) (pr_writers r)\<rparr>)"
| reads: "bp_read n (pr_pipe r) = (Read_bytes b, p) \<Longrightarrow> pipe_run_step r (r\<lparr>pr_pipe := p, pr_given := pr_given r @ b\<rparr>)"
| ends: "bp_read n (pr_pipe r) = (Read_eof, p) \<Longrightarrow> pipe_run_step r (r\<lparr>pr_ended := True\<rparr>)"
| half_closes: "pipe_run_step r (r\<lparr>pr_pipe := bp_close_write (pr_pipe r)\<rparr>)"
| resets: "pipe_run_step r (r\<lparr>pr_pipe := bp_close_with_error e (pr_pipe r)\<rparr>)"

inductive_cases pipe_run_stepE: "pipe_run_step r r'"

subsection \<open>Ordered channels\<close>

locale ordered_channel =
  fixes start :: 's
    and step :: "'s \<Rightarrow> 's \<Rightarrow> bool"
    and taken :: "'s \<Rightarrow> bytes"
    and held :: "'s \<Rightarrow> bytes"
    and given :: "'s \<Rightarrow> bytes"
    and room :: nat
  assumes empty_start: "taken start = [] \<and> held start = [] \<and> given start = []"
    and takes: "step s s' \<Longrightarrow> taken s = given s @ held s \<Longrightarrow> taken s' = given s' @ held s'"
    and bounded: "step s s' \<Longrightarrow> length (held s) \<le> room \<Longrightarrow> length (held s') \<le> room"
begin

lemma nothing_lost:
  assumes "step\<^sup>*\<^sup>* start s"
  shows "taken s = given s @ held s \<and> length (held s) \<le> room"
  using assms by (induction rule: rtranclp_induct) (use empty_start takes bounded in auto)

lemma in_order: "step\<^sup>*\<^sup>* start s \<Longrightarrow> \<exists>rest. taken s = given s @ rest"
  using nothing_lost by blast

end

lemma write_turn_goes_on:
  "bp_write_turn data sent p = (Goes_on rest sent', p') \<Longrightarrow>
     \<exists>chunk. data = chunk @ rest \<and> chunk \<noteq> [] \<and> sent' = sent + length chunk \<and> p' = p\<lparr>bp_buf := bp_buf p @ chunk\<rparr> \<and>
       length (bp_buf p @ chunk) \<le> buf_pipe_size \<and> bp_wr_err p = None"
  by (rule exI [of _ "take (buf_pipe_size - length (bp_buf p)) data"])
    (auto simp: bp_write_turn_def Let_def min_def split: if_splits option.splits)

lemma read_bytes:
  "bp_read n p = (Read_bytes b, p') \<Longrightarrow> bp_buf p = b @ bp_buf p' \<and> bp_buf p \<noteq> []"
  by (auto simp: bp_read_def split: if_splits option.splits)

lemma closing_keeps [simp]: "bp_buf (bp_close_write p) = bp_buf p" "bp_buf (bp_close_with_error e p) = bp_buf p"
  by (simp_all add: bp_close_write_def bp_close_with_error_def)

interpretation mem_pipe: ordered_channel new_pipe_run pipe_run_step pr_taken "\<lambda>r. bp_buf (pr_pipe r)" pr_given buf_pipe_size
proof
  fix s s' assume st: "pipe_run_step s s'"
  show "pr_taken s' = pr_given s' @ bp_buf (pr_pipe s')" if "pr_taken s = pr_given s @ bp_buf (pr_pipe s)"
    using st that by (cases rule: pipe_run_step.cases) (auto dest: write_turn_goes_on read_bytes)
  show "length (bp_buf (pr_pipe s')) \<le> buf_pipe_size" if "length (bp_buf (pr_pipe s)) \<le> buf_pipe_size"
    using st that by (cases rule: pipe_run_step.cases) (auto dest!: write_turn_goes_on read_bytes)
qed (simp add: new_pipe_run_def new_buf_pipe_def)

text \<open>
  However writes, reads, half-closes and resets interleave, the bytes the readers have been given are a prefix of
  the bytes the pipe has taken, in order, what is missing is what it holds, and it never holds more than its size.
\<close>

lemma pipe_delivers_in_order:
  assumes "pipe_run_step\<^sup>*\<^sup>* new_pipe_run r"
  shows "pr_taken r = pr_given r @ bp_buf (pr_pipe r) \<and> length (bp_buf (pr_pipe r)) \<le> buf_pipe_size"
  by (rule mem_pipe.nothing_lost) (rule assms)

text \<open>A reader sees the end, or a reset, only once everything the pipe took has been given.\<close>

lemma end_only_when_drained:
  assumes "pipe_run_step\<^sup>*\<^sup>* new_pipe_run r"
    and "bp_read n (pr_pipe r) = (t, p)" and "t = Read_eof \<or> t = Read_failed e"
  shows "pr_given r = pr_taken r"
  using pipe_delivers_in_order [OF assms(1)] assms(2, 3)
  by (auto simp: bp_read_def split: if_splits option.splits)

text \<open>Nobody waits on a pipe that was closed with an error, and a reader of a half-closed pipe does not wait either.\<close>

lemma nobody_waits_after_reset:
  "fst (bp_write_turn data sent (bp_close_with_error e p)) \<noteq> Waits \<and>
   fst (bp_read n (bp_close_with_error e p)) \<noteq> Read_waits"
  by (auto simp: bp_write_turn_def bp_read_def bp_close_with_error_def)

lemma reader_of_half_closed_moves: "fst (bp_read n (bp_close_write p)) \<noteq> Read_waits"
  by (auto simp: bp_read_def bp_close_write_def split: option.split)

text \<open>The first error given stays, and a half-close is never turned into an error.\<close>

lemma first_error_stays:
  "bp_read_err (bp_close_with_error e (bp_close_with_error d p)) = bp_read_err (bp_close_with_error d p)"
  by (simp add: bp_close_with_error_def)

lemma half_close_is_no_reset: "bp_read_err (bp_close_write p) = bp_read_err p \<and> bp_wr_err (bp_close_write p) = bp_wr_err p"
  by (simp add: bp_close_write_def)

text \<open>
  \<^verbatim>\<open>CloseWrite\<close> sets no error, and \<^verbatim>\<open>Write\<close> asks for one beside the flag: a pipe that was half-closed, and whose reader
  has already seen the end, takes and gives further bytes.
\<close>

lemma write_after_close:
  assumes "data \<noteq> []"
  shows "bp_write_enter data (bp_close_write new_buf_pipe) = None \<and>
    fst (bp_read n (bp_close_write new_buf_pipe)) = Read_eof \<and>
    fst (bp_read (length data) (snd (bp_write_turn data 0 (bp_close_write new_buf_pipe)))) = Read_bytes (take buf_pipe_size data)"
  using assms by (simp add: bp_write_enter_def bp_close_write_def new_buf_pipe_def bp_read_def bp_write_turn_def buf_pipe_size_def min_def)

subsection \<open>A stream: two pipes, one each way\<close>

datatype stream_side = Local_side | Remote_side

record stream_pair =
  sp_ab :: buf_pipe
  sp_ba :: buf_pipe

definition new_stream_pair :: stream_pair where
  "new_stream_pair = \<lparr>sp_ab = new_buf_pipe, sp_ba = new_buf_pipe\<rparr>"

fun ms_wr :: "stream_side \<Rightarrow> stream_pair \<Rightarrow> buf_pipe" where
  "ms_wr Local_side sp = sp_ab sp"
| "ms_wr Remote_side sp = sp_ba sp"

fun ms_rd :: "stream_side \<Rightarrow> stream_pair \<Rightarrow> buf_pipe" where
  "ms_rd Local_side sp = sp_ba sp"
| "ms_rd Remote_side sp = sp_ab sp"

fun ms_close :: "stream_side \<Rightarrow> stream_pair \<Rightarrow> stream_pair" where
  "ms_close Local_side sp = sp\<lparr>sp_ab := bp_close_write (sp_ab sp)\<rparr>"
| "ms_close Remote_side sp = sp\<lparr>sp_ba := bp_close_write (sp_ba sp)\<rparr>"

definition ms_reset :: "nat \<Rightarrow> stream_pair \<Rightarrow> stream_pair" where
  "ms_reset e sp = sp\<lparr>sp_ab := bp_close_with_error e (sp_ab sp), sp_ba := bp_close_with_error e (sp_ba sp)\<rparr>"

fun other_end :: "stream_side \<Rightarrow> stream_side" where
  "other_end Local_side = Remote_side"
| "other_end Remote_side = Local_side"

lemma ends_cross: "ms_rd (other_end s) sp = ms_wr s sp"
  by (cases s) simp_all

text \<open>Closing one side ends what its peer reads and leaves the other direction as it was.\<close>

lemma close_leaves_other_direction:
  "ms_rd s (ms_close s sp) = ms_rd s sp \<and> ms_rd (other_end s) (ms_close s sp) = bp_close_write (ms_wr s sp)"
  by (cases s) simp_all

lemma reset_reaches_both:
  "bp_wr_err (ms_wr s (ms_reset e sp)) \<noteq> None \<and> bp_read_err (ms_rd s (ms_reset e sp)) \<noteq> None"
  by (cases s) (simp_all add: ms_reset_def bp_close_with_error_def)

end
