(* ===== verification/Mem_Hub.thy ===== *)
theory Mem_Hub
  imports Mem_Pipe "HOL-Library.Multiset"
begin

text \<open>
  \<^verbatim>\<open>internal/transport/mem/mem.go\<close>, the hub of in-memory listeners and the connections made over it.

  Listeners, connections and streams are known by their place in the hub's lists. A call that selects among
  channels gives the list of the results that are ready, each with the hub after it, and the runtime picks one;
  an empty list is a call that waits. A dial has two turns, since it looks the target up under the lock and
  delivers later. Certificates are of any type \<open>'c\<close> and injected faults of any type \<open>'f\<close>.
\<close>

definition hub_queue :: nat where "hub_queue = 64"

record 'c mem_pair =
  mp_client_cert :: "'c option"
  mp_server_cert :: "'c option"
  mp_to_server :: "nat list"
  mp_to_client :: "nat list"
  mp_client_cause :: "(nat \<times> string) option"
  mp_server_cause :: "(nat \<times> string) option"
  mp_once :: bool

record ('c, 'f) mem_listener =
  ml_addr :: string
  ml_cert :: "'c option"
  ml_fail :: "'f option"
  ml_incoming :: "nat list"
  ml_closed :: bool

datatype side = Client | Server

text \<open>\<open>hb_dialling\<close> and \<open>hb_opening\<close> are the calls between their two turns.\<close>

record ('c, 'f) hub =
  hb_listeners :: "string \<rightharpoonup> nat"
  hb_made :: "('c, 'f) mem_listener list"
  hb_dialling :: "(nat \<times> 'c option) list"
  hb_opening :: "(side \<times> nat) list"
  hb_pairs :: "'c mem_pair list"
  hb_streams :: "stream_pair list"
  hb_accepted :: "nat list"
  hb_streams_accepted :: "nat list"

text \<open>The last two fields remember what has been handed out; no call reads them.\<close>

definition new_hub :: "('c, 'f) hub" where
  "new_hub = \<lparr>hb_listeners = Map.empty, hb_made = [], hb_dialling = [], hb_opening = [], hb_pairs = [], hb_streams = [],
     hb_accepted = [], hb_streams_accepted = []\<rparr>"

record ('c, 'f) mem_options =
  mo_cert :: "'c option"
  mo_fail :: "'f option"

datatype 'f hub_result =
    Listening nat
  | Already_registered
  | Dial_fault 'f
  | No_listener
  | Goes_to_select
  | Dialled nat
  | Accepted nat
  | Opened nat
  | Got_stream nat
  | Hub_closed
  | Conn_closed_with nat string
  | Hub_cancelled
  | Hub_done

subsection \<open>Listeners\<close>

definition hub_register :: "string \<Rightarrow> ('c, 'f) mem_listener \<Rightarrow> ('c, 'f) hub \<Rightarrow> 'f hub_result \<times> ('c, 'f) hub" where
  "hub_register addr ln h =
    (if hb_listeners h addr \<noteq> None then (Already_registered, h)
     else (Listening (length (hb_made h)), h\<lparr>hb_listeners := (hb_listeners h)(addr \<mapsto> length (hb_made h)), hb_made := hb_made h @ [ln]\<rparr>))"

definition hub_unregister :: "string \<Rightarrow> ('c, 'f) hub \<Rightarrow> ('c, 'f) hub" where
  "hub_unregister addr h = h\<lparr>hb_listeners := (hb_listeners h)(addr := None)\<rparr>"

definition transport_listen :: "string \<Rightarrow> ('c, 'f) mem_options \<Rightarrow> ('c, 'f) hub \<Rightarrow> 'f hub_result \<times> ('c, 'f) hub" where
  "transport_listen addr opt h =
    hub_register addr \<lparr>ml_addr = addr, ml_cert = mo_cert opt, ml_fail = mo_fail opt, ml_incoming = [], ml_closed = False\<rparr> h"

definition put_listener :: "nat \<Rightarrow> ('c, 'f) mem_listener \<Rightarrow> ('c, 'f) hub \<Rightarrow> ('c, 'f) hub" where
  "put_listener i ln h = h\<lparr>hb_made := (hb_made h)[i := ln]\<rparr>"

definition listener_close :: "nat \<Rightarrow> ('c, 'f) hub \<Rightarrow> ('c, 'f) hub" where
  "listener_close i h =
    (let ln = hb_made h ! i in
     if ml_closed ln then h else put_listener i (ln\<lparr>ml_closed := True\<rparr>) (hub_unregister (ml_addr ln) h))"

text \<open>\<open>over\<close>: the caller's context has ended.\<close>

definition listener_accept :: "bool \<Rightarrow> nat \<Rightarrow> ('c, 'f) hub \<Rightarrow> ('f hub_result \<times> ('c, 'f) hub) list" where
  "listener_accept over i h =
    (let ln = hb_made h ! i in
     (case ml_incoming ln of
        [] \<Rightarrow> []
      | c # cs \<Rightarrow> [(Accepted c, (put_listener i (ln\<lparr>ml_incoming := cs\<rparr>) h)\<lparr>hb_accepted := hb_accepted h @ [c]\<rparr>)]) @
     (if ml_closed ln then [(Hub_closed, h)] else []) @
     (if over then [(Hub_cancelled, h)] else []))"

subsection \<open>Connections\<close>

definition new_conn_pair :: "'c option \<Rightarrow> 'c option \<Rightarrow> 'c mem_pair" where
  "new_conn_pair client_cert server_cert = \<lparr>mp_client_cert = client_cert, mp_server_cert = server_cert, mp_to_server = [],
     mp_to_client = [], mp_client_cause = None, mp_server_cause = None, mp_once = False\<rparr>"

text \<open>The first half of \<^verbatim>\<open>Dial\<close>: the injected faults and the lookup.\<close>

definition dial_looks :: "('c, 'f) mem_options \<Rightarrow> string \<Rightarrow> ('c, 'f) hub \<Rightarrow> 'f hub_result \<times> ('c, 'f) hub" where
  "dial_looks opt target h =
    (case mo_fail opt of
       Some f \<Rightarrow> (Dial_fault f, h)
     | None \<Rightarrow>
       (case hb_listeners h target of
          None \<Rightarrow> (No_listener, h)
        | Some i \<Rightarrow>
          (case ml_fail (hb_made h ! i) of
             Some f \<Rightarrow> (Dial_fault f, h)
           | None \<Rightarrow> (Goes_to_select, h\<lparr>hb_dialling := hb_dialling h @ [(i, mo_cert opt)]\<rparr>))))"

text \<open>The second half, of the dial at place \<open>k\<close>.\<close>

definition drop_at :: "nat \<Rightarrow> 'a list \<Rightarrow> 'a list" where
  "drop_at k xs = take k xs @ drop (Suc k) xs"

definition dial_delivers :: "bool \<Rightarrow> nat \<Rightarrow> ('c, 'f) hub \<Rightarrow> ('f hub_result \<times> ('c, 'f) hub) list" where
  "dial_delivers over k h0 =
    (let (i, cert) = hb_dialling h0 ! k; h = h0\<lparr>hb_dialling := drop_at k (hb_dialling h0)\<rparr>;
         ln = hb_made h ! i; c = length (hb_pairs h) in
     (if length (ml_incoming ln) < hub_queue
      then [(Dialled c, (put_listener i (ln\<lparr>ml_incoming := ml_incoming ln @ [c]\<rparr>) h)
              \<lparr>hb_pairs := hb_pairs h @ [new_conn_pair cert (ml_cert ln)]\<rparr>)]
      else []) @
     (if over then [(Hub_cancelled, h)] else []) @
     (if ml_closed ln then [(Hub_closed, h)] else []))"

definition peer_certificates :: "side \<Rightarrow> 'c mem_pair \<Rightarrow> 'c list" where
  "peer_certificates s p = (case (case s of Client \<Rightarrow> mp_server_cert p | Server \<Rightarrow> mp_client_cert p) of None \<Rightarrow> [] | Some c \<Rightarrow> [c])"

definition conn_cause :: "side \<Rightarrow> 'c mem_pair \<Rightarrow> (nat \<times> string) option" where
  "conn_cause s p = (case s of Client \<Rightarrow> mp_client_cause p | Server \<Rightarrow> mp_server_cause p)"

definition close_conn :: "nat \<times> string \<Rightarrow> 'c mem_pair \<Rightarrow> 'c mem_pair" where
  "close_conn cause p =
    (if mp_once p then p else p\<lparr>mp_client_cause := Some cause, mp_server_cause := Some cause, mp_once := True\<rparr>)"

definition put_pair :: "nat \<Rightarrow> 'c mem_pair \<Rightarrow> ('c, 'f) hub \<Rightarrow> ('c, 'f) hub" where
  "put_pair c p h = h\<lparr>hb_pairs := (hb_pairs h)[c := p]\<rparr>"

definition close_with_error :: "nat \<Rightarrow> nat \<Rightarrow> string \<Rightarrow> ('c, 'f) hub \<Rightarrow> ('c, 'f) hub" where
  "close_with_error c code msg h = put_pair c (close_conn (code, msg) (hb_pairs h ! c)) h"

text \<open>The queue a side opens on, and the one it accepts from.\<close>

definition open_queue :: "side \<Rightarrow> 'c mem_pair \<Rightarrow> nat list" where
  "open_queue s p = (case s of Client \<Rightarrow> mp_to_server p | Server \<Rightarrow> mp_to_client p)"

definition accept_queue :: "side \<Rightarrow> 'c mem_pair \<Rightarrow> nat list" where
  "accept_queue s p = (case s of Client \<Rightarrow> mp_to_client p | Server \<Rightarrow> mp_to_server p)"

definition set_open_queue :: "side \<Rightarrow> nat list \<Rightarrow> 'c mem_pair \<Rightarrow> 'c mem_pair" where
  "set_open_queue s q p = (case s of Client \<Rightarrow> p\<lparr>mp_to_server := q\<rparr> | Server \<Rightarrow> p\<lparr>mp_to_client := q\<rparr>)"

definition set_accept_queue :: "side \<Rightarrow> nat list \<Rightarrow> 'c mem_pair \<Rightarrow> 'c mem_pair" where
  "set_accept_queue s q p = (case s of Client \<Rightarrow> p\<lparr>mp_to_client := q\<rparr> | Server \<Rightarrow> p\<lparr>mp_to_server := q\<rparr>)"

definition ended_results :: "bool \<Rightarrow> side \<Rightarrow> 'c mem_pair \<Rightarrow> 'f hub_result list" where
  "ended_results over s p =
    (case conn_cause s p of None \<Rightarrow> [] | Some (code, msg) \<Rightarrow> [Conn_closed_with code msg]) @ (if over then [Hub_cancelled] else [])"

text \<open>\<^verbatim>\<open>OpenStream\<close> looks once without waiting, and then selects.\<close>

definition open_looks :: "bool \<Rightarrow> side \<Rightarrow> nat \<Rightarrow> ('c, 'f) hub \<Rightarrow> ('f hub_result \<times> ('c, 'f) hub) list" where
  "open_looks over s c h =
    (let ended = ended_results over s (hb_pairs h ! c) in
     if ended \<noteq> [] then map (\<lambda>r. (r, h)) ended
     else [(Goes_to_select, h\<lparr>hb_opening := hb_opening h @ [(s, c)]\<rparr>)])"

definition open_delivers :: "bool \<Rightarrow> nat \<Rightarrow> ('c, 'f) hub \<Rightarrow> ('f hub_result \<times> ('c, 'f) hub) list" where
  "open_delivers over k h0 =
    (let (s, c) = hb_opening h0 ! k; h = h0\<lparr>hb_opening := drop_at k (hb_opening h0)\<rparr>;
         p = hb_pairs h ! c; n = length (hb_streams h) in
     (if length (open_queue s p) < hub_queue
      then [(Opened n, (put_pair c (set_open_queue s (open_queue s p @ [n]) p) h)\<lparr>hb_streams := hb_streams h @ [new_stream_pair]\<rparr>)]
      else []) @
     map (\<lambda>r. (r, h)) (ended_results over s p))"

definition conn_accept_stream :: "bool \<Rightarrow> side \<Rightarrow> nat \<Rightarrow> ('c, 'f) hub \<Rightarrow> ('f hub_result \<times> ('c, 'f) hub) list" where
  "conn_accept_stream over s c h =
    (let p = hb_pairs h ! c in
     (case accept_queue s p of
        [] \<Rightarrow> []
      | n # ns \<Rightarrow> [(Got_stream n, (put_pair c (set_accept_queue s ns p) h)\<lparr>hb_streams_accepted := hb_streams_accepted h @ [n]\<rparr>)]) @
     map (\<lambda>r. (r, h)) (ended_results over s p))"

subsection \<open>The hub over any interleaving\<close>

datatype ('c, 'f) hub_call =
    Listen string "('c, 'f) mem_options"
  | Close_listener nat
  | Accept bool nat
  | Dial_looks "('c, 'f) mem_options" string
  | Dial_delivers bool nat
  | Open_looks bool side nat
  | Open_delivers bool nat
  | Accept_stream bool side nat
  | Close_conn nat nat string

fun hub_turns :: "('c, 'f) hub_call \<Rightarrow> ('c, 'f) hub \<Rightarrow> ('f hub_result \<times> ('c, 'f) hub) list" where
  "hub_turns (Listen addr opt) h = [transport_listen addr opt h]"
| "hub_turns (Close_listener i) h = (if i < length (hb_made h) then [(Hub_done, listener_close i h)] else [])"
| "hub_turns (Accept over i) h = (if i < length (hb_made h) then listener_accept over i h else [])"
| "hub_turns (Dial_looks opt target) h = [dial_looks opt target h]"
| "hub_turns (Dial_delivers over k) h = (if k < length (hb_dialling h) then dial_delivers over k h else [])"
| "hub_turns (Open_looks over s c) h = (if c < length (hb_pairs h) then open_looks over s c h else [])"
| "hub_turns (Open_delivers over k) h = (if k < length (hb_opening h) then open_delivers over k h else [])"
| "hub_turns (Accept_stream over s c) h = (if c < length (hb_pairs h) then conn_accept_stream over s c h else [])"
| "hub_turns (Close_conn c code msg) h = (if c < length (hb_pairs h) then [(Hub_done, close_with_error c code msg h)] else [])"

inductive hub_reachable :: "('c, 'f) hub \<Rightarrow> bool" where
  starts: "hub_reachable new_hub"
| turns: "hub_reachable h \<Longrightarrow> (r, h') \<in> set (hub_turns call h) \<Longrightarrow> hub_reachable h'"

text \<open>
  The registry names exactly the open listeners; every connection is waiting at one listener or has been accepted
  once, and every stream at one side of one connection; no queue is over its size; and both sides of a connection
  agree on whether and why it was closed.
\<close>

definition waiting_conns :: "('c, 'f) mem_listener list \<Rightarrow> nat multiset" where
  "waiting_conns lns = sum_list (map (\<lambda>ln. mset (ml_incoming ln)) lns)"

definition waiting_streams :: "'c mem_pair list \<Rightarrow> nat multiset" where
  "waiting_streams ps = sum_list (map (\<lambda>p. mset (mp_to_server p) + mset (mp_to_client p)) ps)"

definition pair_ok :: "'c mem_pair \<Rightarrow> bool" where
  "pair_ok p \<longleftrightarrow> mp_client_cause p = mp_server_cause p \<and> (mp_once p \<longleftrightarrow> mp_client_cause p \<noteq> None) \<and>
     length (mp_to_server p) \<le> hub_queue \<and> length (mp_to_client p) \<le> hub_queue"

definition registry_ok :: "(string \<rightharpoonup> nat) \<Rightarrow> ('c, 'f) mem_listener list \<Rightarrow> bool" where
  "registry_ok reg lns \<longleftrightarrow>
     (\<forall>a i. reg a = Some i \<longleftrightarrow> i < length lns \<and> ml_addr (lns ! i) = a \<and> \<not> ml_closed (lns ! i))"

definition hub_ok :: "('c, 'f) hub \<Rightarrow> bool" where
  "hub_ok h \<longleftrightarrow> registry_ok (hb_listeners h) (hb_made h) \<and>
     (\<forall>ln\<in>set (hb_made h). length (ml_incoming ln) \<le> hub_queue) \<and>
     waiting_conns (hb_made h) + mset (hb_accepted h) = mset [0..<length (hb_pairs h)] \<and>
     waiting_streams (hb_pairs h) + mset (hb_streams_accepted h) = mset [0..<length (hb_streams h)] \<and>
     (\<forall>p\<in>set (hb_pairs h). pair_ok p) \<and>
     (\<forall>d\<in>set (hb_dialling h). fst d < length (hb_made h)) \<and>
     (\<forall>d\<in>set (hb_opening h). snd d < length (hb_pairs h))"

text \<open>Changing one place of a list changes its total by that place.\<close>

lemma sum_list_change:
  fixes f :: "'a \<Rightarrow> 'b multiset"
  assumes "i < length xs"
  shows "sum_list (map f (xs[i := y])) + f (xs ! i) = sum_list (map f xs) + f y"
  using assms
proof (induction xs arbitrary: i)
  case (Cons x xs)
  then show ?case by (cases i) (auto simp: ac_simps)
qed simp

lemma all_put: "\<forall>x\<in>set xs. P x \<Longrightarrow> P y \<Longrightarrow> \<forall>x\<in>set (xs[i := y]). P x"
  using set_update_subset_insert [of xs i y] by blast

lemma registry_keep:
  assumes "registry_ok reg lns" "i < length lns" "ml_addr ln = ml_addr (lns ! i)" "ml_closed ln = ml_closed (lns ! i)"
  shows "registry_ok reg (lns[i := ln])"
  using assms by (auto simp: registry_ok_def nth_list_update)

lemma registry_add:
  assumes "registry_ok reg lns" "reg a = None" "ml_addr ln = a" "\<not> ml_closed ln"
  shows "registry_ok (reg(a \<mapsto> length lns)) (lns @ [ln])"
  using assms unfolding registry_ok_def by (auto simp: nth_append less_Suc_eq split: if_splits) (metis option.distinct(1))+

lemma registry_remove:
  assumes "registry_ok reg lns" "i < length lns" "\<not> ml_closed (lns ! i)"
  shows "registry_ok (reg(ml_addr (lns ! i) := None)) (lns[i := (lns ! i)\<lparr>ml_closed := True\<rparr>])"
  using assms unfolding registry_ok_def by (auto simp: nth_list_update split: if_splits) (metis option.inject)+

lemma set_drop_at: "set (drop_at k xs) \<subseteq> set xs"
  using set_take_subset [of k xs] set_drop_subset [of "Suc k" xs] by (auto simp: drop_at_def)

lemma waiting_conns_put:
  assumes "i < length lns"
  shows "waiting_conns (lns[i := ln]) + mset (ml_incoming (lns ! i)) = waiting_conns lns + mset (ml_incoming ln)"
  unfolding waiting_conns_def by (rule sum_list_change [OF assms])

lemma waiting_streams_put:
  assumes "c < length ps"
  shows "waiting_streams (ps[c := p]) + (mset (mp_to_server (ps ! c)) + mset (mp_to_client (ps ! c))) =
    waiting_streams ps + (mset (mp_to_server p) + mset (mp_to_client p))"
  unfolding waiting_streams_def by (rule sum_list_change [OF assms])

lemmas put_defs = put_listener_def put_pair_def hub_unregister_def

lemma listen_ok: "hub_ok h \<Longrightarrow> hub_ok (snd (transport_listen addr opt h))"
  by (auto simp: hub_ok_def transport_listen_def hub_register_def registry_add waiting_conns_def)

lemma close_listener_ok:
  assumes "hub_ok h" "i < length (hb_made h)"
  shows "hub_ok (listener_close i h)"
proof (cases "ml_closed (hb_made h ! i)")
  case False
  have "waiting_conns ((hb_made h)[i := (hb_made h ! i)\<lparr>ml_closed := True\<rparr>]) = waiting_conns (hb_made h)"
    using waiting_conns_put [OF assms(2), of "(hb_made h ! i)\<lparr>ml_closed := True\<rparr>"] by simp
  moreover have "\<forall>ln\<in>set ((hb_made h)[i := (hb_made h ! i)\<lparr>ml_closed := True\<rparr>]). length (ml_incoming ln) \<le> hub_queue"
    using assms by (intro all_put) (simp_all add: hub_ok_def)
  ultimately show ?thesis
    using assms False registry_remove [of "hb_listeners h" "hb_made h" i]
    by (simp add: hub_ok_def listener_close_def Let_def put_defs)
qed (use assms in \<open>simp add: listener_close_def\<close>)

lemma accept_ok:
  assumes "hub_ok h" "i < length (hb_made h)" "(r, h') \<in> set (listener_accept over i h)"
  shows "hub_ok h'"
proof (cases "h' = h")
  case False
  then obtain c cs where q: "ml_incoming (hb_made h ! i) = c # cs"
    and h': "h' = (put_listener i ((hb_made h ! i)\<lparr>ml_incoming := cs\<rparr>) h)\<lparr>hb_accepted := hb_accepted h @ [c]\<rparr>"
    using assms(3) by (cases "ml_incoming (hb_made h ! i)") (auto simp: listener_accept_def Let_def split: if_splits)
  let ?ln = "(hb_made h ! i)\<lparr>ml_incoming := cs\<rparr>"
  have "waiting_conns ((hb_made h)[i := ?ln]) + {#c#} = waiting_conns (hb_made h)"
    using waiting_conns_put [OF assms(2), of ?ln] q by simp
  then have "waiting_conns ((hb_made h)[i := ?ln]) + mset (hb_accepted h @ [c]) = mset [0..<length (hb_pairs h)]"
    using assms(1) by (simp add: hub_ok_def) (metis union_commute union_mset_add_mset_left union_mset_add_mset_right)
  moreover have "length (ml_incoming (hb_made h ! i)) \<le> hub_queue" using assms(1,2) by (simp add: hub_ok_def)
  then have "\<forall>ln\<in>set ((hb_made h)[i := ?ln]). length (ml_incoming ln) \<le> hub_queue"
    using assms(1) q by (intro all_put) (simp_all add: hub_ok_def)
  ultimately show ?thesis
    using assms(1,2) registry_keep [of "hb_listeners h" "hb_made h" i ?ln] by (simp add: hub_ok_def h' put_defs)
qed (use assms in simp)

lemma dial_looks_ok: "hub_ok h \<Longrightarrow> hub_ok (snd (dial_looks opt target h))"
  by (auto simp: hub_ok_def dial_looks_def registry_ok_def split: option.split)

lemma dropped_dial_ok: "hub_ok h \<Longrightarrow> hub_ok (h\<lparr>hb_dialling := drop_at k (hb_dialling h)\<rparr>)"
  using set_drop_at [of k "hb_dialling h"] by (auto simp: hub_ok_def)

lemma dropped_open_ok: "hub_ok h \<Longrightarrow> hub_ok (h\<lparr>hb_opening := drop_at k (hb_opening h)\<rparr>)"
  using set_drop_at [of k "hb_opening h"] by (auto simp: hub_ok_def)

lemma delivered_ok:
  assumes "hub_ok h" "i < length (hb_made h)" "length (ml_incoming (hb_made h ! i)) < hub_queue"
  defines "c \<equiv> length (hb_pairs h)"
  shows "hub_ok ((put_listener i ((hb_made h ! i)\<lparr>ml_incoming := ml_incoming (hb_made h ! i) @ [c]\<rparr>) h)
    \<lparr>hb_pairs := hb_pairs h @ [new_conn_pair cert server_cert]\<rparr>)"
proof -
  let ?ln = "(hb_made h ! i)\<lparr>ml_incoming := ml_incoming (hb_made h ! i) @ [c]\<rparr>"
  have "waiting_conns ((hb_made h)[i := ?ln]) = waiting_conns (hb_made h) + {#c#}"
    using waiting_conns_put [OF assms(2), of ?ln] by (simp add: ac_simps)
  then have "waiting_conns ((hb_made h)[i := ?ln]) + mset (hb_accepted h) = mset [0..<Suc c]"
    using assms(1) by (simp add: hub_ok_def c_def)
  moreover have "\<forall>ln\<in>set ((hb_made h)[i := ?ln]). length (ml_incoming ln) \<le> hub_queue"
    using assms(1,3) by (intro all_put) (simp_all add: hub_ok_def)
  moreover have "pair_ok (new_conn_pair cert server_cert)" by (simp add: pair_ok_def new_conn_pair_def hub_queue_def)
  moreover have "waiting_streams (hb_pairs h @ [new_conn_pair cert server_cert]) = waiting_streams (hb_pairs h)"
    by (simp add: waiting_streams_def new_conn_pair_def)
  ultimately show ?thesis
    using assms(1,2) registry_keep [of "hb_listeners h" "hb_made h" i ?ln] by (auto simp: hub_ok_def put_defs c_def)
qed

lemma dial_delivers_ok:
  assumes "hub_ok h" "k < length (hb_dialling h)" "(r, h') \<in> set (dial_delivers over k h)"
  shows "hub_ok h'"
proof -
  obtain i cert where d: "hb_dialling h ! k = (i, cert)" by (cases "hb_dialling h ! k")
  let ?h = "h\<lparr>hb_dialling := drop_at k (hb_dialling h)\<rparr>"
  have "i < length (hb_made h)" using assms(1) nth_mem [OF assms(2)] d by (force simp: hub_ok_def)
  then show ?thesis
    using assms(3) d dropped_dial_ok [OF assms(1), of k] delivered_ok [OF dropped_dial_ok [OF assms(1), of k], of i]
    by (auto simp: dial_delivers_def Let_def split: if_splits)
qed

lemma put_pair_ok:
  assumes "hub_ok h" "c < length (hb_pairs h)" "pair_ok p"
    and "mset (mp_to_server p) + mset (mp_to_client p) = mset (mp_to_server (hb_pairs h ! c)) + mset (mp_to_client (hb_pairs h ! c))"
  shows "hub_ok (put_pair c p h)"
proof -
  have "waiting_streams ((hb_pairs h)[c := p]) = waiting_streams (hb_pairs h)"
    using waiting_streams_put [OF assms(2), of p] assms(4) by simp
  moreover have "\<forall>p\<in>set ((hb_pairs h)[c := p]). pair_ok p" using assms by (intro all_put) (simp_all add: hub_ok_def)
  ultimately show ?thesis using assms(1) by (simp add: hub_ok_def put_defs)
qed

lemma close_with_error_ok:
  assumes "hub_ok h" "c < length (hb_pairs h)"
  shows "hub_ok (close_with_error c code msg h)"
proof -
  have "pair_ok (hb_pairs h ! c)" using assms by (simp add: hub_ok_def)
  then have "pair_ok (close_conn (code, msg) (hb_pairs h ! c))" by (simp add: pair_ok_def close_conn_def)
  then show ?thesis unfolding close_with_error_def by (rule put_pair_ok [OF assms]) (simp add: close_conn_def)
qed

lemma open_delivers_ok:
  assumes "hub_ok h" "k < length (hb_opening h)" "(r, h') \<in> set (open_delivers over k h)"
  shows "hub_ok h'"
proof -
  obtain s c where d: "hb_opening h ! k = (s, c)" by (cases "hb_opening h ! k")
  let ?h = "h\<lparr>hb_opening := drop_at k (hb_opening h)\<rparr>" and ?p = "hb_pairs h ! c"
  let ?q = "set_open_queue s (open_queue s ?p @ [length (hb_streams h)]) ?p"
  have c: "c < length (hb_pairs h)" using assms(1) nth_mem [OF assms(2)] d by (force simp: hub_ok_def)
  have "hub_ok ((put_pair c ?q ?h)\<lparr>hb_streams := hb_streams h @ [new_stream_pair]\<rparr>)"
    if "length (open_queue s ?p) < hub_queue"
  proof -
    have "pair_ok ?p" using assms(1) c by (simp add: hub_ok_def)
    then have "pair_ok ?q" using that by (cases s) (auto simp: pair_ok_def set_open_queue_def open_queue_def)
    then have "\<forall>p\<in>set ((hb_pairs h)[c := ?q]). pair_ok p" using assms(1) by (intro all_put) (simp_all add: hub_ok_def)
    moreover have "waiting_streams ((hb_pairs h)[c := ?q]) = waiting_streams (hb_pairs h) + {#length (hb_streams h)#}"
      using waiting_streams_put [OF c, of ?q] by (cases s) (simp_all add: set_open_queue_def open_queue_def ac_simps)
    ultimately show ?thesis
      using dropped_open_ok [OF assms(1), of k] by (simp add: hub_ok_def put_defs)
  qed
  then show ?thesis
    using assms(3) d dropped_open_ok [OF assms(1), of k] by (auto simp: open_delivers_def Let_def split: if_splits)
qed

lemma accept_stream_ok:
  assumes "hub_ok h" "c < length (hb_pairs h)" "(r, h') \<in> set (conn_accept_stream over s c h)"
  shows "hub_ok h'"
proof (cases "h' = h")
  case False
  let ?p = "hb_pairs h ! c"
  obtain n ns where q: "accept_queue s ?p = n # ns"
    and h': "h' = (put_pair c (set_accept_queue s ns ?p) h)\<lparr>hb_streams_accepted := hb_streams_accepted h @ [n]\<rparr>"
    using assms(3) False by (cases "accept_queue s ?p") (auto simp: conn_accept_stream_def Let_def)
  let ?q = "set_accept_queue s ns ?p"
  have "pair_ok ?p" using assms(1,2) by (simp add: hub_ok_def)
  then have "pair_ok ?q" using q by (cases s) (auto simp: pair_ok_def set_accept_queue_def accept_queue_def)
  then have "\<forall>p\<in>set ((hb_pairs h)[c := ?q]). pair_ok p" using assms(1) by (intro all_put) (simp_all add: hub_ok_def)
  moreover have "waiting_streams ((hb_pairs h)[c := ?q]) + {#n#} = waiting_streams (hb_pairs h)"
    using waiting_streams_put [OF assms(2), of ?q] q by (cases s) (simp_all add: set_accept_queue_def accept_queue_def ac_simps)
  then have "waiting_streams ((hb_pairs h)[c := ?q]) + mset (hb_streams_accepted h @ [n]) = mset [0..<length (hb_streams h)]"
    using assms(1) by (simp add: hub_ok_def) (metis union_commute union_mset_add_mset_left union_mset_add_mset_right)
  ultimately show ?thesis using assms(1) by (simp add: hub_ok_def h' put_defs)
qed (use assms in simp)

lemma open_looks_ok:
  assumes "hub_ok h" "c < length (hb_pairs h)" "(r, h') \<in> set (open_looks over s c h)"
  shows "hub_ok h'"
  using assms by (auto simp: open_looks_def Let_def hub_ok_def split: if_splits)

lemma hub_turn_ok:
  assumes "hub_ok h" "(r, h') \<in> set (hub_turns call h)"
  shows "hub_ok h'"
proof (cases call)
  case (Listen addr opt)
  then show ?thesis using assms(2) listen_ok [OF assms(1), of addr opt] by (metis empty_iff empty_set hub_turns.simps(1) set_ConsD snd_conv)
next
  case (Dial_looks opt target)
  then show ?thesis using assms(2) dial_looks_ok [OF assms(1), of opt target] by (metis empty_iff empty_set hub_turns.simps(4) set_ConsD snd_conv)
next
  case (Close_listener i)
  then show ?thesis using assms(2) close_listener_ok [OF assms(1)] by (simp split: if_splits)
next
  case (Close_conn c code msg)
  then show ?thesis using assms(2) close_with_error_ok [OF assms(1)] by (simp split: if_splits)
next
  case (Accept over i)
  then show ?thesis using assms(2) accept_ok [OF assms(1)] by (auto split: if_splits)
next
  case (Dial_delivers over k)
  then show ?thesis using assms(2) dial_delivers_ok [OF assms(1)] by (auto split: if_splits)
next
  case (Open_looks over s c)
  then show ?thesis using assms(2) open_looks_ok [OF assms(1)] by (auto split: if_splits)
next
  case (Open_delivers over k)
  then show ?thesis using assms(2) open_delivers_ok [OF assms(1)] by (auto split: if_splits)
next
  case (Accept_stream over s c)
  then show ?thesis using assms(2) accept_stream_ok [OF assms(1)] by (auto split: if_splits)
qed

text \<open>Whatever the interleaving of dials, listeners, streams and closes, the hub's books are in order.\<close>

theorem hub_account: "hub_reachable h \<Longrightarrow> hub_ok h"
proof (induction rule: hub_reachable.induct)
  case starts
  show ?case by (simp add: hub_ok_def new_hub_def registry_ok_def waiting_conns_def waiting_streams_def)
qed (rule hub_turn_ok)

text \<open>No connection is accepted twice, and no stream.\<close>

lemma accepted_once:
  assumes "hub_reachable h"
  shows "distinct (hb_accepted h) \<and> distinct (hb_streams_accepted h)"
proof -
  have part: "distinct xs" if "M + mset xs = mset [0..<n]" for M n and xs :: "nat list"
  proof -
    obtain ys where "M = mset ys" by (metis ex_mset)
    then have "mset (ys @ xs) = mset [0..<n]" using that by simp
    then show ?thesis using mset_eq_imp_distinct_iff [of "ys @ xs" "[0..<n]"] by simp
  qed
  show ?thesis using hub_account [OF assms] part unfolding hub_ok_def by blast
qed

text \<open>Each side of a dialled connection is shown the other side's certificate.\<close>

lemma certificates_cross:
  "peer_certificates Client (new_conn_pair d l) = (case l of None \<Rightarrow> [] | Some c \<Rightarrow> [c])"
  "peer_certificates Server (new_conn_pair d l) = (case d of None \<Rightarrow> [] | Some c \<Rightarrow> [c])"
  by (simp_all add: peer_certificates_def new_conn_pair_def)

text \<open>The first close decides, for both sides.\<close>

lemma first_close_wins: "close_conn b (close_conn a p) = close_conn a p"
  by (simp add: close_conn_def)

text \<open>
  A connection over a real network takes its streams with it. Here closing touches no stream, a stream that waits to
  be accepted may still be, and a dial that has found a listener may still be delivered to it once it is closed.
\<close>

lemma streams_outlive_connection:
  assumes "c < length (hb_pairs h)" "accept_queue s (hb_pairs h ! c) = n # ns"
  shows "hb_streams (close_with_error c code msg h) = hb_streams h"
    and "\<exists>h'. (Got_stream n, h') \<in> set (hub_turns (Accept_stream over s c) (close_with_error c code msg h))"
proof -
  show "hb_streams (close_with_error c code msg h) = hb_streams h" by (simp add: close_with_error_def put_defs)
  have "accept_queue s (close_conn (code, msg) (hb_pairs h ! c)) = n # ns"
    using assms(2) by (cases s) (simp_all add: accept_queue_def close_conn_def)
  then show "\<exists>h'. (Got_stream n, h') \<in> set (hub_turns (Accept_stream over s c) (close_with_error c code msg h))"
    using assms(1) by (auto simp: close_with_error_def put_defs conn_accept_stream_def Let_def)
qed

lemma dialled_to_closed_listener:
  assumes "hub_ok h" "k < length (hb_dialling h)" "hb_dialling h ! k = (i, cert)" "length (ml_incoming (hb_made h ! i)) < hub_queue"
  shows "\<exists>h'. (Dialled (length (hb_pairs h)), h') \<in> set (hub_turns (Dial_delivers over k) (listener_close i h))"
proof -
  have "i < length (hb_made h)" using assms(1) nth_mem [OF assms(2)] assms(3) by (force simp: hub_ok_def)
  then show ?thesis
    using assms(2-4) by (auto simp: listener_close_def put_defs Let_def dial_delivers_def)
qed

end
