(* ===== verification/Cli_Errors.thy ===== *)
theory Cli_Errors
  imports Daemon_Owner Transport
begin

text \<open>
  The last step of every command: which exit code an error becomes (\<^verbatim>\<open>cmd/quic-link/exit.go\<close>), what a failed call
  over the socket becomes (\<^verbatim>\<open>ipc_error_ladder.go\<close>), and what \<^verbatim>\<open>main.go\<close> does with it.

  An error is a tree of the kinds those files tell apart; every other error is \<open>Failed_with\<close> its text. A transport
  error keeps its own tree, under \<open>Conn\<close>.
\<close>

datatype cli_kind =
    Final_exit int string
  | Exec_exit int
  | Agent_status status string
  | Conn conn_error_kind
  | Daemon_not_running
  | Docker_not_ready string string
  | Usage_error
  | Config_invalid "dialable_error + config_error"
  | Socket_absent
  | Socket_schema
  | Socket_attach int string
  | Socket_routes "64 word" string
  | Owner_is_running
  | Squatter_found client_error
  | Context_canceled
  | Failed_with string

type_synonym cli_error = "cli_kind go_error"

abbreviation plain_error :: "string \<Rightarrow> cli_error" where
  "plain_error msg \<equiv> Go_error (Failed_with msg) []"

definition usage_error :: "string \<Rightarrow> cli_error" where
  "usage_error msg = Go_error (Failed_with msg) [Go_error Usage_error []]"

definition wrapped :: "string \<Rightarrow> cli_error \<Rightarrow> cli_error" where
  "wrapped what e = Go_error (Failed_with what) [e]"

definition conn_failure :: "conn_error \<Rightarrow> cli_error" where
  "conn_failure e = map_go_error Conn e"

subsection \<open>Exit codes\<close>

fun final_code :: "cli_kind \<Rightarrow> int option" where
  "final_code (Final_exit c _) = Some c"
| "final_code _ = None"

fun exec_code :: "cli_kind \<Rightarrow> int option" where
  "exec_code (Exec_exit c) = Some c"
| "exec_code _ = None"

fun status_code :: "cli_kind \<Rightarrow> int option" where
  "status_code (Agent_status s _) = Some (int (exit_code_for_status s))"
| "status_code _ = None"

fun is_docker_not_ready :: "cli_kind \<Rightarrow> unit option" where
  "is_docker_not_ready (Docker_not_ready _ _) = Some ()"
| "is_docker_not_ready _ = None"

fun is_config_invalid :: "cli_kind \<Rightarrow> unit option" where
  "is_config_invalid (Config_invalid _) = Some ()"
| "is_config_invalid _ = None"

fun is_squatter :: "cli_kind \<Rightarrow> unit option" where
  "is_squatter (Squatter_found _) = Some ()"
| "is_squatter _ = None"

text \<open>The codes of the last \<^verbatim>\<open>switch\<close>, in its order.\<close>

definition class_code :: "cli_error \<Rightarrow> int" where
  "class_code e =
    (if is_error (Conn Unreachable) e then 3
     else if is_error Daemon_not_running e then 3
     else if find_as is_docker_not_ready e \<noteq> None then 3
     else if is_error (Conn Auth_failed) e then 4
     else if is_error Usage_error e then 2
     else if find_as is_config_invalid e \<noteq> None then 2
     else if is_error Socket_absent e then 3
     else if is_error Socket_schema e then 3
     else if is_error Owner_is_running e then 3
     else if find_as is_squatter e \<noteq> None then 2
     else 1)"

definition exit_code_for_error :: "cli_error \<Rightarrow> int" where
  "exit_code_for_error e =
    (case find_as final_code e of
       Some c \<Rightarrow> c
     | None \<Rightarrow>
       (case find_as exec_code e of
          Some c \<Rightarrow> c
        | None \<Rightarrow> (case find_as status_code e of Some c \<Rightarrow> c | None \<Rightarrow> class_code e)))"

text \<open>The kinds whose message the user has already seen.\<close>

fun already_reported :: "cli_kind \<Rightarrow> unit option" where
  "already_reported (Final_exit _ _) = Some ()"
| "already_reported (Exec_exit _) = Some ()"
| "already_reported (Agent_status _ _) = Some ()"
| "already_reported Daemon_not_running = Some ()"
| "already_reported (Docker_not_ready _ _) = Some ()"
| "already_reported _ = None"

text \<open>What the process ends with, and whether it logs a fatal error first.\<close>

definition main_exit :: "cli_error option \<Rightarrow> int \<times> bool" where
  "main_exit err =
    (case err of
       None \<Rightarrow> (0, False)
     | Some e \<Rightarrow>
         if is_error Context_canceled e then (0, False)
         else (exit_code_for_error e, find_as already_reported e = None))"

subsection \<open>Signals\<close>

datatype signal_event = Signal | Signals_closed | Drain_timeout

text \<open>Whether the root context is cancelled, and the codes the process is told to exit with at once.\<close>

fun after_first_signal :: "signal_event list \<Rightarrow> int list" where
  "after_first_signal [] = []"
| "after_first_signal (Signals_closed # _) = []"
| "after_first_signal (_ # _) = [1]"

fun handle_signals :: "signal_event list \<Rightarrow> bool \<times> int list" where
  "handle_signals [] = (False, [])"
| "handle_signals (Signal # es) = (True, after_first_signal es)"
| "handle_signals (Signals_closed # _) = (False, [])"
| "handle_signals (Drain_timeout # es) = handle_signals es"

text \<open>The process is never told to exit twice, nor before it was asked to drain.\<close>

lemma forced_exit_once:
  "length (snd (handle_signals es)) \<le> 1 \<and> (snd (handle_signals es) \<noteq> [] \<longrightarrow> fst (handle_signals es))"
proof -
  have "length (after_first_signal fs) \<le> 1" for fs by (cases fs rule: after_first_signal.cases) simp_all
  then show ?thesis by (induction es rule: handle_signals.induct) auto
qed

subsection \<open>Failed calls over the socket\<close>

text \<open>The error a client call returns; a message that the program only prints is left out of the tree.\<close>

definition socket_error :: "client_error \<Rightarrow> cli_error" where
  "socket_error e =
    (case e of
       Cl_daemon_absent m \<Rightarrow> wrapped m (Go_error Socket_absent [])
     | Cl_dial m \<Rightarrow> plain_error m
     | Cl_write _ \<Rightarrow> plain_error ''ipc: write request''
     | Cl_read _ \<Rightarrow> plain_error ''ipc: read response''
     | Cl_schema _ \<Rightarrow> wrapped ''daemon socket schema mismatch'' (Go_error Socket_schema [])
     | Cl_deadline m \<Rightarrow> plain_error m
     | Cl_doctor m \<Rightarrow> plain_error m
     | Cl_status _ m \<Rightarrow> plain_error m
     | Cl_routes s m \<Rightarrow> Go_error (Socket_routes s m) []
     | Cl_attach s m \<Rightarrow> Go_error (Socket_attach s m) [])"

fun routes_refusal :: "cli_kind \<Rightarrow> (64 word \<times> string) option" where
  "routes_refusal (Socket_routes s m) = Some (s, m)"
| "routes_refusal _ = None"

datatype remedy = Start_daemon | Restart_daemon | Says string

text \<open>The error returned to \<^verbatim>\<open>main\<close>, and what is written to standard error before.\<close>

definition relay_ipc_error :: "string \<Rightarrow> cli_error \<Rightarrow> bool \<Rightarrow> cli_error \<times> remedy list" where
  "relay_ipc_error verb e routes_aware =
    (if is_error Socket_absent e then (e, [Start_daemon])
     else if is_error Socket_schema e then (e, [Restart_daemon])
     else (case (if routes_aware then find_as routes_refusal e else None) of
         Some (s, m) \<Rightarrow> (Go_error (Final_exit (sint s) m) [], [Says m])
       | None \<Rightarrow> (wrapped verb e, [])))"

lemmas cli_error_simps =
  usage_error_def wrapped_def is_error_wrap find_as_def exit_code_for_error_def class_code_def

lemma usage_exit [simp]: "exit_code_for_error (usage_error m) = 2"
  by (simp add: cli_error_simps)

lemma plain_exit [simp]: "exit_code_for_error (plain_error m) = 1"
  by (simp add: cli_error_simps)

lemma final_exit [simp]: "exit_code_for_error (Go_error (Final_exit c m) es) = c"
  by (simp add: exit_code_for_error_def find_as_first)

lemma exec_exit [simp]: "exit_code_for_error (Go_error (Exec_exit c) []) = c"
  by (simp add: exit_code_for_error_def find_as_def)

lemma find_as_wrapped [simp]: "f (Failed_with what) = None \<Longrightarrow> find_as f (wrapped what e) = find_as f e"
  by (simp add: wrapped_def find_as_skip)

lemma is_error_wrapped [simp]: "k \<noteq> Failed_with what \<Longrightarrow> is_error k (wrapped what e) = is_error k e"
  by (simp add: wrapped_def is_error_wrap)

text \<open>A transport error's code is its class, and it never ends the program quietly.\<close>

lemma walk_conn_failure: "walk (conn_failure e) = map Conn (walk e)"
  unfolding conn_failure_def by (induction e) (simp add: map_concat comp_def cong: map_cong)

lemma is_error_conn [simp]: "is_error k (conn_failure e) \<longleftrightarrow> (\<exists>c. k = Conn c \<and> is_error c e)"
  by (auto simp: is_error_def walk_conn_failure)

lemma find_as_conn: "(\<And>c. f (Conn c) = None) \<Longrightarrow> find_as f (conn_failure e) = None"
  by (auto simp: find_as_None_iff walk_conn_failure)

lemma conn_failure_exit:
  "exit_code_for_error (conn_failure e) = (if is_error Unreachable e then 3 else if is_error Auth_failed e then 4 else 1)"
  by (simp add: exit_code_for_error_def class_code_def find_as_conn)

text \<open>Saying where an error happened never changes the code.\<close>

lemma wrapping_keeps_code [simp]: "exit_code_for_error (wrapped what e) = exit_code_for_error e"
  by (simp add: exit_code_for_error_def class_code_def split: option.split)

lemma relayed_codes:
  "exit_code_for_error (fst (relay_ipc_error verb (socket_error e) True)) =
    (case e of Cl_daemon_absent _ \<Rightarrow> 3 | Cl_schema _ \<Rightarrow> 3 | Cl_routes s _ \<Rightarrow> sint s | _ \<Rightarrow> 1)"
  by (cases e) (simp_all add: socket_error_def relay_ipc_error_def, simp_all add: cli_error_simps)

subsection \<open>The owner's errors\<close>

text \<open>What building the pool failed with is kept as the error it wraps.\<close>

definition owner_failure :: "(pool_error \<Rightarrow> cli_error) \<Rightarrow> owner_error \<Rightarrow> cli_error" where
  "owner_failure pool_failure e =
    (case e of
       Ow_unknown_server n \<Rightarrow> usage_error (''server not found in config: '' @ n)
     | Ow_disabled n \<Rightarrow> Go_error (Final_exit 3 (''server is disabled: '' @ n)) []
     | Ow_no_servers \<Rightarrow> usage_error ''no servers to manage''
     | Ow_socket _ \<Rightarrow> plain_error ''socket directory''
     | Ow_running \<Rightarrow> Go_error Owner_is_running []
     | Ow_squatter c \<Rightarrow> Go_error (Squatter_found c) []
     | Ow_symlink \<Rightarrow> usage_error ''stale socket path is a symlink''
     | Ow_remove m \<Rightarrow> plain_error m
     | Ow_invalid c \<Rightarrow> Go_error (Config_invalid (Inr c)) []
     | Ow_key m \<Rightarrow> plain_error m
     | Ow_old_key _ \<Rightarrow> usage_error ''identity key is too old''
     | Ow_unservable _ \<Rightarrow> usage_error ''a server name cannot be served''
     | Ow_pool p \<Rightarrow> wrapped ''daemon: build pool'' (pool_failure p)
     | Ow_run (Run_listen m) \<Rightarrow> plain_error m
     | Ow_run (Run_chmod m) \<Rightarrow> plain_error m
     | Ow_run (Run_cancelled) \<Rightarrow> Go_error Context_canceled [])"

text \<open>A second owner leaves with 3, one that finds a stranger on the socket with 2, and a stopped one cleanly.\<close>

lemma owner_codes:
  "fst (main_exit (Some (owner_failure pf Ow_running))) = 3"
  "fst (main_exit (Some (owner_failure pf (Ow_squatter c)))) = 2"
  "fst (main_exit (Some (owner_failure pf (Ow_invalid i)))) = 2"
  "main_exit (Some (owner_failure pf (Ow_run Run_cancelled))) = (0, False)"
  by (simp_all add: owner_failure_def main_exit_def, simp_all add: cli_error_simps)

end
