(* ===== verification/Cli_Flags.thy ===== *)
theory Cli_Flags
  imports Cli_Errors
begin

text \<open>
  Settings given on a command line: the repeatable flags of \<^verbatim>\<open>cmd/quic-link/util.go\<close> and \<^verbatim>\<open>server_flags.go\<close>, and
  what the daemon makes of its server flags.

  A flag's map is the list of its entries, in the order a run meets them, with distinct keys; the collectors append.
\<close>

definition cut_at :: "char \<Rightarrow> string \<Rightarrow> (string \<times> string) option" where
  "cut_at c s = (case index_byte s c of None \<Rightarrow> None | Some i \<Rightarrow> Some (take i s, drop (Suc i) s))"

datatype flag_error =
    Fl_no_equals
  | Fl_no_name
  | Fl_no_value
  | Fl_server_name server_name_error
  | Fl_route_name name_rule
  | Fl_route_addr parse_addr_error
  | Fl_pin pin_error
  | Fl_pin_not_canonical
  | Fl_duplicate string string

text \<open>The collectors: a value that is given, and what has been collected so far.\<close>

definition spec_set :: "(string \<times> string) list \<Rightarrow> string \<Rightarrow> flag_error + (string \<times> string) list" where
  "spec_set values v =
    (case cut_at (CHR ''='') v of
       None \<Rightarrow> Inl Fl_no_equals
     | Some (name, val) \<Rightarrow>
       if name = [] then Inl Fl_no_name
       else if val = [] then Inl Fl_no_value
       else (case validate_server_name name of
           Some e \<Rightarrow> Inl (Fl_server_name e)
         | None \<Rightarrow>
           (case map_of values name of
              Some existing \<Rightarrow> Inl (Fl_duplicate name existing)
            | None \<Rightarrow> Inr (values @ [(name, val)]))))"

definition route_set :: "(string \<times> string) list \<Rightarrow> string \<Rightarrow> flag_error + (string \<times> string) list" where
  "route_set values v =
    (case cut_at (CHR ''='') v of
       None \<Rightarrow> Inl Fl_no_equals
     | Some (name, addr) \<Rightarrow>
       if name = [] then Inl Fl_no_name
       else if addr = [] then Inl Fl_no_value
       else (case validate_route_name name of
           Some e \<Rightarrow> Inl (Fl_route_name e)
         | None \<Rightarrow>
           (case parse_addr addr of
              Inl e \<Rightarrow> Inl (Fl_route_addr e)
            | Inr _ \<Rightarrow>
              (case map_of values name of
                 Some existing \<Rightarrow> Inl (Fl_duplicate name existing)
               | None \<Rightarrow> Inr (values @ [(name, addr)])))))"

definition pin_set :: "string list \<Rightarrow> string \<Rightarrow> flag_error + string list" where
  "pin_set pins v =
    (case parse_pin_strict v of
       Inl e \<Rightarrow> Inl (if e = Pin_not_canonical then Fl_pin_not_canonical else Fl_pin e)
     | Inr norm \<Rightarrow> Inr (pins @ [norm]))"

text \<open>The flag parser calls a collector once per occurrence and stops at the first error.\<close>

fun collect :: "('a \<Rightarrow> string \<Rightarrow> flag_error + 'a) \<Rightarrow> 'a \<Rightarrow> string list \<Rightarrow> flag_error + 'a" where
  "collect f acc [] = Inr acc"
| "collect f acc (v # vs) = (case f acc v of Inl e \<Rightarrow> Inl e | Inr acc' \<Rightarrow> collect f acc' vs)"

lemma collect_induct:
  assumes "collect f acc vs = Inr out" and "P acc" and "\<And>a v b. P a \<Longrightarrow> f a v = Inr b \<Longrightarrow> P b"
  shows "P out"
  using assms by (induction vs arbitrary: acc) (auto split: sum.splits)

subsection \<open>What is collected\<close>

lemma spec_set_InrD:
  "spec_set vs v = Inr vs' \<Longrightarrow> \<exists>name val. vs' = vs @ [(name, val)] \<and> cut_at (CHR ''='') v = Some (name, val) \<and>
     valid_label name \<and> val \<noteq> [] \<and> name \<notin> fst ` set vs"
  by (auto simp: spec_set_def validate_server_name_iff map_of_eq_None_iff split: option.splits if_splits prod.splits)

lemma route_set_InrD:
  "route_set vs v = Inr vs' \<Longrightarrow> \<exists>name addr. vs' = vs @ [(name, addr)] \<and> validate_route_name name = None \<and>
     is_ok (parse_addr addr) \<and> name \<notin> fst ` set vs"
  by (auto simp: route_set_def map_of_eq_None_iff split: option.splits if_splits prod.splits sum.splits)

lemma collected_specs:
  assumes "collect spec_set [] vs = Inr out"
  shows "distinct (map fst out) \<and> (\<forall>(name, val)\<in>set out. valid_label name \<and> val \<noteq> [])"
  using assms by (rule collect_induct) (auto dest!: spec_set_InrD)

text \<open>Routes collected from flags are routes an agent's validation accepts, one per name.\<close>

lemma collected_routes:
  assumes "collect route_set [] vs = Inr out"
  shows "distinct (map fst out) \<and> check_routes out = None"
proof -
  have "distinct (map fst out) \<and> (\<forall>(name, addr)\<in>set out. validate_route_name name = None \<and> is_ok (parse_addr addr))"
    using assms by (rule collect_induct) (auto dest!: route_set_InrD)
  then show ?thesis by (auto simp: check_routes_iff)
qed

lemma pin_set_InrD: "pin_set ps v = Inr ps' \<Longrightarrow> ps' = ps @ [v] \<and> parse_pin_strict v = Inr v"
  by (auto simp: pin_set_def is_ok_iff parse_pin_strict_def split: sum.splits if_splits)

lemma collected_pins:
  assumes "collect pin_set [] vs = Inr out"
  shows "out = vs \<and> check_clients 0 out = None"
proof -
  have "collect pin_set acc vs = Inr out \<Longrightarrow> out = acc @ vs \<and> (\<forall>p\<in>set vs. parse_pin_strict p = Inr p)" for acc
    by (induction vs arbitrary: acc) (fastforce dest!: pin_set_InrD split: sum.splits)+
  from this [OF assms] show ?thesis by (simp add: check_clients_iff)
qed

subsection \<open>The daemon's server flags\<close>

definition apply_server_flags ::
  "config \<Rightarrow> (string \<times> string) list \<Rightarrow> (string \<times> string) list \<Rightarrow> cli_error + config"
where
  "apply_server_flags cfg addrs pins =
    (if addrs = [] \<and> pins = [] then Inr cfg
     else (case find (\<lambda>(name, _). map_of addrs name = None) pins of
         Some (name, _) \<Rightarrow> Inl (usage_error (''--server-pin without --server-add: '' @ name))
       | None \<Rightarrow>
         (case find (\<lambda>(name, _). map_of pins name = None) addrs of
            Some (name, _) \<Rightarrow> Inl (usage_error (''--server-add without --server-pin: '' @ name))
          | None \<Rightarrow>
            (case find (\<lambda>(_, p). \<not> is_ok (parse_pin p)) pins of
               Some (name, _) \<Rightarrow> Inl (usage_error (''invalid --server-pin: '' @ name))
             | None \<Rightarrow> Inr (cfg\<lparr>cf_servers := map (\<lambda>(name, addr).
                 (name, \<lparr>sv_addr = addr, sv_listen = [], sv_pin = (case map_of pins name of Some p \<Rightarrow> p | None \<Rightarrow> []),
                   sv_enabled = None, sv_local_ports = Map.empty\<rparr>)) addrs\<rparr>)))))"

text \<open>The servers a run with no file is left with.\<close>

definition enabled_servers :: "(string \<times> server) list \<Rightarrow> (string \<times> server) list" where
  "enabled_servers ss = filter (\<lambda>(_, srv). \<not> sv_disabled srv) ss"

definition server_name_list :: "(string \<times> server) list \<Rightarrow> string list" where
  "server_name_list ss = sort (map fst ss)"

definition resolve_connect_scope :: "config \<Rightarrow> string list \<Rightarrow> cli_error + string" where
  "resolve_connect_scope cfg args =
    (case args of
       [a] \<Rightarrow> Inr a
     | _ \<Rightarrow>
       (case enabled_servers (cf_servers cfg) of
          [(name, _)] \<Rightarrow> Inr name
        | [] \<Rightarrow> Inl (usage_error ''no SERVER given and no enabled servers'')
        | _ \<Rightarrow> Inl (usage_error ''no SERVER given and several servers are enabled'')))"

lemma connect_scope_enabled:
  assumes "resolve_connect_scope cfg [] = Inr n"
  shows "\<exists>srv. enabled_servers (cf_servers cfg) = [(n, srv)] \<and> \<not> sv_disabled srv"
proof -
  obtain srv where e: "enabled_servers (cf_servers cfg) = [(n, srv)]"
    using assms by (auto simp: resolve_connect_scope_def split: list.splits)
  then have "(n, srv) \<in> set (enabled_servers (cf_servers cfg))" by simp
  then show ?thesis using e by (simp add: enabled_servers_def)
qed

text \<open>A server table that came from flags fails validation only over the spelling of a pin.\<close>

lemma flag_server_valid:
  assumes "valid_label name" "sv_addr srv \<noteq> []" "sv_listen srv = []" "is_ok (parse_pin (sv_pin srv))"
  shows "validate_server name srv = (if is_ok (parse_pin_strict (sv_pin srv)) then None else Some Sv_pin_not_canonical)"
  using assms by (auto simp: validate_server_def validate_server_name_iff [THEN iffD2] validate_server_settings_def
      parse_pin_strict_def is_ok_iff)

lemma applied_server_flags:
  assumes "apply_server_flags cfg addrs pins = Inr cfg'" and "addrs \<noteq> [] \<or> pins \<noteq> []"
  shows "cfg' = cfg\<lparr>cf_servers := cf_servers cfg'\<rparr> \<and> map fst (cf_servers cfg') = map fst addrs \<and>
    fst ` set pins = fst ` set addrs \<and>
    (\<forall>(name, srv)\<in>set (cf_servers cfg'). (name, sv_addr srv) \<in> set addrs \<and> map_of pins name = Some (sv_pin srv) \<and>
       sv_listen srv = [] \<and> is_ok (parse_pin (sv_pin srv)) \<and> \<not> sv_disabled srv)"
proof -
  have f: "find (\<lambda>(name, _). map_of addrs name = None) pins = None" "find (\<lambda>(name, _). map_of pins name = None) addrs = None"
    "find (\<lambda>(_, p). \<not> is_ok (parse_pin p)) pins = None"
    using assms by (auto simp: apply_server_flags_def split: if_splits option.splits prod.splits)
  have sub: "name \<in> fst ` set addrs" if "(name, p) \<in> set pins" for name p
    using f(1) that by (auto simp: find_None_iff map_of_eq_None_iff)
  have sup: "\<exists>p. map_of pins name = Some p \<and> is_ok (parse_pin p)" if "(name, a) \<in> set addrs" for name a
  proof -
    have "map_of pins name \<noteq> None" using f(2) that by (auto simp: find_None_iff)
    then obtain p where p: "map_of pins name = Some p" by blast
    then have "(name, p) \<in> set pins" by (rule map_of_SomeD)
    then show ?thesis using f(3) p by (fastforce simp: find_None_iff)
  qed
  have "fst ` set pins = fst ` set addrs"
    using sub sup by (force simp: dest: map_of_SomeD)
  moreover have "cfg' = cfg\<lparr>cf_servers := map (\<lambda>(name, addr).
      (name, \<lparr>sv_addr = addr, sv_listen = [], sv_pin = (case map_of pins name of Some p \<Rightarrow> p | None \<Rightarrow> []),
        sv_enabled = None, sv_local_ports = Map.empty\<rparr>)) addrs\<rparr>"
    using assms f by (auto simp: apply_server_flags_def)
  ultimately show ?thesis
    using sup by (fastforce simp: comp_def split_beta sv_disabled_def)
qed

lemma refused_server_flags:
  assumes "apply_server_flags cfg addrs pins = Inl e"
  shows "exit_code_for_error e = 2 \<and> (fst ` set addrs \<noteq> fst ` set pins \<or> (\<exists>(n, p)\<in>set pins. \<not> is_ok (parse_pin p)))"
proof -
  consider n p where "find (\<lambda>(name, _). map_of addrs name = None) pins = Some (n, p)"
    | n a where "find (\<lambda>(name, _). map_of pins name = None) addrs = Some (n, a)"
    | n p where "find (\<lambda>(_, p). \<not> is_ok (parse_pin p)) pins = Some (n, p)"
    using assms by (auto simp: apply_server_flags_def split: if_splits option.splits)
  then have "fst ` set addrs \<noteq> fst ` set pins \<or> (\<exists>(n, p)\<in>set pins. \<not> is_ok (parse_pin p))"
    by cases (force dest!: find_SomeD simp: map_of_eq_None_iff)+
  moreover have "exit_code_for_error e = 2"
    using assms by (auto simp: apply_server_flags_def split: if_splits option.splits)
  ultimately show ?thesis by simp
qed

lemma no_listener_no_clash: "\<forall>(n, srv)\<in>set ss. sv_listen srv = [] \<Longrightarrow> listen_pins ss seen = None"
  by (induction ss seen rule: listen_pins.induct) auto

lemma flag_servers_checked:
  assumes "\<forall>(n, srv)\<in>set ss. valid_label n \<and> sv_addr srv \<noteq> [] \<and> sv_listen srv = [] \<and> is_ok (parse_pin (sv_pin srv)) \<and> \<not> sv_disabled srv"
  shows "check_servers ss ws = (ws, map_option (\<lambda>(n, srv). Cf_server n Sv_pin_not_canonical)
     (find (\<lambda>(n, srv). \<not> is_ok (parse_pin_strict (sv_pin srv))) ss))"
  using assms
proof (induction ss)
  case (Cons x ss)
  obtain n srv where x: "x = (n, srv)" by (cases x)
  have "validate_server n srv = (if is_ok (parse_pin_strict (sv_pin srv)) then None else Some Sv_pin_not_canonical)"
    using Cons.prems x by (intro flag_server_valid) auto
  then show ?case using Cons x by auto
qed simp

text \<open>
  Server flags replace the configured servers, and nothing else. What the flags collect is one address and one
  pin for each name, a flag for only one of the two is refused, and the configuration that results has exactly the
  servers named, in the order given, each to be dialled at its address, and is otherwise the one loaded from the
  file. Its servers pass validation unless a pin is spelled differently from its canonical text, in which case the
  first such server is the one reported.
\<close>

theorem server_flags_replace:
  assumes "collect spec_set [] as = Inr addrs" "collect spec_set [] ps = Inr pins" "addrs \<noteq> [] \<or> pins \<noteq> []"
  shows "case apply_server_flags cfg addrs pins of
      Inl e \<Rightarrow> exit_code_for_error e = 2 \<and> (fst ` set addrs \<noteq> fst ` set pins \<or> (\<exists>(n, p)\<in>set pins. \<not> is_ok (parse_pin p)))
    | Inr cfg' \<Rightarrow>
        fst ` set addrs = fst ` set pins \<and> map fst (cf_servers cfg') = map fst addrs \<and> distinct (map fst addrs) \<and>
        cfg'\<lparr>cf_servers := cf_servers cfg\<rparr> = cfg \<and>
        (\<forall>(n, srv)\<in>set (cf_servers cfg'). valid_label n \<and> (n, sv_addr srv) \<in> set addrs \<and> (n, sv_pin srv) \<in> set pins \<and>
           sv_listen srv = [] \<and> \<not> sv_disabled srv) \<and>
        snd (validate_servers cfg') = map_option (\<lambda>(n, srv). Cf_server n Sv_pin_not_canonical)
          (find (\<lambda>(n, srv). \<not> is_ok (parse_pin_strict (sv_pin srv))) (cf_servers cfg'))"
proof (cases "apply_server_flags cfg addrs pins")
  case (Inl e)
  then show ?thesis using refused_server_flags [OF Inl] by simp
next
  case (Inr cfg')
  note a = applied_server_flags [OF Inr assms(3)] and c = collected_specs [OF assms(1)]
  have ss: "\<forall>(n, srv)\<in>set (cf_servers cfg'). valid_label n \<and> sv_addr srv \<noteq> [] \<and> sv_listen srv = [] \<and>
      is_ok (parse_pin (sv_pin srv)) \<and> \<not> sv_disabled srv"
    using a c by fastforce
  have "validate_distinct_listen_pins (cf_servers cfg') = None"
    unfolding validate_distinct_listen_pins_def using ss by (intro no_listener_no_clash) auto
  then have "snd (validate_servers cfg') = snd (check_servers (cf_servers cfg') [])"
    by (auto simp: validate_servers_def Let_def split: prod.splits option.splits)
  then have v: "snd (validate_servers cfg') = map_option (\<lambda>(n, srv). Cf_server n Sv_pin_not_canonical)
      (find (\<lambda>(n, srv). \<not> is_ok (parse_pin_strict (sv_pin srv))) (cf_servers cfg'))"
    by (simp add: flag_servers_checked [OF ss])
  have same: "cfg'\<lparr>cf_servers := cf_servers cfg\<rparr> = cfg" using a by (metis config.surjective config.update_convs(3))
  show ?thesis using Inr a c ss v same by (auto dest: map_of_SomeD)
qed

lemma cut_at_first: "c \<notin> set a \<Longrightarrow> cut_at c (a @ c # b) = Some (a, b)"
  by (simp add: cut_at_def index_byte_append)

theorem server_flags_replace_witness:
  "\<exists>cfg'. apply_server_flags sample_config [(''db'', ''h:2'')] [(''db'', sample_pin)] = Inr cfg' \<and>
     map fst (cf_servers cfg') = [''db''] \<and> snd (validate_servers cfg') = None"
proof -
  have label: "validate_server_name ''db'' = None"
    by (simp add: validate_server_name_iff valid_label_def dns_label_bytes_iff lower_or_digit_or_dash_def)
  have p: "parse_pin sample_pin = Inr sample_pin" "sample_pin \<noteq> []"
    using sample_pin_strict strict_pin_nonempty [OF sample_pin_strict]
    by (auto simp: parse_pin_strict_def split: sum.splits if_splits)
  have "collect spec_set [] [''db'' @ CHR ''='' # ''h:2''] = Inr [(''db'', ''h:2'')]"
    "collect spec_set [] [''db'' @ CHR ''='' # sample_pin] = Inr [(''db'', sample_pin)]"
    using p cut_at_first [of "CHR ''=''" "''db''" "''h:2''"] cut_at_first [of "CHR ''=''" "''db''" sample_pin]
    by (simp_all add: spec_set_def label)
  note c = server_flags_replace [OF this, of sample_config]
  obtain cfg' where r: "apply_server_flags sample_config [(''db'', ''h:2'')] [(''db'', sample_pin)] = Inr cfg'"
    using p by (simp add: apply_server_flags_def)
  moreover have "map fst (cf_servers cfg') = [''db'']"
    "snd (validate_servers cfg') = map_option (\<lambda>(n, srv). Cf_server n Sv_pin_not_canonical)
      (find (\<lambda>(n, srv). \<not> is_ok (parse_pin_strict (sv_pin srv))) (cf_servers cfg'))"
    "\<forall>(n, srv)\<in>set (cf_servers cfg'). (n, sv_pin srv) \<in> set [(''db'', sample_pin)]"
    using c r by auto
  moreover have "find (\<lambda>(n, srv). \<not> is_ok (parse_pin_strict (sv_pin srv))) (cf_servers cfg') = None"
    using calculation(4) by (auto simp: find_None_iff sample_pin_strict)
  ultimately show ?thesis by simp
qed

end
