(* ===== verification/Cli_Servers.thy ===== *)
theory Cli_Servers
  imports Cli_Flags
begin

text \<open>
  \<^verbatim>\<open>cmd/quic-link/resolve_server.go\<close>: which servers a command may name, asking the running daemon before the
  settings.

  A command meets its surroundings as a \<open>cli_env\<close>: where the socket is, what dialling it gives, and how the body of
  a status answer is read (\<^verbatim>\<open>encoding/json\<close> into the snapshot; here its servers' names, \<open>None\<close> when it does not
  parse).
\<close>

record cli_env =
  ce_sock :: "dir_error + string"
  ce_codec :: client_codec
  ce_conn :: "dial_failure + client_conn"
  ce_names :: "bytes \<Rightarrow> string list option"

definition ask_status :: "cli_env \<Rightarrow> client_error + bytes" where
  "ask_status env = status_json (ce_codec env) (ce_conn env)"

text \<open>The names, and whether a daemon gave them; \<open>None\<close>: nobody could be asked.\<close>

definition names_in_settings :: "config \<Rightarrow> (string list \<times> bool) option" where
  "names_in_settings cfg = (if cf_servers cfg = [] then None else Some (map fst (cf_servers cfg), False))"

definition known_servers :: "cli_env \<Rightarrow> config \<Rightarrow> (string list \<times> bool) option" where
  "known_servers env cfg =
    (case ce_sock env of
       Inl _ \<Rightarrow> names_in_settings cfg
     | Inr _ \<Rightarrow>
       (case ask_status env of
          Inl _ \<Rightarrow> names_in_settings cfg
        | Inr raw \<Rightarrow>
          (case ce_names env raw of
             Some names \<Rightarrow> Some (remdups names, True)
           | None \<Rightarrow> names_in_settings cfg)))"

definition require_known_server :: "cli_env \<Rightarrow> config \<Rightarrow> string \<Rightarrow> cli_error option" where
  "require_known_server env cfg name =
    (case known_servers env cfg of
       None \<Rightarrow> Some (usage_error ''no servers are defined'')
     | Some (names, from_daemon) \<Rightarrow>
       if name \<in> set names then None
       else if from_daemon then Some (usage_error (''server is not managed by the running daemon: '' @ name))
       else Some (usage_error (''server not found in config: '' @ name)))"

definition auto_select_server :: "cli_env \<Rightarrow> config \<Rightarrow> string list \<Rightarrow> cli_error + string" where
  "auto_select_server env cfg args =
    (case args of
       [a] \<Rightarrow> Inr a
     | _ \<Rightarrow>
       (case known_servers env cfg of
          None \<Rightarrow> Inl (usage_error ''no SERVER given and none is available'')
        | Some (names, from_daemon) \<Rightarrow>
          (case names of
             [] \<Rightarrow> Inl (usage_error ''no SERVER given and none is available'')
           | [n] \<Rightarrow> Inr n
           | _ \<Rightarrow> Inl (usage_error (if from_daemon then ''several servers are managed by the running daemon''
                                 else ''several servers are in your settings'')))))"

text \<open>A name the program chose itself is one it then accepts, and every refusal here is a usage error.\<close>

lemma auto_selected_known:
  assumes "auto_select_server env cfg args = Inr n" "length args \<noteq> 1"
  shows "require_known_server env cfg n = None"
  using assms by (auto simp: auto_select_server_def require_known_server_def split: list.splits option.splits)

lemma require_known_usage: "require_known_server env cfg n = Some e \<Longrightarrow> exit_code_for_error e = 2"
  by (auto simp: require_known_server_def split: option.splits if_splits)

lemma auto_select_usage: "auto_select_server env cfg args = Inl e \<Longrightarrow> exit_code_for_error e = 2"
  by (auto simp: auto_select_server_def split: option.splits list.splits)

text \<open>Over the socket of a daemon of the same user, the names accepted are those of the status it gives.\<close>

definition status_request :: ipc_request where
  "status_request = rpc_request ''status'' [] Map.empty"

lemma asked_daemon:
  assumes "ce_conn env = socket_to (ce_codec env) de status_request"
    and "ipc_codec_ok (ck_enc (ce_codec env)) (de_dec de) status_request" "uint (de_uid de) = sv_uid (de_server de)"
    and "sv_status (de_server de) = Inr raw" "ipc_codec_ok (de_enc de) (ck_dec (ce_codec env)) (ok_response raw)"
  shows "ask_status env = Inr raw"
proof -
  have h: "handle_rpc (de_wide de) (de_server de) status_request = handle_status (de_server de)"
    by (simp add: handle_rpc_def status_request_def rpc_request_def)
  have "replies (daemon_events de (request_bytes (ce_codec env) status_request)) = replies (handle_status (de_server de))"
    using daemon_replies(1) [OF assms(2,3)] h by (simp add: status_request_def rpc_request_def)
  also have "\<dots> = [ok_response raw]" by (simp add: handle_status_def assms(4))
  finally have "exchange (ce_codec env) (ce_conn env) status_request = Inr (ok_response raw)"
    unfolding assms(1) by (rule exchange_answered [OF assms(2) _ assms(5)])
  then show ?thesis by (simp add: ask_status_def status_json_def status_request_def body_or_def ok_response_def)
qed

lemma known_are_managed:
  assumes "ce_sock env = Inr s" "ask_status env = Inr raw" "ce_names env raw = Some managed"
  shows "known_servers env cfg = Some (remdups managed, True)"
    and "require_known_server env cfg n = None \<longleftrightarrow> n \<in> set managed"
  using assms by (simp_all add: known_servers_def require_known_server_def)

text \<open>Without a daemon the settings answer.\<close>

lemma known_without_daemon:
  assumes "ask_status env = Inl e"
  shows "require_known_server env cfg n = None \<longleftrightarrow> n \<in> fst ` set (cf_servers cfg)"
  using assms by (auto simp: known_servers_def require_known_server_def names_in_settings_def split: sum.splits)

end
