(* ===== verification/Cli_Ssh.thy ===== *)
theory Cli_Ssh
  imports Cli_Servers
begin

text \<open>
  \<^verbatim>\<open>cmd/quic-link/ssh.go\<close> and \<^verbatim>\<open>attach.go\<close>: running the system's ssh through a ProxyCommand.

  What ssh does with the value: it replaces the \<^verbatim>\<open>%\<close> tokens and hands the text to a shell. Both are programs of
  their own and parameters of the claim, known by what their manuals say, \<open>expands_tokens\<close> and \<open>splits_words\<close>;
  at the end two small functions that do so show that the manuals can be met.
\<close>

definition shell_quote :: "string \<Rightarrow> string" where
  "shell_quote s = CHR 0x27 # concat (map (\<lambda>c. if c = CHR 0x27 then [CHR 0x27, CHR 0x5C, CHR 0x27, CHR 0x27] else [c]) s) @ [CHR 0x27]"

definition bare_server_name :: "string \<Rightarrow> string" where
  "bare_server_name arg = (case last_index_byte arg (CHR ''@'') of None \<Rightarrow> arg | Some i \<Rightarrow> drop (Suc i) arg)"

text \<open>\<open>dash\<close> is where the flag parser met \<^verbatim>\<open>--\<close>.\<close>

definition split_ssh_args :: "nat option \<Rightarrow> string list \<Rightarrow> cli_error + (string \<times> string list)" where
  "split_ssh_args dash args =
    (case dash of
       None \<Rightarrow> if 1 < length args then Inl (usage_error ''too many arguments'')
               else Inr (case args of [a] \<Rightarrow> a | _ \<Rightarrow> [], [])
     | Some d \<Rightarrow> if 1 < d then Inl (usage_error ''too many arguments before --'')
               else Inr (if d = 1 then args ! 0 else [], drop d args))"

definition build_proxy_command :: "string \<Rightarrow> (string \<times> string) option \<Rightarrow> string \<Rightarrow> string" where
  "build_proxy_command bin_path flag_mode config_path =
    (let prefix = shell_quote bin_path @ (if config_path \<noteq> [] then '' --config '' @ shell_quote config_path else []) in
     case flag_mode of
       Some (server, peer) \<Rightarrow> prefix @ '' stdio --server '' @ shell_quote server @ '' --pin '' @ shell_quote peer @ '' %n ssh''
     | None \<Rightarrow> prefix @ '' stdio %n ssh'')"

subsection \<open>Running ssh\<close>

record ssh_env = cli_env +
  se_executable :: "string option"
  se_look_path :: "string option"
  se_child :: "string list \<Rightarrow> (int option) option"

text \<open>\<open>se_child\<close> is what running ssh with these arguments gives: \<open>None\<close> success, \<open>Some (Some c)\<close> that it left with
  status \<open>c\<close>, \<open>Some None\<close> that it never started. The result is the error, and the arguments ssh was run with.\<close>

definition check_server :: "cli_env \<Rightarrow> config \<Rightarrow> string \<Rightarrow> cli_error option" where
  "check_server env cfg name =
    (case require_known_server env cfg name of
       Some e \<Rightarrow> Some e
     | None \<Rightarrow>
       (case map_of (cf_servers cfg) name of
          Some srv \<Rightarrow> if sv_disabled srv then Some (Go_error (Final_exit 3 (''server is disabled: '' @ name)) []) else None
        | None \<Rightarrow> None))"

definition exec_ssh :: "ssh_env \<Rightarrow> string option \<Rightarrow> string \<Rightarrow> string list \<Rightarrow> (string \<times> string) option \<Rightarrow> string
    \<Rightarrow> cli_error option \<times> string list option"
where
  "exec_ssh env config_flag server_arg passthrough flag_mode bare =
    (case se_executable env of
       None \<Rightarrow> (Some (plain_error ''own executable path''), None)
     | Some bin_path \<Rightarrow>
       (let proxy = build_proxy_command bin_path flag_mode (case config_flag of Some c \<Rightarrow> c | None \<Rightarrow> []) in
        case se_look_path env of
          None \<Rightarrow> (Some (plain_error ''ssh binary not found in PATH''), None)
        | Some _ \<Rightarrow>
          (let argv = [''-o'', ''ProxyCommand='' @ proxy, ''-o'', ''HostKeyAlias='' @ bare, server_arg] @ passthrough in
           case se_child env argv of
             None \<Rightarrow> (None, Some argv)
           | Some (Some c) \<Rightarrow> (Some (Go_error (Exec_exit c) []), Some argv)
           | Some None \<Rightarrow> (Some (plain_error ''exec ssh''), Some argv))))"

definition run_ssh_core ::
  "ssh_env \<Rightarrow> config \<Rightarrow> string option \<Rightarrow> string \<Rightarrow> string list \<Rightarrow> (string \<times> string) option \<Rightarrow> cli_error option \<times> string list option"
where
  "run_ssh_core env cfg config_flag server_arg passthrough flag_mode =
    (if bare_server_name server_arg = [] then
       (if flag_mode \<noteq> None then (Some (usage_error ''SERVER is required as a label''), None)
        else (case auto_select_server (cli_env.truncate env) cfg [] of
            Inl e \<Rightarrow> (Some e, None)
          | Inr name \<Rightarrow>
            (case check_server (cli_env.truncate env) cfg name of
               Some e \<Rightarrow> (Some e, None)
             | None \<Rightarrow> exec_ssh env config_flag name passthrough flag_mode name)))
     else (let bare = bare_server_name server_arg in
       case (if flag_mode = None then check_server (cli_env.truncate env) cfg bare else None) of
         Some e \<Rightarrow> (Some e, None)
       | None \<Rightarrow> exec_ssh env config_flag server_arg passthrough flag_mode bare))"

text \<open>The two flags, \<open>None\<close> one that was not given.\<close>

definition run_ssh ::
  "ssh_env \<Rightarrow> config \<Rightarrow> string option \<Rightarrow> nat option \<Rightarrow> string list \<Rightarrow> string option \<Rightarrow> string option
     \<Rightarrow> cli_error option \<times> string list option"
where
  "run_ssh env cfg config_flag dash args server_flag pin_flag =
    (case split_ssh_args dash args of
       Inl e \<Rightarrow> (Some e, None)
     | Inr (server_arg, passthrough) \<Rightarrow>
       (case (server_flag, pin_flag) of
          (None, None) \<Rightarrow> run_ssh_core env cfg config_flag server_arg passthrough None
        | (Some s, Some p) \<Rightarrow> run_ssh_core env cfg config_flag server_arg passthrough (Some (s, p))
        | _ \<Rightarrow> (Some (usage_error ''--server and --pin must be given together''), None)))"

definition run_attach :: "ssh_env \<Rightarrow> config \<Rightarrow> string option \<Rightarrow> string \<Rightarrow> string \<Rightarrow> cli_error option \<times> string list option" where
  "run_attach env cfg config_flag server session =
    run_ssh_core env cfg config_flag server [''-t'', ''tmux'', ''attach'', ''-t'', session] None"

subsection \<open>How ssh and the shell read the value\<close>

definition percent_free :: "string \<Rightarrow> bool" where
  "percent_free s \<longleftrightarrow> CHR ''%'' \<notin> set s"

text \<open>
  \<^verbatim>\<open>ssh_config(5)\<close>, TOKENS, for an ssh that was given this host: text without a percent sign stays, \<^verbatim>\<open>%n\<close>
  becomes the host as it was given on the command line. The result is \<open>None\<close> where ssh refuses the value.
\<close>

definition expands_tokens :: "(string \<Rightarrow> string \<Rightarrow> string option) \<Rightarrow> bool" where
  "expands_tokens expand \<longleftrightarrow> (\<forall>host. expand host [] = Some [] \<and>
     (\<forall>a b. percent_free a \<longrightarrow> expand host (a @ b) = map_option ((@) a) (expand host b)) \<and>
     (\<forall>b. expand host (''%n'' @ b) = map_option ((@) host) (expand host b)))"

text \<open>The characters a shell gives no meaning, outside quotes.\<close>

definition sh_ordinary :: "char \<Rightarrow> bool" where
  "sh_ordinary c \<longleftrightarrow> c \<in> set ''abcdefghijklmnopqrstuvwxyzABCDEFGHIJKLMNOPQRSTUVWXYZ0123456789-_./:@%+,''"

text \<open>
  How a word may be written, by the Shell Command Language of POSIX, section 2.2: between single quotes
  every character stands for itself, after a backslash the next one does, and an ordinary one always
  does; pieces written together make one word.
\<close>

inductive sh_word :: "string \<Rightarrow> string \<Rightarrow> bool" where
  quoted: "CHR 0x27 \<notin> set w \<Longrightarrow> sh_word (CHR 0x27 # w @ [CHR 0x27]) w"
| escaped: "c \<noteq> CHR 0x0A \<Longrightarrow> sh_word [CHR 0x5C, c] [c]"
| ordinary: "sh_ordinary c \<Longrightarrow> sh_word [c] [c]"
| together: "sh_word p v \<Longrightarrow> sh_word q w \<Longrightarrow> sh_word (p @ q) (v @ w)"

fun spaced :: "string list \<Rightarrow> string" where
  "spaced [] = []"
| "spaced [p] = p"
| "spaced (p # q # ps) = p @ CHR '' '' # spaced (q # ps)"

text \<open>
  The same section and 2.9.1: a line of words with a space between them is the command that its first word
  names, which is no reserved word and no assignment when it opens with a quote, with the others as its
  arguments. The result is \<open>None\<close> where the shell cannot read the line.
\<close>

definition splits_words :: "(string \<Rightarrow> string list option) \<Rightarrow> bool" where
  "splits_words sh \<longleftrightarrow> (\<forall>p ps ws. list_all2 sh_word (p # ps) ws \<and> hd p = CHR 0x27 \<longrightarrow> sh (spaced (p # ps)) = Some ws)"

lemma expandsD:
  assumes "expands_tokens expand"
  shows "percent_free a \<Longrightarrow> expand host (a @ b) = map_option ((@) a) (expand host b)"
    and "expand host (''%n'' @ b) = map_option ((@) host) (expand host b)"
    and "percent_free a \<Longrightarrow> expand host a = Some a"
proof -
  show plain: "percent_free a \<Longrightarrow> expand host (a @ b) = map_option ((@) a) (expand host b)" for a b
    using assms by (simp add: expands_tokens_def)
  show "expand host (''%n'' @ b) = map_option ((@) host) (expand host b)"
    using assms unfolding expands_tokens_def by blast
  have "expand host [] = Some []" using assms by (simp add: expands_tokens_def)
  then show "percent_free a \<Longrightarrow> expand host a = Some a" using plain [of a "[]"] by simp
qed

text \<open>A quoted string is one word and is read back as it was, whatever is in it.\<close>

lemma quoted_tail:
  "CHR 0x27 \<notin> set t \<Longrightarrow> sh_word (CHR 0x27 # t @ concat (map (\<lambda>c. if c = CHR 0x27
     then [CHR 0x27, CHR 0x5C, CHR 0x27, CHR 0x27] else [c]) s) @ [CHR 0x27]) (t @ s)"
proof (induction s arbitrary: t)
  case Nil
  then show ?case using sh_word.quoted by simp
next
  case (Cons c s)
  show ?case
  proof (cases "c = CHR 0x27")
    case True
    have "sh_word ((CHR 0x27 # t @ [CHR 0x27]) @ [CHR 0x5C, CHR 0x27] @ (CHR 0x27 # [] @ concat (map (\<lambda>c. if c = CHR 0x27
        then [CHR 0x27, CHR 0x5C, CHR 0x27, CHR 0x27] else [c]) s) @ [CHR 0x27])) (t @ [CHR 0x27] @ ([] @ s))"
      by (intro sh_word.together sh_word.quoted Cons.prems sh_word.escaped Cons.IH) simp_all
    then show ?thesis using True by simp
  next
    case False
    then show ?thesis using Cons.IH [of "t @ [c]"] Cons.prems by simp
  qed
qed

lemma shell_quote_word: "sh_word (shell_quote s) s"
  using quoted_tail [of "[]" s] by (simp add: shell_quote_def)

lemma ordinary_word: "list_all sh_ordinary u \<Longrightarrow> u \<noteq> [] \<Longrightarrow> sh_word u u"
proof (induction u)
  case (Cons c u)
  then have c: "sh_word [c] [c]" by (simp add: sh_word.ordinary)
  show ?case
  proof (cases "u = []")
    case False
    then show ?thesis using sh_word.together [OF c Cons.IH] Cons.prems by simp
  qed (use c in simp)
qed simp

lemma shell_quote_percent: "percent_free (shell_quote s) \<longleftrightarrow> percent_free s"
  by (induction s) (auto simp: shell_quote_def percent_free_def split: if_splits)

definition proxy_words :: "string \<Rightarrow> (string \<times> string) option \<Rightarrow> string \<Rightarrow> string \<Rightarrow> string list" where
  "proxy_words bin_path flag_mode config_path host =
    bin_path # (if config_path \<noteq> [] then [''--config'', config_path] else []) @ [''stdio''] @
      (case flag_mode of Some (s, p) \<Rightarrow> [''--server'', s, ''--pin'', p] | None \<Rightarrow> []) @ [host, ''ssh'']"

lemma spaced_snoc: "ps \<noteq> [] \<Longrightarrow> spaced (ps @ [q]) = spaced ps @ CHR '' '' # q"
  by (induction ps rule: spaced.induct) simp_all

lemma proxy_command_read:
  assumes ssh: "expands_tokens expand" and sh: "splits_words sh"
    and host: "list_all sh_ordinary host" "host \<noteq> []" and free: "percent_free bin_path" "percent_free config_path"
    and fm: "case flag_mode of Some (s, p) \<Rightarrow> percent_free s \<and> percent_free p | None \<Rightarrow> True"
  shows "Option.bind (expand host (build_proxy_command bin_path flag_mode config_path)) sh =
    Some (proxy_words bin_path flag_mode config_path host)"
proof -
  have o: "sh_word ''--config'' ''--config''" "sh_word ''stdio'' ''stdio''" "sh_word ''--server'' ''--server''"
    "sh_word ''--pin'' ''--pin''" "sh_word host host" "sh_word ''ssh'' ''ssh''"
    using host by (auto intro!: ordinary_word simp: sh_ordinary_def)
  define a where "a = shell_quote bin_path @ (if config_path \<noteq> [] then '' --config '' @ shell_quote config_path else []) @ '' stdio'' @
    (case flag_mode of Some (s, p) \<Rightarrow> '' --server '' @ shell_quote s @ '' --pin '' @ shell_quote p | None \<Rightarrow> [])"
  have b: "build_proxy_command bin_path flag_mode config_path = (a @ '' '') @ ''%n'' @ '' ssh''"
    by (simp add: build_proxy_command_def a_def Let_def split: option.split)
  have "percent_free (a @ '' '')" "percent_free '' ssh''"
    using free fm shell_quote_percent by (auto simp: a_def percent_free_def split: option.splits)
  then have e: "expand host (build_proxy_command bin_path flag_mode config_path) = Some (a @ '' '' @ host @ '' ssh'')"
    unfolding b by (simp only: expandsD [OF ssh] option.map) simp
  let ?qs = "(if config_path \<noteq> [] then [''--config'', shell_quote config_path] else []) @ [''stdio''] @
      (case flag_mode of Some (s, p) \<Rightarrow> [''--server'', shell_quote s, ''--pin'', shell_quote p] | None \<Rightarrow> []) @ [host, ''ssh'']"
  have "list_all2 sh_word (shell_quote bin_path # ?qs) (proxy_words bin_path flag_mode config_path host)"
    using o shell_quote_word by (auto simp: proxy_words_def split: option.split)
  moreover have "hd (shell_quote bin_path) = CHR 0x27" by (simp add: shell_quote_def)
  ultimately have "sh (spaced (shell_quote bin_path # ?qs)) = Some (proxy_words bin_path flag_mode config_path host)"
    using sh unfolding splits_words_def by blast
  moreover have "spaced (shell_quote bin_path # ?qs) = a @ '' '' @ host @ '' ssh''"
    by (cases "config_path = []"; cases flag_mode) (auto simp: a_def)
  ultimately show ?thesis by (simp add: e)
qed

text \<open>
  A path with a percent sign in it is quoted for the shell and not for ssh, which reads the sign first, so the shell
  is given another path.
\<close>

lemma percent_in_path:
  assumes ssh: "expands_tokens expand" and sh: "splits_words sh"
  shows "Option.bind (expand ''db'' (build_proxy_command ''/opt/a%nb/quic-link'' None [])) sh =
     Some [''/opt/adbb/quic-link'', ''stdio'', ''db'', ''ssh'']"
proof -
  have f: "percent_free (CHR 0x27 # ''/opt/a'')" "percent_free (''b/quic-link'' @ CHR 0x27 # '' stdio '')" "percent_free '' ssh''"
    by (simp_all add: percent_free_def)
  have "build_proxy_command ''/opt/a%nb/quic-link'' None [] =
      (CHR 0x27 # ''/opt/a'') @ ''%n'' @ (''b/quic-link'' @ CHR 0x27 # '' stdio '') @ ''%n'' @ '' ssh''"
    by (simp add: build_proxy_command_def shell_quote_def)
  then have "expand ''db'' (build_proxy_command ''/opt/a%nb/quic-link'' None []) =
      Some ((CHR 0x27 # ''/opt/a'') @ ''db'' @ (''b/quic-link'' @ CHR 0x27 # '' stdio '') @ ''db'' @ '' ssh'')"
    using f by (simp only: expandsD [OF ssh] option.map)
  also have "(CHR 0x27 # ''/opt/a'') @ ''db'' @ (''b/quic-link'' @ CHR 0x27 # '' stdio '') @ ''db'' @ '' ssh'' =
      spaced [shell_quote ''/opt/adbb/quic-link'', ''stdio'', ''db'', ''ssh'']"
    by (simp add: shell_quote_def)
  finally have e: "expand ''db'' (build_proxy_command ''/opt/a%nb/quic-link'' None []) =
      Some (spaced [shell_quote ''/opt/adbb/quic-link'', ''stdio'', ''db'', ''ssh''])" .
  have o: "sh_word ''stdio'' ''stdio''" "sh_word ''db'' ''db''" "sh_word ''ssh'' ''ssh''"
    by (auto intro!: ordinary_word simp: sh_ordinary_def)
  have "list_all2 sh_word [shell_quote ''/opt/adbb/quic-link'', ''stdio'', ''db'', ''ssh'']
      [''/opt/adbb/quic-link'', ''stdio'', ''db'', ''ssh'']"
    using o shell_quote_word by (simp only: list_all2_Cons list_all2_Nil simp_thms)
  moreover have "hd (shell_quote ''/opt/adbb/quic-link'') = CHR 0x27" by (simp add: shell_quote_def)
  ultimately show ?thesis using sh e unfolding splits_words_def by (metis bind.bind_lunit)
qed

lemma check_server_None:
  "check_server env cfg n = None \<Longrightarrow> require_known_server env cfg n = None \<and>
     (\<forall>srv. map_of (cf_servers cfg) n = Some srv \<longrightarrow> \<not> sv_disabled srv)"
  by (auto simp: check_server_def split: option.splits if_splits)

lemma run_ssh_core_cases:
  obtains (stopped) e where "run_ssh_core env cfg conf arg pass fm = (Some e, None)"
  | (runs) host dest where "run_ssh_core env cfg conf arg pass fm = exec_ssh env conf dest pass fm host"
      "if bare_server_name arg = [] then fm = None \<and> dest = host \<and> auto_select_server (cli_env.truncate env) cfg [] = Inr host
        else dest = arg \<and> host = bare_server_name arg"
      "fm = None \<longrightarrow> check_server (cli_env.truncate env) cfg host = None"
proof (cases "bare_server_name arg = []")
  case empty: True
  show thesis
  proof (cases "fm = None")
    case True
    show thesis
    proof (cases "auto_select_server (cli_env.truncate env) cfg []")
      case (Inl e)
      then show thesis using empty True by (intro stopped [of e]) (simp add: run_ssh_core_def)
    next
      case (Inr host)
      then show thesis using empty True stopped runs [of host host]
        by (cases "check_server (cli_env.truncate env) cfg host") (simp_all add: run_ssh_core_def)
    qed
  next
    case False
    then show thesis using empty by (intro stopped) (auto simp: run_ssh_core_def)
  qed
next
  case False
  then show thesis using stopped runs [of arg "bare_server_name arg"]
    by (cases "if fm = None then check_server (cli_env.truncate env) cfg (bare_server_name arg) else None")
      (auto simp: run_ssh_core_def Let_def split: if_splits)
qed

text \<open>
  C35: What the ssh verb runs. Either ssh is not run, and there is an error, or it is run once with its destination
  first and the user's arguments after it; without the address flags, only for a server that is known and that no
  setting switches off. Whatever ssh and shell do as their manuals say make of the ProxyCommand exactly this program's
  own path, the settings file and the flags of this run, then the server and the target, when the host is written in
  characters a shell gives no meaning and no path or flag holds a percent sign (which ssh would read as a token).
  The exit code is ssh's own, with nothing logged, and 1 when ssh never started.
\<close>

theorem ssh_runs_the_tunnel:
  assumes ssh: "expands_tokens expand" and sh: "splits_words sh"
  shows "case run_ssh_core env cfg conf arg pass fm of
     (err, None) \<Rightarrow> err \<noteq> None
   | (err, Some argv) \<Rightarrow>
     (\<exists>host dest proxy bin_path.
        argv = [''-o'', ''ProxyCommand='' @ proxy, ''-o'', ''HostKeyAlias='' @ host, dest] @ pass \<and>
        (if bare_server_name arg = [] then fm = None \<and> dest = host else dest = arg \<and> host = bare_server_name arg) \<and>
        (fm = None \<longrightarrow> require_known_server (cli_env.truncate env) cfg host = None \<and>
           (\<forall>srv. map_of (cf_servers cfg) host = Some srv \<longrightarrow> \<not> sv_disabled srv)) \<and>
        se_executable env = Some bin_path \<and>
        (list_all sh_ordinary host \<and> host \<noteq> [] \<and> percent_free bin_path \<and> percent_free (case conf of Some c \<Rightarrow> c | None \<Rightarrow> []) \<and>
           (case fm of Some (s, p) \<Rightarrow> percent_free s \<and> percent_free p | None \<Rightarrow> True) \<longrightarrow>
         Option.bind (expand host proxy) sh =
           Some (proxy_words bin_path fm (case conf of Some c \<Rightarrow> c | None \<Rightarrow> []) host)) \<and>
        (case se_child env argv of
           None \<Rightarrow> main_exit err = (0, False)
         | Some (Some c) \<Rightarrow> main_exit err = (c, False)
         | Some None \<Rightarrow> main_exit err = (1, True)))"
proof (cases rule: run_ssh_core_cases [of env cfg conf arg pass fm])
  case (stopped e)
  then show ?thesis by simp
next
  case (runs host dest)
  show ?thesis
  proof (cases "snd (exec_ssh env conf dest pass fm host)")
    case None
    then show ?thesis unfolding runs(1) by (auto simp: exec_ssh_def Let_def split: option.splits)
  next
    case (Some argv)
    then obtain bin_path where b: "se_executable env = Some bin_path" "se_look_path env \<noteq> None"
      by (auto simp: exec_ssh_def Let_def split: option.splits)
    let ?c = "case conf of Some c \<Rightarrow> c | None \<Rightarrow> []"
    have a: "argv = [''-o'', ''ProxyCommand='' @ build_proxy_command bin_path fm ?c, ''-o'', ''HostKeyAlias='' @ host, dest] @ pass"
      and err: "fst (exec_ssh env conf dest pass fm host) = (case se_child env argv of None \<Rightarrow> None
        | Some (Some c) \<Rightarrow> Some (Go_error (Exec_exit c) []) | Some None \<Rightarrow> Some (plain_error ''exec ssh''))"
      using Some b by (auto simp: exec_ssh_def Let_def split: option.splits)
    have m: "main_exit (Some (Go_error (Exec_exit c) [])) = (c, False)" "main_exit (Some (plain_error ''exec ssh'')) = (1, True)" for c
      by (simp_all add: main_exit_def is_error_wrap find_as_def)
    have r: "run_ssh_core env cfg conf arg pass fm = (fst (exec_ssh env conf dest pass fm host), Some argv)"
      using runs(1) Some by (metis prod.collapse)
    have exit: "case se_child env argv of
           None \<Rightarrow> main_exit (fst (exec_ssh env conf dest pass fm host)) = (0, False)
         | Some (Some c) \<Rightarrow> main_exit (fst (exec_ssh env conf dest pass fm host)) = (c, False)
         | Some None \<Rightarrow> main_exit (fst (exec_ssh env conf dest pass fm host)) = (1, True)"
      unfolding err by (simp add: m main_exit_def [of None] split: option.split)
    show ?thesis
      unfolding r prod.case option.case
      by (rule exI [of _ host], rule exI [of _ dest], rule exI [of _ "build_proxy_command bin_path fm ?c"], rule exI [of _ bin_path])
        (use a b runs(2,3) exit proxy_command_read [OF ssh sh, of host bin_path ?c fm] check_server_None in \<open>auto split: if_splits\<close>)
  qed
qed

subsection \<open>The manuals can be met\<close>

text \<open>A reading of the tokens, and one of the line, that do what is assumed of ssh and of the shell.\<close>

fun sample_expand :: "string \<Rightarrow> string \<Rightarrow> string option" where
  "sample_expand host [] = Some []"
| "sample_expand host [c] = (if c = CHR ''%'' then None else Some [c])"
| "sample_expand host (c # d # cs) =
    (if c \<noteq> CHR ''%'' then map_option ((#) c) (sample_expand host (d # cs))
     else if d = CHR ''n'' then map_option ((@) host) (sample_expand host cs) else None)"

fun sample_split :: "string option \<Rightarrow> bool \<Rightarrow> string \<Rightarrow> string list option" where
  "sample_split cur True [] = None"
| "sample_split cur True (c # cs) =
    (if c = CHR 0x27 then sample_split cur False cs else sample_split (map_option (\<lambda>w. w @ [c]) cur) True cs)"
| "sample_split cur False [] = Some (case cur of None \<Rightarrow> [] | Some w \<Rightarrow> [w])"
| "sample_split cur False (c # cs) =
    (let w = (case cur of None \<Rightarrow> [] | Some w \<Rightarrow> w) in
     if c = CHR 0x27 then sample_split (Some w) True cs
     else if c = CHR 0x5C then (case cs of [] \<Rightarrow> None | d # ds \<Rightarrow> sample_split (Some (w @ [d])) False ds)
     else if c = CHR '' '' then (case cur of None \<Rightarrow> sample_split None False cs | Some w \<Rightarrow> map_option ((#) w) (sample_split None False cs))
     else if sh_ordinary c then sample_split (Some (w @ [c])) False cs
     else None)"

lemma sample_expands: "expands_tokens sample_expand"
proof -
  have plain: "percent_free a \<longrightarrow> sample_expand host (a @ b) = map_option ((@) a) (sample_expand host b)" for host a b
  proof (induction a)
    case Nil
    show ?case by (cases "sample_expand host b") simp_all
  next
    case (Cons c a)
    then show ?case by (cases "a @ b") (auto simp: percent_free_def option.map_comp comp_def)
  qed
  then show ?thesis unfolding expands_tokens_def by simp
qed

lemma sample_inside:
  "CHR 0x27 \<notin> set s \<Longrightarrow> sample_split (Some w) True (s @ CHR 0x27 # rest) = sample_split (Some (w @ s)) False rest"
  by (induction s arbitrary: w) auto

lemma sample_reads:
  "sh_word p w \<Longrightarrow> sample_split cur False (p @ rest) = sample_split (Some ((case cur of None \<Rightarrow> [] | Some v \<Rightarrow> v) @ w)) False rest"
proof (induction arbitrary: cur rest rule: sh_word.induct)
  case (quoted w)
  then show ?case by (simp add: sample_inside Let_def)
next
  case (ordinary c)
  then have "c \<noteq> CHR 0x27" "c \<noteq> CHR 0x5C" "c \<noteq> CHR '' ''" by (auto simp: sh_ordinary_def)
  then show ?case using ordinary by (simp add: Let_def)
qed (simp_all add: Let_def)

lemma sample_splits: "splits_words (sample_split None False)"
proof -
  have "ps \<noteq> [] \<longrightarrow> sample_split None False (spaced ps) = Some ws" if "list_all2 sh_word ps ws" for ps ws
    using that
  proof (induction ps arbitrary: ws rule: spaced.induct)
    case (2 p)
    then show ?case using sample_reads [of p _ None "[]"] by (auto simp: list_all2_Cons1)
  next
    case (3 p q ps)
    then obtain w vs where w: "ws = w # vs" "sh_word p w" "list_all2 sh_word (q # ps) vs" by (auto simp: list_all2_Cons1)
    have "sample_split None False (spaced (q # ps)) = Some vs" using 3(1) [OF w(3)] by simp
    then show ?case using sample_reads [OF w(2), of None "CHR '' '' # spaced (q # ps)"] w(1) by simp
  qed simp
  then show ?thesis unfolding splits_words_def by blast
qed

definition sample_ssh :: ssh_env where
  "sample_ssh = \<lparr>ce_sock = Inr ''/run/daemon.sock'', ce_codec = sample_codec, ce_conn = Inl (Dial_no_file ''no such file''),
     ce_names = (\<lambda>_. None), se_executable = Some ''/home/o'neil/my tools/quic-link'', se_look_path = Some ''/usr/bin/ssh'',
     se_child = (\<lambda>_. Some (Some 255))\<rparr>"

theorem ssh_runs_the_tunnel_witness:
  "\<exists>argv. run_ssh_core sample_ssh sample_config None ''me@db'' [''-v''] None = (Some (Go_error (Exec_exit 255) []), Some argv) \<and>
     last argv = ''-v'' \<and>
     (\<exists>proxy. argv ! 1 = ''ProxyCommand='' @ proxy \<and> Option.bind (sample_expand ''db'' proxy) (sample_split None False) =
       Some [''/home/o'' @ CHR 0x27 # ''neil/my tools/quic-link'', ''stdio'', ''db'', ''ssh''])"
proof -
  have b: "bare_server_name ''me@db'' = ''db''" by (simp add: bare_server_name_def)
  have "ask_status (cli_env.truncate sample_ssh) = Inl (Cl_daemon_absent ''no such file'')"
    by (simp add: ask_status_def sample_ssh_def cli_env.truncate_def status_json_def exchange_def client_dial_def is_net_refused_def is_no_such_file_def)
  then have "require_known_server (cli_env.truncate sample_ssh) sample_config ''db'' = None"
    by (simp add: known_without_daemon sample_config_def)
  then have "check_server (cli_env.truncate sample_ssh) sample_config ''db'' = None"
    by (simp add: check_server_def sample_config_def sv_disabled_def)
  then obtain argv where r: "run_ssh_core sample_ssh sample_config None ''me@db'' [''-v''] None = (Some (Go_error (Exec_exit 255) []), Some argv)"
    by (simp add: run_ssh_core_def b exec_ssh_def Let_def) (simp add: sample_ssh_def)
  from ssh_runs_the_tunnel [OF sample_expands sample_splits, where env = sample_ssh and cfg = sample_config and conf = None
      and arg = "''me@db''" and pass = "[''-v'']" and fm = None, unfolded r prod.case option.case]
  obtain host dest proxy bin_path where
    p: "argv = [''-o'', ''ProxyCommand='' @ proxy, ''-o'', ''HostKeyAlias='' @ host, dest] @ [''-v'']"
    and h: "if bare_server_name ''me@db'' = [] then None = (None :: (string \<times> string) option) \<and> dest = host
      else dest = ''me@db'' \<and> host = bare_server_name ''me@db''"
    and x: "se_executable sample_ssh = Some bin_path"
    and read: "list_all sh_ordinary host \<and> host \<noteq> [] \<and> percent_free bin_path \<and> percent_free [] \<and> True \<longrightarrow>
      Option.bind (sample_expand host proxy) (sample_split None False) = Some (proxy_words bin_path None [] host)"
    by (elim exE conjE) (rule that, assumption+)
  have "host = ''db''" "bin_path = ''/home/o'' @ CHR 0x27 # ''neil/my tools/quic-link''"
    using h b x by (simp_all add: sample_ssh_def)
  then have "Option.bind (sample_expand ''db'' proxy) (sample_split None False) =
      Some (proxy_words (''/home/o'' @ CHR 0x27 # ''neil/my tools/quic-link'') None [] ''db'')"
    using read by (simp add: sh_ordinary_def percent_free_def)
  then show ?thesis using r p by (auto simp: proxy_words_def)
qed

end
