(* ===== verification/Cli_Agent.thy ===== *)
theory Cli_Agent
  imports Cli_Flags Tunnel Dial_Loop "HOL-Library.AList"
begin

text \<open>
  \<^verbatim>\<open>cmd/quic-link/agent.go\<close> and \<^verbatim>\<open>dialsocket.go\<close>: the agent verb, from its flags to the session loop it hands over to.

  Go's \<^verbatim>\<open>netip.ParseAddr\<close> is modelled as far as the choice of a socket needs it: \<open>ip6_value\<close> gives the sixteen bytes
  of an address written as IPv6.
\<close>

subsection \<open>The socket to dial from\<close>

definition hex_value :: "bytes \<Rightarrow> nat" where
  "hex_value s = foldl (\<lambda>a c. a * 16 + (if is_digit c then ord c - 48 else if 97 \<le> ord c then ord c - 87 else ord c - 55)) 0 s"

definition ip6_finish :: "nat option \<Rightarrow> nat list \<Rightarrow> bytes \<Rightarrow> nat list option" where
  "ip6_finish ell acc s =
    (if s \<noteq> [] then None
     else if length acc < 16 then
       (case ell of None \<Rightarrow> None | Some k \<Rightarrow> Some (take k acc @ replicate (16 - length acc) 0 @ drop k acc))
     else (case ell of None \<Rightarrow> Some acc | Some _ \<Rightarrow> None))"

function ip6_value :: "nat option \<Rightarrow> nat list \<Rightarrow> bytes \<Rightarrow> nat list option" where
  "ip6_value ell acc s =
    (if 16 \<le> length acc then ip6_finish ell acc s
     else (let off = length (takeWhile is_hex s); rest = drop off s; v = hex_value (take off s);
               acc' = acc @ [v div 256, v mod 256] in
       if off = 0 \<or> 4 < off then None
       else if has_prefix rest ''.'' then
         (if ell = None \<and> length acc \<noteq> 12 \<or> 16 < length acc + 4 \<or> \<not> ipv4_ok s then None
          else ip6_finish ell (acc @ map decimal (split_on (CHR ''.'') s)) [])
       else if rest = [] then ip6_finish ell acc' []
       else if hd rest \<noteq> CHR '':'' \<or> tl rest = [] then None
       else if hd (tl rest) = CHR '':'' then
         (if ell \<noteq> None then None
          else if tl (tl rest) = [] then ip6_finish (Some (length acc')) acc' []
          else ip6_value (Some (length acc')) acc' (tl (tl rest)))
       else ip6_value ell acc' (tl rest)))"
  by pat_completeness auto
termination
  by (relation "measure (\<lambda>(ell, acc, s). 16 - length acc)") auto

declare ip6_value.simps [simp del]

definition ip6_bytes :: "bytes \<Rightarrow> nat list option" where
  "ip6_bytes s =
    (case cut_prefix s ''::'' of
       Some r \<Rightarrow> if r = [] then Some (replicate 16 0) else ip6_value (Some 0) [] r
     | None \<Rightarrow> ip6_value None [] s)"

definition parse_ipv6_zone :: "bytes \<Rightarrow> nat list option" where
  "parse_ipv6_zone s =
    (case index_byte s (CHR ''%'') of
       None \<Rightarrow> ip6_bytes s
     | Some i \<Rightarrow> if drop (Suc i) s = [] then None else ip6_bytes (take i s))"

definition netip_v6 :: "bytes \<Rightarrow> nat list option" where
  "netip_v6 s =
    (if find (\<lambda>c. c = CHR ''.'' \<or> c = CHR '':'' \<or> c = CHR ''%'') s = Some (CHR '':'') then parse_ipv6_zone s else None)"

definition is_4in6 :: "nat list \<Rightarrow> bool" where
  "is_4in6 b \<longleftrightarrow> take 12 b = replicate 10 0 @ [255, 255]"

definition dials_ipv6 :: "string \<Rightarrow> bool" where
  "dials_ipv6 addr =
    (case split_host_port addr of
       Inl _ \<Rightarrow> False
     | Inr (host, _) \<Rightarrow> (case netip_v6 host of None \<Rightarrow> False | Some b \<Rightarrow> \<not> is_4in6 b))"

datatype socket_family = Udp4 | Udp6 | Udp_both

definition dialing_family :: "string \<Rightarrow> socket_family" where
  "dialing_family addr = (if dials_ipv6 addr then Udp6 else Udp4)"

text \<open>A name, or an address without a colon, is dialled from an IPv4 socket.\<close>

lemma name_dialled_as_ipv4:
  assumes "set host \<inter> {CHR '':'', CHR ''['', CHR '']''} = {}" "set port \<inter> {CHR '':'', CHR ''['', CHR '']''} = {}"
  shows "dialing_family (host @ CHR '':'' # port) = Udp4"
proof -
  have "find (\<lambda>c. c = CHR ''.'' \<or> c = CHR '':'' \<or> c = CHR ''%'') host \<noteq> Some (CHR '':'')"
    using assms(1) by (auto simp: find_Some_iff)
  then show ?thesis using split_host_port_plain [OF assms] by (simp add: dialing_family_def dials_ipv6_def netip_v6_def)
qed

lemma ip6_finish_length: "ip6_finish ell acc s = Some b \<Longrightarrow> length acc \<le> 16 \<Longrightarrow> (\<forall>k. ell = Some k \<longrightarrow> k \<le> length acc) \<Longrightarrow> length b = 16"
  by (auto simp: ip6_finish_def split: if_splits option.splits)

subsection \<open>The flags and the file\<close>

text \<open>A flag that was not given is \<open>None\<close>.\<close>

record agent_flags =
  af_listen :: "string option"
  af_dial :: "string option"
  af_ssh_addr :: "string option"
  af_docker_addr :: "string option"
  af_routes :: "(string \<times> string) list option"
  af_key :: "string option"
  af_clients :: "string list option"

definition flag_routes :: "agent_flags \<Rightarrow> (string \<times> string) list" where
  "flag_routes fl = (case af_routes fl of None \<Rightarrow> [] | Some rs \<Rightarrow> rs)"

definition no_flags :: "agent_flags \<Rightarrow> bool" where
  "no_flags fl \<longleftrightarrow> af_listen fl = None \<and> af_dial fl = None \<and> af_ssh_addr fl = None \<and> af_docker_addr fl = None \<and>
     af_routes fl = None \<and> af_key fl = None \<and> af_clients fl = None"

definition flag_clash :: "agent_flags \<Rightarrow> bool" where
  "flag_clash fl \<longleftrightarrow> af_ssh_addr fl \<noteq> None \<and> map_of (flag_routes fl) ''ssh'' \<noteq> None \<or>
     af_docker_addr fl \<noteq> None \<and> map_of (flag_routes fl) ''docker'' \<noteq> None"

definition put_route :: "string \<Rightarrow> string option \<Rightarrow> (string \<times> string) list \<Rightarrow> (string \<times> string) list" where
  "put_route name addr rs = (case addr of None \<Rightarrow> rs | Some a \<Rightarrow> AList.update name a rs)"

definition overlay_routes :: "agent_flags \<Rightarrow> (string \<times> string) list \<Rightarrow> (string \<times> string) list" where
  "overlay_routes fl rs =
    foldl (\<lambda>acc (n, a). AList.update n a acc)
      (put_route ''docker'' (af_docker_addr fl) (put_route ''ssh'' (af_ssh_addr fl) rs)) (flag_routes fl)"

definition or_else :: "'a option \<Rightarrow> 'a \<Rightarrow> 'a" where
  "or_else flag v = (case flag of None \<Rightarrow> v | Some x \<Rightarrow> x)"

definition overlay_agent :: "agent_flags \<Rightarrow> agent \<Rightarrow> agent" where
  "overlay_agent fl a =
    (let a1 = a\<lparr>ag_listen := or_else (af_listen fl) (ag_listen a), ag_clients := or_else (af_clients fl) (ag_clients a),
               ag_routes := overlay_routes fl (ag_routes a)\<rparr>;
         a2 = (case af_dial fl of
             None \<Rightarrow> a1
           | Some d \<Rightarrow> a1\<lparr>ag_dial := d, ag_listen := (if af_listen fl = None then [] else ag_listen a1)\<rparr>) in
     if ag_listen a2 = [] \<and> ag_dial a2 = [] then a2\<lparr>ag_listen := '':443''\<rparr> else a2)"

definition effective_config :: "agent_flags \<Rightarrow> config \<Rightarrow> config" where
  "effective_config fl cfg =
    (case (if cf_agent cfg = None \<and> \<not> no_flags fl then Some empty_agent else cf_agent cfg) of
       None \<Rightarrow> cfg
     | Some a \<Rightarrow> cfg\<lparr>cf_agent := Some (overlay_agent fl a),
         cf_identity := (cf_identity cfg)\<lparr>is_key_file := or_else (af_key fl) (is_key_file (cf_identity cfg))\<rparr>\<rparr>)"

subsection \<open>Running the agent\<close>

definition check_key_age :: "meta_error + int option \<Rightarrow> int \<Rightarrow> identity_section \<Rightarrow> cli_error option" where
  "check_key_age meta now ident =
    (if is_warn_days ident \<le> 0 then None
     else (case meta of
         Inl _ \<Rightarrow> None
       | Inr None \<Rightarrow> None
       | Inr (Some created) \<Rightarrow>
         (let days = go_quot (now - created) nanos_per_day in
          if days \<le> is_warn_days ident then None
          else if is_refuse_old ident then Some (usage_error ''identity key is too old'') else None)))"

text \<open>The owner of the sessions applies the same rule to its own key.\<close>

lemma key_age_rule_shared:
  "check_key_age meta now ident = None \<longleftrightarrow>
     key_too_old ident (case meta of Inr (Some created) \<Rightarrow> Some (now - created) | _ \<Rightarrow> None) = None"
  by (auto simp: check_key_age_def key_too_old_def Let_def split: sum.splits option.splits)

record agent_env =
  ae_core_dump :: "string option"
  ae_home :: "string option"
  ae_meta :: "string \<Rightarrow> meta_error + int option"
  ae_now :: int
  ae_key :: "string \<Rightarrow> key_error option"
  ae_parse_cert :: "bytes \<Rightarrow> string + bytes"
  ae_carrier :: "string option"
  ae_own_pin :: "string + string"
  ae_version :: string
  ae_resolve :: "string \<Rightarrow> string option"
  ae_bind :: "socket_family \<Rightarrow> string \<Rightarrow> string option"
  ae_transport :: "string option"
  ae_listen :: "string option"
  ae_run :: "tls_config \<Rightarrow> router \<Rightarrow> serve_opts \<Rightarrow> cli_error option"

text \<open>\<open>ae_run\<close> is what the session loop returns; a \<open>None\<close> among the failures is a success.\<close>

datatype agent_event =
    Core_dump_tried
  | Key_read
  | Bound socket_family
  | Unbound
  | Transport_up
  | Transport_down
  | Listener_up
  | Listener_down
  | Serves_sessions tls_config router serve_opts
  | Dials_out string tls_config router serve_opts

definition agent_serve_opts :: "agent \<Rightarrow> string \<Rightarrow> string \<Rightarrow> int \<Rightarrow> serve_opts" where
  "agent_serve_opts a own version started =
    \<lparr>so_own_pin = own, so_policy = None, so_names = None, so_allow = ag_allow_mutation a, so_version = version, so_started = Some started\<rparr>"

definition agent_dial_out ::
  "agent_env \<Rightarrow> string \<Rightarrow> tls_config \<Rightarrow> router \<Rightarrow> serve_opts \<Rightarrow> cli_error option \<times> agent_event list"
where
  "agent_dial_out env addr tls r opt =
    (case dialable_addr addr of
       Some e \<Rightarrow> (Some (Go_error (Config_invalid (Inl e)) []), [])
     | None \<Rightarrow>
       (case ae_bind env (dialing_family addr) addr of
          Some e \<Rightarrow> (Some (plain_error e), [])
        | None \<Rightarrow>
          (case ae_transport env of
             Some e \<Rightarrow> (Some (plain_error e), [Bound (dialing_family addr), Unbound])
           | None \<Rightarrow> (ae_run env tls r opt,
               [Bound (dialing_family addr), Transport_up, Dials_out addr tls r opt, Transport_down, Unbound]))))"

definition agent_listen ::
  "agent_env \<Rightarrow> string \<Rightarrow> tls_config \<Rightarrow> router \<Rightarrow> serve_opts \<Rightarrow> cli_error option \<times> agent_event list"
where
  "agent_listen env addr tls r opt =
    (case ae_resolve env addr of
       Some e \<Rightarrow> (Some (plain_error e), [])
     | None \<Rightarrow>
       (case ae_bind env Udp_both addr of
          Some e \<Rightarrow> (Some (plain_error e), [])
        | None \<Rightarrow>
          (case ae_transport env of
             Some e \<Rightarrow> (Some (plain_error e), [Bound Udp_both, Unbound])
           | None \<Rightarrow>
             (case ae_listen env of
                Some e \<Rightarrow> (Some (plain_error e), [Bound Udp_both, Transport_up, Transport_down, Unbound])
              | None \<Rightarrow> (ae_run env tls r opt,
                  [Bound Udp_both, Transport_up, Listener_up, Serves_sessions tls r opt, Listener_down, Transport_down, Unbound])))))"

definition agent_run :: "agent_env \<Rightarrow> agent \<Rightarrow> string \<Rightarrow> identity_section \<Rightarrow> cli_error option \<times> agent_event list" where
  "agent_run env a key_file ident =
    (let path = expand_home (ae_home env) key_file in
     case check_key_age (ae_meta env path) (ae_now env) ident of
       Some e \<Rightarrow> (Some e, [Core_dump_tried])
     | None \<Rightarrow>
       (case ae_key env path of
          Some _ \<Rightarrow> (Some (plain_error ''load identity key''), [Core_dump_tried])
        | None \<Rightarrow>
          (let early = [Core_dump_tried, Key_read] in
           case (if ag_dial a \<noteq> [] then agent_dial_tls (ae_parse_cert env) (ae_carrier env) (ag_clients a)
                 else agent_listen_tls (ae_parse_cert env) (ae_carrier env) (ag_clients a)) of
             Inl _ \<Rightarrow> (Some (plain_error ''TLS config''), early)
           | Inr tls \<Rightarrow>
             (case new_with_vhosts (ag_routes a) (ag_vhosts a) (Some allow_all) of
                Inl _ \<Rightarrow> (Some (plain_error ''route table''), early)
              | Inr r \<Rightarrow>
                (case ae_own_pin env of
                   Inl _ \<Rightarrow> (Some (plain_error ''own pin''), early)
                 | Inr own \<Rightarrow>
                   (let opt = agent_serve_opts a own (ae_version env) (go_quot (ae_now env) (10 ^ 6));
                        (err, evs) = (if ag_dial a \<noteq> [] then agent_dial_out env (ag_dial a) tls r opt
                                      else agent_listen env (ag_listen a) tls r opt) in (err, early @ evs)))))))"

definition agent_cmd :: "agent_env \<Rightarrow> agent_flags \<Rightarrow> config \<Rightarrow> cli_error option \<times> agent_event list" where
  "agent_cmd env fl cfg =
    (if flag_clash fl then (Some (usage_error ''two flags set the same route''), [])
     else (let eff = effective_config fl cfg in
       case validate_config Role_agent eff of
         (_, Some e) \<Rightarrow> (Some (Go_error (Config_invalid (Inr e)) []), [])
       | (_, None) \<Rightarrow>
         (case cf_agent eff of
            None \<Rightarrow> (None, [])
          | Some a \<Rightarrow> agent_run env a (is_key_file (cf_identity eff)) (cf_identity eff))))"

text \<open>A configuration without an agent section never gets past validation.\<close>

lemma valid_has_agent: "snd (validate_config Role_agent c) = None \<Longrightarrow> cf_agent c \<noteq> None"
  by (auto simp: validate_config_def validate_agent_def split: option.splits)

lemma valid_agent_parts:
  assumes "snd (validate_config Role_agent c) = None" "cf_agent c = Some a"
  shows "ag_listen a = [] \<longleftrightarrow> ag_dial a \<noteq> []" "ag_clients a \<noteq> []" "[] \<notin> set (ag_clients a)"
    "\<exists>r. new_with_vhosts (ag_routes a) (ag_vhosts a) pol = Inr r"
proof -
  have "validate_agent c = None" using assms(1) by (simp add: validate_config_def split: option.splits)
  then have a: "ag_listen a = [] \<longleftrightarrow> ag_dial a \<noteq> []" "ag_clients a \<noteq> []" "check_clients 0 (ag_clients a) = None"
    "check_routes (ag_routes a) = None" "length (ag_vhosts a) \<le> max_vhosts" "check_vhosts (ag_vhosts a) = None"
    using assms(2) by (auto simp: validate_agent_def split: option.splits if_splits)
  then show "ag_listen a = [] \<longleftrightarrow> ag_dial a \<noteq> []" "ag_clients a \<noteq> []" by simp_all
  show "[] \<notin> set (ag_clients a)" using a(3) strict_pin_nonempty by (auto simp: check_clients_iff)
  show "\<exists>r. new_with_vhosts (ag_routes a) (ag_vhosts a) pol = Inr r" by (rule valid_tables_build [OF a(4,6,5)])
qed

text \<open>What the flags decide: a list of clients given by flags is the whole list, a route given by a flag is that route,
  and everything else is as the file has it.\<close>

lemma fold_update_map_of:
  "map_of (foldl (\<lambda>acc (n, a). AList.update n a acc) rs fs) = map_of rs ++ map_of (rev fs)"
  by (induction fs arbitrary: rs) (auto simp: update_conv' map_add_def fun_eq_iff split: option.splits)

lemma put_route_map_of: "map_of (put_route n f rs) = (case f of None \<Rightarrow> map_of rs | Some a \<Rightarrow> (map_of rs)(n \<mapsto> a))"
  by (simp add: put_route_def update_conv' split: option.split)

lemma overlay_routes_map_of:
  assumes "distinct (map fst (flag_routes fl))"
  shows "map_of (overlay_routes fl rs) n =
    (case map_of (flag_routes fl) n of
       Some a \<Rightarrow> Some a
     | None \<Rightarrow>
       if n = ''docker'' \<and> af_docker_addr fl \<noteq> None then af_docker_addr fl
       else if n = ''ssh'' \<and> af_ssh_addr fl \<noteq> None then af_ssh_addr fl else map_of rs n)"
proof -
  have "map_of (rev (flag_routes fl)) = map_of (flag_routes fl)"
    using assms by (subst map_of_inject_set) (simp_all flip: rev_map)
  then show ?thesis
    by (auto simp: overlay_routes_def fold_update_map_of put_route_map_of map_add_def split: option.splits)
qed

definition gives_back :: "agent_event list \<Rightarrow> bool" where
  "gives_back evs \<longleftrightarrow> length (filter (\<lambda>e. \<exists>f. e = Bound f) evs) = count_list evs Unbound \<and>
     count_list evs Transport_up = count_list evs Transport_down \<and> count_list evs Listener_up = count_list evs Listener_down"

definition serving :: "agent_event \<Rightarrow> (string option \<times> tls_config \<times> router \<times> serve_opts) option" where
  "serving e = (case e of Serves_sessions t r opt \<Rightarrow> Some (None, t, r, opt) | Dials_out d t r opt \<Rightarrow> Some (Some d, t, r, opt) | _ \<Rightarrow> None)"

lemma agent_listen_shape:
  assumes "agent_listen env addr tls r opt = (err, evs)"
  shows "gives_back evs" and "\<forall>e\<in>set evs. serving e = None \<or> serving e = Some (None, tls, r, opt)"
  using assms by (auto simp: agent_listen_def gives_back_def serving_def split: option.splits)

lemma agent_dial_out_shape:
  assumes "agent_dial_out env addr tls r opt = (err, evs)"
  shows "gives_back evs" and "\<forall>e\<in>set evs. serving e = None \<or> serving e = Some (Some addr, tls, r, opt)"
  using assms by (auto simp: agent_dial_out_def gives_back_def serving_def split: option.splits)

lemma agent_run_shape:
  assumes run: "agent_run env a key_file ident = (err, evs)" and "ag_clients a \<noteq> []" "[] \<notin> set (ag_clients a)"
  shows "evs = [Core_dump_tried] \<and> err \<noteq> None \<or>
    (\<exists>rest. evs = Core_dump_tried # Key_read # rest \<and> gives_back rest \<and>
      ae_key env (expand_home (ae_home env) key_file) = None \<and>
      check_key_age (ae_meta env (expand_home (ae_home env) key_file)) (ae_now env) ident = None \<and>
      (\<forall>e\<in>set rest. \<forall>d t r opt. serving e = Some (d, t, r, opt) \<longrightarrow>
         (d = (if ag_dial a \<noteq> [] then Some (ag_dial a) else None)) \<and>
         pinning_tls (ae_parse_cert env) None (if ag_dial a \<noteq> [] then Mode_dial else Mode_listen) (ag_clients a) = Inr t \<and>
         new_with_vhosts (ag_routes a) (ag_vhosts a) (Some allow_all) = Inr r \<and> so_allow opt = ag_allow_mutation a \<and>
         so_policy opt = None \<and> so_names opt = None \<and> Inr (so_own_pin opt) = ae_own_pin env))"
proof -
  let ?path = "expand_home (ae_home env) key_file"
  let ?mode = "if ag_dial a \<noteq> [] then Mode_dial else Mode_listen"
  have tls: "(if ag_dial a \<noteq> [] then agent_dial_tls (ae_parse_cert env) (ae_carrier env) (ag_clients a)
      else agent_listen_tls (ae_parse_cert env) (ae_carrier env) (ag_clients a)) =
      pinning_tls (ae_parse_cert env) (ae_carrier env) ?mode (ag_clients a)"
    by (simp add: agent_dial_tls_def agent_listen_tls_def)
  show ?thesis
  proof (cases "check_key_age (ae_meta env ?path) (ae_now env) ident = None \<and> ae_key env ?path = None")
    case False
    then show ?thesis using run by (auto simp: agent_run_def Let_def split: option.splits)
  next
    case True
    show ?thesis
    proof (cases "\<exists>t r own. pinning_tls (ae_parse_cert env) (ae_carrier env) ?mode (ag_clients a) = Inr t \<and>
        new_with_vhosts (ag_routes a) (ag_vhosts a) (Some allow_all) = Inr r \<and> ae_own_pin env = Inr own")
      case False
      then have "evs = [Core_dump_tried, Key_read]"
        using run True unfolding agent_run_def Let_def tls by (auto split: sum.splits)
      then show ?thesis using True by (auto simp: gives_back_def)
    next
      case ok: True
      then obtain t r own where t: "pinning_tls (ae_parse_cert env) (ae_carrier env) ?mode (ag_clients a) = Inr t"
        "new_with_vhosts (ag_routes a) (ag_vhosts a) (Some allow_all) = Inr r" "ae_own_pin env = Inr own" by blast
      have "ae_carrier env = None" using t(1) assms(2,3) by (auto simp: pinning_tls_def split: option.splits)
      let ?opt = "agent_serve_opts a own (ae_version env) (go_quot (ae_now env) (10 ^ 6))"
      obtain rest where r: "evs = Core_dump_tried # Key_read # rest"
        "(if ag_dial a \<noteq> [] then agent_dial_out env (ag_dial a) t r ?opt else agent_listen env (ag_listen a) t r ?opt) = (err, rest)"
        using run True t unfolding agent_run_def Let_def tls by (auto split: prod.splits)
      have "gives_back rest \<and> (\<forall>e\<in>set rest. serving e = None \<or>
          serving e = Some (if ag_dial a \<noteq> [] then Some (ag_dial a) else None, t, r, ?opt))"
        by (cases "ag_dial a = []")
          (use r(2) agent_listen_shape [of env _ t r ?opt err rest] agent_dial_out_shape [of env _ t r ?opt err rest] in simp_all)
      then show ?thesis
        using r(1) True t \<open>ae_carrier env = None\<close> by (fastforce simp: agent_serve_opts_def)
    qed
  qed
qed

definition file_agent :: "config \<Rightarrow> agent" where
  "file_agent cfg = (case cf_agent cfg of None \<Rightarrow> empty_agent | Some a \<Rightarrow> a)"

lemma overlay_parts:
  "ag_clients (overlay_agent fl a) = or_else (af_clients fl) (ag_clients a)"
  "ag_routes (overlay_agent fl a) = overlay_routes fl (ag_routes a)" "ag_vhosts (overlay_agent fl a) = ag_vhosts a"
  "ag_allow_mutation (overlay_agent fl a) = ag_allow_mutation a"
  "af_dial fl = Some d \<Longrightarrow> d \<noteq> [] \<Longrightarrow> ag_dial (overlay_agent fl a) = d \<and> ag_listen (overlay_agent fl a) = or_else (af_listen fl) []"
  by (auto simp: overlay_agent_def Let_def or_else_def split: option.splits)

lemma effective_agent:
  assumes "cf_agent (effective_config fl cfg) = Some a"
  shows "a = overlay_agent fl (file_agent cfg)"
  using assms by (auto simp: effective_config_def file_agent_def split: option.splits if_splits)

text \<open>What a session loop was started with, measured against the flags and the file.\<close>

definition serves_merged :: "agent_env \<Rightarrow> agent_flags \<Rightarrow> config \<Rightarrow> agent_event \<Rightarrow> bool" where
  "serves_merged env fl cfg e \<longleftrightarrow> (\<forall>d tls r opt. serving e = Some (d, tls, r, opt) \<longrightarrow>
     (let clients = or_else (af_clients fl) (ag_clients (file_agent cfg)) in
        new_with_vhosts (overlay_routes fl (ag_routes (file_agent cfg))) (ag_vhosts (file_agent cfg)) (Some allow_all) = Inr r \<and>
        (\<forall>chain_ok resumed certs. tls_accepts chain_ok (if d = None then Mode_listen else Mode_dial) tls resumed certs \<longleftrightarrow>
           (\<exists>leaf rest spki. certs = leaf # rest \<and> ae_parse_cert env leaf = Inr spki \<and> pin spki \<in> set clients)) \<and>
        (\<forall>peer. cs_policy (session_server opt peer) = mutation_policy (ag_allow_mutation (file_agent cfg))) \<and>
        (\<forall>x. af_dial fl = Some x \<and> x \<noteq> [] \<longrightarrow> d = Some x)))"

lemma merged_serving:
  assumes "pinning_tls (ae_parse_cert env) None (if ag_dial a \<noteq> [] then Mode_dial else Mode_listen) (ag_clients a) = Inr tls"
    and "new_with_vhosts (ag_routes a) (ag_vhosts a) (Some allow_all) = Inr r" "so_allow opt = ag_allow_mutation a" "so_policy opt = None"
    and "a = overlay_agent fl (file_agent cfg)" "serving e = Some (if ag_dial a \<noteq> [] then Some (ag_dial a) else None, tls, r, opt)"
  shows "serves_merged env fl cfg e"
proof -
  let ?d = "if ag_dial a \<noteq> [] then Some (ag_dial a) else None"
  have t: "pinning_tls (ae_parse_cert env) None (if ?d = None then Mode_listen else Mode_dial) (ag_clients a) = Inr tls"
    using assms(1) by (auto split: if_splits)
  have "tls_accepts chain_ok (if ?d = None then Mode_listen else Mode_dial) tls resumed certs \<longleftrightarrow>
      (\<exists>leaf rest spki. certs = leaf # rest \<and> ae_parse_cert env leaf = Inr spki \<and>
         pin spki \<in> set (or_else (af_clients fl) (ag_clients (file_agent cfg))))" for chain_ok resumed certs
    unfolding admits_listed [OF t] using assms(5) by (auto simp: overlay_parts)
  then show ?thesis
    using assms(2-6) unfolding serves_merged_def Let_def by (auto simp: overlay_parts session_server_def)
qed

text \<open>
  C33: the agent serves what its flags and file say and admits exactly the listed keys. Whatever fails, the private key
  is read only after core dumps were dealt with, nothing is bound before the merged configuration is valid, the key's
  age allowed and the key loaded, and all that was taken is given back. When sessions are served, over either
  direction, the router is the one built from the file's names and from its routes with each flag's route in its
  place, a handshake completes exactly for the keys listed, those of the flags alone if flags list any, and whether a
  client may change what is published is what the file says and nothing a flag can change.
\<close>

theorem agent_serves_as_configured:
  assumes "agent_cmd env fl cfg = (err, evs)"
  shows "(evs = [] \<longrightarrow> (\<exists>e. err = Some e \<and> exit_code_for_error e = 2)) \<and>
    (evs \<noteq> [] \<longrightarrow> snd (validate_config Role_agent (effective_config fl cfg)) = None \<and> hd evs = Core_dump_tried) \<and> (tl evs \<noteq> [] \<longrightarrow> evs ! 1 = Key_read) \<and> gives_back evs \<and>
    (\<forall>e\<in>set evs. \<forall>d tls r opt. serving e = Some (d, tls, r, opt) \<longrightarrow>
       (let clients = or_else (af_clients fl) (ag_clients (file_agent cfg)) in
        new_with_vhosts (overlay_routes fl (ag_routes (file_agent cfg))) (ag_vhosts (file_agent cfg)) (Some allow_all) = Inr r \<and>
        (\<forall>chain_ok resumed certs. tls_accepts chain_ok (if d = None then Mode_listen else Mode_dial) tls resumed certs \<longleftrightarrow>
           (\<exists>leaf rest spki. certs = leaf # rest \<and> ae_parse_cert env leaf = Inr spki \<and> pin spki \<in> set clients)) \<and>
        cs_policy (session_server opt peer) = mutation_policy (ag_allow_mutation (file_agent cfg)) \<and>
        (\<forall>x. af_dial fl = Some x \<and> x \<noteq> [] \<longrightarrow> d = Some x)))"
proof (cases "flag_clash fl")
  case True
  then show ?thesis using assms by (auto simp: agent_cmd_def gives_back_def)
next
  case False
  let ?eff = "effective_config fl cfg"
  show ?thesis
  proof (cases "snd (validate_config Role_agent ?eff)")
    case (Some e)
    then show ?thesis using assms False
      by (auto simp: agent_cmd_def Let_def gives_back_def exit_code_for_error_def class_code_def find_as_def is_error_wrap
          split: prod.splits)
  next
    case None
    then obtain a where a: "cf_agent ?eff = Some a" using valid_has_agent by blast
    note parts = valid_agent_parts [OF None a]
    have run: "agent_run env a (is_key_file (cf_identity ?eff)) (cf_identity ?eff) = (err, evs)"
      using assms False None a by (auto simp: agent_cmd_def Let_def split: prod.splits)
    have o: "a = overlay_agent fl (file_agent cfg)" using a by (rule effective_agent)
    consider "evs = [Core_dump_tried]" "err \<noteq> None"
      | rest where "evs = Core_dump_tried # Key_read # rest" "gives_back rest" "\<forall>e\<in>set rest. serves_merged env fl cfg e"
    proof -
      from agent_run_shape [OF run parts(2,3)] show ?thesis
      proof (elim disjE exE conjE)
        fix rest
        assume "evs = Core_dump_tried # Key_read # rest" "gives_back rest" and
          s: "\<forall>e\<in>set rest. \<forall>d t r opt. serving e = Some (d, t, r, opt) \<longrightarrow>
            d = (if ag_dial a \<noteq> [] then Some (ag_dial a) else None) \<and>
            pinning_tls (ae_parse_cert env) None (if ag_dial a \<noteq> [] then Mode_dial else Mode_listen) (ag_clients a) = Inr t \<and>
            new_with_vhosts (ag_routes a) (ag_vhosts a) (Some allow_all) = Inr r \<and> so_allow opt = ag_allow_mutation a \<and>
            so_policy opt = None \<and> so_names opt = None \<and> Inr (so_own_pin opt) = ae_own_pin env"
        moreover have "serves_merged env fl cfg e" if "e \<in> set rest" for e
        proof (cases "serving e")
          case (Some x)
          obtain d t r opt where x: "x = (d, t, r, opt)" by (cases x)
          show ?thesis using s that Some x o merged_serving [of env a t r opt fl cfg e] by auto
        qed (simp add: serves_merged_def)
        ultimately show ?thesis using that by blast
      qed (use that in blast)
    qed
    then show ?thesis
    proof cases
      case 1
      then show ?thesis using None by (simp add: gives_back_def serving_def)
    next
      case 2
      have "\<forall>e\<in>set evs. serves_merged env fl cfg e" using 2 by (auto simp: serves_merged_def serving_def)
      then show ?thesis using 2 None unfolding serves_merged_def by (simp add: gives_back_def)
    qed
  qed
qed

definition sample_agent_env :: agent_env where
  "sample_agent_env = \<lparr>ae_core_dump = None, ae_home = None, ae_meta = (\<lambda>_. Inr None), ae_now = 0, ae_key = (\<lambda>_. None),
     ae_parse_cert = Inr, ae_carrier = None, ae_own_pin = Inr ''p'', ae_version = ''1'', ae_resolve = (\<lambda>_. None),
     ae_bind = (\<lambda>_ _. None), ae_transport = None, ae_listen = None,
     ae_run = (\<lambda>_ _ _. Some (Go_error Context_canceled []))\<rparr>"

definition given_no_flags :: agent_flags where
  "given_no_flags = \<lparr>af_listen = None, af_dial = None, af_ssh_addr = None, af_docker_addr = None, af_routes = None,
     af_key = None, af_clients = None\<rparr>"

theorem agent_serves_as_configured_witness:
  "\<exists>evs tls r opt. agent_cmd sample_agent_env given_no_flags sample_config = (Some (Go_error Context_canceled []), evs) \<and>
     Serves_sessions tls r opt \<in> set evs \<and>
     (\<forall>certs. tls_accepts (\<lambda>_. False) Mode_listen tls False certs \<longleftrightarrow>
        (\<exists>leaf rest. certs = leaf # rest \<and> pin leaf = sample_pin))"
proof -
  have v: "validate_agent sample_config = None"
    by (simp add: validate_agent_def sample_config_def sample_pin_strict empty_agent_def max_vhosts_def)
  then obtain ws where ws: "validate_config Role_agent sample_config = (ws, None)" by (simp add: validate_config_def)
  have fa: "file_agent sample_config = empty_agent\<lparr>ag_listen := ''h:1'', ag_clients := [sample_pin]\<rparr>"
    by (simp add: file_agent_def sample_config_def)
  have eff: "effective_config given_no_flags sample_config = sample_config"
    by (simp add: effective_config_def given_no_flags_def sample_config_def overlay_agent_def or_else_def overlay_routes_def
        put_route_def flag_routes_def empty_agent_def)
  let ?a = "empty_agent\<lparr>ag_listen := ''h:1'', ag_clients := [sample_pin]\<rparr>"
  have a: "cf_agent sample_config = Some ?a" by (simp add: sample_config_def)
  obtain r where r: "new_with_vhosts (ag_routes ?a) (ag_vhosts ?a) (Some allow_all) = Inr r"
    using valid_agent_parts(4) [OF _ a] ws by auto
  obtain tls where t: "pinning_tls Inr None Mode_listen [sample_pin] = Inr tls"
    using strict_pin_nonempty [OF sample_pin_strict] by (simp add: pinning_tls_def Let_def)
  have "\<not> flag_clash given_no_flags" by (simp add: flag_clash_def given_no_flags_def)
  then have "agent_cmd sample_agent_env given_no_flags sample_config =
      agent_run sample_agent_env ?a (is_key_file (cf_identity sample_config)) (cf_identity sample_config)"
    by (simp add: agent_cmd_def eff ws a)
  moreover have "check_key_age (Inr None) 0 (cf_identity sample_config) = None" by (simp add: check_key_age_def)
  moreover have "agent_listen_tls Inr None [sample_pin] = Inr tls" using t by (simp add: agent_listen_tls_def)
  ultimately obtain opt evs where e:
    "agent_cmd sample_agent_env given_no_flags sample_config = (Some (Go_error Context_canceled []), evs)"
    "Serves_sessions tls r opt \<in> set evs"
    using r by (simp add: agent_run_def sample_agent_env_def agent_listen_def empty_agent_def Let_def)
  from agent_serves_as_configured [OF e(1)] e(2) have
    "\<forall>certs. tls_accepts (\<lambda>_. False) Mode_listen tls False certs \<longleftrightarrow>
       (\<exists>leaf rest. certs = leaf # rest \<and> pin leaf = sample_pin)"
    by (fastforce simp: serving_def Let_def fa or_else_def given_no_flags_def sample_agent_env_def)
  then show ?thesis using e by blast
qed

text \<open>
  A dial flag drops the file's listen address; a listen flag does not drop the file's dial address, and the merged view
  is refused for setting both.
\<close>

lemma listen_flag_refused:
  assumes "cf_agent cfg = Some a" "ag_dial a \<noteq> []" "af_listen fl = Some l" "l \<noteq> []" "af_dial fl = None" "\<not> flag_clash fl"
  shows "agent_cmd env fl cfg = (Some (Go_error (Config_invalid (Inr (Cf_agent Ag_both_set))) []), [])"
proof -
  have "cf_agent (effective_config fl cfg) = Some (overlay_agent fl a)" using assms(1) by (simp add: effective_config_def)
  moreover have "ag_listen (overlay_agent fl a) = l" "ag_dial (overlay_agent fl a) = ag_dial a"
    using assms by (simp_all add: overlay_agent_def or_else_def Let_def)
  ultimately have "validate_config Role_agent (effective_config fl cfg) = ([], Some (Cf_agent Ag_both_set))"
    using assms by (simp add: validate_config_def validate_agent_def)
  then show ?thesis using assms(6) by (simp add: agent_cmd_def)
qed

end
