(* ===== verification/Cli_Stdio.thy ===== *)
theory Cli_Stdio
  imports Cli_Servers Cli_Agent Control_Open Fwd_Preflight
begin

text \<open>
  \<^verbatim>\<open>cmd/quic-link/stdio.go\<close>: one stream to a target over standard input and output, through the daemon when there is
  one and over a session of its own when there is not.

  The attach over the socket is \<open>client_attach\<close>; the session is dialled, its control stream opened by \<open>open_control\<close>
  and its stream answered by \<open>await_response\<close>. The splice itself is that of \<^verbatim>\<open>Tunnel_Attach\<close>.
\<close>

datatype stdio_end = Spliced_daemon | Spliced_direct | Stdio_fails cli_error

datatype stdio_line = Agent_refused_line string | Plain_line string

record session_env =
  sn_home :: "string option"
  sn_key :: "string \<Rightarrow> key_error option"
  sn_carrier :: "string option"
  sn_parse_cert :: "bytes \<Rightarrow> string + bytes"
  sn_bind :: "socket_family \<Rightarrow> string option"
  sn_transport :: "string option"
  sn_dial :: "string \<Rightarrow> conn_error option"
  sn_enc :: "header \<Rightarrow> string + bytes"
  sn_dec :: "bytes \<Rightarrow> string + response"
  sn_open :: open_env
  sn_key_created :: string
  sn_stream :: "conn_error option"
  sn_writer :: writer
  sn_reader :: reader
  sn_race :: race

record stdio_env = cli_env +
  st_reqid :: string
  st_armed :: "string option"
  st_session :: session_env

text \<open>The server's settings with the flags over them, and whether the file has the server.\<close>

definition bare_server :: server where
  "bare_server = \<lparr>sv_addr = [], sv_listen = [], sv_pin = [], sv_enabled = None, sv_local_ports = Map.empty\<rparr>"

definition overlay_server :: "string option \<Rightarrow> string option \<Rightarrow> server \<Rightarrow> server" where
  "overlay_server server_flag pin_flag srv =
    (let s1 = (case server_flag of None \<Rightarrow> srv | Some a \<Rightarrow> srv\<lparr>sv_addr := a, sv_listen := []\<rparr>) in
     case pin_flag of None \<Rightarrow> s1 | Some p \<Rightarrow> s1\<lparr>sv_pin := p\<rparr>)"

definition stdio_server :: "cli_env \<Rightarrow> config \<Rightarrow> string option \<Rightarrow> string option \<Rightarrow> string \<Rightarrow> cli_error + server" where
  "stdio_server env cfg server_flag pin_flag name =
    (let found = map_of (cf_servers cfg) name; srv = (case found of None \<Rightarrow> bare_server | Some s \<Rightarrow> s);
         eff = overlay_server server_flag pin_flag srv in
     if found = None \<and> server_flag = None \<and> pin_flag = None \<and> require_known_server env cfg name \<noteq> None
       then Inl (the (require_known_server env cfg name))
     else if found \<noteq> None \<and> sv_disabled eff then Inl (Go_error (Final_exit 3 (''server is disabled: '' @ name)) [])
     else Inr eff)"

definition client_tls_from_flags :: "session_env \<Rightarrow> string \<Rightarrow> string \<Rightarrow> cli_error + tls_config" where
  "client_tls_from_flags sn key_file peer =
    (case sn_key sn (expand_home (sn_home sn) key_file) of
       Some _ \<Rightarrow> Inl (plain_error ''load identity key'')
     | None \<Rightarrow>
       (case client_dial_tls (sn_parse_cert sn) (sn_carrier sn) peer of
          Inl _ \<Rightarrow> Inl (plain_error ''TLS config'')
        | Inr tls \<Rightarrow> Inr tls))"

definition refused_directly :: "response \<Rightarrow> stdio_end \<times> stdio_line list" where
  "refused_directly resp =
    (let msg = sanitize_agent_string (r_msg resp) in
     (Stdio_fails (Go_error (Agent_status (r_status resp) msg) []), [Agent_refused_line msg]))"

definition stdio_run :: "session_env \<Rightarrow> string \<Rightarrow> string \<Rightarrow> string \<Rightarrow> string \<Rightarrow> string \<Rightarrow> stdio_end \<times> stdio_line list" where
  "stdio_run sn addr target key_file peer reqid =
    (case client_tls_from_flags sn key_file peer of
       Inl e \<Rightarrow> (Stdio_fails e, [])
     | Inr _ \<Rightarrow>
       (case sn_bind sn (dialing_family addr) of
          Some e \<Rightarrow> (Stdio_fails (plain_error e), [])
        | None \<Rightarrow>
          (case sn_transport sn of
             Some e \<Rightarrow> (Stdio_fails (plain_error e), [])
           | None \<Rightarrow>
             (case sn_dial sn addr of
                Some e \<Rightarrow> (Stdio_fails (wrapped ''dial'' (conn_failure e)), [])
              | None \<Rightarrow>
                (case fst (open_control (sn_enc sn) (sn_dec sn) (sn_open sn) ''quic-link stdio'' (sn_key_created sn)) of
                   Some e \<Rightarrow> (Stdio_fails (wrapped ''control'' (conn_failure e)), [])
                 | None \<Rightarrow>
                   (case sn_stream sn of
                      Some e \<Rightarrow> (Stdio_fails (wrapped ''open stream'' (conn_failure e)), [])
                    | None \<Rightarrow>
                      (case fst (write_header (sn_enc sn) (sn_writer sn) (tcp_header target reqid)) of
                         Some _ \<Rightarrow> (Stdio_fails (plain_error ''write header''), [])
                       | None \<Rightarrow>
                         (case fst (await_response (sn_dec sn) (sn_reader sn) (sn_race sn)) of
                            Inl _ \<Rightarrow> (Stdio_fails (plain_error ''await response''), [])
                          | Inr resp \<Rightarrow>
                            if r_status resp \<noteq> status_ok then refused_directly resp
                            else (Spliced_direct, [])))))))))"

definition stdio_direct ::
  "stdio_env \<Rightarrow> server \<Rightarrow> string \<Rightarrow> string \<Rightarrow> string \<Rightarrow> stdio_end \<times> stdio_line list" where
  "stdio_direct env srv name target key_file =
    (if sv_listen srv \<noteq> [] \<and> sv_addr srv = []
       then (Stdio_fails (Go_error (Final_exit 3 (''waits for its agent to connect: '' @ name)) []), [])
     else if sv_addr srv = [] then (Stdio_fails (usage_error ''--server is required''), [])
     else (case parse_pin_strict (sv_pin srv) of
         Inl _ \<Rightarrow> (Stdio_fails (usage_error ''pin''), [])
       | Inr peer \<Rightarrow> stdio_run (st_session env) (sv_addr srv) target key_file peer (st_reqid env)))"

definition stdio_attach :: "stdio_env \<Rightarrow> string \<Rightarrow> string \<Rightarrow> client_error + client_conn" where
  "stdio_attach env name target =
    fst (client_attach (ce_codec env) (ce_conn env) (st_armed env) name target [''reqid'' \<mapsto> st_reqid env])"

definition stdio_cmd ::
  "stdio_env \<Rightarrow> config \<Rightarrow> string option \<Rightarrow> string option \<Rightarrow> string option \<Rightarrow> string \<Rightarrow> string \<Rightarrow> stdio_end \<times> stdio_line list"
where
  "stdio_cmd env cfg server_flag pin_flag key_flag name target =
    (case stdio_server (cli_env.truncate env) cfg server_flag pin_flag name of
       Inl e \<Rightarrow> (Stdio_fails e, [])
     | Inr srv \<Rightarrow>
       (let direct = stdio_direct env srv name target (or_else key_flag (is_key_file (cf_identity cfg))) in
        case ce_sock env of
          Inl _ \<Rightarrow> direct
        | Inr _ \<Rightarrow>
          (case stdio_attach env name target of
             Inr _ \<Rightarrow> (Spliced_daemon, [])
           | Inl (Cl_daemon_absent _) \<Rightarrow> direct
           | Inl (Cl_schema k) \<Rightarrow> (Stdio_fails (socket_error (Cl_schema k)), [Plain_line ''daemon socket schema mismatch''])
           | Inl (Cl_attach st m) \<Rightarrow> (Stdio_fails (Go_error (Final_exit st m) []), [if st = 3 then Plain_line m else Agent_refused_line m])
           | Inl _ \<Rightarrow> direct)))"

definition stdio_exit :: "stdio_end \<Rightarrow> int" where
  "stdio_exit r = (case r of Stdio_fails e \<Rightarrow> fst (main_exit (Some e)) | _ \<Rightarrow> 0)"

subsection \<open>The same code either way\<close>

lemma main_final [simp]: "main_exit (Some (Go_error (Final_exit c m) [])) = (c, False)"
  by (simp add: main_exit_def is_error_wrap find_as_def)

lemma main_status [simp]: "main_exit (Some (Go_error (Agent_status s m) [])) = (int (exit_code_for_status s), False)"
  by (simp add: main_exit_def is_error_wrap find_as_def exit_code_for_error_def)

lemma main_schema [simp]: "fst (main_exit (Some (socket_error (Cl_schema k)))) = 3"
  by (simp add: main_exit_def socket_error_def cli_error_simps)

lemma refused_directly_exit:
  "stdio_exit (fst (refused_directly resp)) = int (exit_code_for_status (r_status resp))"
  "snd (refused_directly resp) = [Agent_refused_line (sanitize_agent_string (r_msg resp))]"
  by (simp_all add: refused_directly_def stdio_exit_def Let_def)

text \<open>What the program concludes when the daemon's socket answers.\<close>

lemma stdio_over_daemon:
  fixes env :: stdio_env
  defines "meta \<equiv> [''reqid'' \<mapsto> st_reqid env]"
  assumes conn: "ce_conn env = socket_to (ce_codec env) de (attach_request name target meta)" "st_armed env = None"
    and q: "ipc_codec_ok (ck_enc (ce_codec env)) (de_dec de) (attach_request name target meta)"
    and r: "\<And>r. r \<in> set (replies (handle_attach (de_wide de) (de_ctx de) (de_server de) (de_in_flight de)
        (attach_request name target meta))) \<Longrightarrow> ipc_codec_ok (de_enc de) (ck_dec (ce_codec env)) r"
    and uid: "uint (de_uid de) = sv_uid (de_server de)"
    and srv: "stdio_server (cli_env.truncate env) cfg server_flag pin_flag name = Inr srv" "ce_sock env = Inr s"
  shows "case attach_fate_of de name target meta of
      Agent_answers resp \<Rightarrow>
        if r_status resp = status_ok then stdio_cmd env cfg server_flag pin_flag key_flag name target = (Spliced_daemon, [])
        else stdio_exit (fst (stdio_cmd env cfg server_flag pin_flag key_flag name target)) = int (exit_code_for_status (r_status resp)) \<and>
          snd (stdio_cmd env cfg server_flag pin_flag key_flag name target) = [Agent_refused_line (sanitize_agent_string (r_msg resp))]
    | Daemon_refuses st \<Rightarrow> st \<in> {1, 3} \<and> stdio_exit (fst (stdio_cmd env cfg server_flag pin_flag key_flag name target)) = sint st
    | Nobody_answers \<Rightarrow> stdio_cmd env cfg server_flag pin_flag key_flag name target =
        stdio_direct env srv name target (or_else key_flag (is_key_file (cf_identity cfg)))"
proof -
  have att: "stdio_attach env name target =
      fst (client_attach (ce_codec env) (socket_to (ce_codec env) de (attach_request name target meta)) None name target meta)"
    by (simp add: stdio_attach_def conn meta_def)
  show ?thesis
  proof (cases "attach_fate_of de name target meta")
    case (Daemon_refuses st)
    then obtain m where "stdio_attach env name target = Inl (Cl_attach (sint st) m)" "st \<in> {1, 3}"
      using client_attach_fate [OF q r uid] att by auto
    then show ?thesis using Daemon_refuses srv by (simp add: stdio_cmd_def stdio_exit_def)
  next
    case (Agent_answers resp)
    then show ?thesis using client_attach_fate [OF q r uid] att srv
      by (auto simp: stdio_cmd_def stdio_exit_def is_ok_iff exit_code_for_status_def)
  next
    case Nobody_answers
    then obtain e where "stdio_attach env name target = Inl (Cl_read e)"
      using client_attach_fate [OF q r uid] att by auto
    then show ?thesis using Nobody_answers srv by (simp add: stdio_cmd_def Let_def)
  qed
qed

text \<open>The agent's answer to a session of the program's own, when every step up to it succeeds.\<close>

definition session_answer :: "session_env \<Rightarrow> string \<Rightarrow> string \<Rightarrow> string \<Rightarrow> string \<Rightarrow> string \<Rightarrow> response option" where
  "session_answer sn addr target key_file peer reqid =
    (if is_ok (client_tls_from_flags sn key_file peer) \<and> sn_bind sn (dialing_family addr) = None \<and> sn_transport sn = None \<and>
        sn_dial sn addr = None \<and>
        fst (open_control (sn_enc sn) (sn_dec sn) (sn_open sn) ''quic-link stdio'' (sn_key_created sn)) = None \<and>
        sn_stream sn = None \<and> fst (write_header (sn_enc sn) (sn_writer sn) (tcp_header target reqid)) = None
     then (case fst (await_response (sn_dec sn) (sn_reader sn) (sn_race sn)) of Inr resp \<Rightarrow> Some resp | Inl _ \<Rightarrow> None)
     else None)"

lemma stdio_run_answered:
  assumes "session_answer sn addr target key_file peer reqid = Some resp"
  shows "stdio_run sn addr target key_file peer reqid =
    (if r_status resp = status_ok then (Spliced_direct, []) else refused_directly resp)"
  using assms by (auto simp: session_answer_def stdio_run_def is_ok_iff split: if_splits sum.splits)

lemma stdio_run_authentication:
  assumes "is_ok (client_tls_from_flags sn key_file peer)" "sn_bind sn (dialing_family addr) = None" "sn_transport sn = None"
    and "sn_dial sn addr = Some e" "is_error Auth_failed e" "\<not> is_error Unreachable e"
  shows "stdio_exit (fst (stdio_run sn addr target key_file peer reqid)) = 4"
  using assms by (auto simp: stdio_run_def is_ok_iff stdio_exit_def main_exit_def conn_failure_exit)

text \<open>
  C34: the exit code of a tunnelled stream is the agent's verdict, whichever way the stream went. Through a running
  daemon of the same user, a refusal of the agent ends the program with the code of the agent's own status and prints
  the agent's words, sanitized once; a refusal of the daemon ends it with the daemon's code, and silence falls back
  to a session of its own. There the same answer of the agent gives the same code and the same line.
\<close>

theorem stdio_code_is_the_agents:
  fixes env :: stdio_env
  defines "meta \<equiv> [''reqid'' \<mapsto> st_reqid env]"
  assumes "ce_conn env = socket_to (ce_codec env) de (attach_request name target meta)" "st_armed env = None"
    and "ipc_codec_ok (ck_enc (ce_codec env)) (de_dec de) (attach_request name target meta)"
    and "\<And>r. r \<in> set (replies (handle_attach (de_wide de) (de_ctx de) (de_server de) (de_in_flight de)
        (attach_request name target meta))) \<Longrightarrow> ipc_codec_ok (de_enc de) (ck_dec (ce_codec env)) r"
    and "uint (de_uid de) = sv_uid (de_server de)"
    and "stdio_server (cli_env.truncate env) cfg server_flag pin_flag name = Inr srv" "ce_sock env = Inr s"
  shows "(case attach_fate_of de name target meta of
      Agent_answers resp \<Rightarrow>
        stdio_exit (fst (stdio_cmd env cfg server_flag pin_flag key_flag name target)) = int (exit_code_for_status (r_status resp)) \<and>
        snd (stdio_cmd env cfg server_flag pin_flag key_flag name target) =
          (if r_status resp = status_ok then [] else [Agent_refused_line (sanitize_agent_string (r_msg resp))])
    | Daemon_refuses st \<Rightarrow> st \<in> {1, 3} \<and> stdio_exit (fst (stdio_cmd env cfg server_flag pin_flag key_flag name target)) = sint st
    | Nobody_answers \<Rightarrow> stdio_cmd env cfg server_flag pin_flag key_flag name target =
        stdio_direct env srv name target (or_else key_flag (is_key_file (cf_identity cfg)))) \<and>
    (\<forall>addr key_file peer resp. session_answer (st_session env) addr target key_file peer (st_reqid env) = Some resp \<longrightarrow>
       stdio_exit (fst (stdio_run (st_session env) addr target key_file peer (st_reqid env))) = int (exit_code_for_status (r_status resp)) \<and>
       snd (stdio_run (st_session env) addr target key_file peer (st_reqid env)) =
         (if r_status resp = status_ok then [] else [Agent_refused_line (sanitize_agent_string (r_msg resp))]))"
proof -
  have "exit_code_for_status status_ok = 0" "stdio_exit Spliced_daemon = 0" "stdio_exit Spliced_direct = 0"
    by (simp_all add: exit_code_for_status_def stdio_exit_def)
  then show ?thesis
    using stdio_over_daemon [OF assms(2-) [unfolded meta_def], of key_flag]
    by (simp add: meta_def stdio_run_answered refused_directly_exit split: attach_fate.splits)
qed

definition sample_session :: session_env where
  "sample_session = \<lparr>sn_home = None, sn_key = (\<lambda>_. Some Key_missing), sn_carrier = None, sn_parse_cert = Inr, sn_bind = (\<lambda>_. None),
     sn_transport = None, sn_dial = (\<lambda>_. None), sn_enc = (\<lambda>_. Inr []), sn_dec = (\<lambda>_. Inl []),
     sn_open = \<lparr>oe_open = None, oe_writer = \<lparr>sent = [], room = None\<rparr>, oe_reader = \<lparr>avail = [], fin = EOF\<rparr>, oe_race = Read_first,
       oe_cause = (\<lambda>_. Go_error Unreachable []), oe_client = None, oe_established = None, oe_session = None\<rparr>,
     sn_key_created = [], sn_stream = None, sn_writer = \<lparr>sent = [], room = None\<rparr>, sn_reader = \<lparr>avail = [], fin = EOF\<rparr>,
     sn_race = Read_first\<rparr>"

definition refusing_tunnel :: daemon_end where
  "refusing_tunnel = refusing_daemon\<lparr>de_dec := (\<lambda>_. Inr (attach_request ''db'' ''pg'' [''reqid'' \<mapsto> ''r'']))\<rparr>"

definition sample_stdio :: stdio_env where
  "sample_stdio = \<lparr>ce_sock = Inr ''/run/daemon.sock'', ce_codec = refused_codec,
     ce_conn = socket_to refused_codec refusing_tunnel (attach_request ''db'' ''pg'' [''reqid'' \<mapsto> ''r'']),
     ce_names = (\<lambda>_. None), st_reqid = ''r'', st_armed = None, st_session = sample_session\<rparr>"

theorem stdio_code_is_the_agents_witness:
  "stdio_exit (fst (stdio_cmd sample_stdio sample_config None None None ''db'' ''pg'')) = 4"
proof -
  have rd: "read_response (\<lambda>_. Inr \<lparr>r_status = status_unauthorized, r_msg = []\<rparr>) (ae_reader sample_env)
      = Inr (\<lparr>r_status = status_unauthorized, r_msg = []\<rparr>, \<lparr>avail = [], fin = EOF\<rparr>)"
    using read_response_framed [OF _ sample_frame, of _ _ "[]" EOF] by (simp add: sample_env_def)
  have fate: "attach_fate_of refusing_tunnel ''db'' ''pg'' [''reqid'' \<mapsto> ''r''] = Agent_answers \<lparr>r_status = status_unauthorized, r_msg = []\<rparr>"
    using rd by (simp add: attach_fate_of_def refusing_tunnel_def refusing_daemon_def sample_daemon_def sample_server_def sample_ctx_def
        attach_cap_def default_attach_cap_def agent_answer_def await_response_def sample_env_def write_header_unbounded [OF _ sample_frame] word_sless_alt)
  have rep: "replies (handle_attach (de_wide refusing_tunnel) (de_ctx refusing_tunnel) (de_server refusing_tunnel)
      (de_in_flight refusing_tunnel) (attach_request ''db'' ''pg'' [''reqid'' \<mapsto> ''r''])) = [error_response 4 []]"
    using handle_attach_fate [of refusing_tunnel "''db''" "''pg''" "[''reqid'' \<mapsto> ''r'']"]
    by (simp add: fate ack_response_def status_defs exit_code_for_status_def sanitize_agent_string_def)
  obtain srv where srv: "stdio_server (cli_env.truncate sample_stdio) sample_config None None ''db'' = Inr srv"
    by (simp add: stdio_server_def sample_config_def overlay_server_def sv_disabled_def Let_def)
  have c: "ce_conn sample_stdio = socket_to (ce_codec sample_stdio) refusing_tunnel (attach_request ''db'' ''pg'' [''reqid'' \<mapsto> st_reqid sample_stdio])"
    "st_armed sample_stdio = None" "ce_sock sample_stdio = Inr ''/run/daemon.sock''" "st_reqid sample_stdio = ''r''"
    by (simp_all add: sample_stdio_def)
  have "stdio_exit (fst (stdio_cmd sample_stdio sample_config None None None ''db'' ''pg'')) =
      int (exit_code_for_status status_unauthorized)"
    using stdio_code_is_the_agents [OF c(1,2) _ _ _ srv c(3), of None] rep fate
    by (simp add: ipc_codec_ok_def c(4)) (simp add: sample_stdio_def refused_codec_def refusing_tunnel_def refusing_daemon_def
        sample_daemon_def sample_server_def ipc_codec_ok_def)
  then show ?thesis by (simp add: exit_code_for_status_def status_defs)
qed

text \<open>
  The daemon is asked by name before the flags are used: with a daemon running, the address and pin on the command
  line change nothing, and a label the daemon does not manage is refused although the flags say where to go.
\<close>

lemma flags_do_not_win:
  assumes "ce_sock env = Inr s" "map_of (cf_servers cfg) name = None"
  shows "stdio_attach env name target = Inr conn \<Longrightarrow>
      stdio_cmd env cfg (Some addr) (Some peer) key_flag name target = (Spliced_daemon, [])"
    and "stdio_attach env name target = Inl (Cl_attach 3 m) \<Longrightarrow>
      stdio_exit (fst (stdio_cmd env cfg (Some addr) (Some peer) key_flag name target)) = 3"
  using assms by (simp_all add: stdio_cmd_def stdio_server_def stdio_exit_def)

text \<open>A refusal the daemon makes because too many tunnels are open has status 1, and is printed as the agent's.\<close>

lemma cap_blamed_on_agent:
  assumes "ce_sock env = Inr s" "stdio_server (cli_env.truncate env) cfg sf pf name = Inr srv"
    and "stdio_attach env name target = Inl (Cl_attach 1 ''too many open tunnels; try again later'')"
  shows "snd (stdio_cmd env cfg sf pf key_flag name target) = [Agent_refused_line ''too many open tunnels; try again later'']"
  using assms by (simp add: stdio_cmd_def)

end
