(* ===== verification/Cli_Ping.thy ===== *)
theory Cli_Ping
  imports Cli_Stdio
begin

text \<open>
  \<^verbatim>\<open>internal/probe/ping.go\<close> and \<^verbatim>\<open>cmd/quic-link/ping.go\<close>: probing an agent.

  A probe meets its surroundings as a \<open>probe_env\<close>; durations are nanoseconds. What the numbers look like when printed
  is left out.
\<close>

record rtt_stats =
  rs_smoothed :: int
  rs_min :: int
  rs_latest :: int
  rs_deviation :: int

record probe_env =
  pe_dial :: "conn_error option"
  pe_handshake :: bool
  pe_elapsed :: int
  pe_control :: "conn_error option"
  pe_cause :: "conn_error option"
  pe_rtt :: "conn_error + int"
  pe_stats :: rtt_stats

text \<open>\<open>pe_handshake\<close>: the handshake completes before the context ends; \<open>pe_cause\<close>: why the session ended, if it did.\<close>

record probe_result =
  pr_handshake :: int
  pr_stats :: rtt_stats
  pr_has_rtt :: bool
  pr_rpc :: int
  pr_violation :: bool
  pr_rpc_error :: "conn_error option"

definition sample_rtt :: "rtt_stats \<Rightarrow> probe_result \<Rightarrow> probe_result" where
  "sample_rtt st res = res\<lparr>pr_stats := st, pr_has_rtt := (rs_deviation st \<noteq> 0)\<rparr>"

definition no_stats :: rtt_stats where
  "no_stats = \<lparr>rs_smoothed = 0, rs_min = 0, rs_latest = 0, rs_deviation = 0\<rparr>"

definition probe_ping :: "probe_env \<Rightarrow> conn_error + probe_result" where
  "probe_ping env =
    (case pe_dial env of
       Some e \<Rightarrow> Inl (wrap ''ping dial'' e)
     | None \<Rightarrow>
       if \<not> pe_handshake env then Inl (Go_error (Plain ''context ended'') [])
       else (let res = \<lparr>pr_handshake = pe_elapsed env, pr_stats = no_stats, pr_has_rtt = False, pr_rpc = 0,
                        pr_violation = False, pr_rpc_error = None\<rparr> in
         case pe_control env of
           Some e \<Rightarrow>
             (case auth_error e of
                Some a \<Rightarrow> Inl a
              | None \<Rightarrow>
                (case Option.bind (pe_cause env) auth_error of
                   Some a \<Rightarrow> Inl a
                 | None \<Rightarrow> Inr ((sample_rtt (pe_stats env) res)\<lparr>pr_rpc_error := Some e\<rparr>)))
         | None \<Rightarrow>
           (case pe_rtt env of
              Inl e \<Rightarrow> Inr ((sample_rtt (pe_stats env) res)\<lparr>pr_rpc_error := Some e\<rparr>)
            | Inr rtt \<Rightarrow>
              (let r = sample_rtt (pe_stats env) (res\<lparr>pr_rpc := rtt\<rparr>) in
               Inr (r\<lparr>pr_violation := (pr_has_rtt r \<and> 0 < rtt \<and> rtt < rs_min (pe_stats env))\<rparr>)))))"

subsection \<open>Several probes\<close>

definition aggregate_probe_error :: "nat \<Rightarrow> conn_error option \<Rightarrow> conn_error option \<Rightarrow> cli_error" where
  "aggregate_probe_error n auth unreach =
    (case auth of
       Some e \<Rightarrow> wrapped ''all probes failed'' (conn_failure e)
     | None \<Rightarrow>
       (case unreach of
          Some e \<Rightarrow> wrapped ''all probes failed'' (conn_failure e)
        | None \<Rightarrow> plain_error ''all probes failed''))"

record ping_tally =
  pt_ok :: "probe_result list"
  pt_auth :: "conn_error option"
  pt_unreach :: "conn_error option"

definition tally :: "ping_tally \<Rightarrow> conn_error + probe_result \<Rightarrow> ping_tally" where
  "tally t r =
    (case r of
       Inl e \<Rightarrow> if is_error Auth_failed e then t\<lparr>pt_auth := Some e\<rparr>
              else if is_error Unreachable e then t\<lparr>pt_unreach := Some e\<rparr> else t
     | Inr res \<Rightarrow> t\<lparr>pt_ok := pt_ok t @ [res]\<rparr>)"

text \<open>\<open>sockets\<close>: for each probe the failure of its socket or its transport, or what the probe meets.\<close>

fun run_probes :: "(string + probe_env) list \<Rightarrow> ping_tally \<Rightarrow> cli_error + ping_tally" where
  "run_probes [] t = Inr t"
| "run_probes (Inl e # ps) t = Inl (plain_error e)"
| "run_probes (Inr env # ps) t = run_probes ps (tally t (probe_ping env))"

definition ping_run :: "session_env \<Rightarrow> string \<Rightarrow> string \<Rightarrow> (string + probe_env) list \<Rightarrow> cli_error option \<times> probe_result list" where
  "ping_run sn key_file peer probes =
    (case client_tls_from_flags sn key_file peer of
       Inl e \<Rightarrow> (Some e, [])
     | Inr _ \<Rightarrow>
       (case run_probes probes \<lparr>pt_ok = [], pt_auth = None, pt_unreach = None\<rparr> of
          Inl e \<Rightarrow> (Some e, [])
        | Inr t \<Rightarrow>
          if pt_ok t = [] then (Some (aggregate_probe_error (length probes) (pt_auth t) (pt_unreach t)), [])
          else (None, pt_ok t)))"

subsection \<open>Which server\<close>

definition ping_unknown :: "cli_env \<Rightarrow> config \<Rightarrow> string \<Rightarrow> cli_error" where
  "ping_unknown env cfg name =
    (case known_servers env cfg of
       Some (names, True) \<Rightarrow>
         if name \<in> set names then usage_error (''managed by the running daemon, but ping needs an address and a pin: '' @ name)
         else usage_error (''server not found in config: '' @ name)
     | _ \<Rightarrow> usage_error (''server not found in config: '' @ name))"

definition ping_server :: "cli_env \<Rightarrow> config \<Rightarrow> string list \<Rightarrow> string option \<Rightarrow> cli_error + (string \<times> server)" where
  "ping_server env cfg args server_flag =
    (case args of
       [name] \<Rightarrow> (case map_of (cf_servers cfg) name of None \<Rightarrow> Inl (ping_unknown env cfg name) | Some s \<Rightarrow> Inr (name, s))
     | _ \<Rightarrow>
       if server_flag \<noteq> None then Inr ([], bare_server)
       else (case enabled_servers (cf_servers cfg) of
           [ns] \<Rightarrow> Inr ns
         | [] \<Rightarrow> Inl (usage_error ''no SERVER given and no enabled servers in config'')
         | _ \<Rightarrow> Inl (usage_error ''no SERVER given and several enabled servers in config'')))"

definition ping_target ::
  "cli_env \<Rightarrow> config \<Rightarrow> string list \<Rightarrow> string option \<Rightarrow> string option \<Rightarrow> cli_error + (server \<times> string)"
where
  "ping_target env cfg args server_flag pin_flag =
    bind_result (ping_server env cfg args server_flag) (\<lambda>(name, srv0).
      let srv = overlay_server server_flag pin_flag srv0 in
      if sv_disabled srv then Inl (usage_error (''server is disabled: '' @ name))
      else if sv_listen srv \<noteq> [] \<and> sv_addr srv = [] then Inl (usage_error (''waits for its agent to connect: '' @ name))
      else if sv_addr srv = [] then Inl (usage_error ''--server is required'')
      else (case parse_pin (sv_pin srv) of
          Inl _ \<Rightarrow> Inl (usage_error ''pin is required'')
        | Inr peer \<Rightarrow>
          (case (if name \<noteq> [] then snd (validate_config Role_client (cfg\<lparr>cf_servers := AList.update name srv (cf_servers cfg)\<rparr>))
                 else map_option (Cf_server ''(from flags)'') (validate_server_settings srv)) of
             Some e \<Rightarrow> Inl (Go_error (Config_invalid (Inr e)) [])
           | None \<Rightarrow> Inr (srv, peer))))"

definition ping_cmd ::
  "cli_env \<Rightarrow> session_env \<Rightarrow> config \<Rightarrow> string list \<Rightarrow> string option \<Rightarrow> string option \<Rightarrow> string option
     \<Rightarrow> (string \<Rightarrow> (string + probe_env) list) \<Rightarrow> cli_error option \<times> probe_result list"
where
  "ping_cmd env sn cfg args server_flag pin_flag key_flag probes =
    (case ping_target env cfg args server_flag pin_flag of
       Inl e \<Rightarrow> (Some e, [])
     | Inr (srv, peer) \<Rightarrow> ping_run sn (or_else key_flag (is_key_file (cf_identity cfg))) peer (probes (sv_addr srv)))"

subsection \<open>What a probe is held to, and what the exit code says\<close>

text \<open>A server that is probed at all is one the configuration's own rules accept, and its pin is checked as written.\<close>

lemma ping_target_valid:
  assumes "ping_target env cfg args server_flag pin_flag = Inr (srv, peer)"
  shows "validate_server_settings srv = None \<and> peer = sv_pin srv \<and> sv_addr srv \<noteq> []"
proof -
  obtain name srv0 where n: "ping_server env cfg args server_flag = Inr (name, srv0)"
    "srv = overlay_server server_flag pin_flag srv0" "\<not> sv_disabled srv" "sv_addr srv \<noteq> []" "parse_pin (sv_pin srv) = Inr peer"
    "(if name \<noteq> [] then snd (validate_config Role_client (cfg\<lparr>cf_servers := AList.update name srv (cf_servers cfg)\<rparr>))
      else map_option (Cf_server ''(from flags)'') (validate_server_settings srv)) = None"
    using assms by (auto simp: ping_target_def bind_result_Inr_iff Let_def split: if_splits sum.splits option.splits)
  have v: "validate_server_settings srv = None"
  proof (cases "name = []")
    case False
    let ?c = "cfg\<lparr>cf_servers := AList.update name srv (cf_servers cfg)\<rparr>"
    have "snd (validate_servers ?c) = None"
      using n(6) False by (auto simp: validate_config_def Let_def split: sum.splits prod.splits option.splits)
    then have "snd (check_servers (cf_servers ?c) []) = None"
      by (auto simp: validate_servers_def Let_def split: prod.splits option.splits)
    moreover have "(name, srv) \<in> set (cf_servers ?c)"
      using map_of_SomeD [of "AList.update name srv (cf_servers cfg)" name srv] by (simp add: update_conv')
    ultimately have "validate_server name srv = None" using n(3) by (force simp: check_servers_iff)
    then show ?thesis by (simp add: validate_server_def split: option.splits)
  qed (use n(6) in simp)
  then have "\<exists>q. parse_pin_strict (sv_pin srv) = Inr q"
    by (auto simp: validate_server_settings_def split: if_splits sum.splits)
  then have "peer = sv_pin srv" using n(5) by (auto simp: parse_pin_strict_def split: if_splits)
  then show ?thesis using v n(4) by simp
qed

text \<open>A dial error as the transport returns it: classified, from an error of the QUIC library, which knows neither class.\<close>

definition classified :: "conn_error \<Rightarrow> bool" where
  "classified e \<longleftrightarrow> (\<exists>raw. e = classify_dial_error raw \<and> \<not> is_error Auth_failed raw \<and> \<not> is_error Unreachable raw)"

lemma classified_exclusive: "classified e \<Longrightarrow> \<not> (is_error Auth_failed e \<and> is_error Unreachable e)"
  by (auto simp: classified_def classify_dial_error_def is_error_wrap Let_def split: option.splits if_splits)

definition pin_rejected :: "probe_env \<Rightarrow> bool" where
  "pin_rejected env \<longleftrightarrow>
    (case pe_dial env of
       Some e \<Rightarrow> is_error Auth_failed e
     | None \<Rightarrow> pe_handshake env \<and> (\<exists>e. pe_control env = Some e \<and>
         (is_tls_auth_alert e \<noteq> None \<or> (\<exists>c. pe_cause env = Some c \<and> is_tls_auth_alert c \<noteq> None))))"

definition unreached :: "probe_env \<Rightarrow> bool" where
  "unreached env \<longleftrightarrow> (\<exists>e. pe_dial env = Some e \<and> is_error Unreachable e)"

lemma auth_error_only: "auth_error e = Some a \<Longrightarrow> is_error Auth_failed a \<and> \<not> is_error Unreachable a"
  by (auto simp: auth_error_def is_error_wrap split: option.splits)

lemma auth_error_None_iff: "auth_error e = None \<longleftrightarrow> is_tls_auth_alert e = None"
  by (simp add: auth_error_def split: option.split)

lemma auth_error_alert: "auth_error e = Some a \<Longrightarrow> \<exists>c. is_tls_auth_alert e = Some c"
  by (auto simp: auth_error_def split: option.splits)

lemma probe_classes:
  assumes "\<And>e. pe_dial env = Some e \<Longrightarrow> classified e"
  shows "(\<exists>e. probe_ping env = Inl e \<and> is_error Auth_failed e) \<longleftrightarrow> pin_rejected env"
    and "(\<exists>e. probe_ping env = Inl e \<and> is_error Unreachable e) \<longleftrightarrow> unreached env"
    and "probe_ping env = Inl e \<Longrightarrow> \<not> (is_error Auth_failed e \<and> is_error Unreachable e)"
proof -
  show "(\<exists>e. probe_ping env = Inl e \<and> is_error Auth_failed e) \<longleftrightarrow> pin_rejected env"
    using auth_error_only auth_error_alert
    by (auto simp: probe_ping_def pin_rejected_def auth_error_None_iff wrap_def is_error_wrap Let_def split: option.splits sum.splits bind_splits)
  show "(\<exists>e. probe_ping env = Inl e \<and> is_error Unreachable e) \<longleftrightarrow> unreached env"
    using auth_error_only
    by (auto simp: probe_ping_def unreached_def wrap_def is_error_wrap Let_def split: option.splits sum.splits bind_splits)
  show "\<not> (is_error Auth_failed e \<and> is_error Unreachable e)" if "probe_ping env = Inl e"
    using that auth_error_only classified_exclusive assms
    by (auto simp: probe_ping_def wrap_def is_error_wrap Let_def split: option.splits if_splits sum.splits bind_splits)
qed

lemma run_probes_sockets: "run_probes (map Inr envs) t = Inr (foldl tally t (map probe_ping envs))"
  by (induction envs arbitrary: t) simp_all

definition tallied :: "(conn_error + probe_result) list \<Rightarrow> ping_tally" where
  "tallied rs = foldl tally \<lparr>pt_ok = [], pt_auth = None, pt_unreach = None\<rparr> rs"

text \<open>What is kept of the probes: every result, and a failure of each class when there was one.\<close>

lemma tallied_facts:
  "(pt_ok (tallied rs) = [] \<longleftrightarrow> (\<forall>r\<in>set rs. \<not> is_ok r)) \<and>
   (case pt_auth (tallied rs) of None \<Rightarrow> \<forall>e. Inl e \<in> set rs \<longrightarrow> \<not> is_error Auth_failed e
      | Some e \<Rightarrow> Inl e \<in> set rs \<and> is_error Auth_failed e) \<and>
   (case pt_unreach (tallied rs) of None \<Rightarrow> \<forall>e. Inl e \<in> set rs \<and> is_error Unreachable e \<longrightarrow> is_error Auth_failed e
      | Some e \<Rightarrow> Inl e \<in> set rs \<and> is_error Unreachable e \<and> \<not> is_error Auth_failed e)"
proof (induction rs rule: rev_induct)
  case Nil
  show ?case by (simp add: tallied_def)
next
  case (snoc r rs)
  have t: "tallied (rs @ [r]) = tally (tallied rs) r" by (simp add: tallied_def)
  show ?case
  proof (cases r)
    case (Inl e)
    then show ?thesis using snoc.IH unfolding t
      by (cases "is_error Auth_failed e"; cases "is_error Unreachable e") (auto simp: tally_def split: option.splits)
  next
    case (Inr x)
    then show ?thesis using snoc.IH unfolding t by (auto simp: tally_def split: option.splits)
  qed
qed

lemma tally_classes:
  assumes "\<forall>pe\<in>set envs. \<forall>e. pe_dial pe = Some e \<longrightarrow> classified e"
  defines "t \<equiv> tallied (map probe_ping envs)"
  shows "pt_ok t = [] \<longleftrightarrow> \<not> (\<exists>pe\<in>set envs. is_ok (probe_ping pe))"
    and "pt_auth t \<noteq> None \<longleftrightarrow> (\<exists>pe\<in>set envs. pin_rejected pe)"
    and "pt_unreach t \<noteq> None \<longleftrightarrow> (\<exists>pe\<in>set envs. unreached pe)"
    and "pt_auth t = Some e \<Longrightarrow> is_error Auth_failed e \<and> \<not> is_error Unreachable e"
    and "pt_unreach t = Some e \<Longrightarrow> is_error Unreachable e"
proof -
  let ?rs = "map probe_ping envs"
  let ?t = "tallied ?rs"
  note f = tallied_facts [of ?rs]
  have ok: "pt_ok ?t = [] \<longleftrightarrow> \<not> (\<exists>pe\<in>set envs. is_ok (probe_ping pe))" using f by auto
  have cls: "(\<exists>e. probe_ping pe = Inl e \<and> is_error Auth_failed e) \<longleftrightarrow> pin_rejected pe"
    "(\<exists>e. probe_ping pe = Inl e \<and> is_error Unreachable e) \<longleftrightarrow> unreached pe"
    "probe_ping pe = Inl e \<Longrightarrow> \<not> (is_error Auth_failed e \<and> is_error Unreachable e)" if "pe \<in> set envs" for pe e
    using probe_classes [of pe] assms(1) that by blast+
  have auth: "pt_auth ?t \<noteq> None \<longleftrightarrow> (\<exists>pe\<in>set envs. pin_rejected pe)"
  proof
    assume "pt_auth ?t \<noteq> None"
    then obtain e where "Inl e \<in> set ?rs" "is_error Auth_failed e" using f by (auto split: option.splits)
    then obtain pe where "pe \<in> set envs" "probe_ping pe = Inl e" by auto
    then show "\<exists>pe\<in>set envs. pin_rejected pe" using cls(1) \<open>is_error Auth_failed e\<close> by blast
  next
    assume "\<exists>pe\<in>set envs. pin_rejected pe"
    then obtain pe e where "pe \<in> set envs" "probe_ping pe = Inl e" "is_error Auth_failed e" using cls(1) by blast
    then have "Inl e \<in> set ?rs" by force
    then show "pt_auth ?t \<noteq> None" using f \<open>is_error Auth_failed e\<close> by (auto split: option.splits)
  qed
  have unr: "pt_unreach ?t \<noteq> None \<longleftrightarrow> (\<exists>pe\<in>set envs. unreached pe)"
  proof
    assume "pt_unreach ?t \<noteq> None"
    then obtain e where "Inl e \<in> set ?rs" "is_error Unreachable e" using f by (auto split: option.splits)
    then obtain pe where "pe \<in> set envs" "probe_ping pe = Inl e" by auto
    then show "\<exists>pe\<in>set envs. unreached pe" using cls(2) \<open>is_error Unreachable e\<close> by blast
  next
    assume "\<exists>pe\<in>set envs. unreached pe"
    then obtain pe e where e: "pe \<in> set envs" "probe_ping pe = Inl e" "is_error Unreachable e" using cls(2) by blast
    then have "Inl e \<in> set ?rs" "\<not> is_error Auth_failed e" using cls(3) by force+
    then show "pt_unreach ?t \<noteq> None" using f e(3) by (auto split: option.splits)
  qed
  have a: "pt_auth ?t = Some e \<Longrightarrow> is_error Auth_failed e \<and> \<not> is_error Unreachable e" for e
    using f cls(3) by force
  have u: "pt_unreach ?t = Some e \<Longrightarrow> is_error Unreachable e" for e using f by simp
  show "pt_ok t = [] \<longleftrightarrow> \<not> (\<exists>pe\<in>set envs. is_ok (probe_ping pe))" unfolding t_def by (rule ok)
  show "pt_auth t \<noteq> None \<longleftrightarrow> (\<exists>pe\<in>set envs. pin_rejected pe)" unfolding t_def by (rule auth)
  show "pt_unreach t \<noteq> None \<longleftrightarrow> (\<exists>pe\<in>set envs. unreached pe)" unfolding t_def by (rule unr)
  show "pt_auth t = Some e \<Longrightarrow> is_error Auth_failed e \<and> \<not> is_error Unreachable e" unfolding t_def by (rule a)
  show "pt_unreach t = Some e \<Longrightarrow> is_error Unreachable e" unfolding t_def by (rule u)
qed

text \<open>
  C36: the exit code of ping says the most telling thing that happened. When its server and key are usable and its
  sockets open, it leaves with 0 exactly when some probe measured the agent; failing that, with 4 exactly when some
  peer rejected the pin or had its own rejected, whether the handshake, the control stream or the end of the session
  showed it; failing that, with 3 exactly when some probe found nobody; and with 1 otherwise. What it probes is a
  server its configuration's own rules accept, by the pin as it is written there.
\<close>

theorem ping_code_says_why:
  assumes "ping_target env cfg args server_flag pin_flag = Inr (srv, peer)"
    and "is_ok (client_tls_from_flags sn (or_else key_flag (is_key_file (cf_identity cfg))) peer)"
    and "probes (sv_addr srv) = map Inr envs" and "\<forall>pe\<in>set envs. \<forall>e. pe_dial pe = Some e \<longrightarrow> classified e"
  shows "validate_server_settings srv = None \<and> peer = sv_pin srv \<and>
    fst (main_exit (fst (ping_cmd env sn cfg args server_flag pin_flag key_flag probes))) =
      (if \<exists>pe\<in>set envs. is_ok (probe_ping pe) then 0
       else if \<exists>pe\<in>set envs. pin_rejected pe then 4
       else if \<exists>pe\<in>set envs. unreached pe then 3 else 1)"
proof -
  let ?rs = "map probe_ping envs"
  let ?t = "tallied ?rs"
  obtain tls where tls: "client_tls_from_flags sn (or_else key_flag (is_key_file (cf_identity cfg))) peer = Inr tls"
    using assms(2) by (auto simp: is_ok_iff)
  have cmd: "fst (ping_cmd env sn cfg args server_flag pin_flag key_flag probes) =
      (if pt_ok ?t = [] then Some (aggregate_probe_error (length envs) (pt_auth ?t) (pt_unreach ?t)) else None)"
    using assms(1,3) tls by (simp add: ping_cmd_def ping_run_def run_probes_sockets tallied_def)
  note f = tally_classes [OF assms(4)]
  have "fst (main_exit (fst (ping_cmd env sn cfg args server_flag pin_flag key_flag probes))) =
      (if pt_ok ?t \<noteq> [] then 0 else if pt_auth ?t \<noteq> None then 4 else if pt_unreach ?t \<noteq> None then 3 else 1)"
    unfolding cmd using f(4,5)
    by (auto simp: aggregate_probe_error_def main_exit_def conn_failure_exit split: option.split) (simp_all add: is_error_wrap)
  then show ?thesis using ping_target_valid [OF assms(1)] by (simp only: f(1-3)) simp
qed

definition silent_probe :: probe_env where
  "silent_probe = \<lparr>pe_dial = Some (classify_dial_error (Go_error Handshake_timeout [])), pe_handshake = False, pe_elapsed = 0,
     pe_control = None, pe_cause = None, pe_rtt = Inr 0, pe_stats = no_stats\<rparr>"

definition probing_session :: session_env where
  "probing_session = sample_session\<lparr>sn_key := (\<lambda>_. None)\<rparr>"

theorem ping_code_says_why_witness:
  "fst (main_exit (fst (ping_cmd (cli_env.truncate sample_stdio) probing_session sample_config [''db''] None None None (\<lambda>_. [Inr silent_probe])))) = 3"
proof -
  let ?s = "\<lparr>sv_addr = ''h:1'', sv_listen = [], sv_pin = sample_pin, sv_enabled = None, sv_local_ports = Map.empty\<rparr>"
  have v: "snd (validate_config Role_client sample_config) = None" using sample_config_is_valid by auto
  note pp = sample_pin_parses
  have up: "sample_config\<lparr>cf_servers := AList.update ''db'' ?s (cf_servers sample_config)\<rparr> = sample_config"
    "map_of (cf_servers sample_config) ''db'' = Some ?s"
    by (simp_all add: sample_config_def)
  have "ping_target (cli_env.truncate sample_stdio) sample_config [''db''] None None = Inr (?s, sample_pin)"
    using v by (simp add: ping_target_def ping_server_def up overlay_server_def sv_disabled_def pp Let_def)
  moreover have "is_ok (client_tls_from_flags probing_session (or_else None (is_key_file (cf_identity sample_config))) sample_pin)"
    using strict_pin_nonempty [OF sample_pin_strict]
    by (simp add: client_tls_from_flags_def probing_session_def sample_session_def client_dial_tls_def pinning_tls_def Let_def)
  moreover have "\<forall>pe\<in>set [silent_probe]. \<forall>e. pe_dial pe = Some e \<longrightarrow> classified e"
    by (auto simp: silent_probe_def classified_def is_error_wrap)
  ultimately have "fst (main_exit (fst (ping_cmd (cli_env.truncate sample_stdio) probing_session sample_config [''db''] None None None
      (\<lambda>_. [Inr silent_probe])))) = (if \<exists>pe\<in>set [silent_probe]. is_ok (probe_ping pe) then 0
       else if \<exists>pe\<in>set [silent_probe]. pin_rejected pe then 4 else if \<exists>pe\<in>set [silent_probe]. unreached pe then 3 else 1)"
    by (intro conjunct2 [OF conjunct2 [OF ping_code_says_why]]) simp_all
  then show ?thesis
    by (simp add: silent_probe_def probe_ping_def pin_rejected_def unreached_def classify_dial_error_def is_error_wrap)
qed

end
