(* ===== verification/Safe_Text.thy ===== *)
theory Safe_Text
  imports Ipc Go_JSON
begin

text \<open>
  Text that a terminal shows as it is: it decodes without an invalid byte, and none of its runes is one
  \<^verbatim>\<open>internal/ipc/sanitize.go\<close> calls unsafe. Sanitized text is safe, and quoting, padding, joining and JSON keep it so.
\<close>

definition safe_text :: "string \<Rightarrow> bool" where
  "safe_text s \<longleftrightarrow> list_all agent_keeps (runes s)"

definition safe_spelling :: "string \<Rightarrow> bool" where
  "safe_spelling s \<longleftrightarrow> (\<exists>rs. s = concat (map encode_rune rs) \<and> (\<forall>r\<in>set rs. encodable r \<and> \<not> is_unsafe_agent_rune r))"

text \<open>The runes as they are spelled, from their decoding.\<close>

lemma encodable_not_error: "encodable r \<Longrightarrow> \<not> (r = rune_error \<and> length (encode_rune r) = 1)"
  by (auto simp: rune_error_def encode_rune_def)

lemma spelled_kept:
  "encodable r \<Longrightarrow> \<not> is_unsafe_agent_rune r \<Longrightarrow> agent_keeps (r, length (encode_rune r))"
  unfolding agent_keeps_def using encodable_not_error [of r] by blast

lemma spelled_safe: "safe_spelling s \<Longrightarrow> safe_text s"
  using spelled_kept by (auto simp: safe_spelling_def safe_text_def runes_encoded list_all_iff)

lemma runes_spell:
  "list_all agent_keeps (runes s) \<Longrightarrow> s = concat (map encode_rune (map fst (runes s)))"
proof (induction s rule: runes.induct)
  case (1 s)
  show ?case
  proof (cases "s = []")
    case False
    obtain r w where d: "decode_rune s = (r, w)" by (cases "decode_rune s")
    have rs: "runes s = (r, w) # runes (drop w s)"
      using False d by (simp add: runes.simps [of s] Let_def)
    have "0 < w" using decode_rune_width_pos [OF False] d by simp
    then have "r \<noteq> rune_error \<or> 1 < w" using 1 rs by (auto simp: agent_keeps_def)
    then have "take w s = encode_rune r" using decode_rune_encode [OF d] by simp
    moreover have "drop w s = concat (map encode_rune (map fst (runes (drop w s))))"
      using 1 False rs d by simp
    ultimately show ?thesis using rs append_take_drop_id [of w s] by simp
  qed simp
qed

lemma safe_text_iff: "safe_text s \<longleftrightarrow> safe_spelling s"
proof
  assume s: "safe_text s"
  have "encodable r \<and> \<not> is_unsafe_agent_rune r" if "r \<in> fst ` set (runes s)" for r
  proof -
    obtain w where w: "(r, w) \<in> set (runes s)" using \<open>r \<in> fst ` set (runes s)\<close> by force
    then have k: "agent_keeps (r, w)" using s by (auto simp: safe_text_def list_all_iff)
    then have "r \<noteq> rune_error \<or> 1 < w" using runes_width_pos [OF w] by (auto simp: agent_keeps_def)
    then show ?thesis using runes_encodable [OF w] k by (auto simp: agent_keeps_def)
  qed
  then show "safe_spelling s" using runes_spell s unfolding safe_spelling_def safe_text_def
    by (metis set_map)
qed (rule spelled_safe)

text \<open>What keeps text safe.\<close>

named_theorems safe_intros

lemma safe_append [safe_intros]: "safe_text s \<Longrightarrow> safe_text t \<Longrightarrow> safe_text (s @ t)"
  unfolding safe_text_iff safe_spelling_def by (metis Un_iff concat_append map_append set_append)

lemma safe_Nil [simp, safe_intros]: "safe_text []"
  by (simp add: safe_text_def)

lemma safe_concat [safe_intros]: "\<forall>s\<in>set ss. safe_text s \<Longrightarrow> safe_text (concat ss)"
  by (induction ss) (simp_all add: safe_append)

lemma safe_plain [safe_intros]: "plain_text s \<Longrightarrow> safe_text s"
  unfolding safe_text_iff safe_spelling_def using plain_text_runes by blast

lemma safe_sanitized [safe_intros]: "safe_text (sanitize_agent_string s)"
  unfolding safe_text_iff safe_spelling_def by (rule sanitize_as_runes)

lemma safe_rune: "encodable r \<Longrightarrow> \<not> is_unsafe_agent_rune r \<Longrightarrow> safe_text (encode_rune r)"
  unfolding safe_text_iff safe_spelling_def by (rule exI [of _ "[r]"]) simp

lemma plain_append [simp]: "plain_text (s @ t) \<longleftrightarrow> plain_text s \<and> plain_text t"
  by (simp add: plain_text_def)

lemma plain_Cons [simp]: "plain_text (c # s) \<longleftrightarrow> 0x20 \<le> ord c \<and> ord c < 0x7f \<and> plain_text s"
  by (auto simp: plain_text_def)

lemma plain_Nil [simp]: "plain_text []"
  by (simp add: plain_text_def)

lemma safe_Cons: "0x20 \<le> ord c \<Longrightarrow> ord c < 0x7f \<Longrightarrow> safe_text s \<Longrightarrow> safe_text (c # s)"
  using safe_append [OF safe_plain, of "[c]" s] by simp

lemma plain_itoa [simp]: "plain_text (itoa n)"
  using itoa_digits [of n] by (auto simp: plain_text_def list_all_iff is_digit_def)

lemma plain_int_text [simp]: "plain_text (int_text n)"
  by (simp add: int_text_def)

lemma plain_hex: "plain_text (hex_text k n)"
proof -
  have "plain_text [lower_hex m]" if "m < 16" for m
  proof -
    have "m \<in> set [0..<16]" using that by simp
    then show ?thesis by (auto simp: upt_rec lower_hex_def)
  qed
  then show ?thesis by (simp add: hex_text_def plain_text_def list_all_iff)
qed

subsection \<open>Quoting and JSON\<close>

text \<open>\<^verbatim>\<open>unicode.IsPrint\<close> is false of every rune a terminal acts on; \<open>wide\<close> is it outside ASCII.\<close>

definition print_table_ok :: "(rune \<Rightarrow> bool) \<Rightarrow> bool" where
  "print_table_ok wide \<longleftrightarrow> (\<forall>r. wide r \<longrightarrow> \<not> is_unsafe_agent_rune r)"

lemma plain_char_of [simp]: "plain_text [char_of n] \<longleftrightarrow> 0x20 \<le> n mod 256 \<and> n mod 256 < (0x7f :: nat)"
  by (simp add: plain_text_def)

lemma safe_escaped:
  assumes "print_table_ok wide" "encodable r"
  shows "safe_text (escaped_rune wide r)"
proof (cases "is_print wide r")
  case True
  then have "\<not> is_unsafe_agent_rune r" using assms(1) plain_text_runes [of "[char_of r]"]
    by (auto simp: is_print_def print_table_ok_def split: if_splits)
  then show ?thesis using True assms(2) safe_rune safe_plain by (simp add: escaped_rune_def)
next
  case False
  then show ?thesis by (intro safe_plain) (simp add: escaped_rune_def plain_hex)
qed

lemma safe_quoted_from:
  assumes "print_table_ok wide" "\<forall>(r, w)\<in>set xs. 0 < w \<and> (r \<noteq> rune_error \<or> 1 < w \<longrightarrow> encodable r)"
  shows "safe_text (quoted_from wide s xs)"
  using assms
proof (induction xs arbitrary: s)
  case (Cons x xs)
  obtain r w where x: "x = (r, w)" by (cases x)
  have "safe_text (CHR 0x5c # CHR ''x'' # hex_text 2 n)" for n by (rule safe_plain) (simp add: plain_hex)
  moreover have "\<not> (w = 1 \<and> r = rune_error) \<Longrightarrow> safe_text (escaped_rune wide r)"
    using Cons.prems x by (intro safe_escaped) auto
  ultimately show ?case using Cons x by (simp add: safe_append)
qed simp

lemma safe_quote [safe_intros]:
  assumes "print_table_ok wide"
  shows "safe_text (go_quote wide s)"
proof -
  have "safe_text (quoted_from wide s (runes s))"
    using safe_quoted_from [OF assms] runes_encodable runes_width_pos by fastforce
  then show ?thesis by (simp add: go_quote_def safe_Cons safe_append safe_plain)
qed

lemma safe_json_rune:
  assumes "encodable r" "\<not> is_unsafe_agent_rune r"
  shows "safe_text (json_rune (r, w))"
proof -
  have "r \<in> {0x22, 0x5c} \<Longrightarrow> plain_text [char_of r]" by auto
  then show ?thesis using safe_rune [OF assms]
    by (auto simp: json_rune_def plain_hex intro!: safe_plain)
qed

lemma safe_json_string [safe_intros]:
  assumes "safe_text s"
  shows "safe_text (json_string s)"
proof -
  obtain rs where rs: "s = concat (map encode_rune rs)" "\<forall>r\<in>set rs. encodable r \<and> \<not> is_unsafe_agent_rune r"
    using assms by (auto simp: safe_text_iff safe_spelling_def)
  then have "\<forall>t\<in>set (map json_rune (runes s)). safe_text t"
    using safe_json_rune by (auto simp: runes_encoded)
  then show ?thesis by (simp add: json_string_def safe_Cons safe_append safe_plain safe_concat)
qed

fun safe_json :: "json \<Rightarrow> bool" where
  "safe_json (J_str s) = safe_text s"
| "safe_json (J_int n) = True"
| "safe_json (J_bool b) = True"
| "safe_json (J_list xs) = list_all safe_json xs"
| "safe_json (J_obj fs) = list_all (\<lambda>f. safe_text (fst f) \<and> safe_json (snd f)) fs"

lemma safe_json_text:
  "safe_json j \<Longrightarrow> safe_text (json_text j)"
  "list_all safe_json xs \<Longrightarrow> safe_text (json_items xs)"
  "list_all (\<lambda>f. safe_text (fst f) \<and> safe_json (snd f)) fs \<Longrightarrow> safe_text (json_fields fs)"
  by (induction j and xs and fs rule: json_text_json_items_json_fields.induct)
    (simp_all add: safe_Cons safe_append safe_json_string safe_plain)

lemma safe_omit_empty: "plain_text k \<Longrightarrow> safe_text s \<Longrightarrow> list_all (\<lambda>f. safe_text (fst f) \<and> safe_json (snd f)) (omit_empty k s)"
  by (simp add: omit_empty_def safe_plain)

subsection \<open>Padding\<close>

text \<open>\<^verbatim>\<open>%-20s\<close>: the width counts runes.\<close>

definition pad_right :: "nat \<Rightarrow> string \<Rightarrow> string" where
  "pad_right n s = s @ replicate (n - length (runes s)) (CHR '' '')"

lemma safe_pad [safe_intros]: "safe_text s \<Longrightarrow> safe_text (pad_right n s)"
  unfolding pad_right_def by (rule safe_append [OF _ safe_plain]) (simp_all add: plain_text_def list_all_iff)

end
