(* ===== verification/Cli_Verbs.thy ===== *)
theory Cli_Verbs
  imports Cli_Servers Safe_Text Daemon_Providers
begin

text \<open>
  The commands that print what an agent or the daemon reported: \<^verbatim>\<open>status.go\<close>, \<^verbatim>\<open>routes_sanitize.go\<close>, \<^verbatim>\<open>vhosts.go\<close>,
  \<^verbatim>\<open>expose.go\<close> and \<^verbatim>\<open>dockerenv.go\<close> of \<^verbatim>\<open>cmd/quic-link\<close>.

  A command gives the lines of its standard output, what it says on standard error, and its error. Its own
  connection to the daemon is another one than the one that told it the servers' names. The decoders of
  \<^verbatim>\<open>encoding/json\<close> into the snapshots are arguments, \<open>None\<close> for a document that does not fit.
\<close>

record table_snapshot =
  ts_schema :: int
  ts_server :: string
  ts_rows :: "ctl_detail list"

record withdraw_snapshot =
  ws_schema :: int
  ws_server :: string
  ws_host :: string
  ws_by :: string
  ws_address :: string

record server_row =
  sr_name :: string
  sr_session :: string
  sr_docker :: int

record verb_env = cli_env +
  ve_wide :: "rune \<Rightarrow> bool"
  ve_status :: "dial_failure + client_conn"
  ve_call :: "relay_call \<Rightarrow> dial_failure + client_conn"
  ve_routes :: "bytes \<Rightarrow> table_snapshot option"
  ve_vhosts :: "bytes \<Rightarrow> table_snapshot option"
  ve_withdrawn :: "bytes \<Rightarrow> withdraw_snapshot option"
  ve_exposed :: "bytes \<Rightarrow> (string \<times> int) option"
  ve_servers :: "bytes \<Rightarrow> server_row list option"

type_synonym outcome = "string list \<times> remedy list \<times> cli_error option"

abbreviation failed :: "cli_error \<Rightarrow> outcome" where
  "failed e \<equiv> ([], [], Some e)"

abbreviation printed :: "string list \<Rightarrow> outcome" where
  "printed ls \<equiv> (ls, [], None)"

definition relayed :: "string \<Rightarrow> client_error \<Rightarrow> bool \<Rightarrow> outcome" where
  "relayed verb e routes_aware = (case relay_ipc_error verb (socket_error e) routes_aware of (err, rs) \<Rightarrow> ([], rs, Some err))"

definition with_server :: "verb_env \<Rightarrow> config \<Rightarrow> string list \<Rightarrow> (string \<Rightarrow> outcome) \<Rightarrow> outcome" where
  "with_server env cfg args f =
    (case auto_select_server (cli_env.truncate env) cfg args of
       Inl e \<Rightarrow> failed e
     | Inr n \<Rightarrow> (case require_known_server (cli_env.truncate env) cfg n of Some e \<Rightarrow> failed e | None \<Rightarrow> f n))"

definition with_socket :: "verb_env \<Rightarrow> outcome \<Rightarrow> outcome" where
  "with_socket env f = (case ce_sock env of Inl _ \<Rightarrow> failed (plain_error ''resolve socket path'') | Inr _ \<Rightarrow> f)"

subsection \<open>What an agent reported\<close>

definition sanitize_row :: "ctl_detail \<Rightarrow> ctl_detail" where
  "sanitize_row d = \<lparr>cd_name = sanitize_agent_string (cd_name d), cd_address = sanitize_agent_string (cd_address d),
     cd_builtin = cd_builtin d, cd_provenance = sanitize_agent_string (cd_provenance d)\<rparr>"

definition table_json :: "string \<Rightarrow> string \<Rightarrow> bool \<Rightarrow> table_snapshot \<Rightarrow> ctl_detail list \<Rightarrow> string" where
  "table_json key row_key omit snap rows = json_text (J_obj [(''schema'', J_int (ts_schema snap)),
     (''server'', J_str (ts_server snap)), (key, J_list (map (detail_json row_key omit) rows))])"

definition route_line :: "ctl_detail \<Rightarrow> string" where
  "route_line d = ''  '' @ pad_right 20 (cd_name d) @ '' '' @ pad_right 40 (cd_address d) @
     (if cd_builtin d then '' (builtin)'' else [])"

definition print_routes_human :: "(rune \<Rightarrow> bool) \<Rightarrow> string \<Rightarrow> ctl_detail list \<Rightarrow> string list" where
  "print_routes_human wide server rows =
    (if rows = [] then [''server '' @ go_quote wide server @ '' reports no routes'']
     else (''routes for '' @ go_quote wide server @ '':'') # map route_line rows)"

definition origin_label :: "string \<Rightarrow> string" where
  "origin_label p = (if p = ''runtime'' then ''published while running''
     else if p = ''config'' then ''from configuration''
     else if p = ''builtin'' then ''builtin''
     else ''origin not recognised'')"

definition vhost_line :: "ctl_detail \<Rightarrow> string" where
  "vhost_line d = ''  '' @ pad_right 34 (cd_name d) @ '' '' @ pad_right 30 (cd_address d) @
     '' ('' @ origin_label (cd_provenance d) @ '')''"

definition print_vhosts_human :: "(rune \<Rightarrow> bool) \<Rightarrow> string \<Rightarrow> ctl_detail list \<Rightarrow> string list" where
  "print_vhosts_human wide server rows =
    (if rows = [] then [''server '' @ go_quote wide server @ '' publishes no names'']
     else (''names published by '' @ go_quote wide server @ '':'') # map vhost_line rows)"

definition run_status_routes :: "verb_env \<Rightarrow> config \<Rightarrow> string list \<Rightarrow> bool \<Rightarrow> outcome" where
  "run_status_routes env cfg args json_flag = with_server env cfg args (\<lambda>n. with_socket env
    (case client_call (ce_codec env) (ve_call env (Routes_call n)) (Routes_call n) of
       Inl e \<Rightarrow> relayed ''routes'' e True
     | Inr raw \<Rightarrow>
       (case ve_routes env raw of
          None \<Rightarrow> failed (plain_error ''parse routes response'')
        | Some snap \<Rightarrow> (let rows = map sanitize_row (ts_rows snap) in
            printed (if json_flag then [table_json ''routes'' ''target'' True snap rows]
              else print_routes_human (ve_wide env) (ts_server snap) rows)))))"

definition run_vhosts :: "verb_env \<Rightarrow> config \<Rightarrow> string list \<Rightarrow> bool \<Rightarrow> outcome" where
  "run_vhosts env cfg args json_flag = with_server env cfg args (\<lambda>n. with_socket env
    (case client_call (ce_codec env) (ve_call env (Vhosts_call n)) (Vhosts_call n) of
       Inl e \<Rightarrow> relayed ''vhosts'' e True
     | Inr raw \<Rightarrow>
       (case ve_vhosts env raw of
          None \<Rightarrow> failed (plain_error ''parse published-name response'')
        | Some snap \<Rightarrow> (let rows = map sanitize_row (ts_rows snap) in
            printed (if json_flag then [table_json ''vhosts'' ''host'' False snap rows]
              else print_vhosts_human (ve_wide env) (ts_server snap) rows)))))"

definition withdraw_json_output :: "withdraw_snapshot \<Rightarrow> string" where
  "withdraw_json_output snap = json_text (J_obj ([(''schema'', J_int (ws_schema snap)), (''server'', J_str (ws_server snap)),
     (''host'', J_str (sanitize_agent_string (ws_host snap)))] @
     omit_empty ''shadowed_by'' (sanitize_agent_string (ws_by snap)) @
     omit_empty ''shadowed_by_address'' (sanitize_agent_string (ws_address snap))))"

definition withdraw_lines :: "withdraw_snapshot \<Rightarrow> string list" where
  "withdraw_lines snap = (''withdrawn: '' @ sanitize_agent_string (ws_host snap)) #
     (if ws_by snap \<noteq> []
      then [''  still answered by '' @ sanitize_agent_string (ws_by snap) @
            '' in that agent's configuration, which points at '' @ sanitize_agent_string (ws_address snap)]
      else [])"

text \<open>The flag parser lets one or two arguments through.\<close>

definition run_vhosts_rm :: "verb_env \<Rightarrow> config \<Rightarrow> string \<Rightarrow> string list \<Rightarrow> bool \<Rightarrow> outcome" where
  "run_vhosts_rm env cfg host args json_flag =
    (if host = [] then failed (usage_error ''a name to withdraw is required'')
     else with_server env cfg args (\<lambda>n. with_socket env
       (case client_call (ce_codec env) (ve_call env (Withdraw_call n host)) (Withdraw_call n host) of
          Inl e \<Rightarrow> relayed ''withdraw'' e True
        | Inr raw \<Rightarrow>
          (case ve_withdrawn env raw of
             None \<Rightarrow> failed (plain_error ''parse withdraw response'')
           | Some snap \<Rightarrow> printed (if json_flag then [withdraw_json_output snap] else withdraw_lines snap)))))"

subsection \<open>Publishing\<close>

definition exposed_host :: "string \<Rightarrow> string \<Rightarrow> naming \<Rightarrow> string" where
  "exposed_host label server ng = label @ ''.'' @ server @ ''.'' @ ng_suffix ng"

definition expose_call :: "verb_env \<Rightarrow> string \<Rightarrow> string \<Rightarrow> int \<Rightarrow> outcome" where
  "expose_call env server host port = with_socket env
    (case client_call (ce_codec env) (ve_call env (Expose_call server host port)) (Expose_call server host port) of
       Inl e \<Rightarrow> relayed ''expose'' e True
     | Inr raw \<Rightarrow>
       (case ve_exposed env raw of
          None \<Rightarrow> failed (plain_error ''parse expose response'')
        | Some (h, http_port) \<Rightarrow>
            (let published = sanitize_agent_string h in
             printed [''url: http://'' @ (if published = [] then host else published) @ '':'' @ int_text http_port])))"

definition run_expose :: "verb_env \<Rightarrow> config \<Rightarrow> string list \<Rightarrow> string \<Rightarrow> outcome" where
  "run_expose env cfg args label =
    (if label = [] then failed (usage_error ''expose: --name NAME is required'')
     else
       (case atoi (last args) of
          None \<Rightarrow> failed (usage_error ''expose: not a port between 1 and 65535'')
        | Some port \<Rightarrow>
          if port < 1 \<or> 65535 < port then failed (usage_error ''expose: not a port between 1 and 65535'')
          else with_server env cfg (butlast args) (\<lambda>n.
            (case config_naming (cf_names cfg) of
               Inl _ \<Rightarrow> failed (plain_error ''naming settings'')
             | Inr ng \<Rightarrow>
               (case validate_vhost_label (to_lower label) of
                  Some _ \<Rightarrow> failed (usage_error ''expose: not a label'')
                | None \<Rightarrow> expose_call env n (exposed_host (to_lower label) n ng) port)))))"

subsection \<open>The daemon's own state\<close>

definition run_status_plain :: "verb_env \<Rightarrow> outcome" where
  "run_status_plain env = with_socket env
    (case status_json (ce_codec env) (ve_status env) of
       Inl e \<Rightarrow> relayed ''status'' e False
     | Inr raw \<Rightarrow> printed [raw])"

definition status_cmd :: "verb_env \<Rightarrow> config \<Rightarrow> string list \<Rightarrow> bool \<Rightarrow> bool \<Rightarrow> outcome" where
  "status_cmd env cfg args routes_flag json_flag =
    (if routes_flag then run_status_routes env cfg args json_flag
     else if args \<noteq> [] then failed (usage_error ''SERVER argument is only accepted together with --routes'')
     else run_status_plain env)"

definition docker_not_ready :: "string \<Rightarrow> string \<Rightarrow> string \<Rightarrow> outcome" where
  "docker_not_ready server reason says = ([], [Says says], Some (Go_error (Docker_not_ready server reason) []))"

definition docker_line :: "int \<Rightarrow> string" where
  "docker_line port = ''export DOCKER_HOST=tcp://127.0.0.1:'' @ int_text port"

definition docker_answer :: "(rune \<Rightarrow> bool) \<Rightarrow> string \<Rightarrow> server_row list \<Rightarrow> outcome" where
  "docker_answer wide n rows =
    (case find (\<lambda>r. sr_name r = n) rows of
       None \<Rightarrow> docker_not_ready n ''not managed by the running daemon''
         (''server '' @ go_quote wide n @ '' is not managed by the running daemon'')
     | Some r \<Rightarrow>
       if sr_session r = ''disabled'' then docker_not_ready n ''disabled''
         (''server '' @ go_quote wide n @ '' is disabled; set enabled = true in the config to use it'')
       else if sr_session r \<noteq> ''connected'' then docker_not_ready n (''session='' @ sr_session r)
         (''server '' @ go_quote wide n @ '' is not connected (session='' @ sr_session r @ ''); docker is not reachable'')
       else if sr_docker r = 0 then docker_not_ready n ''docker port is 0''
         (''server '' @ go_quote wide n @ '' has no docker port bound; docker is not reachable'')
       else printed [docker_line (sr_docker r)])"

definition run_docker_env :: "verb_env \<Rightarrow> config \<Rightarrow> string list \<Rightarrow> outcome" where
  "run_docker_env env cfg args = with_server env cfg args (\<lambda>n. with_socket env
    (case status_json (ce_codec env) (ve_status env) of
       Inl e \<Rightarrow> relayed ''status'' e False
     | Inr raw \<Rightarrow>
       (case ve_servers env raw of
          None \<Rightarrow> failed (plain_error ''parse daemon status'')
        | Some rows \<Rightarrow> docker_answer (ve_wide env) n rows)))"

subsection \<open>The terminal\<close>

datatype verb =
    Status_routes "string list" bool
  | Vhosts "string list" bool
  | Vhosts_rm string "string list" bool
  | Expose "string list" string

fun run_verb :: "verb_env \<Rightarrow> config \<Rightarrow> verb \<Rightarrow> outcome" where
  "run_verb env cfg (Status_routes args json) = run_status_routes env cfg args json"
| "run_verb env cfg (Vhosts args json) = run_vhosts env cfg args json"
| "run_verb env cfg (Vhosts_rm host args json) = run_vhosts_rm env cfg host args json"
| "run_verb env cfg (Expose args label) = run_expose env cfg args label"

text \<open>What a command printed on either stream: its lines, and what it said on standard error.\<close>

definition safe_remedy :: "remedy \<Rightarrow> bool" where
  "safe_remedy r = (case r of Says m \<Rightarrow> safe_text m | _ \<Rightarrow> True)"

definition safe_outcome :: "outcome \<Rightarrow> bool" where
  "safe_outcome x \<longleftrightarrow> list_all safe_text (fst x) \<and> list_all safe_remedy (fst (snd x))"

lemma safe_outcome_simps [simp]:
  "safe_outcome (failed e)" "safe_outcome (printed ls) \<longleftrightarrow> list_all safe_text ls"
  by (simp_all add: safe_outcome_def)

lemma safe_relayed:
  assumes "\<And>st m. e = Cl_routes st m \<Longrightarrow> safe_text m"
  shows "safe_outcome (relayed verb e aware)"
  using assms
  by (cases e) (auto simp: safe_outcome_def relayed_def relay_ipc_error_def socket_error_def safe_remedy_def is_error_def
      find_as_def wrapped_def)

lemma safe_with_server:
  "(\<And>n. require_known_server (cli_env.truncate env) cfg n = None \<Longrightarrow> safe_outcome (f n)) \<Longrightarrow>
     safe_outcome (with_server env cfg args f)"
  by (simp add: with_server_def split: sum.split option.split)

lemma safe_with_socket: "safe_outcome f \<Longrightarrow> safe_outcome (with_socket env f)"
  by (simp add: with_socket_def split: sum.split)

subsection \<open>What a daemon of this program answers\<close>

text \<open>
  A call that was not answered at all, or was answered over the socket by a daemon of the same user that runs
  this program's server, whatever its providers, that is the agents behind them, say.
\<close>

definition own_daemon :: "verb_env \<Rightarrow> relay_call \<Rightarrow> bool" where
  "own_daemon env c \<longleftrightarrow> (\<exists>e. ve_call env c = Inl e) \<or>
     (\<exists>de. ve_call env c = socket_to (ce_codec env) de (call_request c) \<and>
        ipc_codec_ok (ck_enc (ce_codec env)) (de_dec de) (call_request c) \<and>
        (\<forall>r. Wrote r \<in> set (handle_rpc (de_wide de) (de_server de) (call_request c)) \<longrightarrow>
          ipc_codec_ok (de_enc de) (ck_dec (ce_codec env)) r) \<and>
        uint (de_uid de) = sv_uid (de_server de) \<and> print_table_ok (de_wide de))"

text \<open>Every answer of such a daemon is one response whose message is safe to print.\<close>

definition one_safe_reply :: "ipc_event list \<Rightarrow> bool" where
  "one_safe_reply es \<longleftrightarrow> (\<exists>r. replies es = [r] \<and> safe_text (rs_msg r))"

lemma safe_refuse: "safe_text m \<Longrightarrow> one_safe_reply (refuse m)"
  by (simp add: one_safe_reply_def refuse_def error_response_def)

lemma safe_relay_reply:
  "safe_text generic \<Longrightarrow> (\<And>k. safe_text (too_large k)) \<Longrightarrow> one_safe_reply [Asked a, Wrote (relay_reply x generic too_large)]"
  by (auto simp: one_safe_reply_def relay_reply_def routes_error_response_def error_response_def ok_response_def safe_sanitized
      split: sum.split relay_failure.split)

lemma safe_too_large: "safe_text what \<Longrightarrow> plain_text fault \<Longrightarrow> safe_text (relay_too_large what fault k)"
  by (simp add: relay_too_large_def safe_append safe_plain safe_Cons del: append_Cons)

lemma safe_rpc_reply:
  assumes q: "print_table_ok wide"
  shows "one_safe_reply (handle_rpc wide sv (call_request c))"
proof -
  note q = safe_quote [OF q]
  note handlers = handle_rpc_def rpc_request_def handle_routes_def handle_vhosts_def handle_withdraw_def handle_expose_def
    meta_get_def Let_def
  note safe = safe_refuse safe_relay_reply safe_too_large safe_append q safe_Cons safe_plain
  show ?thesis
  proof (cases c)
    case (Routes_call s)
    then show ?thesis by (simp add: handlers del: append_Cons split: option.split) (intro conjI impI allI safe; simp)
  next
    case (Vhosts_call s)
    then show ?thesis by (simp add: handlers del: append_Cons split: option.split) (intro conjI impI allI safe; simp)
  next
    case (Withdraw_call s h)
    then show ?thesis by (simp add: handlers del: append_Cons split: option.split) (intro conjI impI allI safe; simp)
  next
    case (Expose_call s h p)
    then show ?thesis by (simp add: handlers del: append_Cons split: option.split) (intro conjI impI allI safe; simp)
  qed
qed

lemma refusals_are_safe:
  assumes "own_daemon env c" "client_call (ce_codec env) (ve_call env c) c = Inl e"
  shows "safe_outcome (relayed verb e aware)"
proof (rule safe_relayed)
  fix st m assume e: "e = Cl_routes st m"
  have no: "False" if "ve_call env c = Inl d" for d
    using assms(2) that e
    by (auto simp: client_call_exchange exchange_def client_dial_def split: if_splits)
  then obtain de where de: "ve_call env c = socket_to (ce_codec env) de (call_request c)"
    "ipc_codec_ok (ck_enc (ce_codec env)) (de_dec de) (call_request c)"
    "\<And>r. Wrote r \<in> set (handle_rpc (de_wide de) (de_server de) (call_request c)) \<Longrightarrow>
      ipc_codec_ok (de_enc de) (ck_dec (ce_codec env)) r"
    "uint (de_uid de) = sv_uid (de_server de)" "print_table_ok (de_wide de)"
    using assms(1) unfolding own_daemon_def by blast
  obtain r where r: "replies (handle_rpc (de_wide de) (de_server de) (call_request c)) = [r]" "safe_text (rs_msg r)"
    using safe_rpc_reply [OF de(5), of "de_server de" c] unfolding one_safe_reply_def by blast
  then have "replies (daemon_events de (request_bytes (ce_codec env) (call_request c))) = [r]"
    using daemon_replies(1) [OF de(2,4)] by simp
  moreover have "ipc_codec_ok (de_enc de) (ck_dec (ce_codec env)) r"
    using de(3) replies_wrote r(1) by (metis list.set_intros(1))
  ultimately have "exchange (ce_codec env) (ve_call env c) (call_request c) = Inr r"
    unfolding de(1) by (rule exchange_answered [OF de(2)])
  then show "safe_text m" using assms(2) e r(2) by (simp add: client_call_exchange body_or_def split: if_splits)
qed

text \<open>A call, the decoding of its body, and the lines printed of it.\<close>

lemma safe_answer:
  assumes "own_daemon env c" "\<And>raw snap. dec raw = Some snap \<Longrightarrow> list_all safe_text (ls snap)"
  shows "safe_outcome (case client_call (ce_codec env) (ve_call env c) c of Inl e \<Rightarrow> relayed verb e aware
    | Inr raw \<Rightarrow> (case dec raw of None \<Rightarrow> failed err | Some snap \<Rightarrow> printed (ls snap)))"
  using assms refusals_are_safe [OF assms(1)] by (simp split: sum.split option.split)

lemmas safe_verb_intros = safe_with_server safe_with_socket safe_answer

lemma safe_row_fields:
  "safe_text (cd_name (sanitize_row d))" "safe_text (cd_address (sanitize_row d))" "safe_text (cd_provenance (sanitize_row d))"
  by (simp_all add: sanitize_row_def safe_sanitized)

lemma safe_route_line: "safe_text (route_line (sanitize_row d))"
  unfolding route_line_def by (intro safe_intros safe_row_fields) (simp_all split: if_split add: safe_plain)

lemma safe_vhost_line: "safe_text (vhost_line (sanitize_row d))"
  unfolding vhost_line_def origin_label_def by (intro safe_intros safe_row_fields) simp_all

lemma safe_table_json:
  assumes "plain_text key" "plain_text row_key" "safe_text (ts_server snap)"
  shows "safe_text (table_json key row_key omit snap (map sanitize_row rows))"
proof -
  have "safe_json (detail_json row_key omit (sanitize_row d))" for d
    using assms(2) safe_row_fields [of d] by (simp add: detail_json_def safe_plain safe_omit_empty)
  then show ?thesis
    unfolding table_json_def by (intro safe_json_text(1)) (simp add: assms safe_plain list_all_iff)
qed

lemma safe_human:
  assumes "print_table_ok wide"
  shows "list_all safe_text (print_routes_human wide server (map sanitize_row rows))"
    and "list_all safe_text (print_vhosts_human wide server (map sanitize_row rows))"
  using safe_quote [OF assms, of server]
  by (simp_all add: print_routes_human_def print_vhosts_human_def list_all_iff safe_route_line safe_vhost_line safe_Cons
      safe_append safe_plain del: append_Cons)

lemma safe_withdrawn:
  assumes "safe_text (ws_server snap)"
  shows "safe_text (withdraw_json_output snap)" "list_all safe_text (withdraw_lines snap)"
proof -
  show "safe_text (withdraw_json_output snap)"
    unfolding withdraw_json_output_def
    by (intro safe_json_text(1)) (simp add: assms safe_plain safe_sanitized safe_omit_empty)
  show "list_all safe_text (withdraw_lines snap)"
    by (simp add: withdraw_lines_def safe_append safe_plain safe_sanitized del: append_Cons)
qed

lemma host_form_safe:
  assumes "host_form h"
  shows "safe_text h"
proof -
  have "0x20 \<le> ord c \<and> ord c < 0x7f" if "c \<in> set h" for c
    using host_form_byte [OF assms that] by (auto simp: lower_or_digit_or_dash_def)
  then show ?thesis by (intro safe_plain) (simp add: plain_text_def list_all_iff)
qed

lemma safe_exposed_host:
  assumes "validate_vhost_label l = None" "safe_text n" "config_naming names = Inr ng"
  shows "safe_text (exposed_host l n ng)"
proof -
  have "safe_text l" using assms(1) valid_label_host_form host_form_safe by (auto simp: validate_vhost_label_def split: if_splits)
  moreover have "safe_text (ng_suffix ng)" using resolved_suffix_good [OF assms(3)] host_form_safe by (auto simp: good_suffix_def)
  ultimately show ?thesis using assms(2) by (simp add: exposed_host_def safe_Cons safe_append)
qed

lemma safe_expose_call:
  assumes "own_daemon env (Expose_call server host port)" "safe_text host"
  shows "safe_outcome (expose_call env server host port)"
  unfolding expose_call_def
  using assms(2) refusals_are_safe [OF assms(1)]
  by (intro safe_with_socket)
    (simp add: Let_def safe_Cons safe_append safe_plain safe_sanitized del: client_call.simps split: sum.split option.split)

text \<open>
  C37: Whatever an agent puts into its tables, answers and refusals, the commands that list routes and names, publish
  and withdraw print only lines a terminal shows as they are, on standard output and on standard error: every line
  decodes without an invalid byte and holds no control character, line break, format character or separator. What an
  agent reported is made safe where it is printed, whatever the daemon passed on; why it refused is made safe by the
  daemon, which is the one of this user and this program or none at all. Beyond that the printing commands rely on no
  more than this machine's own words: the names of its servers, and the server a snapshot of the daemon is about.
\<close>

theorem terminal_stays_safe:
  assumes "print_table_ok (ve_wide env)" and own: "\<And>c. own_daemon env c"
    and "\<And>n. require_known_server (cli_env.truncate env) cfg n = None \<Longrightarrow> safe_text n"
    and "\<And>raw snap. ve_routes env raw = Some snap \<or> ve_vhosts env raw = Some snap \<Longrightarrow> safe_text (ts_server snap)"
    and "\<And>raw snap. ve_withdrawn env raw = Some snap \<Longrightarrow> safe_text (ws_server snap)"
  shows "list_all safe_text (fst (run_verb env cfg v)) \<and>
    (\<forall>m. Says m \<in> set (fst (snd (run_verb env cfg v))) \<longrightarrow> safe_text m)"
proof -
  have "safe_outcome (run_verb env cfg v)"
  proof (cases v)
    case (Status_routes args json)
    then show ?thesis using safe_human(1) [OF assms(1)] assms(4) [OF disjI1] safe_table_json [of "''routes''" "''target''"]
      unfolding Status_routes run_verb.simps run_status_routes_def Let_def by (intro safe_verb_intros own) simp
  next
    case (Vhosts args json)
    then show ?thesis using safe_human(2) [OF assms(1)] assms(4) [OF disjI2] safe_table_json [of "''vhosts''" "''host''"]
      unfolding Vhosts run_verb.simps run_vhosts_def Let_def by (intro safe_verb_intros own) simp
  next
    case (Vhosts_rm host args json)
    then show ?thesis using safe_withdrawn assms(5)
      unfolding Vhosts_rm run_verb.simps run_vhosts_rm_def
      by (simp del: client_call.simps) (intro impI safe_verb_intros own, simp)
  next
    case (Expose args label)
    have "safe_outcome (case config_naming (cf_names cfg) of
         Inl _ \<Rightarrow> failed (plain_error ''naming settings'')
       | Inr ng \<Rightarrow> (case validate_vhost_label (to_lower label) of
             Some _ \<Rightarrow> failed (usage_error ''expose: not a label'')
           | None \<Rightarrow> expose_call env n (exposed_host (to_lower label) n ng) port))"
      if "require_known_server (cli_env.truncate env) cfg n = None" for n port
      using assms(3) [OF that] safe_exposed_host safe_expose_call [OF own] by (simp split: sum.split option.split)
    then show ?thesis using Expose by (simp add: run_expose_def safe_with_server split: option.split)
  qed
  then show ?thesis by (auto simp: safe_outcome_def list_all_iff safe_remedy_def)
qed

text \<open>An agent that refuses with an escape sequence in its words, relayed by the daemon of this user.\<close>

definition rude_refusal :: string where
  "rude_refusal = CHR 0x1b # ''[2Jno''"

definition rude_daemon :: daemon_end where
  "rude_daemon = sample_daemon\<lparr>de_dec := (\<lambda>_. Inr (call_request (Routes_call ''db''))),
     de_server := (de_server sample_daemon)\<lparr>sv_routes := Some (\<lambda>_. Inl (Routes_error 3 rude_refusal))\<rparr>\<rparr>"

definition sample_verbs :: verb_env where
  "sample_verbs = \<lparr>ce_sock = Inr ''/run/q.sock'',
     ce_codec = \<lparr>ck_enc = (\<lambda>_. Inr []), ck_dec = (\<lambda>_. Inr (routes_error_response 3 rude_refusal))\<rparr>,
     ce_conn = Inl (Dial_refused []), ce_names = (\<lambda>_. None), ve_wide = (\<lambda>_. False), ve_status = Inl (Dial_refused []),
     ve_call = (\<lambda>c. if c = Routes_call ''db''
       then socket_to \<lparr>ck_enc = (\<lambda>_. Inr []), ck_dec = (\<lambda>_. Inr (routes_error_response 3 rude_refusal))\<rparr> rude_daemon
         (call_request c)
       else Inl (Dial_refused [])),
     ve_routes = (\<lambda>_. None), ve_vhosts = (\<lambda>_. None), ve_withdrawn = (\<lambda>_. None), ve_exposed = (\<lambda>_. None),
     ve_servers = (\<lambda>_. None)\<rparr>"

lemma sample_known: "require_known_server (cli_env.truncate sample_verbs) sample_config n = None \<longleftrightarrow> n = ''db''"
proof -
  have "ask_status (cli_env.truncate sample_verbs) = Inl (Cl_daemon_absent [])"
    by (simp add: ask_status_def sample_verbs_def cli_env.defs status_json_def exchange_def client_dial_def is_net_refused_def)
  then show ?thesis by (simp add: known_without_daemon sample_config_def)
qed

lemma rude_reply:
  "handle_rpc (de_wide rude_daemon) (de_server rude_daemon) (call_request (Routes_call ''db'')) =
    [Asked (Ask_routes ''db''), Wrote (routes_error_response 3 rude_refusal)]"
  by (simp add: rude_daemon_def sample_daemon_def handle_rpc_def rpc_request_def handle_routes_def relay_reply_def)

lemma sample_own: "own_daemon sample_verbs c"
proof (cases "c = Routes_call ''db''")
  case True
  have "own_daemon sample_verbs (Routes_call ''db'')"
    unfolding own_daemon_def
    by (intro disjI2 exI [of _ rude_daemon] conjI)
      (simp_all add: sample_verbs_def rude_reply ipc_codec_ok_def del: call_request.simps,
       simp_all add: rude_daemon_def sample_daemon_def sample_server_def print_table_ok_def)
  then show ?thesis using True by simp
qed (simp add: own_daemon_def sample_verbs_def)

lemma rude_call:
  "client_call (ce_codec sample_verbs) (ve_call sample_verbs (Routes_call ''db'')) (Routes_call ''db'') =
    Inl (Cl_routes 3 (sanitize_agent_string rude_refusal))"
proof -
  have "exchange (ce_codec sample_verbs) (ve_call sample_verbs (Routes_call ''db'')) (call_request (Routes_call ''db'')) =
      Inr (routes_error_response 3 rude_refusal)"
  proof -
    have "replies (daemon_events rude_daemon (request_bytes (ce_codec sample_verbs) (call_request (Routes_call ''db'')))) =
        [routes_error_response 3 rude_refusal]"
      by (subst daemon_replies(1))
        (simp_all add: rude_reply del: call_request.simps,
         simp_all add: rude_daemon_def sample_daemon_def sample_server_def sample_verbs_def ipc_codec_ok_def)
    then show ?thesis
      unfolding sample_verbs_def verb_env.simps cli_env.simps if_True simp_thms
      by (intro exchange_answered [where dec = "de_dec rude_daemon"])
        (simp_all add: sample_verbs_def rude_daemon_def sample_daemon_def ipc_codec_ok_def del: call_request.simps)
  qed
  then show ?thesis
    by (simp add: client_call_exchange body_or_def routes_error_response_def error_response_def del: call_request.simps
        client_call.simps)
qed

theorem terminal_stays_safe_witness:
  "\<exists>m e. run_verb sample_verbs sample_config (Status_routes [''db''] False) = ([], [Says m], Some e) \<and> safe_text m \<and>
     \<not> safe_text rude_refusal"
proof -
  let ?m = "sanitize_agent_string rude_refusal"
  have said: "relayed verb (Cl_routes 3 m) True = ([], [Says m], Some (Go_error (Final_exit 3 m) []))" for verb m
    by (simp add: relayed_def relay_ipc_error_def socket_error_def is_error_def find_as_def)
  have run: "run_verb sample_verbs sample_config (Status_routes [''db''] False) =
      ([], [Says ?m], Some (Go_error (Final_exit 3 ?m) []))"
    using sample_known [of "''db''"] rude_call
    by (simp add: run_status_routes_def with_server_def auto_select_server_def with_socket_def del: client_call.simps)
      (simp add: sample_verbs_def said)
  have "safe_text ?m"
    using terminal_stays_safe [where env = sample_verbs and cfg = sample_config and v = "Status_routes [''db''] False"]
      sample_own by (simp add: run del: run_verb.simps) (simp add: sample_known, simp add: sample_verbs_def print_table_ok_def safe_plain)
  moreover have "\<not> safe_text rude_refusal"
    by (simp add: rude_refusal_def safe_text_def runes_ascii_Cons agent_keeps_def is_unsafe_agent_rune_def is_control_def)
  ultimately show ?thesis using run by blast
qed

subsection \<open>docker-env\<close>

lemma relayed_exit:
  "exit_code_for_error (fst (relay_ipc_error verb (socket_error e) False)) \<in> {1, 3}"
  by (cases e) (simp_all add: socket_error_def relay_ipc_error_def, simp_all add: cli_error_simps)

text \<open>
  A shell that evaluates the output of \<^verbatim>\<open>docker-env\<close> exports a port only when the daemon said that the server is
  connected and has one; in every other case nothing is printed and the exit code says so.
\<close>

definition nothing_exported :: "outcome \<Rightarrow> bool" where
  "nothing_exported x \<longleftrightarrow> fst x = [] \<and> (\<exists>e. snd (snd x) = Some e \<and> exit_code_for_error e \<in> {1, 2, 3})"

lemma docker_answer_cases:
  "nothing_exported (docker_answer wide n rows) \<or>
     (\<exists>r. find (\<lambda>r. sr_name r = n) rows = Some r \<and> sr_session r = ''connected'' \<and> sr_docker r \<noteq> 0 \<and>
        docker_answer wide n rows = printed [docker_line (sr_docker r)])"
  by (auto simp: docker_answer_def docker_not_ready_def nothing_exported_def cli_error_simps split: option.splits)

lemma docker_env_all_or_nothing:
  "nothing_exported (run_docker_env env cfg args) \<or>
     (\<exists>n raw rows r. require_known_server (cli_env.truncate env) cfg n = None \<and>
        status_json (ce_codec env) (ve_status env) = Inr raw \<and> ve_servers env raw = Some rows \<and>
        find (\<lambda>r. sr_name r = n) rows = Some r \<and> sr_session r = ''connected'' \<and> sr_docker r \<noteq> 0 \<and>
        run_docker_env env cfg args = printed [docker_line (sr_docker r)])"
proof -
  have plain: "nothing_exported (failed (plain_error m))" for m by (simp add: nothing_exported_def)
  have rel: "nothing_exported (relayed ''status'' e False)" for e
    using relayed_exit [of "''status''" e] by (auto simp: relayed_def nothing_exported_def split: prod.split)
  have usage: "exit_code_for_error e = 2 \<Longrightarrow> nothing_exported (failed e)" for e by (simp add: nothing_exported_def)
  show ?thesis
  proof (cases "auto_select_server (cli_env.truncate env) cfg args")
    case (Inl e)
    then show ?thesis using usage [OF auto_select_usage] by (simp add: run_docker_env_def with_server_def)
  next
    case n: (Inr n)
    show ?thesis
    proof (cases "require_known_server (cli_env.truncate env) cfg n")
      case None
      show ?thesis
        using plain rel docker_answer_cases [of "ve_wide env" n] n None
        unfolding run_docker_env_def with_server_def with_socket_def
        by (cases "ce_sock env"; cases "status_json (ce_codec env) (ve_status env)"; simp)
          (metis (no_types, lifting) option.case_eq_if option.collapse)
    next
      case (Some e)
      then show ?thesis using n usage [OF require_known_usage] by (simp add: run_docker_env_def with_server_def)
    qed
  qed
qed

text \<open>And when the daemon says so, the line is printed.\<close>

lemma docker_line_printed:
  assumes "auto_select_server (cli_env.truncate env) cfg args = Inr n" "require_known_server (cli_env.truncate env) cfg n = None"
    and "ce_sock env = Inr s" "status_json (ce_codec env) (ve_status env) = Inr raw" "ve_servers env raw = Some rows"
    and "find (\<lambda>r. sr_name r = n) rows = Some r" "sr_session r = ''connected''" "sr_docker r \<noteq> 0"
  shows "run_docker_env env cfg args = printed [docker_line (sr_docker r)]"
  using assms by (simp add: run_docker_env_def with_server_def with_socket_def docker_answer_def)

subsection \<open>From the agent's table to the terminal\<close>

text \<open>
  The names an agent reports are the names listed: over the socket of a daemon of the same user whose session with
  the server is up, each row of the agent's reply is one line, sanitized, in the agent's order.
\<close>

lemma vhosts_lists_the_agents_names:
  assumes "auto_select_server (cli_env.truncate env) cfg args = Inr n" "require_known_server (cli_env.truncate env) cfg n = None"
    and "ce_sock env = Inr s" and d: "ve_call env (Vhosts_call n) = socket_to (ce_codec env) de (call_request (Vhosts_call n))"
    and codec: "ipc_codec_ok (ck_enc (ce_codec env)) (de_dec de) (call_request (Vhosts_call n))"
      "\<And>r. Wrote r \<in> set (handle_rpc (de_wide de) (de_server de) (call_request (Vhosts_call n))) \<Longrightarrow> ipc_codec_ok (de_enc de) (ck_dec (ce_codec env)) r"
    and uid: "uint (de_uid de) = sv_uid (de_server de)" and n: "n \<noteq> []"
    and prov: "sv_vhosts (de_server de) = Some (\<lambda>server. fst (vhosts_provider wide st call server t))"
    and up: "before_call wide n st = None" "fst (call List_vhosts t) = Inr (Vhosts_reply ds)"
    and fits: "length body \<le> 65024" "body = json_text (J_obj [(''schema'', J_int 1), (''server'', J_str n),
       (''vhosts'', J_list (map (detail_json ''host'' False) ds))])"
    and json: "ve_vhosts env body = Some \<lparr>ts_schema = 1, ts_server = n, ts_rows = ds\<rparr>"
  shows "run_vhosts env cfg args False = printed (print_vhosts_human (ve_wide env) n (map sanitize_row ds))"
proof -
  have "fst (vhosts_provider wide st call n t) = Inr body"
    using up fits(2) by (cases "call List_vhosts t") (simp add: vhosts_provider_def)
  then have p: "provider_result (de_server de) (Vhosts_call n) = Some (Inr body)" using prov n by simp
  obtain g k where "exchange (ce_codec env) (ve_call env (Vhosts_call n)) (call_request (Vhosts_call n)) = Inr (relay_reply (Inr body) g k)"
    using relayed_exchange [OF codec uid p] unfolding d by blast
  then have "client_call (ce_codec env) (ve_call env (Vhosts_call n)) (Vhosts_call n) = Inr body"
    using fits(1) by (rule relayed_body)
  then show ?thesis
    using assms(1-3) json by (simp add: run_vhosts_def with_server_def with_socket_def del: client_call.simps)
qed

end
