(* ===== verification/Cli_Fwd.thy ===== *)
theory Cli_Fwd
  imports Cli_Servers Fwd_Preflight
begin

text \<open>
  \<^verbatim>\<open>cmd/quic-link/fwd.go\<close>: the arguments of a forward, and what happens before its accept loop (\<open>Fwd\<close>) runs.

  The run gives its standard output, what it says on standard error, its error, and what it listens for: the server,
  the target and the bound port it hands to the loop. Binding is an argument: the port bound, or the class of the
  error (\<^verbatim>\<open>errors.Is\<close> against an errno).
\<close>

definition split_fwd_args :: "string list \<Rightarrow> cli_error + (string \<times> string)" where
  "split_fwd_args args =
    (case args of
       [] \<Rightarrow> Inl (usage_error ''TARGET is required: fwd [SERVER] TARGET[:LOCAL_PORT]'')
     | [t] \<Rightarrow> Inr ([], t)
     | [s, t] \<Rightarrow> Inr (s, t)
     | _ \<Rightarrow> Inl (usage_error ''too many arguments: fwd [SERVER] TARGET[:LOCAL_PORT]''))"

text \<open>\<^verbatim>\<open>strings.Cut\<close>: without the separator the whole text is before it. Port 0 stands for none given.\<close>

definition parse_fwd_target :: "string \<Rightarrow> cli_error + (string \<times> int)" where
  "parse_fwd_target arg =
    (let (target, port_text) = (case cut_at (CHR '':'') arg of None \<Rightarrow> (arg, None) | Some (t, p) \<Rightarrow> (t, Some p)) in
     if validate_route_name target \<noteq> None then Inl (usage_error (''invalid TARGET '' @ target))
     else (case port_text of
         None \<Rightarrow> Inr (target, 0)
       | Some p \<Rightarrow>
         (case atoi p of
            None \<Rightarrow> Inl (usage_error (''invalid LOCAL_PORT '' @ p))
          | Some n \<Rightarrow> if n < 1 \<or> 65535 < n then Inl (usage_error (''invalid LOCAL_PORT '' @ p)) else Inr (target, n))))"

datatype bind_error = Address_in_use | Access_denied | Bind_failed string

definition classify_bind_error :: "int \<Rightarrow> bind_error \<Rightarrow> cli_error" where
  "classify_bind_error port e =
    (case e of
       Address_in_use \<Rightarrow> usage_error (''local port '' @ int_text port @ '' is already in use; choose a different LOCAL_PORT or omit it to auto-pick one'')
     | Access_denied \<Rightarrow> usage_error (''local port '' @ int_text port @ '' requires elevated privileges to bind; choose a local port of 1024 or above instead'')
     | Bind_failed m \<Rightarrow> wrapped ''bind local port'' (plain_error m))"

text \<open>The address bound: port 0 leaves the choice to the system.\<close>

definition fwd_bind_addr :: "int \<Rightarrow> string" where
  "fwd_bind_addr port = ''127.0.0.1:'' @ int_text (if 0 < port then port else 0)"

definition bind_fwd_listener :: "(string \<Rightarrow> bind_error + int) \<Rightarrow> int \<Rightarrow> cli_error + int" where
  "bind_fwd_listener listen port =
    (case listen (fwd_bind_addr port) of Inl e \<Rightarrow> Inl (classify_bind_error port e) | Inr p \<Rightarrow> Inr p)"

record fwd_env = cli_env +
  fe_wide :: "rune \<Rightarrow> bool"
  fe_attach :: "dial_failure + client_conn"
  fe_armed :: "string option"
  fe_listen :: "string \<Rightarrow> bind_error + int"

datatype fwd_says = Start_the_daemon | Agent_refused preflight_msg | Guidance string | Listening_anyway preflight_msg

record fwd_run =
  fr_out :: "string list"
  fr_says :: "fwd_says list"
  fr_error :: "cli_error option"
  fr_binds :: bool
  fr_listens :: "(string \<times> string \<times> int) option"

definition fwd_failed :: "cli_error \<Rightarrow> fwd_run" where
  "fwd_failed e = \<lparr>fr_out = [], fr_says = [], fr_error = Some e, fr_binds = False, fr_listens = None\<rparr>"

definition listening_line :: "int \<Rightarrow> string \<Rightarrow> string \<Rightarrow> string" where
  "listening_line port server target = ''listening 127.0.0.1:'' @ int_text port @ '' -> '' @ server @ CHR '':'' # target"

definition msg_text :: "preflight_msg \<Rightarrow> string" where
  "msg_text m = (case m of Agent_msg s \<Rightarrow> s | _ \<Rightarrow> [])"

text \<open>From the preflight on; \<open>fr_binds\<close>: a local port was asked for.\<close>

definition fwd_start :: "fwd_env \<Rightarrow> string \<Rightarrow> string \<Rightarrow> int \<Rightarrow> fwd_run" where
  "fwd_start env server target port =
    (let pre = fst (preflight (fe_wide env) target (fst (client_attach (ce_codec env) (fe_attach env) (fe_armed env) server target Map.empty)));
         go = (\<lambda>says. case bind_fwd_listener (fe_listen env) port of
             Inl e \<Rightarrow> \<lparr>fr_out = [], fr_says = says, fr_error = Some e, fr_binds = True, fr_listens = None\<rparr>
           | Inr p \<Rightarrow> \<lparr>fr_out = [listening_line p server target], fr_says = says, fr_error = None, fr_binds = True,
               fr_listens = Some (server, target, p)\<rparr>) in
     (case pf_outcome pre of
        Preflight_Daemon_Absent \<Rightarrow> (fwd_failed (Go_error Daemon_not_running []))\<lparr>fr_says := [Start_the_daemon]\<rparr>
      | Preflight_Fatal \<Rightarrow> (fwd_failed (Go_error (Final_exit (pf_status pre) (msg_text (pf_msg pre))) []))
          \<lparr>fr_says := Agent_refused (pf_msg pre) # (if pf_guidance pre \<noteq> [] then [Guidance (pf_guidance pre)] else [])\<rparr>
      | Preflight_Warn \<Rightarrow> go [Listening_anyway (pf_msg pre)]
      | Preflight_OK \<Rightarrow> go []))"

definition run_fwd :: "fwd_env \<Rightarrow> config \<Rightarrow> string list \<Rightarrow> fwd_run" where
  "run_fwd env cfg args =
    (case split_fwd_args args of
       Inl e \<Rightarrow> fwd_failed e
     | Inr (server_arg, target_arg) \<Rightarrow>
       (case parse_fwd_target target_arg of
          Inl e \<Rightarrow> fwd_failed e
        | Inr (target, port) \<Rightarrow>
          (case auto_select_server (cli_env.truncate env) cfg (if server_arg \<noteq> [] then [server_arg] else []) of
             Inl e \<Rightarrow> fwd_failed e
           | Inr server \<Rightarrow>
             (case require_known_server (cli_env.truncate env) cfg server of
                Some e \<Rightarrow> fwd_failed e
              | None \<Rightarrow>
                (case ce_sock env of
                   Inl _ \<Rightarrow> fwd_failed (plain_error ''resolve socket path'')
                 | Inr _ \<Rightarrow> fwd_start env server target port)))))"

subsection \<open>What a forward listens for\<close>

text \<open>The target is the text before the first colon, and never holds one.\<close>

lemma parsed_target:
  assumes "parse_fwd_target arg = Inr (target, port)"
  shows "validate_route_name target = None" "0 \<le> port \<and> port \<le> 65535"
    and "if port = 0 then arg = target else \<exists>p. arg = target @ CHR '':'' # p \<and> atoi p = Some port"
  using assms
  by (auto simp: parse_fwd_target_def Let_def cut_at_def dest: index_byte_SomeD split: option.splits if_splits prod.splits)

lemma parse_written_target:
  assumes "validate_route_name target = None" "1 \<le> p" "p \<le> 65535"
  shows "parse_fwd_target (target @ CHR '':'' # int_text p) = Inr (target, p)" "parse_fwd_target target = Inr (target, 0)"
proof -
  have colon: "CHR '':'' \<notin> set target" using route_name_no_separator [OF assms(1)] by simp
  then show "parse_fwd_target (target @ CHR '':'' # int_text p) = Inr (target, p)"
    using assms atoi_int_text by (simp add: parse_fwd_target_def cut_at_def index_byte_append)
  show "parse_fwd_target target = Inr (target, 0)"
    using assms(1) colon index_byte_None_iff [of target "CHR '':''"] by (simp add: parse_fwd_target_def cut_at_def)
qed

text \<open>A port is asked for only when the name is known and the preflight let the forward start.\<close>

lemma fwd_failed_binds [simp]: "fr_binds (fwd_failed e) = False" "fr_listens (fwd_failed e) = None" "fr_out (fwd_failed e) = []"
  by (simp_all add: fwd_failed_def)

lemma binds_only_after_checks:
  assumes "fr_binds (run_fwd env cfg args)"
  shows "\<exists>sa ta server target port. split_fwd_args args = Inr (sa, ta) \<and> parse_fwd_target ta = Inr (target, port) \<and>
    require_known_server (cli_env.truncate env) cfg server = None \<and>
    pf_outcome (fst (preflight (fe_wide env) target
      (fst (client_attach (ce_codec env) (fe_attach env) (fe_armed env) server target Map.empty)))) \<in> {Preflight_OK, Preflight_Warn}"
proof -
  obtain sa ta target port server where p: "split_fwd_args args = Inr (sa, ta)" "parse_fwd_target ta = Inr (target, port)"
    "require_known_server (cli_env.truncate env) cfg server = None" "fr_binds (fwd_start env server target port)"
    using assms by (auto simp: run_fwd_def split: sum.splits option.splits)
  moreover from p(4) have "pf_outcome (fst (preflight (fe_wide env) target
      (fst (client_attach (ce_codec env) (fe_attach env) (fe_armed env) server target Map.empty)))) \<in> {Preflight_OK, Preflight_Warn}"
    by (simp add: fwd_start_def Let_def split: preflight_outcome.splits)
  ultimately show ?thesis by blast
qed

definition starts_listening :: "fwd_env \<Rightarrow> string \<Rightarrow> string \<Rightarrow> int \<Rightarrow> fwd_run \<Rightarrow> bool" where
  "starts_listening env server target port run \<longleftrightarrow> fr_binds run \<and>
    (case fe_listen env (fwd_bind_addr port) of
       Inl e \<Rightarrow> fr_out run = [] \<and> fr_listens run = None \<and> fr_error run = Some (classify_bind_error port e)
     | Inr p \<Rightarrow> fr_out run = [listening_line p server target] \<and> fr_listens run = Some (server, target, p) \<and> fr_error run = None)"

definition refused_with :: "int \<Rightarrow> fwd_run \<Rightarrow> bool" where
  "refused_with code run \<longleftrightarrow> \<not> fr_binds run \<and> fr_out run = [] \<and>
    (\<exists>e. fr_error run = Some e \<and> main_exit (Some e) = (code, False))"

lemma fwd_start_outcomes:
  assumes "pre = fst (preflight (fe_wide env) target (fst (client_attach (ce_codec env) (fe_attach env) (fe_armed env) server target Map.empty)))"
  shows "pf_outcome pre \<in> {Preflight_OK, Preflight_Warn} \<Longrightarrow> starts_listening env server target port (fwd_start env server target port)"
    and "pf_outcome pre = Preflight_Fatal \<Longrightarrow> refused_with (pf_status pre) (fwd_start env server target port)"
    and "pf_outcome pre = Preflight_Daemon_Absent \<Longrightarrow> refused_with 3 (fwd_start env server target port)"
  unfolding fwd_start_def assms [symmetric]
  by (auto simp: Let_def starts_listening_def refused_with_def bind_fwd_listener_def fwd_failed_def main_exit_def
      is_error_wrap find_as_def exit_code_for_error_def class_code_def split: sum.splits)

lemma refused_status:
  "pf_outcome (fst (preflight wide target (Inl (Cl_attach s m)))) = Preflight_Fatal \<Longrightarrow>
     pf_status (fst (preflight wide target (Inl (Cl_attach s m)))) = s"
  by (simp add: preflight_def split: if_splits)

text \<open>
  C38: A forward starts or not as the agent says. For arguments that name a known server and a target, over the socket
  of a daemon of the same user: when the agent itself refuses for good, nothing is bound and the process ends with the
  code of the agent's own status; in every other case, the daemon's own refusals and silence included, exactly the
  address asked for is bound, and the one line printed names the port bound, the server and the target; a port that
  cannot be bound ends the run with nothing printed.
\<close>

theorem forward_starts_as_the_agent_says:
  fixes env :: fwd_env
  assumes "split_fwd_args args = Inr (sa, ta)" "parse_fwd_target ta = Inr (target, port)"
    and "auto_select_server (cli_env.truncate env) cfg (if sa \<noteq> [] then [sa] else []) = Inr server"
    and "require_known_server (cli_env.truncate env) cfg server = None" "ce_sock env = Inr s"
    and "fe_attach env = socket_to (ce_codec env) de (attach_request server target Map.empty)" "fe_armed env = None"
    and "ipc_codec_ok (ck_enc (ce_codec env)) (de_dec de) (attach_request server target Map.empty)"
    and "\<And>r. r \<in> set (replies (handle_attach (de_wide de) (de_ctx de) (de_server de) (de_in_flight de)
        (attach_request server target Map.empty))) \<Longrightarrow> ipc_codec_ok (de_enc de) (ck_dec (ce_codec env)) r"
    and "uint (de_uid de) = sv_uid (de_server de)"
  shows "case attach_fate_of de server target Map.empty of
      Agent_answers resp \<Rightarrow>
        if agent_says_no resp then refused_with (int (exit_code_for_status (r_status resp))) (run_fwd env cfg args)
        else starts_listening env server target port (run_fwd env cfg args)
    | _ \<Rightarrow> starts_listening env server target port (run_fwd env cfg args)"
proof -
  have run: "run_fwd env cfg args = fwd_start env server target port" using assms(1-5) by (simp add: run_fwd_def)
  let ?att = "fst (client_attach (ce_codec env) (fe_attach env) None server target Map.empty)"
  note fate = client_attach_fate [OF assms(8-10), folded assms(6)]
  have starts: "pf_outcome (fst (preflight (fe_wide env) target ?att)) \<in> {Preflight_OK, Preflight_Warn} \<Longrightarrow>
      starts_listening env server target port (run_fwd env cfg args)"
    using fwd_start_outcomes(1) [OF refl, of env target server port] assms(7) run by simp
  show ?thesis
  proof (cases "attach_fate_of de server target Map.empty")
    case (Daemon_refuses st)
    then show ?thesis using fate starts by (auto simp: preflight_outcomes is_agent_scoped_def)
  next
    case Nobody_answers
    then show ?thesis using fate starts by (auto simp: preflight_outcomes)
  next
    case (Agent_answers resp)
    show ?thesis
    proof (cases "agent_says_no resp")
      case True
      then have att: "?att = Inl (Cl_attach (int (exit_code_for_status (r_status resp))) (sanitize_agent_string (r_msg resp)))"
        using fate Agent_answers by (auto simp: agent_says_no_def status_defs)
      have fatal: "pf_outcome (fst (preflight (fe_wide env) target ?att)) = Preflight_Fatal"
        unfolding att using True by (simp add: preflight_outcomes agent_scoped_codes)
      then show ?thesis
        using fwd_start_outcomes(2) [OF refl, of env target server port] fatal refused_status [of "fe_wide env" target] True Agent_answers
          assms(7) run att by simp
    next
      case False
      then show ?thesis using fate starts Agent_answers
        by (cases "r_status resp = status_ok") (simp_all add: preflight_outcomes agent_scoped_codes)
    qed
  qed
qed

definition sample_fwd :: fwd_env where
  "sample_fwd = \<lparr>ce_sock = Inr ''/run/daemon.sock'', ce_codec = refused_codec, ce_conn = Inl (Dial_no_file ''no such file''),
     ce_names = (\<lambda>_. None), fe_wide = (\<lambda>_. False),
     fe_attach = socket_to refused_codec refusing_daemon (attach_request ''db'' ''pg'' Map.empty), fe_armed = None,
     fe_listen = (\<lambda>_. Inr 40000)\<rparr>"

theorem forward_starts_as_the_agent_says_witness:
  "refused_with 4 (run_fwd sample_fwd sample_config [''db'', ''pg:5432''])"
proof -
  have rep: "replies (handle_attach (de_wide refusing_daemon) (de_ctx refusing_daemon) (de_server refusing_daemon)
      (de_in_flight refusing_daemon) (attach_request ''db'' ''pg'' Map.empty)) = [error_response 4 []]"
    using handle_attach_fate [of refusing_daemon "''db''" "''pg''" Map.empty]
    by (simp add: refusing_fate ack_response_def status_defs exit_code_for_status_def sanitize_agent_string_def)
  have pg: "validate_route_name ''pg'' = None" by (simp add: validate_route_name_ok_iff route_name_char_def)
  have "int_text 5432 = ''5432''" by (simp add: int_text_def itoa.simps char_of_def bit_0)
  then have target: "parse_fwd_target ''pg:5432'' = Inr (''pg'', 5432)" using parse_written_target(1) [OF pg, of 5432] by simp
  have "ask_status (cli_env.truncate sample_fwd) = Inl (Cl_daemon_absent ''no such file'')"
    by (simp add: ask_status_def sample_fwd_def cli_env.truncate_def status_json_def exchange_def client_dial_def
        is_net_refused_def is_no_such_file_def)
  then have known: "require_known_server (cli_env.truncate sample_fwd) sample_config ''db'' = None"
    by (simp add: known_without_daemon sample_config_def)
  have "case attach_fate_of refusing_daemon ''db'' ''pg'' Map.empty of
      Agent_answers resp \<Rightarrow>
        if agent_says_no resp then refused_with (int (exit_code_for_status (r_status resp))) (run_fwd sample_fwd sample_config [''db'', ''pg:5432''])
        else starts_listening sample_fwd ''db'' ''pg'' 5432 (run_fwd sample_fwd sample_config [''db'', ''pg:5432''])
    | _ \<Rightarrow> starts_listening sample_fwd ''db'' ''pg'' 5432 (run_fwd sample_fwd sample_config [''db'', ''pg:5432''])"
    by (rule forward_starts_as_the_agent_says [OF _ target _ known])
      (simp_all add: split_fwd_args_def auto_select_server_def, simp_all add: rep sample_fwd_def, simp_all add: ipc_codec_ok_def
        refused_codec_def refusing_daemon_def sample_daemon_def sample_server_def)
  then show ?thesis by (simp add: refusing_fate agent_says_no_def status_defs exit_code_for_status_def)
qed

end
