(* ===== verification/Cli_Doctor.thy ===== *)
theory Cli_Doctor
  imports Cli_Servers Setup_Init Daemon_Pool Names_DNS
begin

text \<open>
  \<^verbatim>\<open>cmd/quic-link/doctor.go\<close>: what the diagnosis verb finds, what it says to do next, and the report it prints.

  The verb meets its surroundings as a \<open>doctor_env\<close>: the machine's resolver and disk, the account, a lookup through
  the system's resolver, six random bytes, and the daemon's socket. The texts of a bad naming table, of an
  unsupported resolver and of the recipe for one are arguments, and so is the decoding of the daemon's report.
\<close>

record doctor_info =
  dn_dns :: int
  dn_http :: int
  dn_https :: int
  dn_servers :: "string list"
  dn_seen :: bool

record doctor_env = cli_env +
  dr_version :: string
  dr_darwin :: bool
  dr_link :: "string option"
  dr_systemctl :: "bytes option"
  dr_home :: "string option"
  dr_config_path :: string
  dr_setup :: setup_env
  dr_disk :: disk
  dr_euid :: nat
  dr_sudo_user :: string
  dr_nonce :: bytes
  dr_lookup :: "string \<Rightarrow> string list option"
  dr_parse :: "bytes \<Rightarrow> doctor_info option"
  dr_naming_text :: "naming_error \<Rightarrow> string"
  dr_reason_text :: "unsupported_reason \<Rightarrow> string"
  dr_manual :: string

record report_file =
  rf_path :: string
  rf_scope :: scope
  rf_present :: bool
  rf_ours :: bool
  rf_current :: bool
  rf_purpose :: string

record report =
  rp_version :: string
  rp_suffix :: string
  rp_config_error :: string
  rp_resolver :: support
  rp_reason :: string
  rp_files :: "report_file list"
  rp_daemon :: "doctor_info option"
  rp_name :: string
  rp_answered :: bool
  rp_address :: string
  rp_reached :: bool
  rp_note :: string
  rp_next :: string

subsection \<open>Finding out\<close>

definition settings_purpose :: string where "settings_purpose = ''your settings''"
definition identity_purpose :: string where "identity_purpose = ''this machine's identity''"

definition file_row :: "string \<Rightarrow> artifact \<Rightarrow> report_file" where
  "file_row purpose a = \<lparr>rf_path = ar_path a, rf_scope = ar_scope a, rf_present = ar_present a, rf_ours = ar_ours a,
     rf_current = ar_current a, rf_purpose = purpose\<rparr>"

text \<open>The surveyed files with their purposes: the system's, when there is a suffix, and the user's, when there is a home.\<close>

definition report_files :: "doctor_env \<Rightarrow> config \<Rightarrow> naming option \<Rightarrow> report_file list" where
  "report_files env cfg ng =
    (case ng of
       None \<Rightarrow> []
     | Some n \<Rightarrow> map (file_row (''send lookups ending in '' @ ng_suffix n @ '' to this machine's responder''))
         (survey (dr_setup env) (dr_disk env) (inventory (dr_darwin env) (ng_suffix n) (nat (ng_dns_port n))))) @
    (case dr_home env of
       None \<Rightarrow> []
     | Some home \<Rightarrow>
       if home = [] then []
       else map2 file_row [settings_purpose, identity_purpose] (survey (dr_setup env) (dr_disk env)
         (user_paths (expand_home (dr_home env) (is_key_file (cf_identity cfg))) (file_in_use (dr_home env) (dr_config_path env)))))"

definition canary_name :: "string \<Rightarrow> string \<Rightarrow> string" where
  "canary_name probe sfx = probe @ CHR ''.'' # probe_label @ CHR ''.'' # sfx"

definition ask_daemon :: "doctor_env \<Rightarrow> string \<Rightarrow> doctor_info option" where
  "ask_daemon env probe =
    (case ce_sock env of
       Inl _ \<Rightarrow> None
     | Inr _ \<Rightarrow> (case doctor_json (ce_codec env) (ce_conn env) probe of Inl _ \<Rightarrow> None | Inr b \<Rightarrow> dr_parse env b))"

definition no_daemon_note :: "bool \<Rightarrow> string" where
  "no_daemon_note answered =
    (if answered then ''something answered, but this machine's responder is not running, so it was not us''
     else ''this machine's responder is not running, so nothing here could answer'')"

definition privileged_view_advice :: "string \<Rightarrow> string" where
  "privileged_view_advice who =
    (let tail = '' are not visible here; run without sudo to check them: quic-link doctor'' in
     if who \<noteq> [] then ''this is root's view, so files belonging to '' @ who @ tail
     else ''this is root's view, so per-user files'' @ tail)"

definition settings_advice :: "string \<Rightarrow> string" where
  "settings_advice path = ''write your settings, naming at least one server:'' @ newline # ''    [servers.<name>]'' @ newline #
     ''    addr = \"host:port\"'' @ newline # ''    pin  = \"<the agent's pin>\"'' @ newline # ''  in '' @ path"

text \<open>The advice, most fundamental first; \<open>[]\<close>: everything is set up.\<close>

definition next_step :: "doctor_env \<Rightarrow> report \<Rightarrow> string" where
  "next_step env r =
    (let (who, privileged) = real_user (dr_euid env) (dr_sudo_user env); fs = rp_files r in
     if rp_config_error r \<noteq> [] then ''fix your settings: '' @ rp_config_error r
     else if privileged \<and> (\<exists>f\<in>set fs. rf_scope f = User_scope \<and> \<not> rf_present f) then privileged_view_advice who
     else if \<exists>f\<in>set fs. rf_scope f = User_scope \<and> rf_purpose f = identity_purpose \<and> \<not> rf_present f
     then ''make this machine an identity: quic-link keygen''
     else (case find (\<lambda>f. rf_scope f = User_scope \<and> rf_purpose f = settings_purpose \<and> \<not> rf_present f) fs of
         Some f \<Rightarrow> settings_advice (rf_path f)
       | None \<Rightarrow>
         if rp_resolver r = Unsupported
         then ''names cannot be registered on this machine; set it up by hand:'' @ newline # dr_manual env
         else if \<exists>f\<in>set fs. rf_scope f = Root_scope \<and> (\<not> rf_present f \<or> \<not> rf_current f)
         then ''register names with this machine's resolver: sudo quic-link init''
         else if rp_daemon r = None then ''start the daemon: quic-link daemon''
         else if \<not> rp_reached r
         then ''names are registered and the daemon is running, but a test lookup did not'' @ newline #
           ''reach it. Reload your resolver, or check what else is answering for '' @ rp_suffix r
         else []))"

text \<open>The lookup is made before the daemon is asked.\<close>

definition diagnose :: "doctor_env \<Rightarrow> config \<Rightarrow> report" where
  "diagnose env cfg =
    (let ng = (case config_naming (cf_names cfg) of Inl _ \<Rightarrow> None | Inr n \<Rightarrow> Some n);
         (how, why) = detect_resolver (dr_darwin env) (dr_link env) (dr_systemctl env);
         probe = (case ng of None \<Rightarrow> [] | Some _ \<Rightarrow> hex_encode (take 6 (dr_nonce env)));
         canary = (case ng of None \<Rightarrow> [] | Some n \<Rightarrow> canary_name probe (ng_suffix n));
         addrs = (if ng = None then [] else (case dr_lookup env canary of None \<Rightarrow> [] | Some as \<Rightarrow> as));
         d = ask_daemon env probe;
         reached = (case d of None \<Rightarrow> False | Some i \<Rightarrow> dn_seen i);
         r = \<lparr>rp_version = dr_version env,
           rp_suffix = (case ng of None \<Rightarrow> ''(unusable)'' | Some n \<Rightarrow> ng_suffix n),
           rp_config_error = (case config_naming (cf_names cfg) of Inl e \<Rightarrow> dr_naming_text env e | Inr _ \<Rightarrow> []),
           rp_resolver = how, rp_reason = (case why of None \<Rightarrow> [] | Some w \<Rightarrow> dr_reason_text env w),
           rp_files = report_files env cfg ng, rp_daemon = d, rp_name = canary, rp_answered = (addrs \<noteq> []),
           rp_address = (if addrs = [] then [] else hd addrs), rp_reached = reached,
           rp_note = (case d of
               None \<Rightarrow> no_daemon_note (addrs \<noteq> [])
             | Some i \<Rightarrow> if addrs \<noteq> [] \<and> \<not> dn_seen i
                 then ''a name resolved, but the query never reached this machine's responder '' @ [char_of (0xe2 :: nat), char_of (0x80 :: nat), char_of (0x94 :: nat)] @ '' something else answered it''
                 else if ng = None then ''not attempted: there is no usable suffix to ask about'' else []),
           rp_next = []\<rparr>
     in r\<lparr>rp_next := next_step env r\<rparr>)"

subsection \<open>The report\<close>

fun wrap_words :: "nat \<Rightarrow> string \<Rightarrow> nat \<Rightarrow> bool \<Rightarrow> string list \<Rightarrow> string" where
  "wrap_words width indent col first [] = []"
| "wrap_words width indent col first (w # ws) =
    (if 0 < col \<and> width < col + 1 + length w then newline # indent @ w @ wrap_words width indent (length w) False ws
     else if \<not> first then CHR '' '' # w @ wrap_words width indent (col + 1 + length w) False ws
     else w @ wrap_words width indent (col + length w) False ws)"

definition wrap_text :: "string \<Rightarrow> nat \<Rightarrow> string \<Rightarrow> string" where
  "wrap_text s width indent = wrap_words width indent 0 True (split_fields s)"

definition support_text :: "support \<Rightarrow> string" where
  "support_text s = (case s of Systemd_stub \<Rightarrow> ''systemd-resolved'' | Mac_resolver \<Rightarrow> ''macOS resolver directory'' | Unsupported \<Rightarrow> ''unsupported'')"

definition scope_text :: "scope \<Rightarrow> string" where
  "scope_text s = (case s of Root_scope \<Rightarrow> ''root'' | User_scope \<Rightarrow> ''user'')"

definition margin :: string where "margin = replicate 20 (CHR '' '')"

definition file_state :: "report_file \<Rightarrow> string" where
  "file_state f =
    (if rf_present f \<and> rf_ours f \<and> rf_current f then ''in place''
     else if rf_present f \<and> rf_ours f then ''out of date''
     else if rf_present f then ''not ours''
     else ''absent'')"

definition pad_ascii :: "nat \<Rightarrow> string \<Rightarrow> string" where
  "pad_ascii n s = s @ replicate (n - length s) (CHR '' '')"

definition daemon_lines :: "doctor_info option \<Rightarrow> string list" where
  "daemon_lines d =
    (case d of
       None \<Rightarrow> [''  running           no'']
     | Some i \<Rightarrow> [''  running           yes''] @
         (if 0 < dn_dns i then [''  answering on      127.0.0.1:'' @ int_text (dn_dns i) @ '' for names''] else []) @
         (if 0 < dn_http i then [margin @ ''127.0.0.1:'' @ int_text (dn_http i) @ '' for web requests''] else []) @
         (if 0 < dn_https i then [margin @ ''127.0.0.1:'' @ int_text (dn_https i) @ '' for secure web requests''] else []) @
         (if dn_servers i \<noteq> [] then [''  serving names for ['' @ join_with (CHR '' '') (dn_servers i) @ '']''] else []))"

text \<open>What was written, a list entry for each call that ends a line.\<close>

definition write_report :: "report \<Rightarrow> string list" where
  "write_report r =
    [''quic-link '' @ rp_version r, [], ''Names'', ''  suffix            '' @ rp_suffix r] @
    (if rp_config_error r \<noteq> [] then [margin @ wrap_text (rp_config_error r) 60 margin] else []) @
    [''  this machine      '' @ support_text (rp_resolver r)] @
    (if rp_reason r \<noteq> [] then [margin @ wrap_text (rp_reason r) 60 margin] else []) @
    [[], ''Daemon''] @ daemon_lines (rp_daemon r) @
    [[], ''Files quic-link has put on this machine''] @
    map (\<lambda>f. ''  '' @ pad_ascii 12 (file_state f) @ '' '' @ pad_ascii 6 (scope_text (rf_scope f)) @ '' '' @ rf_path f) (rp_files r) @
    [[], ''Test lookup''] @
    (if rp_name r = [] then [''  not attempted     '' @ rp_note r]
     else [''  asked for         '' @ rp_name r,
       (if rp_reached r then ''  result            answered by this machine's responder''
        else if rp_answered r then ''  result            answered, but not by us''
        else ''  result            no answer'')]) @
    (if rp_note r \<noteq> [] \<and> rp_name r \<noteq> [] then [margin @ wrap_text (rp_note r) 60 margin] else []) @
    (if rp_next r \<noteq> [] then [[], ''Next step'', ''  '' @ rp_next r] else [[], ''Everything is set up.''])"

subsection \<open>The test lookup proves what it says\<close>

text \<open>The daemon's zone after its responder has handled some datagrams, and the ones that ask for a name.\<close>

definition zone_after :: "(bytes \<Rightarrow> dns_packet option) \<Rightarrow> (dns_message \<Rightarrow> bytes option) \<Rightarrow> bytes list \<Rightarrow> zone \<Rightarrow> zone" where
  "zone_after parse pack qs z = fold (\<lambda>q z. snd (respond parse pack q z)) qs z"

definition asks_for_name :: "(bytes \<Rightarrow> dns_packet option) \<Rightarrow> string \<Rightarrow> bytes \<Rightarrow> bool" where
  "asks_for_name parse name query =
    (case parse query of
       None \<Rightarrow> False
     | Some p \<Rightarrow> \<not> d_response (p_header p) \<and> p_done p \<and>
         (case p_question p of None \<Rightarrow> False | Some q \<Rightarrow> to_lower (trim_suffix (q_name q) ''.'') = name))"

lemma canary_in_suffix: "z_suffix z \<noteq> [] \<Longrightarrow> in_suffix z (canary_name l (z_suffix z))"
  by (auto simp: in_suffix_def canary_name_def has_suffix_iff)

lemma canary_label: "l \<noteq> [] \<Longrightarrow> CHR ''.'' \<notin> set l \<Longrightarrow> match_probe_label name suf = Some l \<longleftrightarrow> name = canary_name l suf"
  by (simp add: match_probe_label_iff canary_name_def)

lemma hex_digit_char: "n < 16 \<Longrightarrow> is_digit (hex_digit n) \<or> (97 \<le> ord (hex_digit n) \<and> ord (hex_digit n) \<le> 102)"
proof -
  assume "n < 16"
  then have "n \<in> set [0..<16]" by simp
  then show ?thesis by (auto simp: upt_rec hex_digit_def is_digit_def)
qed

lemma hex_chars:
  assumes "c \<in> set (hex_encode bs)"
  shows "is_digit c \<or> (97 \<le> ord c \<and> ord c \<le> 102)"
proof -
  obtain b where "c = hex_digit (ord b div 16) \<or> c = hex_digit (ord b mod 16)" using assms by (auto simp: hex_encode_def)
  then show ?thesis using hex_digit_char [OF ord_nibble(1), of b] hex_digit_char [OF ord_nibble(2), of b] by metis
qed

lemma probe_is_label:
  assumes "length nonce = 6"
  shows "hex_encode (take 6 nonce) \<noteq> []" "CHR ''.'' \<notin> set (hex_encode (take 6 nonce))"
    and "canary_name (hex_encode (take 6 nonce)) suf \<noteq> resolver_discovery_name"
proof -
  have "length (hex_encode (take 6 nonce)) = 12" using assms by simp
  then show ne: "hex_encode (take 6 nonce) \<noteq> []" by (metis length_0_conv zero_neq_numeral)
  show "CHR ''.'' \<notin> set (hex_encode (take 6 nonce))"
    using hex_chars [of "CHR ''.''" "take 6 nonce"] by (auto simp: is_digit_def)
  have "hd (hex_encode (take 6 nonce)) \<noteq> CHR ''_''"
    using hex_chars [of "hd (hex_encode (take 6 nonce))" "take 6 nonce"] ne by (auto simp: is_digit_def)
  then show "canary_name (hex_encode (take 6 nonce)) suf \<noteq> resolver_discovery_name"
    using ne by (cases "hex_encode (take 6 nonce)") (auto simp: canary_name_def resolver_discovery_name_def)
qed

lemma responds_to:
  assumes "l \<noteq> []" "CHR ''.'' \<notin> set l" "canary_name l (z_suffix z) \<noteq> resolver_discovery_name" "z_suffix z \<noteq> []"
  shows "(\<exists>l'. snd (respond parse pack q z) = note_probe l' z \<and> (l' = l \<longleftrightarrow> asks_for_name parse (canary_name l (z_suffix z)) q)) \<or>
    snd (respond parse pack q z) = z \<and> \<not> asks_for_name parse (canary_name l (z_suffix z)) q"
proof (cases "\<exists>p qn. parse q = Some p \<and> \<not> d_response (p_header p) \<and> p_question p = Some qn \<and> p_done p")
  case False
  then show ?thesis by (auto simp: respond_def asks_for_name_def split: option.splits)
next
  case True
  then obtain p qn where p: "parse q = Some p" "\<not> d_response (p_header p)" "p_question p = Some qn" "p_done p" by blast
  define name where "name = to_lower (trim_suffix (q_name qn) ''.'')"
  have asks: "asks_for_name parse (canary_name l (z_suffix z)) q \<longleftrightarrow> name = canary_name l (z_suffix z)"
    by (simp add: asks_for_name_def p name_def)
  note resp = respond_query [where pack = pack and z = z, of parse q p qn, OF p, folded name_def]
  show ?thesis
  proof (cases "name = resolver_discovery_name \<or> \<not> in_suffix z name")
    case True
    then show ?thesis using assms(3) canary_in_suffix [OF assms(4), of l] by (auto simp: resp asks Let_def)
  next
    case in_zone: False
    show ?thesis
    proof (cases "match_probe_label name (z_suffix z)")
      case None
      then have "name \<noteq> canary_name l (z_suffix z)" using canary_label [OF assms(1,2), of name "z_suffix z"] by auto
      then show ?thesis using in_zone None by (simp add: resp asks Let_def split: option.split)
    next
      case (Some l')
      then have "l' = l \<longleftrightarrow> name = canary_name l (z_suffix z)" using canary_label [OF assms(1,2), of name "z_suffix z"] by auto
      then show ?thesis using in_zone Some by (auto simp: resp asks Let_def)
    qed
  qed
qed

lemma respond_probes:
  assumes "l \<noteq> []" "CHR ''.'' \<notin> set l" "canary_name l (z_suffix z) \<noteq> resolver_discovery_name" "z_suffix z \<noteq> []" "card (z_probes z) \<le> 64"
  shows "l \<in> z_probes (snd (respond parse pack q z)) \<longleftrightarrow> l \<in> z_probes z \<or> asks_for_name parse (canary_name l (z_suffix z)) q"
proof -
  consider (noted) l' where "snd (respond parse pack q z) = note_probe l' z" "l' = l \<longleftrightarrow> asks_for_name parse (canary_name l (z_suffix z)) q"
    | (unseen) "snd (respond parse pack q z) = z" "\<not> asks_for_name parse (canary_name l (z_suffix z)) q"
    using responds_to [OF assms(1-4), of parse pack q] by blast
  then show ?thesis
    using assms(5) by cases (auto simp: note_probe_def Let_def)
qed

lemma respond_card: "finite (z_probes z) \<Longrightarrow> card (z_probes z) \<le> 64 \<Longrightarrow>
    finite (z_probes (snd (respond parse pack q z))) \<and> card (z_probes (snd (respond parse pack q z))) \<le> Suc (card (z_probes z))"
  by (auto simp: respond_def note_probe_def Let_def card_insert_if split: option.split)

text \<open>Up to the size at which the responder forgets, a label is remembered exactly when its name was asked for.\<close>

lemma zone_after_probes:
  assumes "l \<noteq> []" "CHR ''.'' \<notin> set l" "canary_name l (z_suffix z) \<noteq> resolver_discovery_name" "z_suffix z \<noteq> []"
    and "finite (z_probes z)" "card (z_probes z) + length qs \<le> 65"
  shows "l \<in> z_probes (zone_after parse pack qs z) \<longleftrightarrow>
    l \<in> z_probes z \<or> (\<exists>q\<in>set qs. asks_for_name parse (canary_name l (z_suffix z)) q)"
  using assms(3-6)
proof (induction qs arbitrary: z)
  case (Cons q qs)
  let ?z = "snd (respond parse pack q z)"
  have c: "card (z_probes z) \<le> 64" using Cons.prems by simp
  have s: "z_suffix ?z = z_suffix z" using respond_servers [of parse pack q z] by simp
  have b: "finite (z_probes ?z)" "card (z_probes ?z) + length qs \<le> 65"
    using respond_card [OF Cons.prems(3) c, of parse pack q] Cons.prems(4) by simp_all
  then have "l \<in> z_probes (zone_after parse pack qs ?z) \<longleftrightarrow>
      l \<in> z_probes ?z \<or> (\<exists>q\<in>set qs. asks_for_name parse (canary_name l (z_suffix ?z)) q)"
    using Cons.prems(1,2) s by (intro Cons.IH) simp_all
  then show ?case
    using respond_probes [OF assms(1,2) Cons.prems(1,2) c, of parse pack q] s by (auto simp: zone_after_def)
qed (simp add: zone_after_def)

text \<open>The daemon's answer to a diagnosis, over the socket.\<close>

lemma doctor_exchange:
  assumes "probe \<noteq> []" "ipc_codec_ok (ck_enc ck) (de_dec de) (rpc_request ''doctor'' [] [''probe'' \<mapsto> probe])"
    and "uint (de_uid de) = sv_uid (de_server de)" "sv_doctor (de_server de) = Some f" "f probe = Inr snap"
    and "ipc_codec_ok (de_enc de) (ck_dec ck) (ok_response snap)"
  shows "doctor_json ck (socket_to ck de (rpc_request ''doctor'' [] [''probe'' \<mapsto> probe])) probe = Inr snap"
proof -
  let ?req = "rpc_request ''doctor'' [] [''probe'' \<mapsto> probe]"
  have "replies (daemon_events de (request_bytes ck ?req)) = replies (handle_rpc (de_wide de) (de_server de) ?req)"
    using daemon_replies(1) [OF assms(2,3)] by (simp add: rpc_request_def)
  also have "\<dots> = [ok_response snap]"
    by (simp add: handle_rpc_def rpc_request_def handle_doctor_def meta_get_def assms(4,5))
  finally have "exchange ck (socket_to ck de ?req) ?req = Inr (ok_response snap)"
    by (rule exchange_answered [OF assms(2) _ assms(6)])
  then show ?thesis using assms(1) by (simp add: doctor_json_def ok_response_def)
qed

text \<open>
  The document a daemon's report is, for whatever it says of the probe, and what reading such a document gives:
  the decoder of \<^verbatim>\<open>encoding/json\<close> gives back the values that were encoded, both when the probe was seen and
  when it was not.
\<close>

definition report_document :: "string \<Rightarrow> string list \<Rightarrow> int \<Rightarrow> int \<Rightarrow> int \<Rightarrow> bool \<Rightarrow> bytes" where
  "report_document sfx names dns http https seen =
    json_text (J_obj ([(''schema'', J_int 1), (''suffix'', J_str sfx)] @ omit_zero ''dns_port'' dns @
      omit_zero ''http_port'' http @ omit_zero ''https_port'' https @
      [(''servers'', J_list (map J_str names)), (''probe_seen'', J_bool seen)]))"

definition reads_reports :: "(bytes \<Rightarrow> doctor_info option) \<Rightarrow> string \<Rightarrow> string list \<Rightarrow> int \<Rightarrow> int \<Rightarrow> int \<Rightarrow> bool" where
  "reads_reports dec sfx names dns http https \<longleftrightarrow>
    (\<forall>seen. dec (report_document sfx names dns http https seen) =
      Some \<lparr>dn_dns = dns, dn_http = http, dn_https = https, dn_servers = names, dn_seen = seen\<rparr>)"

lemma snapshot_document:
  "probe \<noteq> [] \<Longrightarrow> fst (doctor_snapshot z dns http https probe) =
    report_document (z_suffix z) (servers z) dns http https (probe \<in> z_probes z)"
  by (simp add: doctor_snapshot_def report_document_def saw_probe_def Let_def)

lemma zone_after_same: "z_suffix (zone_after parse pack qs z) = z_suffix z"
proof (induction qs arbitrary: z)
  case (Cons q qs)
  then show ?case using respond_servers [of parse pack q z] by (simp add: zone_after_def)
qed (simp add: zone_after_def)

text \<open>
  C39: The test lookup proves what the report says. With usable settings and a daemon of the same user, the report says
  that this machine's responder was reached exactly when one of the datagrams the responder handled was a query for
  the very name this run made up; and when nobody but this run's own lookup asks for that name, exactly when the lookup
  sent the responder such a query. So an answer from a cache, a hosts file or another responder never counts, and the
  report then says that something else answered; a query that did arrive always does, as long as the responder, which
  forgets its labels once it holds 64 of them, has not done so: the labels it held and the datagrams since are 65 at
  the most.
\<close>

theorem lookup_check_is_sound:
  fixes env :: doctor_env
  defines "probe \<equiv> hex_encode (take 6 (dr_nonce env))"
  defines "req \<equiv> rpc_request ''doctor'' [] [''probe'' \<mapsto> probe]"
  assumes "config_naming (cf_names cfg) = Inr n" "length (dr_nonce env) = 6" "ce_sock env = Inr s"
    and "ce_conn env = socket_to (ce_codec env) de req" "ipc_codec_ok (ck_enc (ce_codec env)) (de_dec de) req"
    and "uint (de_uid de) = sv_uid (de_server de)"
    and "sv_doctor (de_server de) = Some (\<lambda>l. Inr (fst (doctor_snapshot (zone_after parse pack qs z) dns http https l)))"
    and "z_suffix z = ng_suffix n" "finite (z_probes z)" "probe \<notin> z_probes z" "card (z_probes z) + length qs \<le> 65"
    and "dr_lookup env = fst \<circ> resolve" "qs = earlier @ snd (resolve (canary_name probe (ng_suffix n))) @ later"
    and "ipc_codec_ok (de_enc de) (ck_dec (ce_codec env)) (ok_response (fst (doctor_snapshot (zone_after parse pack qs z) dns http https probe)))"
    and "reads_reports (dr_parse env) (ng_suffix n) (servers (zone_after parse pack qs z)) dns http https"
  shows "let r = diagnose env cfg; asked = (\<lambda>qs. \<exists>q\<in>set qs. asks_for_name parse (rp_name r) q) in
    rp_name r = canary_name probe (ng_suffix n) \<and>
    (rp_reached r \<longleftrightarrow> asked qs) \<and>
    (\<not> asked (earlier @ later) \<longrightarrow> (rp_reached r \<longleftrightarrow> asked (snd (resolve (rp_name r))))) \<and>
    (rp_answered r \<longleftrightarrow> (\<exists>a as. fst (resolve (rp_name r)) = Some (a # as))) \<and>
    (rp_answered r \<and> \<not> asked qs \<longrightarrow> prefix ''a name resolved, but the query never reached this machine's responder'' (rp_note r))"
proof -
  note label = probe_is_label [OF assms(4), folded probe_def]
  have "ng_suffix n \<noteq> []"
    using resolved_suffix_good [OF assms(3)] host_form_nonempty by (auto simp: good_suffix_def)
  then have seen: "probe \<in> z_probes (zone_after parse pack qs z) \<longleftrightarrow>
      (\<exists>q\<in>set qs. asks_for_name parse (canary_name probe (ng_suffix n)) q)"
    using zone_after_probes [OF label(1,2), of z qs parse pack] label(3) assms(10-13) by simp
  have "doctor_json (ce_codec env) (ce_conn env) probe = Inr (fst (doctor_snapshot (zone_after parse pack qs z) dns http https probe))"
    unfolding assms(6) req_def by (rule doctor_exchange [OF label(1)]) (use assms(7-9,16) in \<open>simp_all add: req_def\<close>)
  then have "ask_daemon env probe = Some \<lparr>dn_dns = dns, dn_http = http, dn_https = https,
      dn_servers = servers (zone_after parse pack qs z), dn_seen = (probe \<in> z_probes (zone_after parse pack qs z))\<rparr>"
    using assms(5,17) label(1)
    by (simp add: ask_daemon_def snapshot_document zone_after_same assms(10) reads_reports_def)
  then have "rp_name (diagnose env cfg) = canary_name probe (ng_suffix n) \<and>
      (rp_reached (diagnose env cfg) \<longleftrightarrow> probe \<in> z_probes (zone_after parse pack qs z)) \<and>
      (rp_answered (diagnose env cfg) \<longleftrightarrow> (\<exists>a as. dr_lookup env (canary_name probe (ng_suffix n)) = Some (a # as))) \<and>
      (rp_answered (diagnose env cfg) \<and> probe \<notin> z_probes (zone_after parse pack qs z) \<longrightarrow>
        prefix ''a name resolved, but the query never reached this machine's responder'' (rp_note (diagnose env cfg)))"
    using assms(3)
    by (simp add: diagnose_def Let_def split_def probe_def split: option.split)
      (auto simp: neq_Nil_conv prefix_def)
  then show ?thesis
    unfolding Let_def seen using assms(14,15) by auto
qed

text \<open>A responder that got one query, for the name a run with a fixed nonce makes up.\<close>

definition asked_canary :: dns_packet where
  "asked_canary = \<lparr>p_header = \<lparr>d_id = 0, d_response = False, d_opcode = 0, d_authoritative = False, d_recursion_desired = True,
       d_recursion_available = False, d_rcode = 0\<rparr>,
     p_question = Some \<lparr>q_name = ''000000000000._probe.internal.'', q_type = type_a, q_class = 1\<rparr>, p_done = True\<rparr>"

definition asked_zone :: zone where
  "asked_zone = \<lparr>z_suffix = ''internal'', z_servers = {}, z_probes = {}\<rparr>"

abbreviation asked_snapshot :: "string \<Rightarrow> bytes" where
  "asked_snapshot l \<equiv> fst (doctor_snapshot (zone_after (\<lambda>_. Some asked_canary) (\<lambda>_. None) [''q''] asked_zone) 15353 0 0 l)"

definition asked_request :: ipc_request where
  "asked_request = rpc_request ''doctor'' [] [''probe'' \<mapsto> ''000000000000'']"

definition asked_daemon :: daemon_end where
  "asked_daemon = sample_daemon\<lparr>de_dec := (\<lambda>_. Inr asked_request),
     de_server := sample_server\<lparr>sv_doctor := Some (\<lambda>l. Inr (asked_snapshot l))\<rparr>\<rparr>"

definition asked_codec :: client_codec where
  "asked_codec = \<lparr>ck_enc = (\<lambda>_. Inr []), ck_dec = (\<lambda>_. Inr (ok_response (asked_snapshot ''000000000000'')))\<rparr>"

definition sample_doctor :: doctor_env where
  "sample_doctor = \<lparr>ce_sock = Inr ''/run/q.sock'', ce_codec = asked_codec, ce_conn = socket_to asked_codec asked_daemon asked_request,
     ce_names = (\<lambda>_. None), dr_version = ''dev'', dr_darwin = False, dr_link = None, dr_systemctl = None, dr_home = None,
     dr_config_path = [], dr_setup = quiet_env ''t'', dr_disk = Map.empty, dr_euid = 1000, dr_sudo_user = [],
     dr_nonce = [CHR 0x00, CHR 0x00, CHR 0x00, CHR 0x00, CHR 0x00, CHR 0x00], dr_lookup = (\<lambda>_. None),
     dr_parse = (\<lambda>b. Some \<lparr>dn_dns = 15353, dn_http = 0, dn_https = 0,
       dn_servers = servers (zone_after (\<lambda>_. Some asked_canary) (\<lambda>_. None) [''q''] asked_zone),
       dn_seen = (b = report_document ''internal''
         (servers (zone_after (\<lambda>_. Some asked_canary) (\<lambda>_. None) [''q''] asked_zone)) 15353 0 0 True)\<rparr>),
     dr_naming_text = (\<lambda>_. []), dr_reason_text = (\<lambda>_. []), dr_manual = []\<rparr>"

theorem lookup_check_is_sound_witness:
  "rp_reached (diagnose sample_doctor sample_config)"
proof -
  have probe: "hex_encode (take 6 (dr_nonce sample_doctor)) = ''000000000000''"
    by (simp add: sample_doctor_def hex_encode_def hex_digit_def)
  define n where "n = \<lparr>ng_suffix = ''internal'', ng_dns_port = 15353, ng_http_port = 18080, ng_https_port = 18443\<rparr>"
  have n: "config_naming (cf_names sample_config) = Inr n" "ng_suffix n = ''internal''"
    by (simp_all add: sample_config_def defaults_def default_naming n_def)
  have asks: "asks_for_name (\<lambda>_. Some asked_canary) (canary_name ''000000000000'' ''internal'') q" for q
    by (simp add: asks_for_name_def asked_canary_def canary_name_def probe_label_def trim_suffix_def has_suffix_def to_lower_def
        is_ascii_def ascii_lower_def) (simp add: ascii_lower_rune_def char_of_def bit_0)
  have name: "rp_name (diagnose sample_doctor sample_config) = canary_name ''000000000000'' ''internal''"
    using n probe by (simp add: diagnose_def Let_def split_def)
  have "report_document ''internal'' names 15353 0 0 False \<noteq> report_document ''internal'' names 15353 0 0 True" for names
    by (simp add: report_document_def omit_zero_def)
  then have doc: "report_document ''internal'' names 15353 0 0 seen = report_document ''internal'' names 15353 0 0 True \<longleftrightarrow> seen"
    for names seen by (cases seen) simp_all
  have "let r = diagnose sample_doctor sample_config;
        asked = (\<lambda>qs. \<exists>q\<in>set qs. asks_for_name (\<lambda>_. Some asked_canary) (rp_name r) q) in
      rp_name r = canary_name (hex_encode (take 6 (dr_nonce sample_doctor))) (ng_suffix n) \<and>
      (rp_reached r \<longleftrightarrow> asked [''q'']) \<and>
      (\<not> asked ([] @ []) \<longrightarrow> (rp_reached r \<longleftrightarrow> asked (snd (None :: string list option, [''q''])))) \<and>
      (rp_answered r \<longleftrightarrow> (\<exists>a as. fst (None :: string list option, [''q'']) = Some (a # as))) \<and>
      (rp_answered r \<and> \<not> asked [''q''] \<longrightarrow>
        prefix ''a name resolved, but the query never reached this machine's responder'' (rp_note r))"
    by (rule lookup_check_is_sound [where z = asked_zone and n = n and s = "''/run/q.sock''" and de = asked_daemon and dns = 15353 and
        http = 0 and https = 0 and pack = "\<lambda>_. None" and resolve = "\<lambda>_. (None, [''q''])" and earlier = "[]" and later = "[]"])
      (simp_all only: probe n, simp_all add: sample_doctor_def asked_daemon_def asked_codec_def asked_request_def
        asked_zone_def sample_daemon_def sample_server_def ipc_codec_ok_def reads_reports_def comp_def doc)
  then show ?thesis using asks name by (simp add: Let_def)
qed

subsection \<open>What to do next\<close>

text \<open>The report ends in "Everything is set up." exactly when nothing is missing.\<close>

definition all_set_up :: "doctor_env \<Rightarrow> report \<Rightarrow> bool" where
  "all_set_up env r \<longleftrightarrow> rp_config_error r = [] \<and> rp_resolver r \<noteq> Unsupported \<and> rp_daemon r \<noteq> None \<and> rp_reached r \<and>
    (\<forall>f\<in>set (rp_files r).
       (rf_scope f = Root_scope \<longrightarrow> rf_present f \<and> rf_current f) \<and>
       (rf_scope f = User_scope \<and> (rf_purpose f \<in> {identity_purpose, settings_purpose} \<or> dr_euid env = 0) \<longrightarrow> rf_present f))"

lemma advice_nonempty [simp]: "privileged_view_advice who \<noteq> []" "settings_advice path \<noteq> []"
  by (simp_all add: privileged_view_advice_def settings_advice_def Let_def)

lemma find_advice: "(case find P xs of None \<Rightarrow> y | Some x \<Rightarrow> settings_advice (g x)) = [] \<longleftrightarrow> (\<forall>x\<in>set xs. \<not> P x) \<and> y = []"
  by (auto simp: find_None_iff split: option.split dest: find_SomeD)

lemma if_advice: "x \<noteq> [] \<Longrightarrow> (if c then x else y) = [] \<longleftrightarrow> \<not> c \<and> y = []"
  by simp

lemma nothing_left_to_do: "next_step env r = [] \<longleftrightarrow> all_set_up env r"
proof -
  have priv: "snd (real_user (dr_euid env) (dr_sudo_user env)) \<longleftrightarrow> dr_euid env = 0" by (simp add: real_user_def)
  have "next_step env r = [] \<longleftrightarrow> rp_config_error r = [] \<and>
      \<not> (dr_euid env = 0 \<and> (\<exists>f\<in>set (rp_files r). rf_scope f = User_scope \<and> \<not> rf_present f)) \<and>
      \<not> (\<exists>f\<in>set (rp_files r). rf_scope f = User_scope \<and> rf_purpose f = identity_purpose \<and> \<not> rf_present f) \<and>
      (\<forall>f\<in>set (rp_files r). \<not> (rf_scope f = User_scope \<and> rf_purpose f = settings_purpose \<and> \<not> rf_present f)) \<and>
      rp_resolver r \<noteq> Unsupported \<and>
      \<not> (\<exists>f\<in>set (rp_files r). rf_scope f = Root_scope \<and> (\<not> rf_present f \<or> \<not> rf_current f)) \<and>
      rp_daemon r \<noteq> None \<and> rp_reached r"
    unfolding next_step_def Let_def split_def priv by (simp add: if_advice find_advice split del: if_split)
  then show ?thesis unfolding all_set_up_def by blast
qed

text \<open>
  A file somebody else put where ours belongs is never current, so the advice is to run the setup verb, which leaves
  such a file alone: following the advice changes nothing, and the next run gives it again.
\<close>

lemma advice_goes_in_circles:
  fixes env :: doctor_env
  assumes "dr_setup env = quiet_env tmp" "d = dr_disk env" "config_naming (cf_names cfg) = Inr n" "d tmp = None" "tmp \<noteq> path"
    and "path = system_path (dr_darwin env) (ng_suffix n)" "\<not> ours_at (d path)" "how \<noteq> Unsupported"
  shows "\<exists>f\<in>set (report_files env cfg (Some n)). rf_scope f = Root_scope \<and> rf_present f \<and> \<not> rf_current f"
    and "snd (init_cmd (quiet_env tmp) (dr_darwin env) how n True False True d) = (d, False)"
proof -
  have hf: "host_form (ng_suffix n)" using resolved_suffix_good [OF assms(3)] by (simp add: good_suffix_def)
  let ?content = "body (system_lines (dr_darwin env) (ng_suffix n) (nat (ng_dns_port n)))"
  let ?a = "artifact_for path Root_scope ?content"
  have inv: "inventory (dr_darwin env) (ng_suffix n) (nat (ng_dns_port n)) = [?a]" using inventory_eq [OF hf] assms(6) by simp
  have s: "ar_present (survey_one (quiet_env tmp) d ?a) \<and> \<not> ar_current (survey_one (quiet_env tmp) d ?a) \<and>
      ar_scope (survey_one (quiet_env tmp) d ?a) = Root_scope"
    using assms(7) body_nonempty by (auto simp: survey_one_def inspect_def artifact_for_def ours_at_def Let_def split: option.splits fs_node.splits)
  then show "\<exists>f\<in>set (report_files env cfg (Some n)). rf_scope f = Root_scope \<and> rf_present f \<and> \<not> rf_current f"
    using assms(1,2) by (simp add: report_files_def inv survey_def file_row_def)
  have m: "managed ?content" using managed_body by simp
  show "snd (init_cmd (quiet_env tmp) (dr_darwin env) how n True False True d) = (d, False)"
    using quiet_install [where content = ?content and d = d and tmp = tmp and path = path and how = how, OF m body_nonempty assms(4,5,8)] assms(7)
    by (cases "run_root_half (quiet_env tmp) how [?a] True d") (fastforce simp: init_cmd_def inv)
qed

text \<open>With unusable settings and no daemon, the note no longer says why the lookup was not attempted.\<close>

lemma note_is_lost:
  assumes "config_naming (cf_names cfg) = Inl e" "ask_daemon env [] = None"
  shows "rp_name (diagnose env cfg) = []" "rp_note (diagnose env cfg) = no_daemon_note False"
  using assms by (simp_all add: diagnose_def Let_def split_def)

end
