(* ===== verification/Cli_Keys.thy ===== *)
theory Cli_Keys
  imports Cli_Agent
begin

text \<open>
  \<^verbatim>\<open>cmd/quic-link/keygen.go\<close>: making and rotating an identity; \<^verbatim>\<open>cmd/quic-link/root.go\<close>: what happens before every
  command.

  Generating a key, its DER and PEM forms and their parsers are crypto library calls: arguments. A run passes the
  files through the states listed. \<open>kg_stat_fails\<close>: looking the key up fails although it may be there.
\<close>

subsection \<open>keygen\<close>

record 'k keygen_env =
  kg_home :: "string option"
  kg_stat_fails :: bool
  kg_generate :: "string + 'k"
  kg_marshal :: "'k \<Rightarrow> string + bytes"
  kg_pem :: "bytes \<Rightarrow> bytes"
  kg_unpem :: "bytes \<Rightarrow> bytes option"
  kg_parse :: "bytes \<Rightarrow> string + 'k option"
  kg_pin :: "'k \<Rightarrow> string + string"
  kg_key_write :: write_env
  kg_meta_write :: write_env
  kg_now :: int
  kg_format :: "int \<Rightarrow> string"

datatype keygen_error = Kg_load key_error | Kg_pin string | Kg_generate string | Kg_write string | Kg_meta string

datatype keygen_says = Reused string | Rotating | Created_new string

record keygen_run =
  kr_out :: "string list"
  kr_says :: "keygen_says list"
  kr_error :: "keygen_error option"
  kr_states :: "file_store list"

definition pin_line :: "string \<Rightarrow> string" where "pin_line p = ''pin: '' @ p"

definition keygen_make :: "'k keygen_env \<Rightarrow> string \<Rightarrow> bool \<Rightarrow> keygen_says list \<Rightarrow> file_store \<Rightarrow> keygen_run" where
  "keygen_make env key_path exists says fs =
    (let run = (\<lambda>out more err states. \<lparr>kr_out = out, kr_says = says @ more, kr_error = err, kr_states = states\<rparr>) in
     (case kg_generate env of
        Inl e \<Rightarrow> run [] [] (Some (Kg_generate e)) [fs]
      | Inr key \<Rightarrow>
        (case write_key (kg_marshal env) (kg_pem env) (kg_key_write env) key_path key fs of
           (Some e, ss) \<Rightarrow> run [] [] (Some (Kg_write e)) ss
         | (None, ss) \<Rightarrow>
           (case write_meta (kg_format env) (kg_meta_write env) key_path (kg_now env) (last ss) of
              (Some e, ms) \<Rightarrow> run [] [] (Some (Kg_meta e)) (ss @ ms)
            | (None, ms) \<Rightarrow>
              (case kg_pin env key of
                 Inl e \<Rightarrow> run [] [] (Some (Kg_pin e)) (ss @ ms)
               | Inr p \<Rightarrow> run [pin_line p] (if exists then [] else [Created_new key_path]) None (ss @ ms))))))"

definition keygen_run_cmd :: "'k keygen_env \<Rightarrow> string \<Rightarrow> bool \<Rightarrow> file_store \<Rightarrow> keygen_run" where
  "keygen_run_cmd env out force fs =
    (let key_path = expand_home (kg_home env) out; exists = (fs key_path \<noteq> None \<and> \<not> kg_stat_fails env) in
     if exists \<and> \<not> force then
       (case load_key (kg_unpem env) (kg_parse env) key_path fs of
          Inl e \<Rightarrow> \<lparr>kr_out = [], kr_says = [], kr_error = Some (Kg_load e), kr_states = [fs]\<rparr>
        | Inr key \<Rightarrow>
          (case kg_pin env key of
             Inl e \<Rightarrow> \<lparr>kr_out = [], kr_says = [], kr_error = Some (Kg_pin e), kr_states = [fs]\<rparr>
           | Inr p \<Rightarrow> \<lparr>kr_out = [pin_line p], kr_says = [Reused key_path], kr_error = None, kr_states = [fs]\<rparr>))
     else keygen_make env key_path exists (if exists \<and> force then [Rotating] else []) fs)"

text \<open>What the crypto library promises: a key survives its forms.\<close>

definition keys_survive :: "'k keygen_env \<Rightarrow> bool" where
  "keys_survive env \<longleftrightarrow> (\<forall>k der. kg_marshal env k = Inr der \<longrightarrow> kg_unpem env (kg_pem env der) = Some der \<and> kg_parse env der = Inr (Some k))"

text \<open>Temporary files are new, and are neither of the two files written.\<close>

definition fresh_temps :: "'k keygen_env \<Rightarrow> string \<Rightarrow> file_store \<Rightarrow> bool" where
  "fresh_temps env key_path fs \<longleftrightarrow>
    (\<forall>w\<in>{kg_key_write env, kg_meta_write env}. \<forall>tmp. we_temp w = Inr tmp \<longrightarrow> fs tmp = None \<and> tmp \<noteq> key_path \<and> tmp \<noteq> meta_path key_path)"

lemma meta_path_other [simp]: "meta_path p \<noteq> p" "p \<noteq> meta_path p"
  by (simp_all add: meta_path_def)

text \<open>Without \<^verbatim>\<open>--force\<close> an existing identity is never written to.\<close>

lemma keygen_keeps_existing:
  assumes "fs (expand_home (kg_home env) out) \<noteq> None" "\<not> kg_stat_fails env"
  shows "kr_states (keygen_run_cmd env out False fs) = [fs]"
  using assms by (simp add: keygen_run_cmd_def Let_def split: sum.split)

lemma atomic_end:
  assumes "write_file_atomic w path data mode fs = (err, states)" "\<And>tmp. we_temp w = Inr tmp \<Longrightarrow> fs tmp = None"
  shows "last states = (if err = None then fs(path \<mapsto> (data, mode)) else fs)"
proof (cases "we_temp w")
  case (Inl e)
  then show ?thesis using assms(1) by (auto simp: write_file_atomic_def split: option.splits)
next
  case (Inr tmp)
  then show ?thesis using write_file_atomic_end [of w tmp fs path data mode] assms by simp
qed

lemma keygen_made:
  assumes "keys_survive env" "fresh_temps env key_path fs" "kr_error (keygen_make env key_path exists says fs) = None"
  shows "\<exists>k p. load_key (kg_unpem env) (kg_parse env) key_path (last (kr_states (keygen_make env key_path exists says fs))) = Inr k \<and>
    kg_pin env k = Inr p \<and> kr_out (keygen_make env key_path exists says fs) = [pin_line p] \<and>
    (\<forall>q. q \<noteq> key_path \<and> q \<noteq> meta_path key_path \<longrightarrow> last (kr_states (keygen_make env key_path exists says fs)) q = fs q)"
proof -
  obtain k ss ms p where k: "kg_generate env = Inr k"
    "write_key (kg_marshal env) (kg_pem env) (kg_key_write env) key_path k fs = (None, ss)"
    "write_meta (kg_format env) (kg_meta_write env) key_path (kg_now env) (last ss) = (None, ms)" "kg_pin env k = Inr p"
    using assms(3) by (auto simp: keygen_make_def Let_def split: sum.splits option.splits prod.splits)
  then obtain der where der: "kg_marshal env k = Inr der" "write_file_atomic (kg_key_write env) key_path (kg_pem env der) key_mode fs = (None, ss)"
    by (auto simp: write_key_def split: sum.splits)
  have ss: "last ss = fs(key_path \<mapsto> (kg_pem env der, key_mode))"
    using atomic_end [OF der(2)] assms(2) by (simp add: fresh_temps_def)
  have ms: "last ms = (last ss)(meta_path key_path \<mapsto> (meta_content (kg_format env (kg_now env)), key_mode))"
    using atomic_end [of "kg_meta_write env" "meta_path key_path"] k(3) assms(2) by (fastforce simp: write_meta_def fresh_temps_def ss)
  have "ms \<noteq> []" using k(3) by (auto simp: write_meta_def write_file_atomic_def Let_def split: option.splits sum.splits)
  then have "last (kr_states (keygen_make env key_path exists says fs)) = last ms"
    using k by (simp add: keygen_make_def Let_def)
  then show ?thesis
    using k der assms(1) ms ss by (auto simp: keygen_make_def Let_def load_key_def keys_survive_def)
qed

text \<open>
  The pin that keygen prints is the pin of the key on disk. Whenever a run ends well, whether it reused, made or
  rotated the identity, the key file holds a key that loads, the one line printed is that key's pin, nothing but the
  key and its metadata has changed, and asking again prints the same pin and writes nothing.
\<close>

theorem keygen_prints_its_key:
  fixes env :: "'k keygen_env" and out :: string
  defines "key_path \<equiv> expand_home (kg_home env) out"
  assumes "keys_survive env" "fresh_temps env key_path fs" "kr_error (keygen_run_cmd env out force fs) = None"
  shows "\<exists>k p. load_key (kg_unpem env) (kg_parse env) key_path (last (kr_states (keygen_run_cmd env out force fs))) = Inr k \<and>
    kg_pin env k = Inr p \<and> kr_out (keygen_run_cmd env out force fs) = [pin_line p] \<and>
    (\<forall>q. q \<noteq> key_path \<and> q \<noteq> meta_path key_path \<longrightarrow> last (kr_states (keygen_run_cmd env out force fs)) q = fs q) \<and>
    keygen_run_cmd (env\<lparr>kg_stat_fails := False\<rparr>) out False (last (kr_states (keygen_run_cmd env out force fs))) =
      \<lparr>kr_out = [pin_line p], kr_says = [Reused key_path], kr_error = None,
       kr_states = [last (kr_states (keygen_run_cmd env out force fs))]\<rparr>"
proof -
  let ?fs = "last (kr_states (keygen_run_cmd env out force fs))"
  have "\<exists>k p. load_key (kg_unpem env) (kg_parse env) key_path ?fs = Inr k \<and>
    kg_pin env k = Inr p \<and> kr_out (keygen_run_cmd env out force fs) = [pin_line p] \<and>
    (\<forall>q. q \<noteq> key_path \<and> q \<noteq> meta_path key_path \<longrightarrow> ?fs q = fs q)"
  proof (cases "fs key_path \<noteq> None \<and> \<not> kg_stat_fails env \<and> \<not> force")
    case True
    then show ?thesis using assms(4) by (auto simp: keygen_run_cmd_def Let_def key_path_def [symmetric] split: sum.splits)
  next
    case False
    then obtain says exists where "keygen_run_cmd env out force fs = keygen_make env key_path exists says fs"
      by (auto simp: keygen_run_cmd_def Let_def key_path_def [symmetric])
    then show ?thesis using keygen_made [OF assms(2,3)] assms(4) by metis
  qed
  moreover have "?fs key_path \<noteq> None" if "load_key (kg_unpem env) (kg_parse env) key_path ?fs = Inr k" for k
    using that by (auto simp: load_key_def split: option.splits)
  ultimately show ?thesis
    by (auto simp: keygen_run_cmd_def [of "env\<lparr>kg_stat_fails := False\<rparr>"] Let_def key_path_def [symmetric])
qed

definition sample_keygen :: "bytes keygen_env" where
  "sample_keygen = \<lparr>kg_home = None, kg_stat_fails = False, kg_generate = Inr ''new key'', kg_marshal = Inr, kg_pem = (\<lambda>d. d),
     kg_unpem = Some, kg_parse = (\<lambda>d. Inr (Some d)), kg_pin = (\<lambda>k. Inr (pin k)),
     kg_key_write = \<lparr>we_mkdir = None, we_temp = Inr ''t1'', we_chmod = None, we_write = None, we_close = None, we_rename = None\<rparr>,
     kg_meta_write = \<lparr>we_mkdir = None, we_temp = Inr ''t2'', we_chmod = None, we_write = None, we_close = None, we_rename = None\<rparr>,
     kg_now = 0, kg_format = (\<lambda>_. ''1970-01-01T00:00:00Z'')\<rparr>"

theorem keygen_prints_its_key_witness:
  "\<exists>k p. kr_out (keygen_run_cmd sample_keygen ''key'' True [''key'' \<mapsto> (''old key'', key_mode)]) = [pin_line p] \<and>
     load_key Some (\<lambda>d. Inr (Some d)) ''key'' (last (kr_states (keygen_run_cmd sample_keygen ''key'' True [''key'' \<mapsto> (''old key'', key_mode)]))) = Inr k \<and>
     p = pin k"
proof -
  have path: "expand_home (kg_home sample_keygen) ''key'' = ''key''" by (simp add: expand_home_def sample_keygen_def has_prefix_def)
  have "kr_error (keygen_run_cmd sample_keygen ''key'' True [''key'' \<mapsto> (''old key'', key_mode)]) = None"
    unfolding keygen_run_cmd_def path
    by (simp add: sample_keygen_def keygen_make_def write_key_def write_meta_def write_file_atomic_def Let_def)
  moreover have "keys_survive sample_keygen" by (simp add: keys_survive_def sample_keygen_def)
  moreover have "fresh_temps sample_keygen (expand_home (kg_home sample_keygen) ''key'') [''key'' \<mapsto> (''old key'', key_mode)]"
    unfolding path by (simp add: fresh_temps_def sample_keygen_def meta_path_def)
  ultimately show ?thesis
    using keygen_prints_its_key [of sample_keygen "''key''" "[''key'' \<mapsto> (''old key'', key_mode)]" True] unfolding path
    by (auto simp: sample_keygen_def)
qed

text \<open>
  A rotation writes the key before its metadata. When the second write fails, the new key is in place with the
  creation time of the old one, and its pin has not been printed.
\<close>

lemma half_rotation:
  assumes "kr_error (keygen_run_cmd env out True fs) = Some (Kg_meta e)" "fresh_temps env (expand_home (kg_home env) out) fs"
  shows "kr_out (keygen_run_cmd env out True fs) = []"
    and "\<exists>k der. kg_marshal env k = Inr der \<and> last (kr_states (keygen_run_cmd env out True fs)) =
      fs(expand_home (kg_home env) out \<mapsto> (kg_pem env der, key_mode))"
proof -
  let ?p = "expand_home (kg_home env) out"
  obtain k ss ms where k: "kg_generate env = Inr k" "write_key (kg_marshal env) (kg_pem env) (kg_key_write env) ?p k fs = (None, ss)"
    "write_meta (kg_format env) (kg_meta_write env) ?p (kg_now env) (last ss) = (Some e, ms)"
    using assms(1) by (auto simp: keygen_run_cmd_def keygen_make_def Let_def split: sum.splits option.splits prod.splits)
  then obtain der where der: "kg_marshal env k = Inr der" "write_file_atomic (kg_key_write env) ?p (kg_pem env der) key_mode fs = (None, ss)"
    by (auto simp: write_key_def split: sum.splits)
  have ss: "last ss = fs(?p \<mapsto> (kg_pem env der, key_mode))"
    using atomic_end [OF der(2)] assms(2) by (simp add: fresh_temps_def)
  have ms: "last ms = last ss"
    using atomic_end [of "kg_meta_write env" "meta_path ?p"] k(3) assms(2) by (fastforce simp: write_meta_def fresh_temps_def ss)
  have "ms \<noteq> []" using k(3) by (auto simp: write_meta_def write_file_atomic_def Let_def split: option.splits sum.splits)
  then show "kr_out (keygen_run_cmd env out True fs) = []"
    and "\<exists>k der. kg_marshal env k = Inr der \<and> last (kr_states (keygen_run_cmd env out True fs)) = fs(?p \<mapsto> (kg_pem env der, key_mode))"
    using k der ss ms by (auto simp: keygen_run_cmd_def keygen_make_def Let_def)
qed

subsection \<open>Before every command\<close>

datatype log_verbosity = Level_debug | Level_info | Level_warn | Level_error

definition parse_log_level :: "string \<Rightarrow> cli_error + log_verbosity" where
  "parse_log_level name =
    (if name = ''debug'' then Inr Level_debug
     else if name = ''info'' then Inr Level_info
     else if name = ''warn'' then Inr Level_warn
     else if name = ''error'' then Inr Level_error
     else Inl (usage_error ''unknown log level''))"

text \<open>\<open>level_flag\<close>: the flag's value when it was given. The result is the settings, the level, and whether logs are JSON.\<close>

definition log_setup :: "config \<Rightarrow> string option \<Rightarrow> cli_error + (config \<times> log_verbosity \<times> bool)" where
  "log_setup cfg level_flag =
    bind_result (parse_log_level (case level_flag of Some l \<Rightarrow> l | None \<Rightarrow> lg_level (cf_log cfg))) (\<lambda>level.
      if lg_format (cf_log cfg) = [] \<or> lg_format (cf_log cfg) = ''text'' then Inr (cfg, level, False)
      else if lg_format (cf_log cfg) = ''json'' then Inr (cfg, level, True)
      else Inl (usage_error ''unknown log.format''))"

definition persistent_pre_run ::
  "toml_lib \<Rightarrow> (string \<Rightarrow> file_read) \<Rightarrow> string option \<Rightarrow> string list \<Rightarrow> string \<Rightarrow> string \<Rightarrow> string option
     \<Rightarrow> cli_error + (config \<times> log_verbosity \<times> bool)"
where
  "persistent_pre_run toml read home environ config_path verb level_flag =
    (if verb = ''keygen'' then log_setup (defaults home) level_flag
     else (case load_config toml read home environ config_path of
         Inl e \<Rightarrow> Inl (Go_error (Config_invalid (Inr e)) [])
       | Inr cfg \<Rightarrow> log_setup cfg level_flag))"

text \<open>Whatever stops a command before it starts is a usage error, and no file stops keygen.\<close>

lemma pre_run_code:
  "persistent_pre_run toml read home environ path verb flag = Inl e \<Longrightarrow> exit_code_for_error e = 2"
  by (auto simp: persistent_pre_run_def log_setup_def parse_log_level_def bind_result_def cli_error_simps split: if_splits sum.splits)

lemma keygen_needs_no_settings:
  "is_ok (persistent_pre_run toml read home environ path ''keygen'' None)"
  by (simp add: persistent_pre_run_def log_setup_def parse_log_level_def defaults_def)

text \<open>A settings file that does not load stops the diagnosis too, before it has looked at anything.\<close>

lemma diagnosis_needs_settings:
  "load_config toml read home environ path = Inl e \<Longrightarrow>
     persistent_pre_run toml read home environ path ''doctor'' flag = Inl (Go_error (Config_invalid (Inr e)) [])"
  by (simp add: persistent_pre_run_def)

end
