(* ===== verification/Drain.thy ===== *)
theory Drain
  imports Names_DNS
begin

text \<open>
  Servers that close by closing their sockets and waiting for every goroutine: \<^verbatim>\<open>internal/names/server.go\<close> and the
  \<^verbatim>\<open>LocalPortEdge\<close> of \<^verbatim>\<open>internal/edge/edge.go\<close>, as step relations over their goroutines.

  The locale is what \<^verbatim>\<open>Close\<close> relies on: once the sockets are closed every step brings the end nearer, and there is
  always a step until everything has left.
\<close>

locale draining =
  fixes step :: "'s \<Rightarrow> 's \<Rightarrow> bool" and shut finished :: "'s \<Rightarrow> bool" and left :: "'s \<Rightarrow> nat"
  assumes stays_shut: "shut s \<Longrightarrow> step s t \<Longrightarrow> shut t"
    and nearer: "shut s \<Longrightarrow> step s t \<Longrightarrow> left t < left s"
    and goes_on: "shut s \<Longrightarrow> \<not> finished s \<Longrightarrow> \<exists>t. step s t"
begin

lemma run_bounded: "(step ^^ n) s t \<Longrightarrow> shut s \<Longrightarrow> n + left t \<le> left s \<and> shut t"
proof (induction n arbitrary: t)
  case (Suc n)
  then obtain u where "(step ^^ n) s u" "step u t" by auto
  then show ?case using Suc nearer [of u t] stays_shut [of u t] by fastforce
qed simp

lemma stuck_is_finished: "shut s \<Longrightarrow> step\<^sup>*\<^sup>* s t \<Longrightarrow> (\<nexists>u. step t u) \<Longrightarrow> finished t"
proof -
  assume "shut s" "step\<^sup>*\<^sup>* s t" "\<nexists>u. step t u"
  moreover have "step\<^sup>*\<^sup>* s t \<Longrightarrow> shut s \<Longrightarrow> shut t" by (induction rule: rtranclp_induct) (auto intro: stays_shut)
  ultimately show ?thesis using goes_on by blast
qed

lemma can_finish: "shut s \<Longrightarrow> \<exists>t. step\<^sup>*\<^sup>* s t \<and> finished t"
proof (induction "left s" arbitrary: s rule: less_induct)
  case less
  show ?case
  proof (cases "finished s")
    case False
    then obtain t where t: "step s t" using goes_on less.prems by blast
    then obtain u where "step\<^sup>*\<^sup>* t u" "finished u" using less nearer stays_shut by blast
    then show ?thesis using t by (meson converse_rtranclp_into_rtranclp)
  qed blast
qed

end

subsection \<open>The DNS server\<close>

definition tcp_max_conns :: nat where "tcp_max_conns = 32"

record dns_server =
  ds_udp :: bool
  ds_tcp :: bool
  ds_udp_watch :: bool
  ds_tcp_watch :: bool
  ds_udp_open :: bool
  ds_tcp_open :: bool
  ds_cancelled :: bool
  ds_closing :: bool
  ds_sem :: nat
  ds_conns :: "nat list"
  ds_zone :: zone

text \<open>Which loops and watchers run, which sockets are open, and the queries each connection may still ask.\<close>

definition new_dns_server :: "zone \<Rightarrow> bool \<Rightarrow> bool \<Rightarrow> dns_server" where
  "new_dns_server z udp tcp = \<lparr>ds_udp = udp, ds_tcp = tcp, ds_udp_watch = udp, ds_tcp_watch = tcp, ds_udp_open = udp,
     ds_tcp_open = tcp, ds_cancelled = False, ds_closing = False, ds_sem = 0, ds_conns = [], ds_zone = z\<rparr>"

text \<open>\<open>answer\<close> is \<^verbatim>\<open>Respond\<close> with its codecs.\<close>

inductive dns_server_step :: "(bytes \<Rightarrow> zone \<Rightarrow> bytes option \<times> zone) \<Rightarrow> dns_server \<Rightarrow> dns_server \<Rightarrow> bool" for answer where
  udp_answers: "ds_udp s \<Longrightarrow> ds_udp_open s \<Longrightarrow> dns_server_step answer s (s\<lparr>ds_zone := snd (answer q (ds_zone s))\<rparr>)"
| udp_leaves: "ds_udp s \<Longrightarrow> dns_server_step answer s (s\<lparr>ds_udp := False\<rparr>)"
| tcp_accepts: "ds_tcp s \<Longrightarrow> ds_tcp_open s \<Longrightarrow> ds_sem s < tcp_max_conns \<Longrightarrow>
    dns_server_step answer s (s\<lparr>ds_sem := ds_sem s + 1, ds_conns := ds_conns s @ [tcp_max_queries_per_conn]\<rparr>)"
| tcp_refuses: "ds_tcp s \<Longrightarrow> ds_tcp_open s \<Longrightarrow> \<not> ds_sem s < tcp_max_conns \<Longrightarrow> dns_server_step answer s s"
| tcp_leaves: "ds_tcp s \<Longrightarrow> dns_server_step answer s (s\<lparr>ds_tcp := False\<rparr>)"
| conn_answers: "i < length (ds_conns s) \<Longrightarrow> ds_conns s ! i = Suc n \<Longrightarrow>
    dns_server_step answer s (s\<lparr>ds_conns := (ds_conns s)[i := n], ds_zone := snd (answer q (ds_zone s))\<rparr>)"
| conn_ends: "i < length (ds_conns s) \<Longrightarrow>
    dns_server_step answer s (s\<lparr>ds_sem := ds_sem s - 1, ds_conns := take i (ds_conns s) @ drop (Suc i) (ds_conns s)\<rparr>)"
| udp_watched: "ds_udp_watch s \<Longrightarrow> ds_cancelled s \<Longrightarrow> dns_server_step answer s (s\<lparr>ds_udp_watch := False, ds_udp_open := False\<rparr>)"
| udp_unwatched: "ds_udp_watch s \<Longrightarrow> \<not> ds_udp s \<Longrightarrow> dns_server_step answer s (s\<lparr>ds_udp_watch := False\<rparr>)"
| tcp_watched: "ds_tcp_watch s \<Longrightarrow> ds_cancelled s \<Longrightarrow> dns_server_step answer s (s\<lparr>ds_tcp_watch := False, ds_tcp_open := False\<rparr>)"
| tcp_unwatched: "ds_tcp_watch s \<Longrightarrow> \<not> ds_tcp s \<Longrightarrow> dns_server_step answer s (s\<lparr>ds_tcp_watch := False\<rparr>)"
| cancelled: "\<not> ds_cancelled s \<Longrightarrow> dns_server_step answer s (s\<lparr>ds_cancelled := True\<rparr>)"
| close_called: "\<not> ds_closing s \<Longrightarrow> dns_server_step answer s (s\<lparr>ds_closing := True, ds_udp_open := False, ds_tcp_open := False\<rparr>)"

text \<open>\<^verbatim>\<open>Close\<close> returns when every goroutine has left.\<close>

definition dns_gone :: "dns_server \<Rightarrow> bool" where
  "dns_gone s \<longleftrightarrow> \<not> ds_udp s \<and> \<not> ds_tcp s \<and> \<not> ds_udp_watch s \<and> \<not> ds_tcp_watch s \<and> ds_conns s = []"

definition dns_shut :: "dns_server \<Rightarrow> bool" where
  "dns_shut s \<longleftrightarrow> \<not> ds_udp_open s \<and> \<not> ds_tcp_open s"

definition dns_left :: "dns_server \<Rightarrow> nat" where
  "dns_left s = of_bool (ds_udp s) + of_bool (ds_tcp s) + of_bool (ds_udp_watch s) + of_bool (ds_tcp_watch s) +
     of_bool (\<not> ds_cancelled s) + of_bool (\<not> ds_closing s) + sum_list (map Suc (ds_conns s))"

inductive_cases dns_server_stepE: "dns_server_step answer s t"

lemma sum_list_drop_at:
  "i < length xs \<Longrightarrow> sum_list (map f (take i xs @ drop (Suc i) xs)) + f (xs ! i) = (sum_list (map f xs) :: nat)"
  by (induction xs arbitrary: i) (auto simp: less_Suc_eq_0_disj simp flip: add.assoc)

lemma sum_list_put:
  "i < length xs \<Longrightarrow> sum_list (map f (xs[i := y])) + f (xs ! i) = (sum_list (map f xs) + f y :: nat)"
  by (induction xs arbitrary: i) (auto simp: less_Suc_eq_0_disj)

interpretation dns_drain: draining "dns_server_step answer" dns_shut dns_gone dns_left
proof unfold_locales
  fix s t
  assume "dns_shut s" "dns_server_step answer s t"
  then show "dns_shut t" by (auto simp: dns_shut_def elim: dns_server_stepE)
next
  fix s t
  assume s: "dns_shut s" and st: "dns_server_step answer s t"
  from st s show "dns_left t < dns_left s"
  proof cases
    case (conn_answers i n q)
    then show ?thesis using sum_list_put [OF conn_answers(2), of Suc n] by (simp add: dns_left_def)
  next
    case (conn_ends i)
    then show ?thesis using sum_list_drop_at [OF conn_ends(2), of Suc] by (simp add: dns_left_def)
  qed (auto simp: dns_left_def dns_shut_def)
next
  fix s
  assume "dns_shut s" "\<not> dns_gone s"
  then consider "ds_udp s" | "ds_tcp s" | "\<not> ds_udp s \<and> ds_udp_watch s" | "\<not> ds_tcp s \<and> ds_tcp_watch s" | "0 < length (ds_conns s)"
    by (auto simp: dns_gone_def)
  then show "\<exists>t. dns_server_step answer s t" by cases (blast intro: dns_server_step.intros)+
qed

text \<open>
  Whatever clients do, at most 32 connections are served at once, the count that says so is theirs, none has more
  than its 64 queries left, and the names answered for never change.
\<close>

definition dns_server_ok :: "zone \<Rightarrow> dns_server \<Rightarrow> bool" where
  "dns_server_ok z s \<longleftrightarrow> ds_sem s = length (ds_conns s) \<and> length (ds_conns s) \<le> tcp_max_conns \<and>
     (\<forall>n\<in>set (ds_conns s). n \<le> tcp_max_queries_per_conn) \<and>
     zone_ok (ds_zone s) \<and> z_servers (ds_zone s) = z_servers z \<and> z_suffix (ds_zone s) = z_suffix z"

lemma dns_server_step_ok:
  assumes "dns_server_step (respond parse pack) s t" "dns_server_ok z s"
  shows "dns_server_ok z t"
  using assms
proof cases
  case (conn_answers i n q)
  have "n \<le> tcp_max_queries_per_conn" using assms(2) nth_mem [OF conn_answers(2)] conn_answers(3) by (auto simp: dns_server_ok_def)
  then show ?thesis
    using conn_answers assms(2) respond_servers respond_zone_ok set_update_subset_insert [of "ds_conns s" i n]
    by (auto simp: dns_server_ok_def)
next
  case (conn_ends i)
  then show ?thesis using assms(2) by (auto simp: dns_server_ok_def dest: in_set_takeD in_set_dropD)
qed (auto simp: dns_server_ok_def respond_servers intro: respond_zone_ok)

lemma dns_server_reachable:
  assumes "(dns_server_step (respond parse pack))\<^sup>*\<^sup>* (new_dns_server z udp tcp) s" "zone_ok z"
  shows "dns_server_ok z s"
  using assms(1)
proof (induction rule: rtranclp_induct)
  case base
  show ?case using assms(2) by (simp add: dns_server_ok_def new_dns_server_def)
qed (rule dns_server_step_ok)

text \<open>Closing does end, after at most this many steps of the goroutines; but it waits for clients that keep asking.\<close>

lemma dns_close_bounded:
  assumes "dns_shut s" "dns_server_ok z s" "(dns_server_step (respond parse pack) ^^ n) s t"
  shows "n \<le> 6 + 65 * tcp_max_conns"
proof -
  have "sum_list (map Suc (ds_conns s)) \<le> sum_list (map (\<lambda>_. 65) (ds_conns s))"
    using assms(2) by (intro sum_list_mono) (auto simp: dns_server_ok_def tcp_max_queries_per_conn_def)
  also have "\<dots> \<le> 65 * tcp_max_conns" using assms(2) by (simp add: dns_server_ok_def sum_list_triv)
  finally have "dns_left s \<le> 6 + 65 * tcp_max_conns" by (simp add: dns_left_def)
  then show ?thesis using dns_drain.run_bounded [OF assms(3,1)] by linarith
qed

lemma close_waits_for_clients:
  "\<exists>s t. (dns_server_step answer)\<^sup>*\<^sup>* (new_dns_server z False True) s \<and> dns_shut s \<and>
     (dns_server_step answer ^^ 64) s t \<and> \<not> dns_gone t"
proof -
  define conn where "conn n z = (new_dns_server z False True)\<lparr>ds_sem := 1, ds_conns := [n], ds_closing := True,
     ds_udp_open := False, ds_tcp_open := False\<rparr>" for n and z :: zone
  let ?z = "\<lambda>n. ((\<lambda>z. snd (answer [] z)) ^^ n) z"
  have "dns_server_step answer (new_dns_server z False True)
      ((new_dns_server z False True)\<lparr>ds_sem := 1, ds_conns := [tcp_max_queries_per_conn]\<rparr>)"
    using tcp_accepts [of "new_dns_server z False True" answer] by (simp add: new_dns_server_def tcp_max_conns_def)
  moreover have "dns_server_step answer ((new_dns_server z False True)\<lparr>ds_sem := 1, ds_conns := [tcp_max_queries_per_conn]\<rparr>) (conn 64 z)"
    using close_called [of "(new_dns_server z False True)\<lparr>ds_sem := 1, ds_conns := [tcp_max_queries_per_conn]\<rparr>" answer]
    by (simp add: new_dns_server_def conn_def tcp_max_queries_per_conn_def)
  ultimately have reach: "(dns_server_step answer)\<^sup>*\<^sup>* (new_dns_server z False True) (conn 64 z)"
    by (meson converse_rtranclp_into_rtranclp r_into_rtranclp)
  have turn: "dns_server_step answer (conn (Suc n) z') (conn n (snd (answer [] z')))" for n z'
    using conn_answers [of 0 "conn (Suc n) z'" n answer "[]"] by (simp add: conn_def new_dns_server_def)
  have "(dns_server_step answer ^^ m) (conn (n + m) z') (conn n (((\<lambda>z. snd (answer [] z)) ^^ m) z'))" for m n z'
  proof (induction m arbitrary: n)
    case (Suc m)
    then show ?case using Suc.IH [of "Suc n"] turn by auto
  qed simp
  from this [of 64 0 z] have "(dns_server_step answer ^^ 64) (conn 64 z) (conn 0 (?z 64))" by simp
  then show ?thesis using reach by (intro exI conjI) (auto simp: conn_def dns_shut_def dns_gone_def)
qed

subsection \<open>The local ports of a server\<close>

text \<open>A connection accepted on one of the two ports is waiting for the pool or being spliced; both phases end with its close.\<close>

datatype splice_phase = Opening | Splicing

record local_edge =
  le_loops :: "string list"
  le_watches :: "string list"
  le_open :: "string set"
  le_cancelled :: bool
  le_closing :: bool
  le_splices :: "(string \<times> splice_phase) list"
  le_accepted :: nat
  le_closed :: nat

definition new_local_edge :: local_edge where
  "new_local_edge = \<lparr>le_loops = [''ssh'', ''docker''], le_watches = [''ssh'', ''docker''], le_open = {''ssh'', ''docker''},
     le_cancelled = False, le_closing = False, le_splices = [], le_accepted = 0, le_closed = 0\<rparr>"

definition drop_nth :: "nat \<Rightarrow> 'a list \<Rightarrow> 'a list" where
  "drop_nth i xs = take i xs @ drop (Suc i) xs"

inductive local_edge_step :: "local_edge \<Rightarrow> local_edge \<Rightarrow> bool" where
  edge_accepts: "i < length (le_loops e) \<Longrightarrow> le_loops e ! i \<in> le_open e \<Longrightarrow>
    local_edge_step e (e\<lparr>le_splices := le_splices e @ [(le_loops e ! i, Opening)], le_accepted := le_accepted e + 1\<rparr>)"
| edge_loop_leaves: "i < length (le_loops e) \<Longrightarrow> local_edge_step e (e\<lparr>le_loops := drop_nth i (le_loops e)\<rparr>)"
| pool_refuses: "i < length (le_splices e) \<Longrightarrow> snd (le_splices e ! i) = Opening \<Longrightarrow>
    local_edge_step e (e\<lparr>le_splices := drop_nth i (le_splices e), le_closed := le_closed e + 1\<rparr>)"
| pool_opens: "i < length (le_splices e) \<Longrightarrow> le_splices e ! i = (target, Opening) \<Longrightarrow>
    local_edge_step e (e\<lparr>le_splices := (le_splices e)[i := (target, Splicing)]\<rparr>)"
| splice_ends: "i < length (le_splices e) \<Longrightarrow> snd (le_splices e ! i) = Splicing \<Longrightarrow>
    local_edge_step e (e\<lparr>le_splices := drop_nth i (le_splices e), le_closed := le_closed e + 1\<rparr>)"
| edge_watched: "i < length (le_watches e) \<Longrightarrow> le_cancelled e \<Longrightarrow>
    local_edge_step e (e\<lparr>le_watches := drop_nth i (le_watches e), le_open := le_open e - {le_watches e ! i}\<rparr>)"
| edge_unwatched: "i < length (le_watches e) \<Longrightarrow> le_watches e ! i \<notin> set (le_loops e) \<Longrightarrow>
    local_edge_step e (e\<lparr>le_watches := drop_nth i (le_watches e)\<rparr>)"
| edge_cancelled: "\<not> le_cancelled e \<Longrightarrow> local_edge_step e (e\<lparr>le_cancelled := True\<rparr>)"
| edge_close_called: "\<not> le_closing e \<Longrightarrow> local_edge_step e (e\<lparr>le_closing := True, le_open := {}\<rparr>)"

definition edge_gone :: "local_edge \<Rightarrow> bool" where
  "edge_gone e \<longleftrightarrow> le_loops e = [] \<and> le_watches e = [] \<and> le_splices e = []"

definition edge_shut :: "local_edge \<Rightarrow> bool" where
  "edge_shut e \<longleftrightarrow> le_open e = {}"

definition phase_left :: "splice_phase \<Rightarrow> nat" where
  "phase_left p = (case p of Opening \<Rightarrow> 2 | Splicing \<Rightarrow> 1)"

definition edge_left :: "local_edge \<Rightarrow> nat" where
  "edge_left e = length (le_loops e) + length (le_watches e) + of_bool (\<not> le_cancelled e) + of_bool (\<not> le_closing e) +
     sum_list (map (\<lambda>x. phase_left (snd x)) (le_splices e))"

inductive_cases local_edge_stepE: "local_edge_step e f"

lemma length_drop_nth [simp]: "i < length xs \<Longrightarrow> length (drop_nth i xs) = length xs - 1"
  by (simp add: drop_nth_def)

lemma set_drop_nth: "set (drop_nth i xs) \<subseteq> set xs"
  by (auto simp: drop_nth_def dest: in_set_takeD in_set_dropD)

lemma phase_left_pos: "0 < phase_left p"
  by (cases p) (simp_all add: phase_left_def)

lemma phases_dropped:
  "i < length xs \<Longrightarrow> sum_list (map (\<lambda>x. phase_left (snd x)) (drop_nth i xs)) < sum_list (map (\<lambda>x. phase_left (snd x)) xs)"
  using sum_list_drop_at [of i xs "\<lambda>x. phase_left (snd x)"] phase_left_pos [of "snd (xs ! i)"] by (simp add: drop_nth_def)

interpretation edge_drain: draining local_edge_step edge_shut edge_gone edge_left
proof unfold_locales
  fix e f
  assume "edge_shut e" "local_edge_step e f"
  then show "edge_shut f" by (auto simp: edge_shut_def elim: local_edge_stepE)
next
  fix e f
  assume s: "edge_shut e" and st: "local_edge_step e f"
  from st s show "edge_left f < edge_left e"
  proof cases
    case (pool_refuses i)
    then show ?thesis using phases_dropped [of i "le_splices e"] by (simp add: edge_left_def)
  next
    case (splice_ends i)
    then show ?thesis using phases_dropped [of i "le_splices e"] by (simp add: edge_left_def)
  next
    case (pool_opens i target)
    then show ?thesis using sum_list_put [of i "le_splices e" "\<lambda>x. phase_left (snd x)" "(target, Splicing)"]
      by (simp add: edge_left_def phase_left_def)
  qed (auto simp: edge_left_def edge_shut_def)
next
  fix e
  assume "edge_shut e" "\<not> edge_gone e"
  then consider "0 < length (le_loops e)" | "le_loops e = []" "0 < length (le_watches e)" | "0 < length (le_splices e)"
    by (auto simp: edge_gone_def)
  then show "\<exists>f. local_edge_step e f"
  proof cases
    case 3
    then show ?thesis using pool_refuses [of 0 e] splice_ends [of 0 e] by (cases "snd (le_splices e ! 0)") auto
  qed (use edge_loop_leaves [of 0 e] edge_unwatched [of 0 e] in auto)
qed

text \<open>Every connection accepted is closed once, by the goroutine that serves it, and only on a port that is open.\<close>

lemma edge_account:
  assumes "local_edge_step\<^sup>*\<^sup>* new_local_edge e"
  shows "le_accepted e = le_closed e + length (le_splices e)"
  using assms
proof (induction rule: rtranclp_induct)
  case (step e f)
  from step(2) step(3) show ?case
  proof cases
    case (pool_refuses i)
    then show ?thesis using step(3) by (cases "le_splices e") auto
  next
    case (splice_ends i)
    then show ?thesis using step(3) by (cases "le_splices e") auto
  qed auto
qed (simp add: new_local_edge_def)

lemma edge_closes_all:
  assumes "local_edge_step\<^sup>*\<^sup>* new_local_edge e" "edge_shut e" "local_edge_step\<^sup>*\<^sup>* e f" "\<nexists>g. local_edge_step f g"
  shows "edge_gone f \<and> le_closed f = le_accepted f"
proof -
  have "edge_gone f" using edge_drain.stuck_is_finished [OF assms(2-4)] .
  then show ?thesis using edge_account [OF rtranclp_trans [OF assms(1,3)]] by (simp add: edge_gone_def)
qed

end
