(* ===== verification/Host_Edge.thy ===== *)
theory Host_Edge
  imports Drain Edge
begin

text \<open>
  The goroutines of the listener that every server shares: \<^verbatim>\<open>NewHostEdge\<close>, \<^verbatim>\<open>Close\<close>, \<^verbatim>\<open>acceptLoop\<close> and the life of
  \<^verbatim>\<open>handle\<close> in \<^verbatim>\<open>internal/edge/http.go\<close>, as a step relation. What one \<^verbatim>\<open>handle\<close> decides is theory \<open>Edge\<close>'s; here it
  holds its slot from the accept to the end of the stream it opened.
\<close>

datatype host_phase = Deciding | Joined string string bytes

record host_edge =
  he_loop :: bool
  he_watch :: bool
  he_open :: bool
  he_cancelled :: bool
  he_closing :: bool
  he_sem :: nat
  he_conns :: "host_phase list"
  he_accepted :: nat
  he_closed :: nat
  he_refused :: nat

definition new_host_edge :: host_edge where
  "new_host_edge = \<lparr>he_loop = True, he_watch = True, he_open = True, he_cancelled = False, he_closing = False, he_sem = 0,
     he_conns = [], he_accepted = 0, he_closed = 0, he_refused = 0\<rparr>"

text \<open>The return of a handler: the connection is closed and the slot given back.\<close>

definition host_done :: "nat \<Rightarrow> host_edge \<Rightarrow> host_edge" where
  "host_done i e = e\<lparr>he_sem := he_sem e - 1, he_conns := drop_nth i (he_conns e), he_closed := he_closed e + 1\<rparr>"

text \<open>\<open>open_conn\<close>, \<open>cs\<close> and \<open>err\<close> are the pool's answer and what the client sends, any of them at each decision.\<close>

inductive host_edge_step :: "(bytes \<Rightarrow> 'e + (string \<times> nat)) \<Rightarrow> zone \<Rightarrow> host_edge \<Rightarrow> host_edge \<Rightarrow> bool" for name z where
  host_accepts: "he_loop e \<Longrightarrow> he_open e \<Longrightarrow> he_sem e < max_in_flight_peeks \<Longrightarrow>
    host_edge_step name z e (e\<lparr>he_sem := he_sem e + 1, he_conns := he_conns e @ [Deciding], he_accepted := he_accepted e + 1\<rparr>)"
| host_refuses: "he_loop e \<Longrightarrow> he_open e \<Longrightarrow> \<not> he_sem e < max_in_flight_peeks \<Longrightarrow>
    host_edge_step name z e
      (e\<lparr>he_accepted := he_accepted e + 1, he_closed := he_closed e + 1, he_refused := he_refused e + 1\<rparr>)"
| host_loop_leaves: "he_loop e \<Longrightarrow> host_edge_step name z e (e\<lparr>he_loop := False\<rparr>)"
| host_joins: "i < length (he_conns e) \<Longrightarrow> he_conns e ! i = Deciding \<Longrightarrow>
    handle name z open_conn cs err = Attaches srv host pfx \<Longrightarrow>
    host_edge_step name z e (e\<lparr>he_conns := (he_conns e)[i := Joined srv host pfx]\<rparr>)"
| host_cuts: "i < length (he_conns e) \<Longrightarrow> he_conns e ! i = Deciding \<Longrightarrow>
    (\<forall>srv host pfx. handle name z open_conn cs err \<noteq> Attaches srv host pfx) \<Longrightarrow> host_edge_step name z e (host_done i e)"
| host_ends: "i < length (he_conns e) \<Longrightarrow> he_conns e ! i = Joined srv host pfx \<Longrightarrow> host_edge_step name z e (host_done i e)"
| host_watched: "he_watch e \<Longrightarrow> he_cancelled e \<Longrightarrow> host_edge_step name z e (e\<lparr>he_watch := False, he_open := False\<rparr>)"
| host_unwatched: "he_watch e \<Longrightarrow> \<not> he_loop e \<Longrightarrow> host_edge_step name z e (e\<lparr>he_watch := False\<rparr>)"
| host_cancelled: "\<not> he_cancelled e \<Longrightarrow> host_edge_step name z e (e\<lparr>he_cancelled := True\<rparr>)"
| host_close_called: "\<not> he_closing e \<Longrightarrow> host_edge_step name z e (e\<lparr>he_closing := True, he_open := False\<rparr>)"

definition host_gone :: "host_edge \<Rightarrow> bool" where
  "host_gone e \<longleftrightarrow> \<not> he_loop e \<and> \<not> he_watch e \<and> he_conns e = []"

definition host_shut :: "host_edge \<Rightarrow> bool" where
  "host_shut e \<longleftrightarrow> \<not> he_open e"

definition host_phase_left :: "host_phase \<Rightarrow> nat" where
  "host_phase_left p = (if p = Deciding then 2 else 1)"

definition host_left :: "host_edge \<Rightarrow> nat" where
  "host_left e = of_bool (he_loop e) + of_bool (he_watch e) + of_bool (\<not> he_cancelled e) + of_bool (\<not> he_closing e) +
     sum_list (map host_phase_left (he_conns e))"

inductive_cases host_edge_stepE: "host_edge_step name z e f"

inductive_simps host_edge_step_iff: "host_edge_step name z e f"

lemma host_phases_dropped:
  "i < length xs \<Longrightarrow> sum_list (map host_phase_left (drop_nth i xs)) < sum_list (map host_phase_left xs)"
  using sum_list_drop_at [of i xs host_phase_left] by (simp add: drop_nth_def host_phase_left_def split: if_splits)

interpretation host_drain: draining "host_edge_step name z" host_shut host_gone host_left
proof unfold_locales
  fix e f
  assume "host_shut e" "host_edge_step name z e f"
  then show "host_shut f" by (auto simp: host_shut_def host_done_def elim: host_edge_stepE)
next
  fix e f
  assume s: "host_shut e" and st: "host_edge_step name z e f"
  from st s show "host_left f < host_left e"
  proof cases
    case (host_joins i open_conn cs err srv host pfx)
    then show ?thesis using sum_list_put [of i "he_conns e" host_phase_left "Joined srv host pfx"]
      by (simp add: host_left_def host_phase_left_def)
  next
    case (host_cuts i)
    then show ?thesis using host_phases_dropped [of i "he_conns e"] by (simp add: host_left_def host_done_def)
  next
    case (host_ends i)
    then show ?thesis using host_phases_dropped [of i "he_conns e"] by (simp add: host_left_def host_done_def)
  qed (auto simp: host_left_def host_shut_def)
next
  fix e
  assume "host_shut e" "\<not> host_gone e"
  then consider "he_loop e" | "\<not> he_loop e" "he_watch e" | "0 < length (he_conns e)"
    by (auto simp: host_gone_def)
  then show "\<exists>f. host_edge_step name z e f"
  proof cases
    case 3
    show ?thesis
    proof (cases "he_conns e ! 0")
      case Deciding
      then show ?thesis using 3 host_joins [of 0 e name z] host_cuts [of 0 e name z] by blast
    qed (use 3 host_ends [of 0 e] in blast)
  qed (blast intro: host_edge_step.intros)+
qed

text \<open>
  Whoever connects: at most 256 connections are held, each that was accepted is closed once, and one that was joined to
  a session went to the server that the zone gives for the name it asked for.
\<close>

definition host_edge_ok :: "zone \<Rightarrow> host_edge \<Rightarrow> bool" where
  "host_edge_ok z e \<longleftrightarrow> he_sem e = length (he_conns e) \<and> length (he_conns e) \<le> max_in_flight_peeks \<and>
     he_accepted e = he_closed e + length (he_conns e) \<and> he_refused e \<le> he_closed e \<and>
     (\<forall>srv host pfx. Joined srv host pfx \<in> set (he_conns e) \<longrightarrow> (\<exists>raw service. route z raw = Inr (srv, service, host)))"

lemma handle_joins_served:
  "handle name z open_conn cs err = Attaches srv host pfx \<Longrightarrow> \<exists>raw service. route z raw = Inr (srv, service, host)"
  by (auto simp: handle_def split: sum.splits prod.splits peek_error.splits if_splits)

lemma host_edge_step_ok: "host_edge_step name z e f \<Longrightarrow> host_edge_ok z e \<Longrightarrow> host_edge_ok z f"
proof (induction rule: host_edge_step.induct)
  case (host_joins i e open_conn cs err srv host pfx)
  then show ?case using set_update_subset_insert [of "he_conns e" i "Joined srv host pfx"] handle_joins_served
    by (fastforce simp: host_edge_ok_def)
next
  case (host_cuts i e)
  then show ?case using set_drop_nth [of i "he_conns e"] by (fastforce simp: host_edge_ok_def host_done_def)
next
  case (host_ends i e)
  then show ?case using set_drop_nth [of i "he_conns e"] by (fastforce simp: host_edge_ok_def host_done_def)
qed (auto simp: host_edge_ok_def)

lemma host_edge_reachable:
  assumes "(host_edge_step name z)\<^sup>*\<^sup>* new_host_edge e"
  shows "host_edge_ok z e"
  using assms
proof (induction rule: rtranclp_induct)
  case base
  show ?case by (simp add: host_edge_ok_def new_host_edge_def)
qed (rule host_edge_step_ok)

lemma host_edge_closes_all:
  assumes "(host_edge_step name z)\<^sup>*\<^sup>* new_host_edge e" "host_shut e" "(host_edge_step name z)\<^sup>*\<^sup>* e f"
    "\<nexists>g. host_edge_step name z f g"
  shows "host_gone f \<and> he_closed f = he_accepted f"
proof -
  have "host_gone f" using assms host_drain.stuck_is_finished by blast
  moreover have "host_edge_ok z f" by (rule host_edge_reachable [of name]) (use assms in auto)
  ultimately show ?thesis by (simp add: host_gone_def host_edge_ok_def)
qed

text \<open>
  The cap is stated for connections that are deciding; a stream that has been joined keeps its slot. With 256 of them
  open nobody is deciding, and still every newcomer is turned away as one too many that is.
\<close>

lemma slots_held_by_streams:
  assumes "handle name z open_conn cs err = Attaches srv host pfx"
  shows "\<exists>e. (host_edge_step name z)\<^sup>*\<^sup>* new_host_edge e \<and> he_loop e \<and> he_open e \<and> Deciding \<notin> set (he_conns e) \<and>
    (\<forall>f. host_edge_step name z e f \<longrightarrow> he_accepted f \<noteq> he_accepted e \<longrightarrow> he_refused f = he_refused e + 1)"
proof -
  define full where "full n = new_host_edge\<lparr>he_sem := n, he_conns := replicate n (Joined srv host pfx), he_accepted := n\<rparr>" for n
  have put: "(replicate n x @ [y])[n := x] = replicate (Suc n) x" for n and x y :: host_phase
    by (simp add: list_update_append replicate_append_same)
  have "n \<le> max_in_flight_peeks \<Longrightarrow> (host_edge_step name z)\<^sup>*\<^sup>* new_host_edge (full n)" for n
  proof (induction n)
    case (Suc n)
    define mid where "mid = (full n)\<lparr>he_sem := Suc n, he_conns := he_conns (full n) @ [Deciding], he_accepted := Suc n\<rparr>"
    have "host_edge_step name z (full n) mid"
      using host_accepts [of "full n" name z] Suc.prems by (simp add: full_def mid_def new_host_edge_def)
    moreover have "host_edge_step name z mid (full (Suc n))"
      using host_joins [of n mid name z, OF _ _ assms] put [of n "Joined srv host pfx"]
      by (simp add: full_def mid_def new_host_edge_def nth_append)
    ultimately show ?case using Suc by (meson Suc_leD rtranclp.rtrancl_into_rtrancl)
  qed (simp add: full_def new_host_edge_def)
  then have "(host_edge_step name z)\<^sup>*\<^sup>* new_host_edge (full max_in_flight_peeks)" by simp
  moreover have "he_refused f = he_refused (full max_in_flight_peeks) + 1"
    if "host_edge_step name z (full max_in_flight_peeks) f" "he_accepted f \<noteq> he_accepted (full max_in_flight_peeks)" for f
    using that by (auto simp: full_def host_done_def elim!: host_edge_stepE)
  ultimately show ?thesis by (intro exI [of _ "full max_in_flight_peeks"]) (auto simp: full_def new_host_edge_def)
qed

end
