(* ===== verification/Cli_Transports.thy ===== *)
theory Cli_Transports
  imports Cli_Agent Go_Quote
begin

text \<open>
  The sockets a daemon reaches its agents through: \<^verbatim>\<open>bindServerSocket\<close>, \<^verbatim>\<open>classifyListenBindError\<close> and the
  \<^verbatim>\<open>makeTransport\<close> of \<^verbatim>\<open>cmd/quic-link/daemoncmd.go\<close>, over the constructors of
  \<^verbatim>\<open>internal/transport/quic_transport.go\<close>, and what they mean for the pool that is built with them.

  A \<open>socket_world\<close> is how the system answers: binding, resolving, and the carrier certificate.
\<close>

type_synonym udp_addr = "bytes \<times> nat"

datatype bind_fault = Address_in_use string | Needs_privileges string | Bind_failed string

datatype server_socket = Dialing_from socket_family | Listening_on udp_addr

datatype socket_event = Socket_opened server_socket | Socket_closed server_socket

record socket_world =
  sw_dial :: "socket_family \<Rightarrow> string option"
  sw_resolve :: "string \<Rightarrow> string + udp_addr"
  sw_listen :: "udp_addr \<Rightarrow> bind_fault option"
  sw_carrier :: "string option"
  sw_parse_cert :: "bytes \<Rightarrow> string + bytes"
  sw_accept :: "string \<Rightarrow> string option"
  sw_print :: "rune \<Rightarrow> bool"

record quic_transport =
  qt_socket :: server_socket
  qt_tls :: tls_config
  qt_verify_source :: bool

subsection \<open>Transports\<close>

definition new_quic_transport :: "server_socket \<Rightarrow> tls_config option \<Rightarrow> string + quic_transport" where
  "new_quic_transport sock tls =
    (case tls of
       None \<Rightarrow> Inl ''tlsConf must not be nil''
     | Some c \<Rightarrow> Inr \<lparr>qt_socket = sock, qt_tls = c, qt_verify_source = False\<rparr>)"

definition new_quic_listen_transport :: "server_socket \<Rightarrow> tls_config option \<Rightarrow> string + quic_transport" where
  "new_quic_listen_transport sock tls = map_sum id (\<lambda>t. t\<lparr>qt_verify_source := True\<rparr>) (new_quic_transport sock tls)"

subsection \<open>Binding a server's socket\<close>

definition classify_listen_bind_error :: "(rune \<Rightarrow> bool) \<Rightarrow> string \<Rightarrow> string \<Rightarrow> bind_fault \<Rightarrow> cli_error" where
  "classify_listen_bind_error printable name listen fault =
    (case fault of
       Address_in_use _ \<Rightarrow> usage_error (''server '' @ go_quote printable name @ '': listen address '' @ listen @
         '' is already in use; choose a different port or stop whatever is using it'')
     | Needs_privileges _ \<Rightarrow> usage_error (''server '' @ go_quote printable name @ '': binding '' @ listen @
         '' needs privileges this process does not have; choose a port of 1024 or above instead'')
     | Bind_failed m \<Rightarrow> wrapped (''server '' @ go_quote printable name @ '': bind listen address '' @ listen) (plain_error m))"

definition bind_server_socket :: "socket_world \<Rightarrow> string \<Rightarrow> server \<Rightarrow> bool \<Rightarrow> cli_error + server_socket" where
  "bind_server_socket w name srv waiting =
    (if \<not> waiting then
       (case sw_dial w (dialing_family (sv_addr srv)) of
          Some m \<Rightarrow> Inl (wrapped (''UDP socket for server '' @ go_quote (sw_print w) name) (plain_error m))
        | None \<Rightarrow> Inr (Dialing_from (dialing_family (sv_addr srv))))
     else
       (case sw_resolve w (sv_listen srv) of
          Inl m \<Rightarrow> Inl (usage_error (''server '' @ go_quote (sw_print w) name @ '': cannot understand listen address '' @
            go_quote (sw_print w) (sv_listen srv) @ '': '' @ m))
        | Inr a \<Rightarrow>
          (case sw_listen w a of
             Some fault \<Rightarrow> Inl (classify_listen_bind_error (sw_print w) name (sv_listen srv) fault)
           | None \<Rightarrow> Inr (Listening_on a))))"

definition make_transport :: "socket_world \<Rightarrow> string \<Rightarrow> server \<Rightarrow> (cli_error + quic_transport) \<times> socket_event list" where
  "make_transport w name srv =
    (case parse_pin (sv_pin srv) of
       Inl _ \<Rightarrow> (Inl (wrapped (''invalid pin for server '' @ go_quote (sw_print w) name) (plain_error ''pin'')), [])
     | Inr p \<Rightarrow>
       (let waiting = (sv_listen srv \<noteq> [] \<and> sv_addr srv = []) in
        (case (if waiting then client_listen_tls (sw_parse_cert w) (sw_carrier w) p
               else client_dial_tls (sw_parse_cert w) (sw_carrier w) p) of
           Inl _ \<Rightarrow> (Inl (wrapped (''TLS config for server '' @ go_quote (sw_print w) name) (plain_error ''tls'')), [])
         | Inr tls \<Rightarrow>
           (case bind_server_socket w name srv waiting of
              Inl e \<Rightarrow> (Inl e, [])
            | Inr sock \<Rightarrow>
              (case (if waiting then new_quic_listen_transport sock (Some tls) else new_quic_transport sock (Some tls)) of
                 Inl m \<Rightarrow> (Inl (wrapped (''transport for server '' @ go_quote (sw_print w) name) (plain_error m)),
                            [Socket_opened sock, Socket_closed sock])
               | Inr t \<Rightarrow> (Inr t, [Socket_opened sock]))))))"

text \<open>The world the pool is built in, and what a failure to build it wraps.\<close>

definition error_text :: "cli_error \<Rightarrow> string" where
  "error_text e = (case e of Go_error (Failed_with m) _ \<Rightarrow> m | _ \<Rightarrow> [])"

definition transport_world :: "socket_world \<Rightarrow> pool_world" where
  "transport_world w =
    \<lparr>pw_transport = (\<lambda>name srv. case fst (make_transport w name srv) of Inl e \<Rightarrow> Some (error_text e) | Inr _ \<Rightarrow> None),
     pw_listen = sw_accept w\<rparr>"

definition transport_failure :: "socket_world \<Rightarrow> config \<Rightarrow> pool_error \<Rightarrow> cli_error" where
  "transport_failure w cfg e =
    (case e of
       Build_transport name _ \<Rightarrow>
         (case Option.bind (map_of (cf_servers cfg) name) (\<lambda>srv. case fst (make_transport w name srv) of Inl e \<Rightarrow> Some e | Inr _ \<Rightarrow> None) of
            Some c \<Rightarrow> wrapped (''pool: build transport for '' @ go_quote (sw_print w) name) c
          | None \<Rightarrow> plain_error [])
     | Listen_failed name m \<Rightarrow> wrapped (''pool: listen for '' @ go_quote (sw_print w) name) (plain_error m)
     | Undialable _ d \<Rightarrow> Go_error (Config_invalid (Inl d)) [])"

subsection \<open>What a server's transport is\<close>

lemma tls_of_pin:
  assumes "p \<noteq> []"
  shows "(\<exists>tls. pinning_tls parse_cert carrier mode [p] = Inr tls) \<longleftrightarrow> carrier = None"
  using assms by (cases mode) (auto simp: pinning_tls_def Let_def split: option.splits)

text \<open>A transport made is one open socket of the kind the settings ask for; one that was not made left none open.\<close>

lemma make_transport_ok:
  assumes "make_transport w name srv = (Inr t, evs)"
  shows "evs = [Socket_opened (qt_socket t)] \<and>
    (\<exists>p. parse_pin (sv_pin srv) = Inr p \<and> sw_carrier w = None \<and>
       pinning_tls (sw_parse_cert w) None (if sv_listen srv \<noteq> [] \<and> sv_addr srv = [] then Mode_listen else Mode_dial) [p] = Inr (qt_tls t)) \<and>
    (if sv_listen srv \<noteq> [] \<and> sv_addr srv = []
     then (\<exists>a. sw_resolve w (sv_listen srv) = Inr a \<and> qt_socket t = Listening_on a) \<and> qt_verify_source t
     else qt_socket t = Dialing_from (dialing_family (sv_addr srv)) \<and> \<not> qt_verify_source t)"
proof -
  obtain p where p: "parse_pin (sv_pin srv) = Inr p"
    using assms by (auto simp: make_transport_def split: sum.splits)
  have carrier: "sw_carrier w = None" if "pinning_tls (sw_parse_cert w) (sw_carrier w) mode [p] = Inr tls" for mode tls
    using that by (auto simp: pinning_tls_def split: if_splits option.splits)
  show ?thesis
    using assms p carrier unfolding make_transport_def
    by (fastforce simp: Let_def client_listen_tls_def client_dial_tls_def bind_server_socket_def new_quic_transport_def
        new_quic_listen_transport_def split: sum.splits option.splits if_splits)
qed

lemma make_transport_failed:
  assumes "make_transport w name srv = (Inl e, evs)"
  shows "evs = [] \<or> (\<exists>sock. evs = [Socket_opened sock, Socket_closed sock])"
  using assms by (auto simp: make_transport_def Let_def split: sum.splits option.splits if_splits)

text \<open>
  The exit code of such a failure: an address that is not one, is taken, or is not for this process, is the
  operator's to correct.
\<close>

definition listen_blames_operator :: "socket_world \<Rightarrow> server \<Rightarrow> bool" where
  "listen_blames_operator w srv =
    (case sw_resolve w (sv_listen srv) of
       Inl _ \<Rightarrow> True
     | Inr a \<Rightarrow> (case sw_listen w a of Some (Bind_failed _) \<Rightarrow> False | Some _ \<Rightarrow> True | None \<Rightarrow> False))"

lemma make_transport_code:
  assumes "fst (make_transport w name srv) = Inl e" "parse_pin (sv_pin srv) = Inr p" "sw_carrier w = None"
  shows "exit_code_for_error e = (if sv_listen srv \<noteq> [] \<and> sv_addr srv = [] \<and> listen_blames_operator w srv then 2 else 1)"
proof -
  have plain: "exit_code_for_error (plain_error m) = 1" for m by (simp add: cli_error_simps)
  have "parse_pin_strict p = Inr p" using assms(2) parse_pin_InrD by (auto simp: parse_pin_strict_iff)
  then have "p \<noteq> []" by (rule strict_pin_nonempty)
  then have "\<exists>tls. pinning_tls (sw_parse_cert w) None mode [p] = Inr tls" for mode by (simp add: tls_of_pin)
  then obtain tls where tls: "\<And>mode. pinning_tls (sw_parse_cert w) None mode [p] = Inr (tls mode)" by metis
  show ?thesis
    using assms unfolding make_transport_def
    by (auto simp: Let_def client_listen_tls_def client_dial_tls_def tls bind_server_socket_def new_quic_transport_def
        new_quic_listen_transport_def classify_listen_bind_error_def listen_blames_operator_def plain
        split: sum.splits option.splits if_splits bind_fault.splits)
qed

subsection \<open>Binding again\<close>

text \<open>
  \<^verbatim>\<open>rebindTransport\<close>: an entry that fails to dial often enough gets a new transport and closes the old one.
  \<open>releases\<close> says whether closing a \<^verbatim>\<open>quic.Transport\<close> closes the socket it was given; the list is the sockets open.
\<close>

definition replace_socket ::
  "bool \<Rightarrow> socket_world \<Rightarrow> string \<Rightarrow> server \<Rightarrow> quic_transport \<times> server_socket list \<Rightarrow>
     cli_error option \<times> quic_transport \<times> server_socket list" where
  "replace_socket releases w name srv tr =
    (case (make_transport w name srv, tr) of
       ((Inl e, _), _) \<Rightarrow> (Some (wrapped ''build replacement transport'' e), tr)
     | ((Inr t', _), (t, open_sockets)) \<Rightarrow>
         (None, t', (if releases then remove1 (qt_socket t) open_sockets else open_sockets) @ [qt_socket t']))"

text \<open>
  The old socket is released exactly if the transport's close does so. Otherwise every rebind of a long outage leaves
  one more open, and nothing else in the program holds them.
\<close>

lemma replaced_sockets_pile_up:
  assumes "make_transport w name srv = (Inr t, evs)"
  shows "((snd \<circ> replace_socket releases w name srv) ^^ k) (t, [qt_socket t]) =
    (t, if releases then [qt_socket t] else replicate (Suc k) (qt_socket t))"
  using assms by (induction k) (simp_all add: replace_socket_def replicate_append_same)

subsection \<open>The pool built over these transports\<close>

lemma pool_entry_built:
  assumes "fst (new_real_pool pw cfg) = Inr ks" "distinct (map fst (cf_servers cfg))" "(n, s) \<in> set (cf_servers cfg)"
  shows "server_works pw n s \<and> (n, expected_kind s) \<in> set ks"
proof -
  have "(n, s) \<in> set (servers_in_order (cf_servers cfg))" using servers_in_order_sorted [OF assms(2)] assms(3) by blast
  then show ?thesis using assms(1) unfolding new_real_pool_def build_entries_Inr_iff list_all_iff by force
qed

text \<open>
  C28: With a valid configuration and a pool that could be built, every enabled server has exactly one open socket and
  behind it a TLS configuration that lets in exactly the holder of the key its pin names, on resumption too. A server
  that is dialled is dialled from an ephemeral socket of its address's family; one that waits has the socket the
  operator asked for, asks every new source address to prove itself, and asks for a certificate.
\<close>

theorem owner_sockets_admit_one_key:
  assumes "validate_config Role_client cfg = (ws, None)" "distinct (map fst (cf_servers cfg))"
    and "fst (new_real_pool (transport_world w) cfg) = Inr ks" "(n, s) \<in> set (cf_servers cfg)" "\<not> sv_disabled s"
  shows "\<exists>t. make_transport w n s = (Inr t, [Socket_opened (qt_socket t)]) \<and>
    (n, if waits s then Listen_kind else Dial_kind (sv_addr s)) \<in> set ks \<and>
    (if waits s then (\<exists>a. sw_resolve w (sv_listen s) = Inr a \<and> qt_socket t = Listening_on a) \<and> qt_verify_source t
     else qt_socket t = Dialing_from (dialing_family (sv_addr s)) \<and> \<not> qt_verify_source t) \<and>
    (tls_accepts chain_ok (if waits s then Mode_listen else Mode_dial) (qt_tls t) resumed certs \<longleftrightarrow>
      (\<exists>leaf rest spki. certs = leaf # rest \<and> sw_parse_cert w leaf = Inr spki \<and> pin spki = sv_pin s))"
proof -
  note built = pool_entry_built [OF assms(3,2,4)]
  have waits: "waits s \<longleftrightarrow> sv_listen s \<noteq> [] \<and> sv_addr s = []" using assms(5) by (simp add: waits_def)
  obtain t evs where t: "make_transport w n s = (Inr t, evs)"
    using built assms(5) by (cases "make_transport w n s")
      (auto simp: server_works_def transport_world_def split: sum.splits)
  note ok = make_transport_ok [OF t]
  have "parse_pin (sv_pin s) = Inr (sv_pin s)"
    using valid_client_server(3) [OF assms(1,4,5)] by (auto simp: parse_pin_strict_def split: sum.splits if_splits)
  then have tls: "pinning_tls (sw_parse_cert w) None (if waits s then Mode_listen else Mode_dial) [sv_pin s] = Inr (qt_tls t)"
    using ok waits by auto
  have "expected_kind s = (if waits s then Listen_kind else Dial_kind (sv_addr s))"
    using assms(5) by (simp add: expected_kind_def configured_transport_def waits)
  with built have "(n, if waits s then Listen_kind else Dial_kind (sv_addr s)) \<in> set ks" by simp
  moreover have "make_transport w n s = (Inr t, [Socket_opened (qt_socket t)])" using ok t by simp
  moreover have "if waits s then (\<exists>a. sw_resolve w (sv_listen s) = Inr a \<and> qt_socket t = Listening_on a) \<and> qt_verify_source t
     else qt_socket t = Dialing_from (dialing_family (sv_addr s)) \<and> \<not> qt_verify_source t"
    using ok unfolding waits by blast
  moreover have "tls_accepts chain_ok (if waits s then Mode_listen else Mode_dial) (qt_tls t) resumed certs \<longleftrightarrow>
      (\<exists>leaf rest spki. certs = leaf # rest \<and> sw_parse_cert w leaf = Inr spki \<and> pin spki = sv_pin s)"
    unfolding admits_listed [OF tls] by simp
  ultimately show ?thesis by (intro exI [of _ t] conjI)
qed

definition quiet_sockets :: socket_world where
  "quiet_sockets = \<lparr>sw_dial = (\<lambda>_. None), sw_resolve = (\<lambda>_. Inl ''no''), sw_listen = (\<lambda>_. None), sw_carrier = None,
     sw_parse_cert = Inr, sw_accept = (\<lambda>_. None), sw_print = (\<lambda>_. False)\<rparr>"

theorem owner_sockets_admit_one_key_witness:
  "\<exists>t. fst (make_transport quiet_sockets ''db'' (snd (hd (cf_servers sample_config)))) = Inr t \<and>
     qt_socket t = Dialing_from (dialing_family ''h:1'') \<and>
     (tls_accepts (\<lambda>_. False) Mode_dial (qt_tls t) True [''key''] \<longleftrightarrow> pin ''key'' = sample_pin)"
proof -
  obtain srv where s: "cf_servers sample_config = [(''db'', srv)]" "\<not> sv_disabled srv" "sv_addr srv = ''h:1''"
    "sv_listen srv = []" "sv_pin srv = sample_pin"
    by (simp add: sample_config_def sv_disabled_def)
  note pp = sample_pin_parses
  have "\<exists>tls. client_dial_tls Inr None sample_pin = Inr tls"
    using strict_pin_nonempty [OF sample_pin_strict] by (simp add: client_dial_tls_def tls_of_pin)
  then obtain tls where tls: "client_dial_tls Inr None sample_pin = Inr tls" by blast
  have made: "\<exists>t. fst (make_transport quiet_sockets ''db'' x) = Inr t"
    if "sv_listen x = []" "sv_pin x = sample_pin" for x
    using that tls by (simp add: make_transport_def pp quiet_sockets_def bind_server_socket_def new_quic_transport_def)
  obtain t where t: "fst (make_transport quiet_sockets ''db'' srv) = Inr t" using made [OF s(4,5)] by blast
  have "split_host_port ''h:1'' = Inr (''h'', ''1'')" by (simp add: split_host_port_def Let_def has_prefix_def contains_byte_def)
  then have "server_works (transport_world quiet_sockets) ''db'' srv"
    using t by (simp add: server_works_def transport_world_def s configured_transport_def dialable_addr_def)
  moreover have "servers_in_order [(''db'', srv)] = [(''db'', srv)]"
    by (simp add: servers_in_order_def sorted_server_names_sort)
  ultimately have built: "fst (new_real_pool (transport_world quiet_sockets) sample_config) = Inr [(''db'', expected_kind srv)]"
    unfolding new_real_pool_def build_entries_Inr_iff s(1) by simp
  obtain ws where valid: "validate_config Role_client sample_config = (ws, None)"
    using sample_config_is_valid by blast
  have one: "distinct (map fst (cf_servers sample_config))" "(''db'', srv) \<in> set (cf_servers sample_config)"
    unfolding s(1) by simp_all
  have "\<not> waits srv" using s(4) by (simp add: waits_def)
  then show ?thesis
    using owner_sockets_admit_one_key [OF valid one(1) built one(2) s(2), of "\<lambda>_. False" True "[''key'']"] s
    by (fastforce simp: quiet_sockets_def)
qed

end
