(* ===== verification/Ipc_Life.thy ===== *)
theory Ipc_Life
  imports Drain Ipc_Server
begin

text \<open>
  The life of the daemon's socket server: \<^verbatim>\<open>Serve\<close> and \<^verbatim>\<open>Close\<close> of \<^verbatim>\<open>internal/ipc/server.go\<close> as a step relation over its
  accept loop, its watcher of the context and the handlers it started. What one handler does is theory \<open>Ipc_Server\<close>'s
  \<open>serve_conn\<close>; here it holds its slot until it gives it back, early or at its end.
\<close>

datatype accept_phase = Wants_slot | Accepting | Loop_left

record ipc_life =
  il_loop :: accept_phase
  il_watch :: bool
  il_cancelled :: bool
  il_closed :: bool
  il_listening :: bool
  il_sem :: nat
  il_holding :: "bool list"
  il_accepted :: nat
  il_done :: nat
  il_faults :: nat

text \<open>
  One \<open>bool\<close> per running handler: whether its slot is still taken. \<^verbatim>\<open>Close\<close> sets its flag first and closes the listener
  after it; only the caller that set the flag does. The socket is bound before \<^verbatim>\<open>Serve\<close> runs.
\<close>

definition new_ipc_life :: ipc_life where
  "new_ipc_life = \<lparr>il_loop = Wants_slot, il_watch = True, il_cancelled = False, il_closed = False, il_listening = True,
     il_sem = 0, il_holding = [], il_accepted = 0, il_done = 0, il_faults = 0\<rparr>"

inductive ipc_life_step :: "nat \<Rightarrow> ipc_life \<Rightarrow> ipc_life \<Rightarrow> bool" for cap where
  slot_taken: "il_loop s = Wants_slot \<Longrightarrow> il_sem s < cap \<Longrightarrow>
    ipc_life_step cap s (s\<lparr>il_loop := Accepting, il_sem := il_sem s + 1\<rparr>)"
| slot_not_awaited: "il_loop s = Wants_slot \<Longrightarrow> il_cancelled s \<Longrightarrow> ipc_life_step cap s (s\<lparr>il_loop := Loop_left\<rparr>)"
| conn_accepted: "il_loop s = Accepting \<Longrightarrow> il_listening s \<Longrightarrow>
    ipc_life_step cap s (s\<lparr>il_loop := Wants_slot, il_holding := il_holding s @ [True], il_accepted := il_accepted s + 1\<rparr>)"
| accept_fault: "il_loop s = Accepting \<Longrightarrow> il_listening s \<Longrightarrow> \<not> il_closed s \<Longrightarrow>
    ipc_life_step cap s (s\<lparr>il_loop := Wants_slot, il_sem := il_sem s - 1, il_faults := il_faults s + 1\<rparr>)"
| accept_closed: "il_loop s = Accepting \<Longrightarrow> il_closed s \<Longrightarrow>
    ipc_life_step cap s (s\<lparr>il_loop := Loop_left, il_sem := il_sem s - 1\<rparr>)"
| slot_given_back: "i < length (il_holding s) \<Longrightarrow> il_holding s ! i \<Longrightarrow>
    ipc_life_step cap s (s\<lparr>il_sem := il_sem s - 1, il_holding := (il_holding s)[i := False]\<rparr>)"
| handler_ends: "i < length (il_holding s) \<Longrightarrow>
    ipc_life_step cap s
      (s\<lparr>il_sem := il_sem s - of_bool (il_holding s ! i), il_holding := drop_nth i (il_holding s), il_done := il_done s + 1\<rparr>)"
| watcher_closes: "il_watch s \<Longrightarrow> il_cancelled s \<Longrightarrow> ipc_life_step cap s (s\<lparr>il_watch := False, il_closed := True\<rparr>)"
| life_cancelled: "\<not> il_cancelled s \<Longrightarrow> ipc_life_step cap s (s\<lparr>il_cancelled := True\<rparr>)"
| life_close_called: "\<not> il_closed s \<Longrightarrow> ipc_life_step cap s (s\<lparr>il_closed := True\<rparr>)"
| listener_closes: "il_closed s \<Longrightarrow> il_listening s \<Longrightarrow> ipc_life_step cap s (s\<lparr>il_listening := False\<rparr>)"

text \<open>\<^verbatim>\<open>Serve\<close> returns when the loop has left and every handler has finished; the watcher it does not wait for.\<close>

definition serve_returns :: "ipc_life \<Rightarrow> bool" where
  "serve_returns s \<longleftrightarrow> il_loop s = Loop_left \<and> il_holding s = []"

definition slots_held :: "bool list \<Rightarrow> nat" where
  "slots_held hs = length (filter id hs)"

definition ipc_life_ok :: "nat \<Rightarrow> ipc_life \<Rightarrow> bool" where
  "ipc_life_ok cap s \<longleftrightarrow> il_sem s = slots_held (il_holding s) + of_bool (il_loop s = Accepting) \<and> il_sem s \<le> cap \<and>
     il_accepted s = il_done s + length (il_holding s) \<and> (il_listening s \<or> il_closed s)"

lemma slots_held_simps [simp]: "slots_held [] = 0" "slots_held (hs @ [h]) = slots_held hs + of_bool h"
  by (simp_all add: slots_held_def)

lemma slots_held_sum: "slots_held hs = sum_list (map of_bool hs)"
  by (induction hs) (simp_all add: slots_held_def)

lemma slots_held_put: "i < length hs \<Longrightarrow> hs ! i \<Longrightarrow> slots_held (hs[i := False]) = slots_held hs - 1 \<and> 0 < slots_held hs"
  using sum_list_put [of i hs of_bool False] by (simp add: slots_held_sum)

lemma slots_held_drop: "i < length hs \<Longrightarrow> slots_held (drop_nth i hs) = slots_held hs - of_bool (hs ! i) \<and> of_bool (hs ! i) \<le> slots_held hs"
  using sum_list_drop_at [of i hs of_bool] by (simp add: slots_held_sum drop_nth_def)

lemma ipc_life_step_ok: "ipc_life_step cap s t \<Longrightarrow> ipc_life_ok cap s \<Longrightarrow> ipc_life_ok cap t"
proof (induction rule: ipc_life_step.induct)
  case (slot_given_back i s)
  then show ?case using slots_held_put [of i "il_holding s"] by (auto simp: ipc_life_ok_def)
next
  case (handler_ends i s)
  then show ?case using slots_held_drop [of i "il_holding s"] by (cases "il_holding s") (auto simp: ipc_life_ok_def)
qed (auto simp: ipc_life_ok_def)

lemma ipc_life_reachable:
  assumes "(ipc_life_step cap)\<^sup>*\<^sup>* new_ipc_life s"
  shows "ipc_life_ok cap s"
  using assms
proof (induction rule: rtranclp_induct)
  case base
  show ?case by (simp add: ipc_life_ok_def new_ipc_life_def)
qed (rule ipc_life_step_ok)

subsection \<open>The end\<close>

text \<open>Once the socket is closed, by the context's watcher or by \<^verbatim>\<open>Close\<close>, every step brings \<^verbatim>\<open>Serve\<close> nearer to its return.\<close>

definition ipc_shut :: "nat \<Rightarrow> ipc_life \<Rightarrow> bool" where
  "ipc_shut cap s \<longleftrightarrow> \<not> il_listening s \<and> 0 < cap \<and> ipc_life_ok cap s"

fun loop_left :: "accept_phase \<Rightarrow> nat" where
  "loop_left Wants_slot = 2"
| "loop_left Accepting = 1"
| "loop_left Loop_left = 0"

definition ipc_left :: "ipc_life \<Rightarrow> nat" where
  "ipc_left s = loop_left (il_loop s) + of_bool (il_watch s) + of_bool (\<not> il_cancelled s) +
     sum_list (map (\<lambda>h. Suc (of_bool h)) (il_holding s))"

inductive_cases ipc_life_stepE: "ipc_life_step cap s t"

lemma slots_held_pos: "0 < slots_held hs \<Longrightarrow> \<exists>i < length hs. hs ! i"
  by (force simp: slots_held_def length_greater_0_conv filter_empty_conv in_set_conv_nth)

interpretation ipc_drain: draining "ipc_life_step cap" "ipc_shut cap" serve_returns ipc_left for cap
proof unfold_locales
  fix s t
  assume "ipc_shut cap s" "ipc_life_step cap s t"
  then show "ipc_shut cap t" by (auto simp: ipc_shut_def ipc_life_step_ok elim: ipc_life_stepE)
next
  fix s t
  assume s: "ipc_shut cap s" and st: "ipc_life_step cap s t"
  from st s show "ipc_left t < ipc_left s"
  proof cases
    case (slot_given_back i)
    then show ?thesis using sum_list_put [of i "il_holding s" "\<lambda>h. Suc (of_bool h)" False] by (simp add: ipc_left_def)
  next
    case (handler_ends i)
    then show ?thesis using sum_list_drop_at [of i "il_holding s" "\<lambda>h. Suc (of_bool h)"] by (simp add: ipc_left_def drop_nth_def)
  qed (auto simp: ipc_left_def ipc_shut_def ipc_life_ok_def)
next
  fix s
  assume s: "ipc_shut cap s" "\<not> serve_returns s"
  show "\<exists>t. ipc_life_step cap s t"
  proof (cases "il_holding s = []")
    case True
    then show ?thesis using s accept_closed [of s cap] slot_taken [of s cap]
      by (cases "il_loop s") (auto simp: serve_returns_def ipc_shut_def ipc_life_ok_def)
  qed (use handler_ends [of 0 s cap] in blast)
qed

lemma serve_ends:
  assumes "(ipc_life_step cap)\<^sup>*\<^sup>* new_ipc_life s" "\<not> il_listening s" "0 < cap" "(ipc_life_step cap ^^ n) s t"
  shows "n \<le> 4 + 2 * length (il_holding s)"
    and "(\<nexists>u. ipc_life_step cap t u) \<Longrightarrow> serve_returns t \<and> il_done t = il_accepted t \<and> il_sem t = 0"
proof -
  have shut: "ipc_shut cap s" using assms ipc_life_reachable by (simp add: ipc_shut_def)
  have "sum_list (map (\<lambda>h. Suc (of_bool h)) (il_holding s)) \<le> sum_list (map (\<lambda>_. 2) (il_holding s))"
    by (rule sum_list_mono) simp
  moreover have "loop_left (il_loop s) \<le> 2" by (cases "il_loop s") simp_all
  ultimately have "ipc_left s \<le> 4 + 2 * length (il_holding s)" by (simp add: ipc_left_def sum_list_triv)
  then show "n \<le> 4 + 2 * length (il_holding s)" using ipc_drain.run_bounded [OF assms(4) shut] by linarith
  assume stuck: "\<nexists>u. ipc_life_step cap t u"
  have run: "(ipc_life_step cap)\<^sup>*\<^sup>* s t" using assms(4) by (rule relpowp_imp_rtranclp)
  with shut have "serve_returns t" using stuck by (rule ipc_drain.stuck_is_finished)
  moreover have "ipc_life_ok cap t" using assms(1) run by (intro ipc_life_reachable) simp
  ultimately show "serve_returns t \<and> il_done t = il_accepted t \<and> il_sem t = 0"
    by (simp add: serve_returns_def ipc_life_ok_def)
qed

subsection \<open>What the slots do and do not bound\<close>

text \<open>A tunnel gives its slot back when it is let in, so any number of open ones leaves the socket accepting.\<close>

lemma tunnels_hold_no_slot:
  assumes "0 < cap"
  shows "(ipc_life_step cap)\<^sup>*\<^sup>* new_ipc_life (new_ipc_life\<lparr>il_holding := replicate n False, il_accepted := n\<rparr>)"
proof (induction n)
  case (Suc n)
  define idle where "idle k = new_ipc_life\<lparr>il_holding := replicate k False, il_accepted := k\<rparr>" for k
  define s1 where "s1 = (idle n)\<lparr>il_loop := Accepting, il_sem := 1\<rparr>"
  define s2 where "s2 = (idle n)\<lparr>il_sem := 1, il_holding := replicate n False @ [True], il_accepted := Suc n\<rparr>"
  have "ipc_life_step cap (idle n) s1"
    using slot_taken [of "idle n" cap] assms by (simp add: idle_def s1_def new_ipc_life_def)
  moreover have "ipc_life_step cap s1 s2"
    using conn_accepted [of s1 cap] by (simp add: idle_def s1_def s2_def new_ipc_life_def)
  moreover have "ipc_life_step cap s2 (idle (Suc n))"
    using slot_given_back [of n s2 cap]
    by (simp add: idle_def s2_def new_ipc_life_def nth_append list_update_append replicate_append_same)
  ultimately have "(ipc_life_step cap)\<^sup>*\<^sup>* (idle n) (idle (Suc n))"
    by (meson converse_rtranclp_into_rtranclp r_into_rtranclp)
  then show ?case using Suc by (simp add: idle_def)
qed (simp add: new_ipc_life_def)

text \<open>A fault of the listener that lasts, such as having no descriptor left, is tried again at once, without an end.\<close>

lemma faults_spin:
  assumes "0 < cap"
  shows "(ipc_life_step cap ^^ (2 * n)) new_ipc_life (new_ipc_life\<lparr>il_faults := n\<rparr>)"
proof (induction n)
  case (Suc n)
  let ?s = "new_ipc_life\<lparr>il_faults := n\<rparr>"
  have "ipc_life_step cap ?s (?s\<lparr>il_loop := Accepting, il_sem := 1\<rparr>)"
    using slot_taken [of ?s cap] assms by (simp add: new_ipc_life_def)
  moreover have "ipc_life_step cap (?s\<lparr>il_loop := Accepting, il_sem := 1\<rparr>) (?s\<lparr>il_faults := Suc n\<rparr>)"
    using accept_fault [of "?s\<lparr>il_loop := Accepting, il_sem := 1\<rparr>" cap] by (simp add: new_ipc_life_def)
  ultimately have "(ipc_life_step cap ^^ Suc (Suc (2 * n))) new_ipc_life (?s\<lparr>il_faults := Suc n\<rparr>)"
    using Suc by (meson relpowp_Suc_I)
  then show ?case by simp
qed (simp add: new_ipc_life_def)

end
