(* ===== verification/Control_Link.thy ===== *)
theory Control_Link
  imports Control_Open Daemon_Entry Drain
begin

text \<open>
  The one connection of the control plane, at both ends: the adapters that let a general server and client run on a
  single stream (\<^verbatim>\<open>internal/control/conn.go\<close>, \<^verbatim>\<open>listener.go\<close>, the dialer of \<^verbatim>\<open>client.go\<close>), and \<^verbatim>\<open>Serve\<close> of
  \<^verbatim>\<open>internal/control/server.go\<close>, which returns when that connection ends.

  The server runtime (third party) appears with what it documents: its loop accepts until the listener fails, its
  stop closes the listener and the connections, and it reports the end of a connection.
\<close>

subsection \<open>The stream as a connection\<close>

text \<open>A stream may have deadlines (\<open>Some\<close> of how it sets one); one that has none ignores them.\<close>

definition stream_set_deadline :: "('t \<Rightarrow> string option) option \<Rightarrow> 't \<Rightarrow> string option" where
  "stream_set_deadline deadliner t = (case deadliner of Some f \<Rightarrow> f t | None \<Rightarrow> None)"

definition control_addr :: "string \<times> string" where
  "control_addr = (''quic-link'', ''control'')"

subsection \<open>A listener of one connection\<close>

record single_listener =
  sl_handed :: bool
  sl_closed :: bool

definition new_single_listener :: single_listener where
  "new_single_listener = \<lparr>sl_handed = False, sl_closed = False\<rparr>"

datatype accept_now = Hands_conn | Blocks | Net_closed

definition sl_accept :: "single_listener \<Rightarrow> accept_now \<times> single_listener" where
  "sl_accept l =
    (if \<not> sl_handed l then (Hands_conn, l\<lparr>sl_handed := True\<rparr>)
     else (if sl_closed l then Net_closed else Blocks, l))"

definition sl_close :: "single_listener \<Rightarrow> single_listener" where
  "sl_close l = l\<lparr>sl_closed := True\<rparr>"

lemma accept_once: "fst (sl_accept (snd (sl_accept l))) \<noteq> Hands_conn"
  by (simp add: sl_accept_def)

lemma close_idempotent: "sl_close (sl_close l) = sl_close l"
  by (simp add: sl_close_def)

subsection \<open>The dialer of one connection\<close>

definition dialer_reused :: string where
  "dialer_reused = ''dialer may only be used once''"

definition control_dial :: "bool \<Rightarrow> (string + unit) \<times> bool" where
  "control_dial used = (if used then (Inl (''control: '' @ dialer_reused), used) else (Inr (), True))"

fun contains_text :: "string \<Rightarrow> string \<Rightarrow> bool" where
  "contains_text [] t \<longleftrightarrow> t = []"
| "contains_text (c # s) t \<longleftrightarrow> has_prefix (c # s) t \<or> contains_text s t"

definition probe_failure_text :: "string option \<Rightarrow> string" where
  "probe_failure_text err =
    (case err of
       None \<Rightarrow> []
     | Some m \<Rightarrow> if contains_text m dialer_reused then ''the session's control stream had already ended'' else m)"

lemma contains_text_here: "contains_text (a @ t @ b) t"
proof (induction a)
  case Nil
  have "has_prefix (t @ b) t" by (simp add: has_prefix_def)
  then show ?case by (cases "t @ b") simp_all
next
  case (Cons c a)
  then show ?case by (cases "a @ t @ b") auto
qed

text \<open>
  The two packages agree on the sentence by its text alone: however the runtime frames the dialer's refusal, the probe
  recognizes it and says what it means.
\<close>

lemma dial_refusal_recognized:
  assumes "control_dial True = (Inl m, used)"
  shows "probe_failure_text (Some (before @ m @ after)) = ''the session's control stream had already ended''"
proof -
  have "before @ m @ after = (before @ ''control: '') @ dialer_reused @ after" using assms by (simp add: control_dial_def)
  then have "contains_text (before @ m @ after) dialer_reused"
    using contains_text_here [of "before @ ''control: ''" dialer_reused after] by argo
  then show ?thesis by (simp add: probe_failure_text_def)
qed

subsection \<open>How soon a dead agent is noticed\<close>

text \<open>Times in nanoseconds. A probe that fails at its deadline takes the timeout; the wait before each takes the interval.\<close>

definition default_probe_interval :: int where "default_probe_interval = 10 * 10 ^ 9"
definition default_probe_timeout :: int where "default_probe_timeout = 5 * 10 ^ 9"
definition default_control_call_timeout :: int where "default_control_call_timeout = default_probe_timeout"

definition probes_take :: "probe_event list \<Rightarrow> int" where
  "probes_take es = sum_list (map (\<lambda>e. default_probe_interval + (case e of Ping_failed \<Rightarrow> default_probe_timeout | _ \<Rightarrow> 0)) es)"

lemma detection_window:
  "run_liveness_probe default_probe_fail_threshold [Ping_failed, Ping_failed] 0 = Some default_probe_fail_threshold \<and>
   probes_take [Ping_failed, Ping_failed] = 30 * 10 ^ 9"
  by (simp add: default_probe_fail_threshold_def probes_take_def default_probe_interval_def default_probe_timeout_def)

subsection \<open>Serving the one connection\<close>

text \<open>
  \<open>cv_loop\<close>: the runtime's accept loop runs; \<open>cv_conn\<close>: it holds the connection; \<open>cv_ended\<close>: \<^verbatim>\<open>connEndWatcher\<close> was told
  of its end; \<open>cv_returned\<close>: what \<^verbatim>\<open>Serve\<close> returned, whether the context had ended.
\<close>

record control_serve =
  cv_listener :: single_listener
  cv_loop :: bool
  cv_conn :: bool
  cv_ended :: bool
  cv_cancelled :: bool
  cv_stopped :: bool
  cv_conns :: nat
  cv_returned :: "bool option"

definition new_control_serve :: control_serve where
  "new_control_serve = \<lparr>cv_listener = new_single_listener, cv_loop = True, cv_conn = False, cv_ended = False,
     cv_cancelled = False, cv_stopped = False, cv_conns = 0, cv_returned = None\<rparr>"

inductive control_serve_step :: "control_serve \<Rightarrow> control_serve \<Rightarrow> bool" where
  runtime_accepts: "cv_loop s \<Longrightarrow> sl_accept (cv_listener s) = (Hands_conn, l) \<Longrightarrow>
    control_serve_step s (s\<lparr>cv_listener := l, cv_conn := True, cv_conns := cv_conns s + 1\<rparr>)"
| runtime_loop_ends: "cv_loop s \<Longrightarrow> sl_accept (cv_listener s) = (Net_closed, l) \<Longrightarrow> control_serve_step s (s\<lparr>cv_loop := False\<rparr>)"
| conn_ends: "cv_conn s \<Longrightarrow> control_serve_step s (s\<lparr>cv_conn := False, cv_ended := True\<rparr>)"
| context_ends: "\<not> cv_cancelled s \<Longrightarrow> control_serve_step s (s\<lparr>cv_cancelled := True\<rparr>)"
| serve_stops: "\<not> cv_stopped s \<Longrightarrow> cv_ended s \<or> cv_cancelled s \<Longrightarrow>
    control_serve_step s (s\<lparr>cv_stopped := True, cv_listener := sl_close (cv_listener s)\<rparr>)"
| serve_returns: "cv_stopped s \<Longrightarrow> \<not> cv_loop s \<Longrightarrow> cv_returned s = None \<Longrightarrow>
    control_serve_step s (s\<lparr>cv_returned := Some (cv_cancelled s)\<rparr>)"

definition control_serve_ok :: "control_serve \<Rightarrow> bool" where
  "control_serve_ok s \<longleftrightarrow> cv_conns s = of_bool (sl_handed (cv_listener s)) \<and>
     (cv_conn s \<or> cv_ended s \<longrightarrow> sl_handed (cv_listener s)) \<and> (sl_closed (cv_listener s) \<longleftrightarrow> cv_stopped s) \<and>
     (cv_stopped s \<longrightarrow> cv_ended s \<or> cv_cancelled s) \<and> (\<not> cv_loop s \<longrightarrow> cv_stopped s) \<and>
     (cv_returned s \<noteq> None \<longrightarrow> cv_stopped s \<and> \<not> cv_loop s) \<and> (cv_returned s = Some True \<longrightarrow> cv_cancelled s) \<and>
     (cv_returned s = Some False \<longrightarrow> cv_ended s)"

lemma control_serve_step_ok: "control_serve_step s t \<Longrightarrow> control_serve_ok s \<Longrightarrow> control_serve_ok t"
  by (induction rule: control_serve_step.induct)
    (auto simp: control_serve_ok_def sl_accept_def sl_close_def split: if_splits)

text \<open>Over every interleaving: one connection at most, and a return only after it has ended or the context has.\<close>

lemma control_serve_reachable:
  assumes "control_serve_step\<^sup>*\<^sup>* new_control_serve s"
  shows "control_serve_ok s"
  using assms
proof (induction rule: rtranclp_induct)
  case base
  show ?case by (simp add: control_serve_ok_def new_control_serve_def new_single_listener_def)
qed (rule control_serve_step_ok)

text \<open>And once stopped it does return, whatever the runtime was doing.\<close>

definition control_shut :: "control_serve \<Rightarrow> bool" where
  "control_shut s \<longleftrightarrow> cv_stopped s \<and> sl_closed (cv_listener s)"

definition control_left :: "control_serve \<Rightarrow> nat" where
  "control_left s = 2 * of_bool (\<not> sl_handed (cv_listener s)) + of_bool (cv_loop s) + of_bool (cv_conn s) +
     of_bool (\<not> cv_cancelled s) + of_bool (cv_returned s = None)"

inductive_cases control_serve_stepE: "control_serve_step s t"

interpretation control_drain: draining control_serve_step control_shut "\<lambda>s. cv_returned s \<noteq> None" control_left
proof unfold_locales
  fix s t
  assume "control_shut s" "control_serve_step s t"
  then show "control_shut t"
    by (auto simp: control_shut_def sl_accept_def sl_close_def split: if_splits elim!: control_serve_stepE)
next
  fix s t
  assume s: "control_shut s" and st: "control_serve_step s t"
  from st s show "control_left t < control_left s"
  proof cases
    case (runtime_accepts l)
    then show ?thesis by (auto simp: control_left_def sl_accept_def split: if_splits)
  next
    case (runtime_loop_ends l)
    then show ?thesis by (simp add: control_left_def)
  qed (simp_all add: control_left_def control_shut_def)
next
  fix s
  assume s: "control_shut s" "\<not> cv_returned s \<noteq> None"
  show "\<exists>t. control_serve_step s t"
  proof (cases "cv_loop s")
    case True
    have "\<exists>l. sl_accept (cv_listener s) = (Hands_conn, l) \<or> sl_accept (cv_listener s) = (Net_closed, l)"
      using s by (simp add: control_shut_def sl_accept_def)
    then show ?thesis using True runtime_accepts runtime_loop_ends by blast
  qed (use s serve_returns [of s] in \<open>auto simp: control_shut_def\<close>)
qed

lemma control_serve_returns:
  assumes "control_serve_step\<^sup>*\<^sup>* new_control_serve s" "cv_stopped s" "control_serve_step\<^sup>*\<^sup>* s t"
    "\<nexists>u. control_serve_step t u"
  shows "cv_returned t = Some (cv_cancelled t) \<or> cv_returned t = Some False \<and> cv_ended t"
proof -
  have "control_shut s" using assms(1,2) control_serve_reachable [of s] by (simp add: control_shut_def control_serve_ok_def)
  then obtain r where r: "cv_returned t = Some r"
    using control_drain.stuck_is_finished [of s t] assms(3,4) by blast
  have "control_serve_ok t" using assms(1,3) by (intro control_serve_reachable) simp
  then show ?thesis using r by (cases r) (auto simp: control_serve_ok_def)
qed

end
