(* ===== verification/Pool_Attach.thy ===== *)
theory Pool_Attach
  imports Daemon_Run Host_Edge
begin

text \<open>
  \<^verbatim>\<open>poolAttachAdapter\<close> of \<^verbatim>\<open>internal/daemon/daemon.go\<close>, through which both the socket's attach and the local listeners ask the
  pool for a session, and what it means for a connection that a listener joins to one.

  \<open>etext\<close> is the text of an entry's error, \<open>certs\<close> the certificates of a session (\<open>None\<close> for a connection that shows
  none), \<open>pin_of\<close> the pin of a certificate.
\<close>

definition not_ready :: "(rune \<Rightarrow> bool) \<Rightarrow> string \<Rightarrow> string \<Rightarrow> string" where
  "not_ready wide server why = ''pool get '' @ go_quote wide server @ '': '' @ why"

definition pin_prefix :: "(bytes \<Rightarrow> string) \<Rightarrow> bytes list option \<Rightarrow> string" where
  "pin_prefix pin_of certs =
    (case Option.bind certs (\<lambda>cs. case identity_from_certs pin_of cs of Inl _ \<Rightarrow> None | Inr i \<Rightarrow> Some (pin_short i)) of
       None \<Rightarrow> [] | Some p \<Rightarrow> p)"

text \<open>A caller that finds the entry waiting leaves with its deadline.\<close>

definition open_conn ::
  "(entry_error \<Rightarrow> string) \<Rightarrow> (bytes \<Rightarrow> string) \<Rightarrow> (nat \<Rightarrow> bytes list option) \<Rightarrow> (rune \<Rightarrow> bool) \<Rightarrow> pool \<Rightarrow> string
     \<Rightarrow> string + (nat \<times> string)" where
  "open_conn etext pin_of certs wide p server =
    (case pool_get wide p server of
       Inl m \<Rightarrow> Inl (not_ready wide server m)
     | Inr (Get_waits _) \<Rightarrow> Inl (not_ready wide server ''context deadline exceeded'')
     | Inr (Get_error (Some e)) \<Rightarrow> Inl (not_ready wide server (etext e))
     | Inr (Get_error None) \<Rightarrow> Inl (not_ready wide server ''no connection available'')
     | Inr (Got c) \<Rightarrow> Inr (c, pin_prefix pin_of (certs c)))"

text \<open>A session is handed out exactly if its entry holds one; the entry then reports itself connected.\<close>

lemma open_conn_iff:
  "open_conn etext pin_of certs wide p server = Inr (c, pre) \<longleftrightarrow>
     (\<exists>e. map_of p server = Some e \<and> entry_get e = Got c) \<and> pre = pin_prefix pin_of (certs c)"
  by (auto simp: open_conn_def pool_get_def split: option.split get_result.split)

lemma open_conn_connected:
  assumes "pool_reachable p" "open_conn etext pin_of certs wide p server = Inr (c, pre)"
  shows "\<exists>e. map_of p server = Some e \<and> entry_get e = Got c \<and> entry_client e = Some c \<and> entry_label e = ''connected''"
proof -
  obtain e where e: "map_of p server = Some e" "entry_get e = Got c" using assms(2) by (auto simp: open_conn_iff)
  then obtain k where "entry_step\<^sup>*\<^sup>* (new_entry k) e"
    using assms(1) map_of_SomeD [of p server e] unfolding pool_reachable_def by force
  then show ?thesis using e pooled.got_connected pooled.got_client by blast
qed

text \<open>
  A connection that a shared listener joins to a session goes to the server the zone names for the host the client asked
  for, over the session that server's entry holds at that moment.
\<close>

lemma host_edge_joins_live_sessions:
  assumes "pool_reachable p"
    and "handle name z (\<lambda>server. is_ok (open_conn etext pin_of certs wide p server)) cs err = Attaches server host pfx"
  shows "\<exists>raw service e c. route z raw = Inr (server, service, host) \<and> map_of p server = Some e \<and> entry_get e = Got c \<and>
     entry_label e = ''connected''"
proof -
  have "is_ok (open_conn etext pin_of certs wide p server)"
    using assms(2) by (auto simp: handle_def split: sum.splits prod.splits peek_error.splits if_splits)
  then obtain c pre where "open_conn etext pin_of certs wide p server = Inr (c, pre)" by (auto simp: is_ok_iff)
  then show ?thesis using open_conn_connected [OF assms(1)] handle_joins_served [OF assms(2)] by blast
qed

text \<open>A server that is switched off, or refused by its agent, is never joined to.\<close>

lemma unavailable_never_joined:
  assumes "pool_reachable p" "map_of p server = Some e" "entry_label e \<in> set unavailable_states"
  shows "\<not> is_ok (open_conn etext pin_of certs wide p server)"
proof
  assume "is_ok (open_conn etext pin_of certs wide p server)"
  then obtain c pre where "open_conn etext pin_of certs wide p server = Inr (c, pre)" by (auto simp: is_ok_iff)
  then have "entry_label e = ''connected''" using open_conn_connected [OF assms(1)] assms(2) by fastforce
  then show False using assms(3) by (simp add: unavailable_states_def)
qed

end
