(* ===== verification/Agent_Loop.thy ===== *)
theory Agent_Loop
  imports Tunnel
begin

text \<open>
  \<^verbatim>\<open>Serve\<close> of \<^verbatim>\<open>internal/tunnel/serve.go\<close>: the loop of an agent that listens. It accepts connections until the listener
  fails, and serves each on its own; what becomes of one is \<open>admit_peer\<close> and theory \<open>Tunnel\<close>'s \<open>session_step\<close>.
\<close>

datatype accept_turn = Arrived "bytes list" | Listener_failed string bool

text \<open>An arrival shows its certificates; with a failure comes whether the context has ended.\<close>

datatype serve_end = Context_over | Accept_error string

fun serve_sessions ::
  "(bytes \<Rightarrow> string) \<Rightarrow> serve_opts \<Rightarrow> accept_turn list \<Rightarrow> serve_end option \<times> (nat + peer_identity) list" where
  "serve_sessions pin_of opt [] = (None, [])"
| "serve_sessions pin_of opt (Arrived certs # ts) =
    (let (r, served) = serve_sessions pin_of opt ts in (r, admit_peer pin_of opt certs # served))"
| "serve_sessions pin_of opt (Listener_failed m over # ts) =
    (Some (if over then Context_over else Accept_error (''accept: '' @ m)), [])"

fun arrives :: "accept_turn \<Rightarrow> bool" where
  "arrives (Arrived _) = True"
| "arrives (Listener_failed _ _) = False"

fun_cases arrived_elim: "arrives t = True"

text \<open>
  No peer can end the loop: it serves every connection that arrives before the listener fails, in order, and only that
  failure ends it. A connection is given up with a code exactly if it shows no certificate or the agent's own key.
\<close>

lemma serve_goes_on:
  "serve_sessions pin_of opt ts =
    (case dropWhile arrives ts of Listener_failed m over # _ \<Rightarrow> Some (if over then Context_over else Accept_error (''accept: '' @ m)) | _ \<Rightarrow> None,
     map (\<lambda>t. case t of Arrived certs \<Rightarrow> admit_peer pin_of opt certs | _ \<Rightarrow> Inl 0) (takeWhile arrives ts))"
  by (induction pin_of opt ts rule: serve_sessions.induct) simp_all

lemma served_or_refused:
  assumes "x \<in> set (snd (serve_sessions pin_of opt ts))"
  shows "\<exists>certs. Arrived certs \<in> set ts \<and> x = admit_peer pin_of opt certs \<and>
    (\<not> is_ok x \<longleftrightarrow> \<not> is_ok (identity_from_certs pin_of certs) \<or>
       (\<exists>peer. identity_from_certs pin_of certs = Inr peer \<and> same_identity_as_peer (so_own_pin opt) peer))"
proof -
  obtain t where t: "t \<in> set (takeWhile arrives ts)" "x = (case t of Arrived certs \<Rightarrow> admit_peer pin_of opt certs | _ \<Rightarrow> Inl 0)"
    using assms unfolding serve_goes_on by auto
  have "arrives t = True" "t \<in> set ts" using set_takeWhileD [OF t(1)] by auto
  then show ?thesis using t(2)
    by (elim arrived_elim) (auto simp: admit_peer_def is_ok_iff split: sum.splits if_splits intro!: exI)
qed

end
