(* ===== verification/Cli_Init.thy ===== *)
theory Cli_Init
  imports Cli_Doctor
begin

text \<open>
  What the setup verb says (\<^verbatim>\<open>cmd/quic-link/initcmd.go\<close> and \<^verbatim>\<open>DescribeInventory\<close> of \<^verbatim>\<open>internal/setup/artifacts.go\<close>), beside what
  it does, which is theory \<open>Setup_Init\<close>'s. A list entry is what a call that ends a line writes, as in \<open>Cli_Doctor\<close>.

  \<open>etext\<close> is the text of a setup error, \<open>reload\<close> how reloading the resolver turns out (\<open>None\<close>: it did), and \<open>terminal\<close>
  the line a person typed, \<open>None\<close> when nobody is at a terminal.
\<close>

subsection \<open>The inventory\<close>

definition mark_text :: "mark \<Rightarrow> string" where
  "mark_text m = (case m of Mark_absent \<Rightarrow> ''absent'' | Mark_problem \<Rightarrow> ''PROBLEM'' | Mark_present \<Rightarrow> ''present''
     | Mark_out_of_date \<Rightarrow> ''out of date'' | Mark_not_ours \<Rightarrow> ''not ours'')"

definition describe_inventory :: "(setup_error \<Rightarrow> string) \<Rightarrow> artifact list \<Rightarrow> string list" where
  "describe_inventory etext arts =
    concat (map (\<lambda>a. (''  '' @ pad_ascii 8 (mark_text (mark_of a)) @ '' '' @ pad_ascii 6 (scope_text (ar_scope a)) @ '' '' @ ar_path a) #
      (case ar_err a of None \<Rightarrow> [] | Some e \<Rightarrow> [replicate 11 (CHR '' '') @ etext e])) arts)"

subsection \<open>The unprivileged half\<close>

definition make_lines :: "artifact list \<Rightarrow> string list" where
  "make_lines user =
    (case user of
       [settings, key] \<Rightarrow>
         (if ar_present settings then [] else [''Write yours at '' @ ar_path settings @ '', naming at least one server.'']) @
         (if ar_present key then [] else [''Make one with: quic-link keygen''])
     | _ \<Rightarrow> [])"

definition registered_line :: string where
  "registered_line = ''Names are already registered with this machine's resolver.''"

definition run_user_half ::
  "(setup_error \<Rightarrow> string) \<Rightarrow> setup_env \<Rightarrow> disk \<Rightarrow> string \<Rightarrow> string \<Rightarrow> artifact list \<Rightarrow> string list" where
  "run_user_half etext env d key_file settings_file system =
    (let user = survey env d (user_paths key_file settings_file) in
     [''Nothing to do here: this half installs nothing.'', [], ''In your account:'', []] @
     describe_inventory etext user @ [[]] @ make_lines user @
     (if missing (survey env d system) \<noteq> []
      then [[], ''Names will not resolve until one system file is written, which is the'',
            ''only part that needs a password:'', [], ''    sudo quic-link init'']
      else [[], registered_line]) @
     [[], ''For the whole picture, including whether the daemon is running:'', ''    quic-link doctor''])"

subsection \<open>The privileged half\<close>

definition artifact_purpose :: "string \<Rightarrow> string" where
  "artifact_purpose sfx = ''send lookups ending in '' @ sfx @ '' to this machine's responder''"

definition bullet :: string where
  "bullet = map char_of [0xe2 :: nat, 0x80, 0xa2]"

definition plan_lines :: "support \<Rightarrow> string \<Rightarrow> artifact list \<Rightarrow> string list" where
  "plan_lines how sfx todo =
    [''This will:''] @
    concat (map (\<lambda>a. [''  '' @ bullet @ '' '' @ artifact_purpose sfx, ''      write '' @ ar_path a]) todo) @
    (if how = Systemd_stub
     then [''  '' @ bullet @ '' reload the resolver so the change takes effect'',
           ''      this interrupts name lookups on this machine for a moment''] else []) @
    [[], ''Nothing else is installed. Undo with: sudo quic-link init --undo'']"

definition confirm_lines :: "bool \<Rightarrow> bytes option \<Rightarrow> string list" where
  "confirm_lines assume_yes terminal =
    (if assume_yes then []
     else (case terminal of
         None \<Rightarrow> [[], ''Not running from a terminal, so nothing was written.'', ''Re-run with --yes to go ahead without being asked.'']
       | Some _ \<Rightarrow> [[], ''Proceed? [y/N] '']))"

text \<open>A line for each file written before one could not be.\<close>

fun wrote_lines :: "setup_env \<Rightarrow> artifact list \<Rightarrow> disk \<Rightarrow> string list" where
  "wrote_lines env [] d = []"
| "wrote_lines env (a # arts) d =
    (case write_managed env (ar_path a) (ar_content a) installed_mode d of
       (Inl _, _) \<Rightarrow> []
     | (Inr _, ds) \<Rightarrow> (''  wrote '' @ ar_path a) # wrote_lines env arts (last ds))"

definition answered_line :: "string \<Rightarrow> string" where
  "answered_line sfx = ''Names ending in '' @ sfx @ '' are now answered by this machine.''"

definition root_half_lines ::
  "(setup_error \<Rightarrow> string) \<Rightarrow> setup_env \<Rightarrow> support \<Rightarrow> string \<Rightarrow> string \<Rightarrow> string \<Rightarrow> artifact list \<Rightarrow> bool \<Rightarrow> bytes option
     \<Rightarrow> string option \<Rightarrow> disk \<Rightarrow> string list"
where
  "root_half_lines etext env how reason manual sfx arts assume_yes terminal reload d =
    (if how = Unsupported
     then [''Names cannot be registered on this machine.'', [], ''  '' @ wrap_text reason 72 ''  '', [], manual,
           [], ''Nothing was written. Everything else works as it did.'']
     else (let todo = missing (survey env d arts) in
       if todo = [] then [''Already set up. Nothing to do.'', []] @ describe_inventory etext (survey env d arts)
       else plan_lines how sfx todo @ confirm_lines assume_yes terminal @
         (if \<not> confirm assume_yes terminal then [''Nothing was written. Names will not resolve until this is run.'']
          else wrote_lines env todo d @
            (case write_all env todo False d of
               (Some _, _, _) \<Rightarrow> []
             | (None, _, changed) \<Rightarrow>
               (case (changed \<and> how = Systemd_stub, reload) of
                  (True, Some e) \<Rightarrow> [[], ''  The file is in place, but the resolver did not reload: '' @ e,
                      ''  Reload it yourself, or restart, and names will work.'']
                | (reloaded, _) \<Rightarrow> (if reloaded then [''  reloaded the resolver''] else []) @
                    [[], answered_line sfx, ''Check it with: quic-link doctor''])))))"

subsection \<open>Undoing\<close>

fun removed_lines :: "(setup_error \<Rightarrow> string) \<Rightarrow> setup_env \<Rightarrow> artifact list \<Rightarrow> disk \<Rightarrow> string list" where
  "removed_lines etext env [] d = []"
| "removed_lines etext env (a # arts) d =
    (let (r, d') = remove_managed env (ar_path a) d in
     (case r of Inl e \<Rightarrow> [''  left alone: '' @ etext e] | Inr True \<Rightarrow> [''  removed '' @ ar_path a] | Inr False \<Rightarrow> []) @
     removed_lines etext env arts d')"

definition none_of_ours :: string where
  "none_of_ours = ''Nothing of ours was installed. Nothing to remove.''"

definition undo_lines ::
  "(setup_error \<Rightarrow> string) \<Rightarrow> setup_env \<Rightarrow> bool \<Rightarrow> bool \<Rightarrow> string \<Rightarrow> artifact list \<Rightarrow> string option \<Rightarrow> disk \<Rightarrow> string list" where
  "undo_lines etext env darwin privileged sfx arts reload d =
    (if \<not> privileged then [''The file to remove belongs to the system, so this needs a password:'', [], ''    sudo quic-link init --undo'']
     else removed_lines etext env arts d @
       (if \<not> fst (remove_all env arts d) then [none_of_ours]
        else (if \<not> darwin \<and> reload = None then [''  reloaded the resolver''] else []) @
          [[], ''Names ending in '' @ sfx @ '' are no longer answered by this machine.'']))"

subsection \<open>What it says is what it did\<close>

lemma wrote_lines_all:
  "write_all env arts changed d = (None, d', c) \<Longrightarrow> wrote_lines env arts d = map (\<lambda>a. ''  wrote '' @ ar_path a) arts"
  by (induction env arts changed d rule: write_all.induct) (auto split: prod.splits sum.splits)

lemma wrote_one: "write_all env [a] changed d = (r, d', c) \<Longrightarrow> wrote_lines env [a] d = (if r = None then [''  wrote '' @ ar_path a] else [])"
  by (auto split: prod.splits sum.splits)

lemma asked_last: "last (plan_lines how sfx todo @ confirm_lines yes terminal) \<noteq> ''Check it with: quic-link doctor''"
  by (auto simp: plan_lines_def confirm_lines_def split: option.split)

lemma indented [simp]: "replicate 11 (CHR '' '') @ x \<noteq> CHR ''C'' # y"
  by (simp add: numeral_eq_Suc)

lemma user_half_verdict: "registered_line \<in> set (run_user_half etext env d key settings system) \<Longrightarrow>
    registered_line \<notin> set (describe_inventory etext (survey env d (user_paths key settings))) \<Longrightarrow>
    missing (survey env d system) = []"
  by (auto simp: run_user_half_def registered_line_def make_lines_def Let_def split: if_splits list.splits)

text \<open>
  The sentence that names are answered now ends a run exactly when the file is newly in place and, where a resolver has to
  be reloaded, it was.
\<close>

lemma promise_kept:
  fixes d :: disk and etext :: "setup_error \<Rightarrow> string" and reason manual sfx :: string and reload :: "string option"
  assumes "managed content" "content \<noteq> []" "d tmp = None" "tmp \<noteq> path" "how \<noteq> Unsupported" "confirm assume_yes terminal"
    and "run_root_half (quiet_env tmp) how [artifact_for path Root_scope content] True d = (err, d', reloads)"
  defines "told \<equiv> root_half_lines etext (quiet_env tmp) how reason manual sfx [artifact_for path Root_scope content]
    assume_yes terminal reload d"
  shows "last told = ''Check it with: quic-link doctor'' \<longleftrightarrow>
    err = None \<and> \<not> holds content (d path) \<and> (how = Systemd_stub \<longrightarrow> reload = None)"
proof (cases "holds content (d path)")
  case True
  then have "told = [''Already set up. Nothing to do.'', []] @
      describe_inventory etext (survey (quiet_env tmp) d [artifact_for path Root_scope content])"
    using quiet_missing [OF assms(1,2), where path = path and tmp = tmp and d = d] assms(5)
    by (simp add: told_def root_half_lines_def)
  then show ?thesis using True by (auto simp: describe_inventory_def survey_def split: option.splits)
next
  case False
  let ?a = "survey_one (quiet_env tmp) d (artifact_for path Root_scope content)"
  have todo: "missing (survey (quiet_env tmp) d [artifact_for path Root_scope content]) = [?a]"
    using quiet_missing [OF assms(1,2), where path = path and tmp = tmp and d = d] False by simp
  obtain r e' c where w: "write_all (quiet_env tmp) [?a] False d = (r, e', c)" by (cases "write_all (quiet_env tmp) [?a] False d")
  have run: "err = r \<and> (r = None \<longrightarrow> reloads = (c \<and> how = Systemd_stub))"
    using assms(5,7) w by (cases r) (auto simp: run_root_half_def todo)
  have "r = None \<longrightarrow> reloads = (how = Systemd_stub)"
    using quiet_install [OF assms(1-5,7)] run False by (auto split: if_splits)
  then have c: "r = None \<longrightarrow> c = True \<or> how \<noteq> Systemd_stub" using run by auto
  have told: "told = plan_lines how sfx [?a] @ confirm_lines assume_yes terminal @ wrote_lines (quiet_env tmp) [?a] d @
      (case (r, c \<and> how = Systemd_stub, reload) of
         (Some _, _) \<Rightarrow> []
       | (None, True, Some e) \<Rightarrow> [[], ''  The file is in place, but the resolver did not reload: '' @ e,
           ''  Reload it yourself, or restart, and names will work.'']
       | (None, reloaded, _) \<Rightarrow> (if reloaded then [''  reloaded the resolver''] else []) @
           [[], answered_line sfx, ''Check it with: quic-link doctor''])"
    using assms(5,6) w unfolding told_def root_half_lines_def todo Let_def
    by (cases r; cases reload) (simp_all split: bool.split)
  show ?thesis
  proof (cases r)
    case None
    then show ?thesis using run False c unfolding told by (cases reload; cases "how = Systemd_stub") auto
  next
    case (Some e)
    then have "told = plan_lines how sfx [?a] @ confirm_lines assume_yes terminal" unfolding told using wrote_one [OF w] by simp
    then have "last told \<noteq> ''Check it with: quic-link doctor''" by (simp only: asked_last not_False_eq_True)
    then show ?thesis using run Some by simp
  qed
qed

text \<open>
  Undoing is not as careful: when the program's own file is there but cannot be removed, the run says that nothing of
  its own was installed.
\<close>

lemma undo_denies_its_own:
  assumes "inspect env (ar_path a) d = ((True, True), None)" "se_remove env = Some e"
  shows "undo_lines etext env darwin True sfx [a] reload d = [''  left alone: '' @ etext (Sys_failed e), none_of_ours] \<and>
    run_undo env darwin [a] d = (se_gap env d, False)"
  using assms by (simp add: undo_lines_def remove_managed_def run_undo_def)

end
