(* ===== verification/End_To_End.thy ===== *)
theory End_To_End
  imports Pool_Attach Tunnel_Attach Router
begin

text \<open>
  A browser's connection from one end to the other: the shared listener of \<^verbatim>\<open>internal/edge/http.go\<close> decides where it
  goes, the pool of \<^verbatim>\<open>internal/daemon/pool.go\<close> hands out a session, \<^verbatim>\<open>AttachHTTP\<close> of \<^verbatim>\<open>internal/tunnel/attach.go\<close>
  opens a stream on it, \<^verbatim>\<open>serveStream\<close> of \<^verbatim>\<open>internal/tunnel/serve.go\<close> resolves the host in the agent's table of
  \<^verbatim>\<open>internal/router\<close>, and a splice at each end carries the bytes. The theory has no definitions: it composes those
  of the components.
\<close>

subsection \<open>What a host resolves to\<close>

text \<open>A host resolves to an entry the listings show, under its own name or under a pattern that covers it.\<close>

lemma resolved_is_shown:
  assumes "router_ok r" "router_resolve r (http_header host reqid) = Some e"
  shows "\<exists>n. shown_entry r n = Some e \<and> (n = host \<or> (\<exists>d. n = ''*.'' @ d \<and> covers d host))"
proof -
  obtain v where v: "ro_vhosts r = Some v" "vh_resolve v host = Some e"
    using assms(2) by (auto simp: router_resolve_def http_header_def split: option.splits)
  have star: "cut_prefix (''*.'' @ d) ''*.'' = Some d" for d
    by (simp only: cut_prefix_Some_iff)
  have plain: "vh_exact v (''*.'' @ d) = None" for d
    using exact_host_form [of v "''*.'' @ d"] no_star_prefix [of "''*.'' @ d"] assms(1) v(1) star
    by (cases "vh_exact v (''*.'' @ d)") (auto simp: router_ok_def)
  consider "vh_exact v host = Some e" | d where "covers d host" "vh_wildcard v d = Some e"
    using v(2) resolve_most_specific by blast
  then show ?thesis
  proof cases
    case 1
    then show ?thesis using v(1) by (intro exI [of _ host]) (simp add: shown_entry_def vh_shown_def)
  next
    case 2
    then show ?thesis using v(1) plain [of d] star [of d]
      by (intro exI [of _ "''*.'' @ d"]) (simp add: shown_entry_def vh_shown_def)
  qed
qed

lemma piped_was_dialled:
  assumes "read_header dec rd = Inr (h, rest)" "h_kind h \<noteq> kind_control"
    and "Piped \<in> set (fst (serve_stream dec net r peer True rd opened))"
  shows "\<exists>rt svc. router_resolve r h = Some rt \<and> ro_policy r peer h = None \<and> net (rt_network rt, rt_address rt) = Inr svc"
  using assms
  by (auto simp: serve_stream_def reply_dial_error_def router_dial_def split: sum.splits option.splits dial_error.splits if_splits)

lemma attached_means_piped:
  assumes "codec_ok enc dec hdr"
    and "attach_with_header enc decr \<lparr>ae_open = None, ae_writer = \<lparr>sent = [], room = None\<rparr>,
           ae_reader = \<lparr>avail = concat (map (response_bytes encr) (answers render es)), fin = e'\<rparr>,
           ae_race = Read_first, ae_relay = None\<rparr> hdr pfx = (None, w, cs)"
    and "read_header dec rd = Inr (hdr, rest)" "h_kind hdr \<noteq> kind_control"
    and "es = fst (serve_stream dec net r peer True rd opened)"
    and "\<forall>x\<in>set (answers render es). codec_ok encr decr x"
  shows "Piped \<in> set es"
proof -
  obtain s t where s: "answers render es = [\<lparr>r_status = s, r_msg = render t\<rparr>]" "s = status_ok \<longleftrightarrow> Piped \<in> set es"
    using serve_data_stream [OF assms(3,4)] assms(5) by metis
  let ?x = "\<lparr>r_status = s, r_msg = render t\<rparr>"
  have "read_response decr \<lparr>avail = concat (map (response_bytes encr) (answers render es)), fin = e'\<rparr>
      = Inr (?x, \<lparr>avail = [], fin = e'\<rparr>)"
    using read_response_bytes [of encr decr ?x "[]" e'] assms(6) s(1) by simp
  then show ?thesis using answer_decides [OF assms(1) _ assms(2)] s(2) by (fastforce split: if_splits)
qed

lemma joined_by_name:
  assumes "handle name z opener cs last_err = Attaches server host pfx" "name = http_name \<or> name = sni_name"
  shows "\<exists>raw service n k. name pfx = Inr (raw, n) \<and> route z raw = Inr (server, service, host) \<and>
    concat cs = pfx @ concat (drop k cs)"
  using assms(2)
proof
  assume n: "name = http_name"
  show ?thesis using http_peek.handle_sound [OF assms(1) [unfolded n]] unfolding n by metis
next
  assume n: "name = sni_name"
  show ?thesis using sni_peek.handle_sound [OF assms(1) [unfolded n]] unfolding n by metis
qed

lemma routed_host_named: "route z raw = Inr (server, service, host) \<Longrightarrow> host \<noteq> []"
  by (auto simp: route_def host_form_def dns_label_bytes_def dest!: normalize_host_InrD split: sum.splits if_splits prod.splits option.splits)

text \<open>The two splices of one stream in a row: what the service was sent is a prefix of what was replayed and read.\<close>

lemma splices_carry_all:
  assumes "sent_all = pre @ rest"
  shows "\<forall>ka kb kc kd ret reply s t. (pipe_step ka kb)\<^sup>*\<^sup>* (new_splice rest ret) s \<longrightarrow>
    (pipe_step kc kd)\<^sup>*\<^sup>* (new_splice (pre @ cp_passed (sp_ab s)) reply) t \<longrightarrow>
    prefix (cp_passed (sp_ab t)) sent_all \<and>
    (cp_state (sp_ab s) = Clean_end \<and> cp_state (sp_ab t) = Clean_end \<longrightarrow> cp_passed (sp_ab t) = sent_all)"
proof (intro allI impI)
  fix ka kb kc kd ret reply s t
  assume "(pipe_step ka kb)\<^sup>*\<^sup>* (new_splice rest ret) s"
    and "(pipe_step kc kd)\<^sup>*\<^sup>* (new_splice (pre @ cp_passed (sp_ab s)) reply) t"
  then have ok: "copier_ok rest (sp_ab s)" "copier_ok (pre @ cp_passed (sp_ab s)) (sp_ab t)"
    using reachable_splice_ok by (auto simp: splice_ok_def)
  have "sent_all = cp_passed (sp_ab t) @ cp_pending (sp_ab t) @ cp_pending (sp_ab s)"
    using ok assms unfolding copier_ok_def by (metis append.assoc)
  then show "prefix (cp_passed (sp_ab t)) sent_all \<and>
    (cp_state (sp_ab s) = Clean_end \<and> cp_state (sp_ab t) = Clean_end \<longrightarrow> cp_passed (sp_ab t) = sent_all)"
    using ok by (auto simp: copier_ok_def)
qed

text \<open>
  C1: A browser's connection reaches only what the agent publishes under the host it asks for, and reaches it whole. When the
  shared listener attaches a connection and the attach succeeds, the host is the one the zone routes from the name the
  client itself presented, the session is the one the chosen server's connected entry holds at that moment, and the agent
  has read exactly the header for that host. The service joined is the entry that the agent's listings show under the host,
  or under a pattern that covers it; that entry is the operator's or one a client published under that very name at a
  loopback port, whatever was published and withdrawn before; and the agent's policy let this peer in. What the service is
  sent is, through both splices and however they interleave, a prefix of what the browser sent, and all of it when both
  copies ended well.
\<close>

theorem browser_reaches_published_service:
  fixes enc :: "header \<Rightarrow> string + bytes" and encr :: "response \<Rightarrow> string + bytes"
    and net :: "string \<times> string \<Rightarrow> string + 'c"
  assumes "pool_reachable p"
    and "handle name z (\<lambda>s. is_ok (open_conn etext pin_of certs wide p s)) cs last_err = Attaches server host pfx"
    and "name = http_name \<or> name = sni_name"
    and "codec_ok enc dec (http_header host reqid)"
    and "do_attach_http enc decr \<lparr>ae_open = None, ae_writer = \<lparr>sent = [], room = None\<rparr>,
           ae_reader = \<lparr>avail = concat (map (response_bytes encr) (answers render es)), fin = e'\<rparr>,
           ae_race = Read_first, ae_relay = None\<rparr> host reqid pfx = (None, w, out)"
    and "new_with_vhosts overrides hosts pol = Inr r"
    and "es = fst (serve_stream dec net (run_ops ops r) peer True \<lparr>avail = sent w, fin = e\<rparr> opened)"
    and "\<forall>x\<in>set (answers render es). codec_ok encr decr x"
  shows "(\<exists>raw service n. name pfx = Inr (raw, n) \<and> route z raw = Inr (server, service, host)) \<and>
    (\<exists>ent c. map_of p server = Some ent \<and> entry_get ent = Got c \<and> entry_label ent = ''connected'') \<and>
    read_header dec \<lparr>avail = sent w, fin = e\<rparr> = Inr (http_header host reqid, \<lparr>avail = pfx, fin = e\<rparr>) \<and>
    (\<exists>rt n svc. shown_entry (run_ops ops r) n = Some rt \<and> (n = host \<or> (\<exists>d. n = ''*.'' @ d \<and> covers d host)) \<and>
       (shown_entry r n = Some rt \<and> rt_prov rt = Config \<or>
        (\<exists>port. Publish n port \<in> set ops \<and> 1 \<le> port \<and> port \<le> 65535 \<and> rt = runtime_entry port)) \<and>
       ro_policy r peer (http_header host reqid) = None \<and> net (rt_network rt, rt_address rt) = Inr svc) \<and>
    (\<exists>rest. concat cs = pfx @ rest \<and>
       (\<forall>ka kb kc kd ret reply s t. (pipe_step ka kb)\<^sup>*\<^sup>* (new_splice rest ret) s \<longrightarrow>
          (pipe_step kc kd)\<^sup>*\<^sup>* (new_splice (pfx @ cp_passed (sp_ab s)) reply) t \<longrightarrow>
          prefix (cp_passed (sp_ab t)) (concat cs) \<and>
          (cp_state (sp_ab s) = Clean_end \<and> cp_state (sp_ab t) = Clean_end \<longrightarrow> cp_passed (sp_ab t) = concat cs)))"
proof -
  let ?hdr = "http_header host reqid"
  obtain raw service n k where edge: "name pfx = Inr (raw, n)" "route z raw = Inr (server, service, host)"
      "concat cs = pfx @ concat (drop k cs)"
    using joined_by_name [OF assms(2,3)] by metis
  have data: "good_header ?hdr" "h_kind ?hdr \<noteq> kind_control"
    using routed_host_named [OF edge(2)] by (simp_all add: good_header_def http_header_def)
  have ran: "attach_with_header enc decr \<lparr>ae_open = None, ae_writer = \<lparr>sent = [], room = None\<rparr>,
      ae_reader = \<lparr>avail = concat (map (response_bytes encr) (answers render es)), fin = e'\<rparr>,
      ae_race = Read_first, ae_relay = None\<rparr> ?hdr pfx = (None, w, out)"
    using assms(5) by (simp add: do_attach_http_def)
  have rd: "read_header dec \<lparr>avail = sent w, fin = e\<rparr> = Inr (?hdr, \<lparr>avail = pfx, fin = e\<rparr>)"
    using agent_reads_header [OF assms(4) data(1) ran] by simp
  have "Piped \<in> set es" using attached_means_piped [OF assms(4) ran rd data(2)] assms(7,8) by blast
  then obtain rt svc where rt: "router_resolve (run_ops ops r) ?hdr = Some rt" "ro_policy (run_ops ops r) peer ?hdr = None"
      "net (rt_network rt, rt_address rt) = Inr svc"
    using piped_was_dialled [OF rd data(2)] assms(7) by blast
  have ok: "router_ok (run_ops ops r)" using new_with_vhosts_ok [OF assms(6)] agent_names.run_ok by (simp add: run_ops_run)
  obtain m where m: "shown_entry (run_ops ops r) m = Some rt" "m = host \<or> (\<exists>d. m = ''*.'' @ d \<and> covers d host)"
    using resolved_is_shown [OF ok] rt(1) by blast
  have live: "\<exists>ent c. map_of p server = Some ent \<and> entry_get ent = Got c \<and> entry_label ent = ''connected''"
    using host_edge_joins_live_sessions [OF assms(1,2)] by blast
  have kept: "ro_policy r peer ?hdr = None" using rt(2) by (simp add: run_ops_routes)
  have named: "\<exists>raw service n. name pfx = Inr (raw, n) \<and> route z raw = Inr (server, service, host)"
    using edge(1,2) by blast
  have service: "\<exists>rt n svc. shown_entry (run_ops ops r) n = Some rt \<and> (n = host \<or> (\<exists>d. n = ''*.'' @ d \<and> covers d host)) \<and>
       (shown_entry r n = Some rt \<and> rt_prov rt = Config \<or>
        (\<exists>port. Publish n port \<in> set ops \<and> 1 \<le> port \<and> port \<le> 65535 \<and> rt = runtime_entry port)) \<and>
       ro_policy r peer ?hdr = None \<and> net (rt_network rt, rt_address rt) = Inr svc"
    by (intro exI [of _ rt] exI [of _ m] exI [of _ svc] conjI m agent_entry_origin [OF assms(6) m(1)] kept rt(3))
  show ?thesis
    by (intro conjI named live rd service exI [of _ "concat (drop k cs)"] edge(3) splices_carry_all)
qed

lemma sample_pool: "pool_reachable [(''a'', Entry_dial connected_entry)]"
proof -
  have "entry_step\<^sup>*\<^sup>* (Entry_dial new_dial_entry) (Entry_dial d)" if "dial_step\<^sup>*\<^sup>* new_dial_entry d" for d
    using that by (induction rule: rtranclp_induct) (auto intro: rtranclp.rtrancl_into_rtrancl entry_step.dials)
  then have "entry_step\<^sup>*\<^sup>* (new_entry (Dial_kind [])) (Entry_dial connected_entry)"
    using connected_reachable by (simp add: new_entry_def)
  then show ?thesis by (auto simp: pool_reachable_def)
qed

theorem browser_reaches_published_service_witness:
  "\<exists>r rt n. new_with_vhosts [] [(''a.b'', ''tcp://h:1'')] None = Inr r \<and> shown_entry (run_ops [] r) n = Some rt \<and>
     (n = ''a.b'' \<or> (\<exists>d. n = ''*.'' @ d \<and> covers d ''a.b''))"
proof -
  let ?z = "\<lparr>z_suffix = ''b'', z_servers = {''a''}, z_probes = {}\<rparr>" and ?p = "[(''a'', Entry_dial connected_entry)]"
  let ?hdr = "http_header ''a.b'' ''id''" and ?x = "\<lparr>r_status = status_ok, r_msg = []\<rparr>"
  have hf: "host_form ''a.b''" by (simp add: host_form_def dns_label_bytes_iff lower_or_digit_or_dash_def)
  have key: "validate_vhost_key ''a.b'' = None" by (rule host_form_key [OF hf]) simp
  have "split_host_port (''h'' @ CHR '':'' # ''1'') = Inr (''h'', ''1'')" by (intro split_host_port_plain) auto
  then have addr: "parse_addr ''tcp://h:1'' = Inr (''tcp'', ''h:1'')"
    by (simp add: parse_addr_def has_prefix_def trim_prefix_def)
  obtain r rt where r: "new_with_vhosts [] [(''a.b'', ''tcp://h:1'')] None = Inr r" "router_resolve r ?hdr = Some rt"
      "ro_policy r = allow_all"
    using built_in_routes key addr no_star_prefix [OF hf]
    by (auto simp: new_with_vhosts_def new_vhosts_def max_vhosts_def router_resolve_def http_header_def vh_resolve_def)
  have open_a: "is_ok (open_conn (\<lambda>_. []) (\<lambda>_. []) (\<lambda>_. None) (\<lambda>_. True) ?p ''a'')"
    by (simp add: open_conn_def pool_get_def entry_get_def get_conn_def connected_entry_def dial_defs new_dial_entry_def)
  have some: "sample_request \<noteq> []" by (simp add: sample_request_def)
  have edge: "handle http_name ?z (\<lambda>s. is_ok (open_conn (\<lambda>_. []) (\<lambda>_. []) (\<lambda>_. None) (\<lambda>_. True) ?p s))
      [sample_request, ''body''] EOF = Attaches ''a'' ''a.b'' sample_request"
    using open_a some by (simp add: handle_def http_sample route_sample)
  let ?w = "\<lparr>sent = [CHR 0x01, CHR 0x00, CHR 0x00] @ sample_request, room = None\<rparr>"
  let ?es = "fst (serve_stream (\<lambda>_. Inr ?hdr) (\<lambda>_. Inr () :: string + unit) (run_ops [] r) \<lparr>id_pin = ''p''\<rparr> True
      \<lparr>avail = sent ?w, fin = EOF\<rparr> False)"
  have "read_header (\<lambda>_. Inr ?hdr) \<lparr>avail = sent ?w, fin = EOF\<rparr> = Inr (?hdr, \<lparr>avail = sample_request, fin = EOF\<rparr>)"
    using read_header_framed [of "\<lambda>_. Inr ?hdr" "[]" ?hdr "[CHR 0x01, CHR 0x00, CHR 0x00]" sample_request EOF] sample_frame
    by (simp add: good_header_def http_header_def)
  then have es: "?es = [Responded status_ok No_text, Piped]"
    using r(2,3) by (simp add: serve_stream_def router_dial_def run_ops_def allow_all_def) (simp add: http_header_def)
  have co: "codec_ok (\<lambda>_. Inr []) (\<lambda>_. Inr a) a" for a :: 'a by (simp add: codec_ok_def)
  have one: "answers (\<lambda>_. []) ?es = [?x]" unfolding es by simp
  have rr: "read_response (\<lambda>_. Inr ?x) \<lparr>avail = response_bytes (\<lambda>_. Inr []) ?x, fin = EOF\<rparr> = Inr (?x, \<lparr>avail = [], fin = EOF\<rparr>)"
    using read_response_bytes [OF co, of ?x "[]" EOF] by simp
  have wh: "write_header (\<lambda>_. Inr []) \<lparr>sent = [], room = None\<rparr> ?hdr
      = (None, \<lparr>sent = [CHR 0x01, CHR 0x00, CHR 0x00], room = None\<rparr>)"
    using write_header_unbounded [of "\<lambda>_. Inr []" ?hdr "[]" _ "[]"] sample_frame by simp
  obtain out where run: "do_attach_http (\<lambda>_. Inr []) (\<lambda>_. Inr ?x) \<lparr>ae_open = None, ae_writer = \<lparr>sent = [], room = None\<rparr>,
      ae_reader = \<lparr>avail = response_bytes (\<lambda>_. Inr []) ?x, fin = EOF\<rparr>, ae_race = Read_first, ae_relay = None\<rparr>
      ''a.b'' ''id'' sample_request = (None, ?w, out)"
    using rr wh some by (simp add: do_attach_http_def attach_with_header_def await_response_def relay_ack_def write_bytes_def Let_def)
  have run': "do_attach_http (\<lambda>_. Inr []) (\<lambda>_. Inr ?x) \<lparr>ae_open = None, ae_writer = \<lparr>sent = [], room = None\<rparr>,
      ae_reader = \<lparr>avail = concat (map (response_bytes (\<lambda>_. Inr [])) (answers (\<lambda>_. []) ?es)), fin = EOF\<rparr>,
      ae_race = Read_first, ae_relay = None\<rparr> ''a.b'' ''id'' sample_request = (None, ?w, out)"
    using run unfolding one by simp
  have ans: "\<forall>x\<in>set (answers (\<lambda>_. []) ?es). codec_ok (\<lambda>_. Inr []) (\<lambda>_. Inr ?x) x"
    unfolding one by (simp add: co)
  show ?thesis
    using browser_reaches_published_service [OF sample_pool edge disjI1 [OF refl] co run' r(1) refl ans,
        THEN conjunct2, THEN conjunct2, THEN conjunct2, THEN conjunct1] r(1)
    by blast
qed

end
