(* ===== verification/Spec2Isabelle.thy ===== *)
theory Spec2Isabelle
  imports Prelude Go_Unicode Go_Strings Go_Net Go_IO Go_SHA256 Go_Base64 Go_Path Go_Errors Proto
    Names_Zone Names_HTTP Names_SNI Names_DNS Vhost_Interface Router_Vhost Router Control Transport
    Tunnel Tunnel_Attach Backoff Dial_Loop Identity Config_Naming Config Edge Fwd Fwd_Preflight
    Go_Quote Go_JSON Ipc Ipc_Server Ipc_Gate Ipc_Client Control_Open Daemon_Entry Daemon_Dial Daemon_Listen
    Daemon_Providers Daemon_Pool Daemon_Run Cli_Socket Daemon_Owner Setup Setup_Init Mem_Pipe Mem_Hub
    Cli_Errors Cli_Flags Cli_Servers Cli_Ssh Cli_Agent Cli_Stdio Cli_Ping Safe_Text Cli_Verbs Cli_Fwd Cli_Doctor Cli_Keys Drain Host_Edge Cli_Transports Ipc_Life Control_Link Pool_Attach
    Agent_Loop Cli_Init End_To_End
begin

text \<open>
  A verification development for quic-link, a Go program that gives a machine access to services of another machine
  over one mutually authenticated QUIC session. This theory imports every other one; each of them opens with what it
  holds. Paths below are relative to \<^verbatim>\<open>src/\<close>.

  \<^bold>\<open>The program.\<close> One executable has two roles. The \<^emph>\<open>agent\<close> runs beside the services: it admits the peers whose keys
  it lists, and on each stream of a session reads a header that names a target, resolves it in its route table, dials
  and splices. One stream of a session is the control stream, a small administrative service. The \<^emph>\<open>daemon\<close> runs on the
  user's machine: it keeps one session per configured server, dialling it or waiting for it, and offers its sessions
  through local ports, through two listeners shared by all servers that route by the name in the request, through a DNS
  responder for those names, and through a Unix socket that the command line uses. Trust is by pinned public keys only.

  \<^bold>\<open>Go underneath.\<close> \<open>Go_Unicode\<close>, \<open>Go_Strings\<close>, \<open>Go_Net\<close>, \<open>Go_Path\<close>, \<open>Go_Base64\<close>, \<open>Go_SHA256\<close>, \<open>Go_Quote\<close>,
  \<open>Go_JSON\<close> compute what the standard library's functions return; \<open>Go_IO\<close> has readers, writers and the interface of a
  framing (locale \<open>frame_codec\<close>); \<open>Go_Errors\<close> has wrapped errors as trees. A Go string is a list of bytes. \<open>Prelude\<close>
  has byte order, result types and the lemmas the components share.

  \<^bold>\<open>The wire and the names.\<close>
  \<^item> \<open>Proto\<close> (\<^verbatim>\<open>internal/proto\<close>): frames, headers, responses, exit codes; round trips and refusals of every other input.
  \<^item> \<open>Names_Zone\<close>, \<open>Names_HTTP\<close>, \<open>Names_SNI\<close>, \<open>Names_DNS\<close> (\<^verbatim>\<open>internal/names\<close>): which names are served; finding the name
    in a request, in a TLS hello however it was cut, in a query. The request check equals a rule on labels, an ambiguous
    request has no host, and the DNS answers agree with the request check.
  \<^item> \<open>Edge\<close>, \<open>Host_Edge\<close>, \<open>Drain\<close> (\<^verbatim>\<open>internal/edge\<close>, \<^verbatim>\<open>internal/names/server.go\<close>): the listeners: what is read before a
    decision (locale \<open>peeker\<close>), and the goroutines. The locale \<open>draining\<close> is what a \<^verbatim>\<open>Close\<close> that waits relies on;
    the DNS server, the local ports, the shared listener, the socket server and the control server are its
    interpretations.

  \<^bold>\<open>The agent.\<close>
  \<^item> \<open>Router_Vhost\<close>, \<open>Router\<close> (\<^verbatim>\<open>internal/router\<close>): the tables, resolving, authorizing, dialling, publishing, withdrawing.
    \<open>Vhost_Interface\<close> states what the control plane relies on (locale \<open>name_table\<close>); \<open>Router\<close> interprets it.
  \<^item> \<open>Control\<close>, \<open>Control_Link\<close>, \<open>Control_Open\<close> (\<^verbatim>\<open>internal/control\<close>): handlers, authorization, audit and panic
    containment over any table; the one connection the service lives on; opening it from the other end.
  \<^item> \<open>Tunnel\<close>, \<open>Agent_Loop\<close>, \<open>Dial_Loop\<close>, \<open>Backoff\<close> (\<^verbatim>\<open>internal/tunnel\<close>, \<^verbatim>\<open>internal/backoff\<close>): a session's admission, streams, control
    stream and deadline as the step relation \<open>session_step\<close>; the loops of an agent that listens and of one that connects out.
  \<^item> \<open>Cli_Agent\<close> (\<^verbatim>\<open>cmd/quic-link/agent.go\<close>): from flags and file to the session loop.

  \<^bold>\<open>The daemon.\<close>
  \<^item> \<open>Tunnel_Attach\<close>: a client's attach, and the splice both sides share, as the step relation \<open>pipe_step\<close>.
  \<^item> \<open>Daemon_Entry\<close>, \<open>Daemon_Dial\<close>, \<open>Daemon_Listen\<close> (\<^verbatim>\<open>internal/daemon/pool.go\<close>, \<^verbatim>\<open>listen_entry.go\<close>): the entries of the
    pool, each a step relation over its loop, its callers and \<^verbatim>\<open>Close\<close>; the locale \<open>session_entry\<close> is what the pool relies on.
  \<^item> \<open>Daemon_Pool\<close>, \<open>Daemon_Run\<close>, \<open>Pool_Attach\<close>, \<open>Daemon_Providers\<close> (\<^verbatim>\<open>pool.go\<close>, \<^verbatim>\<open>daemon.go\<close>, \<^verbatim>\<open>routes.go\<close>, \<^verbatim>\<open>vhosts.go\<close>,
    \<^verbatim>\<open>expose.go\<close>, \<^verbatim>\<open>withdraw.go\<close>): building and using the pool, reports, start and shutdown, and the relays to an agent.
  \<^item> \<open>Ipc\<close>, \<open>Ipc_Server\<close>, \<open>Ipc_Gate\<close>, \<open>Ipc_Life\<close>, \<open>Ipc_Client\<close> (\<^verbatim>\<open>internal/ipc\<close>): the socket: frames and sanitizing, one
    connection, the cap on tunnels under concurrency, the accept loop, and the client together with the server.
  \<^item> \<open>Fwd\<close>, \<open>Fwd_Preflight\<close> (\<^verbatim>\<open>internal/fwd\<close>): an ad-hoc forward as the step relation \<open>fwd_step\<close> beside its peers, which drains
    whatever they do; and its first attach.
  \<^item> \<open>Daemon_Owner\<close>, \<open>Cli_Socket\<close>, \<open>Cli_Transports\<close> (\<^verbatim>\<open>cmd/quic-link/daemoncmd.go\<close>, \<^verbatim>\<open>socketpath.go\<close>): one owner at a
    time, the ports and sockets it takes, the transport of each server.

  \<^bold>\<open>Both.\<close> \<open>Identity\<close> (\<^verbatim>\<open>internal/identity\<close>): pins, the pinning TLS configuration, key files. \<open>Config\<close>, \<open>Config_Naming\<close>
  (\<^verbatim>\<open>internal/config\<close>): loading, the environment, validation. \<open>Transport\<close> (\<^verbatim>\<open>internal/transport\<close>): what a connection's
  error means. \<open>Mem_Pipe\<close>, \<open>Mem_Hub\<close> (\<^verbatim>\<open>internal/transport/mem\<close>): the in-memory transport. \<open>Setup\<close>, \<open>Setup_Init\<close>
  with \<open>Cli_Init\<close> (\<^verbatim>\<open>internal/setup\<close>, \<^verbatim>\<open>initcmd.go\<close>): the one system file, and what the setup verb says of it.

  \<^bold>\<open>The commands\<close> (\<^verbatim>\<open>cmd/quic-link\<close>): \<open>Cli_Errors\<close> (exit codes), \<open>Cli_Flags\<close>, \<open>Cli_Servers\<close>, \<open>Cli_Ssh\<close>, \<open>Cli_Stdio\<close>,
  \<open>Cli_Ping\<close>, \<open>Cli_Verbs\<close> (status, routes, vhosts, expose, docker-env) with \<open>Safe_Text\<close> (what a terminal may be given),
  \<open>Cli_Fwd\<close>, \<open>Cli_Doctor\<close>, \<open>Cli_Keys\<close> (keygen and what precedes every command).

  \<^bold>\<open>All of it.\<close> \<open>End_To_End\<close> follows a browser's connection through the shared listener, the pool, the attach, the
  agent's stream, table and policy, and both splices: what it reaches, and what bytes arrive there.

  \<^bold>\<open>How code appears.\<close> A struct is a record, an enumeration or a set of outcomes a datatype. An operation is a function
  of its state and of what its surroundings contribute; it returns the new state, or the list of its effects in the order
  the code performs them. A critical section is one step. Goroutines are an inductive step relation whose rules are what
  one of them does between two points where it waits; a property of such a component holds for every reachable state,
  that is, for every interleaving. A blocking \<^verbatim>\<open>select\<close> is a choice. Time is not measured: a deadline may pass at any
  moment. An error is a value of a sum type that keeps what the code's callers can tell about it; a Go panic is a value
  too. A map the code ranges over is an association list with distinct keys, so that no result depends on an order.

  \<^bold>\<open>Bounds and termination.\<close> No definition takes fuel. Loops whose recursion is not structural are \<open>function\<close>s with a
  measure, on the length of the input that is left: they return on every input. Loops that run as long as the program
  does are step relations, or functions of a finite script of what happens to them. Where an end is claimed it is as a
  bound on the number of steps together with the progress of every state that is not the end (the locale \<open>draining\<close>,
  the drain of a forward, the splice). Words keep their width where the width shows:
  the attach counter (32 bits), response statuses (64 bits), SHA-256. Frame lengths, table sizes, header sizes and caps
  are the constants of the code.

  \<^bold>\<open>What is assumed.\<close> Third-party code is an argument: the CBOR, TOML, JSON, DNS and X.509 codecs, the PEM and RFC 3339
  parsers, the gRPC runtime, QUIC. Where a property needs something of such an argument it is a hypothesis of that
  property, such as that a decoder inverts its encoder. System calls are records of how they turn out. Go's own
  library is modelled, not assumed; \<open>tls_accepts\<close> states when \<^verbatim>\<open>crypto/tls\<close> completes a handshake. The programs it runs, ssh
  and a shell, are arguments that do what their manuals say (\<open>expands_tokens\<close>, \<open>splits_words\<close>). A call to an agent may
  be lost before or after the agent carried it out (\<open>call_fate\<close>), other programs write to the disk between
  the looks of an installation and between the last look and the rename or removal (\<open>setup_env\<close>), and the peers of a forward are steps of their own that nothing
  waits for (\<open>peer_step\<close>).

  \<^bold>\<open>Not modelled.\<close> The adapters of \<^verbatim>\<open>quic_transport.go\<close> over quic-go, which pass every call on unchanged; the generated
  control-plane stubs; \<^verbatim>\<open>coredump*.go\<close>, one system call; \<^verbatim>\<open>buildinfo\<close> and the version command; the tree of commands with its
  help texts and the flag parser; the wording of log lines and what they measure; key generation and the carrier
  certificate; peer credentials of a socket; floating-point rounding in the backoff schedule and in reported ages. The test files and scripts are not part of the program.

  Some lemmas state a behaviour that a reader of the comments would not expect, for instance
  \<open>Daemon_Dial.waiter_stranded\<close>, \<open>Tunnel.late_deadline_closes_an_open_session\<close>, \<open>Fwd.fault_orphans_forwards\<close>, \<open>Drain.close_waits_for_clients\<close>,
  \<open>Host_Edge.slots_held_by_streams\<close>, \<open>Cli_Ssh.percent_in_path\<close>, \<open>Cli_Transports.replaced_sockets_pile_up\<close>.
\<close>

end
